(* ===== verification/Prelude.thy ===== *)
theory Prelude
  imports Main "HOL-Library.Word"
begin

text \<open>
  Shared vocabulary of the development: the machine integer types of the C++ code, the
  facts about masks and shifts that the bit-packing components use, list slices (a
  \<^verbatim>\<open>string_view\<close> into a buffer), and the collections of rewrite rules that the component
  theories extend.
\<close>

unbundle bit_operations_syntax

subsection \<open>Machine integers and views\<close>

type_synonym u8 = "8 word"
type_synonym u32 = "32 word"
type_synonym u64 = "64 word"

text \<open>\<open>slice a b xs\<close> is the view of \<open>b - a\<close> elements that starts at offset \<open>a\<close>.\<close>

definition slice :: "nat \<Rightarrow> nat \<Rightarrow> 'a list \<Rightarrow> 'a list" where
  "slice a b xs = take (b - a) (drop a xs)"

lemma length_slice: "b \<le> length xs \<Longrightarrow> length (slice a b xs) = b - a"
  by (auto simp: slice_def)

lemma slice_empty [simp]: "b \<le> a \<Longrightarrow> slice a b xs = []"
  by (simp add: slice_def)

lemma slice_all [simp]: "slice 0 (length xs) xs = xs"
  by (simp add: slice_def)

lemma slice_append:
  assumes "a \<le> b" and "b \<le> c"
  shows "slice a b xs @ slice b c xs = slice a c xs"
proof -
  have "c - a = (b - a) + (c - b)" using assms by simp
  then have "take (c - a) (drop a xs)
      = take (b - a) (drop a xs) @ take (c - b) (drop (b - a) (drop a xs))"
    by (simp add: take_add)
  then show ?thesis using assms by (simp add: slice_def)
qed

subsection \<open>Masks and shifts on words\<close>

lemma bit_less_exp:
  fixes w :: "'a::len word"
  assumes "unat w < 2 ^ n" and "bit w i"
  shows "i < n"
proof -
  have "take_bit n (unat w) = unat w" using assms(1) by (rule take_bit_nat_eq_self)
  moreover have "bit (unat w) i" using assms(2) by (simp add: bit_unsigned_iff bit_imp_le_length)
  ultimately show ?thesis by (metis bit_take_bit_iff)
qed

lemma ucast_u64_u32 [simp]: "(ucast (ucast (w :: u32) :: u64) :: u32) = w"
  by (rule bit_word_eqI) (simp add: bit_ucast_iff)

subsection \<open>Masks and shifts on bytes read as numbers\<close>

lemma push_or_add: "b < 2 ^ n \<Longrightarrow> push_bit n a OR b = a * 2 ^ n + (b :: nat)"
proof -
  assume "b < 2 ^ n"
  then have b: "take_bit n b = b" by (rule take_bit_nat_eq_self)
  have "push_bit n a AND b = 0"
    by (subst b[symmetric], rule bit_eqI) (auto simp: bit_and_iff bit_push_bit_iff bit_take_bit_iff)
  then have "push_bit n a OR b = push_bit n a + b" by (metis disjunctive_add_eq_or)
  then show ?thesis by (simp add: push_bit_eq_mult)
qed
lemma and_mask_mod: "b AND mask n = b mod 2 ^ n" for b :: nat
  by (simp only: take_bit_eq_mask[symmetric] take_bit_eq_mod)

lemma and_high:
  fixes b :: nat
  assumes "b < 2 ^ (n + k)"
  shows "b AND push_bit n (mask k) = b div 2 ^ n * 2 ^ n"
proof -
  have "b AND push_bit n (mask k) = push_bit n (drop_bit n b AND mask k)"
    by (rule bit_eqI) (auto simp: bit_and_iff bit_push_bit_iff bit_drop_bit_eq)
  also have "\<dots> = b div 2 ^ n * 2 ^ n"
    using assms by (simp add: and_mask_mod drop_bit_eq_div push_bit_eq_mult power_add
        less_mult_imp_div_less mult.commute)
  finally show ?thesis .
qed

lemma byte_masks:
  fixes b :: nat
  shows "b AND 0x07 = b mod 8" "b AND 0x0F = b mod 16" "b AND 0x1F = b mod 32" "b AND 0x3F = b mod 64"
  using and_mask_mod[of b 3] and_mask_mod[of b 4] and_mask_mod[of b 5] and_mask_mod[of b 6]
  by (simp_all add: mask_eq_exp_minus_1)

lemma byte_high_masks:
  fixes b :: nat
  assumes "b < 256"
  shows "b AND 0xC0 = b div 64 * 64" and "b AND 0xE0 = b div 32 * 32"
    and "b AND 0xF0 = b div 16 * 16" and "b AND 0xF8 = b div 8 * 8"
  using and_high[of b 6 2] and_high[of b 5 3] and_high[of b 4 4] and_high[of b 3 5] assms
  by (simp_all add: push_bit_eq_mult mask_eq_exp_minus_1)

lemma div_mult_eq_iff:
  fixes b n q :: nat
  assumes "0 < n"
  shows "b div n * n = q * n \<longleftrightarrow> q * n \<le> b \<and> b < q * n + n"
proof -
  have "b div n = q \<longleftrightarrow> q * n \<le> b \<and> b < q * n + n"
    using assms by (metis add.commute div_nat_eqI dividend_less_div_times times_div_less_eq_dividend mult.commute
        mult_Suc)
  with assms show ?thesis by simp
qed

lemma utf8_tests:
  fixes b :: nat
  assumes "b < 256"
  shows "b AND 0xC0 = 0x80 \<longleftrightarrow> 128 \<le> b \<and> b < 192"
    and "b AND 0xE0 = 0xC0 \<longleftrightarrow> 192 \<le> b \<and> b < 224"
    and "b AND 0xF0 = 0xE0 \<longleftrightarrow> 224 \<le> b \<and> b < 240"
    and "b AND 0xF8 = 0xF0 \<longleftrightarrow> 240 \<le> b \<and> b < 248"
  using div_mult_eq_iff[of 64 b 2] div_mult_eq_iff[of 32 b 6] div_mult_eq_iff[of 16 b 14]
    div_mult_eq_iff[of 8 b 30]
  by (simp_all add: byte_high_masks[OF assms])

subsection \<open>Positions in a list, decimal numerals\<close>

text \<open>The position of the first occurrence, as the lookup in an insertion-ordered table gives it.\<close>

fun find_index :: "'a \<Rightarrow> 'a list \<Rightarrow> nat option" where
  "find_index x [] = None"
| "find_index x (y # ys) = (if x = y then Some 0 else map_option Suc (find_index x ys))"

lemma find_index_None: "find_index x xs = None \<longleftrightarrow> x \<notin> set xs"
  by (induction xs) auto

lemma find_index_absent [simp]: "x \<notin> set xs \<Longrightarrow> find_index x xs = None"
  by (simp add: find_index_None)

lemma find_index_Some: "find_index x xs = Some i \<Longrightarrow> i < length xs \<and> xs ! i = x"
  by (induction xs arbitrary: i) (auto split: if_splits)

lemma find_index_append_old: "x \<in> set xs \<Longrightarrow> find_index x (xs @ ys) = find_index x xs"
  by (induction xs) auto

lemma find_index_append_new: "x \<notin> set xs \<Longrightarrow> find_index x (xs @ [x]) = Some (length xs)"
  by (induction xs) auto

lemma find_index_nth: "distinct xs \<Longrightarrow> i < length xs \<Longrightarrow> find_index (xs ! i) xs = Some i"
  by (induction xs arbitrary: i) (auto simp: nth_Cons' gr0_conv_Suc)

text \<open>\<^verbatim>\<open>std::to_string\<close> of an unsigned number.\<close>

fun dec_string :: "nat \<Rightarrow> string" where
  "dec_string n =
     (if n < 10 then [char_of (48 + n)] else dec_string (n div 10) @ [char_of (48 + n mod 10)])"

declare dec_string.simps [simp del]

end
