(* ===== verification/Locations.thy ===== *)
theory Locations
  imports Prelude
begin

text \<open>
  Source locations: \<^verbatim>\<open>core/source/LocationManager.h\<close> and \<^verbatim>\<open>.cpp\<close>. A location is packed into
  64 bits (file id, line start, character start, line span, character end) when every
  part fits, and otherwise stored in a side table whose index is returned with the top
  bit set. File ids are the positions of the paths in an insertion-ordered table.
\<close>

record location_data =
  fileId :: u32
  lineStart :: u32
  charStart :: u32
  lineEnd :: u32
  charEnd :: u32

record location_manager =
  locations :: "location_data list"
  file_paths :: "string list"

subsection \<open>The bit layout\<close>

definition FILE_ID_BITS :: nat where "FILE_ID_BITS = 10"
definition LINE_START_BITS :: nat where "LINE_START_BITS = 18"
definition CHAR_START_BITS :: nat where "CHAR_START_BITS = 12"
definition LINE_END_OFFSET_BITS :: nat where "LINE_END_OFFSET_BITS = 11"
definition CHAR_END_BITS :: nat where "CHAR_END_BITS = 12"

definition MAX_FILE_ID :: u32 where "MAX_FILE_ID = push_bit FILE_ID_BITS 1 - 1"
definition MAX_LINE_START :: u32 where "MAX_LINE_START = push_bit LINE_START_BITS 1 - 1"
definition MAX_CHAR_START :: u32 where "MAX_CHAR_START = push_bit CHAR_START_BITS 1 - 1"
definition MAX_LINE_END_OFFSET :: u32 where
  "MAX_LINE_END_OFFSET = push_bit LINE_END_OFFSET_BITS 1 - 1"
definition MAX_CHAR_END :: u32 where "MAX_CHAR_END = push_bit CHAR_END_BITS 1 - 1"

definition INDICATOR_BIT_MASK :: u64 where "INDICATOR_BIT_MASK = push_bit 63 1"
definition NOT_INDICATOR_BIT_MASK :: u64 where "NOT_INDICATOR_BIT_MASK = NOT INDICATOR_BIT_MASK"

definition FILE_ID_SHIFT_BITS :: nat where
  "FILE_ID_SHIFT_BITS = LINE_START_BITS + CHAR_START_BITS + LINE_END_OFFSET_BITS + CHAR_END_BITS"
definition LINE_START_SHIFT_BITS :: nat where
  "LINE_START_SHIFT_BITS = CHAR_START_BITS + LINE_END_OFFSET_BITS + CHAR_END_BITS"
definition CHAR_START_SHIFT_BITS :: nat where
  "CHAR_START_SHIFT_BITS = LINE_END_OFFSET_BITS + CHAR_END_BITS"

lemmas location_bits =
  FILE_ID_BITS_def LINE_START_BITS_def CHAR_START_BITS_def LINE_END_OFFSET_BITS_def
  CHAR_END_BITS_def MAX_FILE_ID_def MAX_LINE_START_def MAX_CHAR_START_def
  MAX_LINE_END_OFFSET_def MAX_CHAR_END_def INDICATOR_BIT_MASK_def
  NOT_INDICATOR_BIT_MASK_def FILE_ID_SHIFT_BITS_def LINE_START_SHIFT_BITS_def
  CHAR_START_SHIFT_BITS_def

subsection \<open>Encoding and decoding\<close>

text \<open>
  The guard of \<^verbatim>\<open>addLocation\<close>, with the comparison the code writes: the line span it tests
  is \<open>lineEnd - lineEnd\<close>, so that conjunct never fails.
\<close>

definition fits_packed :: "u32 \<Rightarrow> u32 \<Rightarrow> u32 \<Rightarrow> u32 \<Rightarrow> u32 \<Rightarrow> bool" where
  "fits_packed fid ls cs le ce \<longleftrightarrow>
     fid \<le> MAX_FILE_ID \<and> ls \<le> MAX_LINE_START \<and> cs \<le> MAX_CHAR_START \<and>
     le - le \<le> MAX_LINE_END_OFFSET \<and> ce \<le> MAX_CHAR_END"

definition pack_location :: "u32 \<Rightarrow> u32 \<Rightarrow> u32 \<Rightarrow> u32 \<Rightarrow> u32 \<Rightarrow> u64" where
  "pack_location fid ls cs le ce =
     push_bit FILE_ID_SHIFT_BITS (ucast fid) OR
     push_bit LINE_START_SHIFT_BITS (ucast ls) OR
     push_bit CHAR_START_SHIFT_BITS (ucast cs) OR
     push_bit CHAR_END_BITS (ucast (le - ls)) OR
     ucast ce"

definition addLocation ::
  "location_manager \<Rightarrow> u32 \<Rightarrow> u32 \<Rightarrow> u32 \<Rightarrow> u32 \<Rightarrow> u32 \<Rightarrow> u64 \<times> location_manager" where
  "addLocation m fid ls cs le ce =
     (if fits_packed fid ls cs le ce
      then (pack_location fid ls cs le ce, m)
      else let index = (of_nat (length (locations m)) :: u64)
           in (INDICATOR_BIT_MASK OR index,
               m\<lparr>locations := locations m @
                  [\<lparr>fileId = fid, lineStart = ls, charStart = cs, lineEnd = le, charEnd = ce\<rparr>]\<rparr>))"

definition unpack_location :: "u64 \<Rightarrow> location_data" where
  "unpack_location d =
     (let ls = drop_bit LINE_START_SHIFT_BITS d AND ucast MAX_LINE_START in
      \<lparr>fileId = ucast (drop_bit FILE_ID_SHIFT_BITS d AND ucast MAX_FILE_ID),
       lineStart = ucast ls,
       charStart = ucast (drop_bit CHAR_START_SHIFT_BITS d AND ucast MAX_CHAR_START),
       lineEnd = ucast (ls + (drop_bit CHAR_END_BITS d AND ucast MAX_LINE_END_OFFSET)),
       charEnd = ucast (d AND ucast MAX_CHAR_END)\<rparr>)"

text \<open>\<^verbatim>\<open>locations[index]\<close> outside the vector is undefined in C++: \<open>None\<close> here.\<close>

definition getLocation :: "location_manager \<Rightarrow> u64 \<Rightarrow> location_data option" where
  "getLocation m d =
     (if d AND INDICATOR_BIT_MASK \<noteq> 0
      then let index = unat (d AND NOT_INDICATOR_BIT_MASK)
           in if index < length (locations m) then Some (locations m ! index) else None
      else Some (unpack_location d))"

definition getLineStartFast :: "location_manager \<Rightarrow> u64 \<Rightarrow> u32 option" where
  "getLineStartFast m d =
     (if d AND INDICATOR_BIT_MASK \<noteq> 0
      then let index = unat (d AND NOT_INDICATOR_BIT_MASK)
           in if index < length (locations m) then Some (lineStart (locations m ! index)) else None
      else Some (ucast (drop_bit LINE_START_SHIFT_BITS d AND ucast MAX_LINE_START)))"

definition getFileId :: "location_manager \<Rightarrow> u64 \<Rightarrow> u32 option" where
  "getFileId m d = map_option fileId (getLocation m d)"

subsection \<open>The packed form\<close>

text \<open>A location whose parts fit their fields, the line span included.\<close>

definition packable :: "u32 \<Rightarrow> u32 \<Rightarrow> u32 \<Rightarrow> u32 \<Rightarrow> u32 \<Rightarrow> bool" where
  "packable fid ls cs le ce \<longleftrightarrow>
     fid \<le> MAX_FILE_ID \<and> ls \<le> MAX_LINE_START \<and> cs \<le> MAX_CHAR_START \<and>
     le - ls \<le> MAX_LINE_END_OFFSET \<and> ce \<le> MAX_CHAR_END"

lemma fits_packed_iff:
  "fits_packed fid ls cs le ce \<longleftrightarrow>
     unat fid < 2 ^ 10 \<and> unat ls < 2 ^ 18 \<and> unat cs < 2 ^ 12 \<and> unat ce < 2 ^ 12"
  by (auto simp: fits_packed_def location_bits word_le_nat_alt)

lemma packable_iff:
  "packable fid ls cs le ce \<longleftrightarrow>
     unat fid < 2 ^ 10 \<and> unat ls < 2 ^ 18 \<and> unat cs < 2 ^ 12 \<and>
     unat (le - ls) < 2 ^ 11 \<and> unat ce < 2 ^ 12"
  by (auto simp: packable_def location_bits word_le_nat_alt)

lemma packable_fits: "packable fid ls cs le ce \<Longrightarrow> fits_packed fid ls cs le ce"
  by (simp add: packable_iff fits_packed_iff)

lemma field_masks:
  "(ucast MAX_FILE_ID :: u64) = mask 10" "(ucast MAX_LINE_START :: u64) = mask 18"
  "(ucast MAX_CHAR_START :: u64) = mask 12" "(ucast MAX_LINE_END_OFFSET :: u64) = mask 11"
  "(ucast MAX_CHAR_END :: u64) = mask 12"
  by (simp_all add: location_bits mask_eq_exp_minus_1)

lemma bit_pack_location:
  assumes "packable fid ls cs le ce"
  shows "bit (pack_location fid ls cs le ce) n \<longleftrightarrow>
    (if n < 12 then bit ce n
     else if n < 23 then bit (le - ls) (n - 12)
     else if n < 35 then bit cs (n - 23)
     else if n < 53 then bit ls (n - 35)
     else bit fid (n - 53))"
proof -
  have "bit fid i \<Longrightarrow> i < 10" "bit ls i \<Longrightarrow> i < 18" "bit cs i \<Longrightarrow> i < 12"
    "bit (le - ls) i \<Longrightarrow> i < 11" "bit ce i \<Longrightarrow> i < 12" for i
    using assms by (auto simp: packable_iff intro: bit_less_exp)
  note small = this
  show ?thesis
    by (auto simp: pack_location_def location_bits bit_or_iff bit_push_bit_iff bit_ucast_iff
        dest: small)
qed

lemma unpack_fields:
  assumes "packable fid ls cs le ce"
  defines "d \<equiv> pack_location fid ls cs le ce"
  shows "drop_bit 53 d AND mask 10 = ucast fid" and "drop_bit 35 d AND mask 18 = ucast ls"
    and "drop_bit 23 d AND mask 12 = ucast cs" and "drop_bit 12 d AND mask 11 = ucast (le - ls)"
    and "d AND mask 12 = ucast ce"
proof -
  have small: "bit fid i \<Longrightarrow> i < 10" "bit ls i \<Longrightarrow> i < 18" "bit cs i \<Longrightarrow> i < 12"
    "bit (le - ls) i \<Longrightarrow> i < 11" "bit ce i \<Longrightarrow> i < 12" for i
    using assms by (auto simp: packable_iff intro: bit_less_exp)
  note bits = bit_and_iff bit_drop_bit_eq bit_mask_iff bit_ucast_iff bit_pack_location[OF assms(1)]
  show "drop_bit 53 d AND mask 10 = ucast fid"
    by (rule bit_word_eqI) (auto simp: d_def bits dest: small(1))
  show "drop_bit 35 d AND mask 18 = ucast ls"
    by (rule bit_word_eqI) (auto simp: d_def bits dest: small(2))
  show "drop_bit 23 d AND mask 12 = ucast cs"
    by (rule bit_word_eqI) (auto simp: d_def bits dest: small(3))
  show "drop_bit 12 d AND mask 11 = ucast (le - ls)"
    by (rule bit_word_eqI) (auto simp: d_def bits dest: small(4))
  show "d AND mask 12 = ucast ce"
    by (rule bit_word_eqI) (auto simp: d_def bits dest: small(5))
qed

lemma ucast_add_span:
  fixes ls le :: u32
  shows "(ucast ((ucast ls :: u64) + ucast (le - ls)) :: u32) = le"
proof -
  have "unat (ucast ((ucast ls :: u64) + ucast (le - ls)) :: u32) = unat (ls + (le - ls))"
    by (simp only: unat_word_ariths unsigned_ucast_eq take_bit_eq_mod)
       (simp add: mod_mod_cancel mod_simps)
  then have "ucast ((ucast ls :: u64) + ucast (le - ls)) = ls + (le - ls)"
    by (rule word_unat_eq_iff[THEN iffD2])
  then show ?thesis by simp
qed

lemma location_shifts:
  "FILE_ID_SHIFT_BITS = 53" "LINE_START_SHIFT_BITS = 35" "CHAR_START_SHIFT_BITS = 23"
  "CHAR_END_BITS = 12"
  by (simp_all add: location_bits)

lemma unpack_pack:
  assumes "packable fid ls cs le ce"
  shows "unpack_location (pack_location fid ls cs le ce) =
    \<lparr>fileId = fid, lineStart = ls, charStart = cs, lineEnd = le, charEnd = ce\<rparr>"
  by (simp only: unpack_location_def Let_def location_shifts field_masks
      unpack_fields[OF assms] ucast_add_span) simp

lemma bit_pack_location_top:
  assumes "fits_packed fid ls cs le ce"
  shows "\<not> bit (pack_location fid ls cs le ce) 63"
proof -
  have "\<not> bit fid 10" "\<not> bit ls 28" "\<not> bit cs 40" "\<not> bit ce 63"
    using assms bit_less_exp[of fid 10 10] bit_less_exp[of ls 18 28]
    by (auto simp: fits_packed_iff bit_imp_le_length dest: bit_imp_le_length)
  then show ?thesis
    by (auto simp: pack_location_def location_bits bit_or_iff bit_push_bit_iff bit_ucast_iff
        dest: bit_imp_le_length)
qed

lemma indicator_iff: "d AND INDICATOR_BIT_MASK \<noteq> 0 \<longleftrightarrow> bit d 63"
proof -
  have "(d AND INDICATOR_BIT_MASK = 0) = (\<not> bit d 63)"
    by (simp add: location_bits bit_iff_and_push_bit_not_eq_0)
  then show ?thesis by simp
qed

lemma packed_not_index:
  "fits_packed fid ls cs le ce \<Longrightarrow> getLocation m (pack_location fid ls cs le ce) =
     Some (unpack_location (pack_location fid ls cs le ce))"
  using bit_pack_location_top[of fid ls cs le ce] indicator_iff
  by (simp add: getLocation_def)

lemma indexed_location:
  assumes "i < 2 ^ 63" and "i < length (locations m)"
  shows "getLocation m (INDICATOR_BIT_MASK OR of_nat i) = Some (locations m ! i)"
proof -
  let ?w = "of_nat i :: u64"
  have u: "unat ?w = i" using assms(1) by (simp add: unat_of_nat take_bit_nat_eq_self)
  have small: "bit ?w j \<Longrightarrow> j < 63" for j
    using bit_less_exp[of ?w 63 j] u assms(1) by simp
  have "(INDICATOR_BIT_MASK OR ?w) AND NOT_INDICATOR_BIT_MASK = ?w"
    unfolding NOT_INDICATOR_BIT_MASK_def INDICATOR_BIT_MASK_def
    by (rule bit_word_eqI, simp only: bit_and_iff bit_or_iff bit_not_iff bit_push_bit_iff bit_1_iff)
       (auto dest: small)
  moreover have "bit (INDICATOR_BIT_MASK OR ?w) 63"
    by (simp add: location_bits bit_or_iff bit_push_bit_iff)
  ultimately show ?thesis
    using u assms(2) by (simp only: getLocation_def indicator_iff) (simp add: Let_def)
qed

subsection \<open>The file table\<close>

text \<open>
  \<^verbatim>\<open>file_paths\<close> is an insertion-ordered map, so the id of a path is the number of paths
  that were added before it. \<^verbatim>\<open>encodeExistingFile\<close> answers \<open>-1\<close> for an unknown path.
\<close>

definition encodeFile :: "location_manager \<Rightarrow> string \<Rightarrow> nat \<times> location_manager" where
  "encodeFile m path =
     (case find_index path (file_paths m) of
        None \<Rightarrow> (length (file_paths m), m\<lparr>file_paths := file_paths m @ [path]\<rparr>)
      | Some i \<Rightarrow> (i, m))"

definition encodeExistingFile :: "location_manager \<Rightarrow> string \<Rightarrow> int" where
  "encodeExistingFile m path =
     (case find_index path (file_paths m) of None \<Rightarrow> -1 | Some i \<Rightarrow> int i)"

definition getPathForFileId :: "location_manager \<Rightarrow> nat \<Rightarrow> string option" where
  "getPathForFileId m fid =
     (if fid < length (file_paths m) then Some (file_paths m ! fid) else None)"

text \<open>\<^verbatim>\<open>formatLocation\<close>: the path (or a placeholder), the line, a colon, the column, a colon.\<close>

definition formatLocation :: "location_manager \<Rightarrow> u64 \<Rightarrow> string option" where
  "formatLocation m d =
     (case getLocation m d of
        None \<Rightarrow> None
      | Some data \<Rightarrow> Some
          ((if unat (fileId data) < length (file_paths m)
            then file_paths m ! unat (fileId data) else ''unknown_file'')
           @ dec_string (unat (lineStart data)) @ '':'' @ dec_string (unat (charStart data)) @ '':''))"

subsection \<open>Properties\<close>

lemma addLocation_unfold:
  "addLocation m fid ls cs le ce =
     (if fits_packed fid ls cs le ce then (pack_location fid ls cs le ce, m)
      else (INDICATOR_BIT_MASK OR of_nat (length (locations m)),
            m\<lparr>locations := locations m @
               [\<lparr>fileId = fid, lineStart = ls, charStart = cs, lineEnd = le, charEnd = ce\<rparr>]\<rparr>))"
  by (simp add: addLocation_def Let_def)

text \<open>
  C23. A source location survives encoding: decoding the 64-bit value that
  \<^verbatim>\<open>addLocation\<close> returns, in the manager it leaves, gives back the five numbers it was
  given, packed or through the side table, as long as a packed location spans at most
  2047 lines and the side table holds fewer than \<open>2 ^ 63\<close> entries.
\<close>

theorem add_then_get_location:
  assumes "fits_packed fid ls cs le ce \<longrightarrow> le - ls \<le> MAX_LINE_END_OFFSET"
    and "length (locations m) < 2 ^ 63"
  shows "case addLocation m fid ls cs le ce of (d, m') \<Rightarrow>
    getLocation m' d =
      Some \<lparr>fileId = fid, lineStart = ls, charStart = cs, lineEnd = le, charEnd = ce\<rparr>"
proof (cases "fits_packed fid ls cs le ce")
  case True
  with assms(1) have "packable fid ls cs le ce" by (simp add: packable_def fits_packed_def)
  with True show ?thesis
    by (simp add: addLocation_unfold packed_not_index unpack_pack)
next
  case False
  then show ?thesis using assms(2)
    by (simp add: addLocation_unfold indexed_location)
qed

theorem add_then_get_location_witness:
  "case addLocation \<lparr>locations = [], file_paths = [''a.ch'']\<rparr> 5000 3 4 9 2 of (d, m') \<Rightarrow>
     getLocation m' d =
       Some \<lparr>fileId = 5000, lineStart = 3, charStart = 4, lineEnd = 9, charEnd = 2\<rparr>"
  by (rule add_then_get_location) (simp_all add: fits_packed_iff)

text \<open>
  Adding a location never changes what an earlier encoded location decodes to: encoded
  locations handed out before stay valid for the life of the manager.
\<close>

theorem add_location_keeps_earlier:
  assumes "getLocation m d = Some data"
  shows "getLocation (snd (addLocation m fid ls cs le ce)) d = Some data"
  using assms
  by (auto simp: addLocation_unfold getLocation_def Let_def nth_append split: if_splits)

theorem add_location_keeps_earlier_witness:
  "getLocation (snd (addLocation \<lparr>locations = [], file_paths = []\<rparr> 5000 3 4 9 2)) 7 =
     Some \<lparr>fileId = 0, lineStart = 0, charStart = 0, lineEnd = 0, charEnd = 7\<rparr>"
  by (rule add_location_keeps_earlier)
     (simp add: getLocation_def unpack_location_def location_bits Let_def)

text \<open>
  The guard of \<^verbatim>\<open>addLocation\<close> subtracts \<open>lineEnd\<close> from itself, so a location that spans
  2048 lines or more but is otherwise small is packed although its span does not fit its
  11 bits: decoding it never gives back the location.
\<close>

theorem long_span_not_recovered:
  assumes "fits_packed fid ls cs le ce" and "\<not> le - ls \<le> MAX_LINE_END_OFFSET"
  shows "case addLocation m fid ls cs le ce of (d, m') \<Rightarrow>
    getLocation m' d \<noteq>
      Some \<lparr>fileId = fid, lineStart = ls, charStart = cs, lineEnd = le, charEnd = ce\<rparr>"
proof -
  let ?d = "pack_location fid ls cs le ce"
  define a where "a = drop_bit 35 ?d AND mask 18"
  define b where "b = drop_bit 12 ?d AND mask 11"
  have "unat b < 2 ^ 11"
    unfolding b_def by (simp only: unsigned_take_bit_eq take_bit_nat_less_exp flip: take_bit_eq_mask)
  then have "unat (ucast b :: u32) < 2 ^ 11"
    by (simp add: unsigned_ucast_eq take_bit_nat_eq_self)
  moreover have "(ucast (a + b) :: u32) = ucast a + ucast b"
    by (rule word_unat_eq_iff[THEN iffD2])
       (simp add: unat_word_ariths unsigned_ucast_eq take_bit_eq_mod mod_simps mod_mod_cancel)
  moreover have "unat (le - ls) \<ge> 2 ^ 11"
    using assms(2) by (simp add: location_bits word_le_nat_alt)
  ultimately have "\<not> (ucast a = ls \<and> ucast (a + b) = le)" by auto
  then have "unpack_location ?d \<noteq>
      \<lparr>fileId = fid, lineStart = ls, charStart = cs, lineEnd = le, charEnd = ce\<rparr>"
    by (simp only: unpack_location_def Let_def location_shifts field_masks a_def b_def) auto
  with assms(1) show ?thesis
    by (simp add: addLocation_unfold packed_not_index)
qed

theorem long_span_not_recovered_witness:
  "case addLocation \<lparr>locations = [], file_paths = []\<rparr> 1 10 0 2058 5 of (d, m') \<Rightarrow>
    getLocation m' d \<noteq>
      Some \<lparr>fileId = 1, lineStart = 10, charStart = 0, lineEnd = 2058, charEnd = 5\<rparr>"
  by (rule long_span_not_recovered) (simp_all add: fits_packed_iff location_bits)

lemma getLineStartFast_eq: "getLineStartFast m d = map_option lineStart (getLocation m d)"
  by (simp add: getLineStartFast_def getLocation_def unpack_location_def Let_def)

text \<open>
  File ids: encoding a path gives an id that resolves to that path, keeps every path
  that was already encoded under its id, never stores a path twice, and agrees with
  \<^verbatim>\<open>encodeExistingFile\<close> afterwards.
\<close>

theorem encode_file_correct:
  assumes "distinct (file_paths m)"
  shows "case encodeFile m path of (fid, m') \<Rightarrow>
    getPathForFileId m' fid = Some path \<and> distinct (file_paths m') \<and>
    encodeExistingFile m' path = int fid \<and>
    (\<forall>i p. getPathForFileId m i = Some p \<longrightarrow> getPathForFileId m' i = Some p)"
proof (cases "path \<in> set (file_paths m)")
  case True
  then obtain i where i: "find_index path (file_paths m) = Some i"
    by (metis find_index_None option.exhaust)
  with find_index_Some[OF i] assms show ?thesis
    by (simp add: encodeFile_def encodeExistingFile_def getPathForFileId_def)
next
  case False
  with assms show ?thesis
    by (auto simp: encodeFile_def encodeExistingFile_def getPathForFileId_def nth_append
        find_index_append_new)
qed

theorem encode_file_correct_witness:
  "case encodeFile \<lparr>locations = [], file_paths = [''a'', ''b'']\<rparr> ''c'' of (fid, m') \<Rightarrow>
    getPathForFileId m' fid = Some ''c'' \<and> distinct (file_paths m') \<and>
    encodeExistingFile m' ''c'' = int fid \<and>
    (\<forall>i p. getPathForFileId \<lparr>locations = [], file_paths = [''a'', ''b'']\<rparr> i = Some p \<longrightarrow>
       getPathForFileId m' i = Some p)"
  by (rule encode_file_correct) simp

end
