(* ===== verification/Token_Kinds.thy ===== *)
theory Token_Kinds
  imports Prelude
begin

text \<open>
  Tokens: \<^verbatim>\<open>lexer/TokenType.h\<close>, \<^verbatim>\<open>lexer/Token.h\<close> and the keyword table of
  \<^verbatim>\<open>lexer/Lexer.cpp\<close>. The enum is kept as its underlying integer (its first enumerator is
  30000 and the rest count up), because the code orders token types with \<^verbatim>\<open><\<close>; each
  enumerator is an abbreviation for its value. \<open>token_type_enum\<close> lists them in the order of
  the declaration, \<open>keyword_table\<close> is the table that turns a word into its keyword token.
\<close>

subsection \<open>Token types\<close>

datatype token_type = TokenType (token_code: nat)

abbreviation EndOfFile :: token_type where "EndOfFile \<equiv> TokenType 30000"
abbreviation Unexpected :: token_type where "Unexpected \<equiv> TokenType 30001"
abbreviation ForKw :: token_type where "ForKw \<equiv> TokenType 30002"
abbreviation SwitchKw :: token_type where "SwitchKw \<equiv> TokenType 30003"
abbreviation LoopKw :: token_type where "LoopKw \<equiv> TokenType 30004"
abbreviation ReturnKw :: token_type where "ReturnKw \<equiv> TokenType 30005"
abbreviation BreakKw :: token_type where "BreakKw \<equiv> TokenType 30006"
abbreviation NewKw :: token_type where "NewKw \<equiv> TokenType 30007"
abbreviation ContinueKw :: token_type where "ContinueKw \<equiv> TokenType 30008"
abbreviation DestructKw :: token_type where "DestructKw \<equiv> TokenType 30009"
abbreviation DeleteKw :: token_type where "DeleteKw \<equiv> TokenType 30010"
abbreviation DeallocKw :: token_type where "DeallocKw \<equiv> TokenType 30011"
abbreviation ProvideKw :: token_type where "ProvideKw \<equiv> TokenType 30012"
abbreviation DefaultKw :: token_type where "DefaultKw \<equiv> TokenType 30013"
abbreviation UnsafeKw :: token_type where "UnsafeKw \<equiv> TokenType 30014"
abbreviation UnreachableKw :: token_type where "UnreachableKw \<equiv> TokenType 30015"
abbreviation InitKw :: token_type where "InitKw \<equiv> TokenType 30016"
abbreviation ReversedKw :: token_type where "ReversedKw \<equiv> TokenType 30017"
abbreviation TryKw :: token_type where "TryKw \<equiv> TokenType 30018"
abbreviation CatchKw :: token_type where "CatchKw \<equiv> TokenType 30019"
abbreviation ThrowKw :: token_type where "ThrowKw \<equiv> TokenType 30020"
abbreviation IfKw :: token_type where "IfKw \<equiv> TokenType 30021"
abbreviation FromKw :: token_type where "FromKw \<equiv> TokenType 30022"
abbreviation ElseKw :: token_type where "ElseKw \<equiv> TokenType 30023"
abbreviation WhileKw :: token_type where "WhileKw \<equiv> TokenType 30024"
abbreviation DoKw :: token_type where "DoKw \<equiv> TokenType 30025"
abbreviation TrueKw :: token_type where "TrueKw \<equiv> TokenType 30026"
abbreviation FalseKw :: token_type where "FalseKw \<equiv> TokenType 30027"
abbreviation NullKw :: token_type where "NullKw \<equiv> TokenType 30028"
abbreviation PublicKw :: token_type where "PublicKw \<equiv> TokenType 30029"
abbreviation PrivateKw :: token_type where "PrivateKw \<equiv> TokenType 30030"
abbreviation ProtectedKw :: token_type where "ProtectedKw \<equiv> TokenType 30031"
abbreviation InternalKw :: token_type where "InternalKw \<equiv> TokenType 30032"
abbreviation I8Kw :: token_type where "I8Kw \<equiv> TokenType 30033"
abbreviation I16Kw :: token_type where "I16Kw \<equiv> TokenType 30034"
abbreviation I32Kw :: token_type where "I32Kw \<equiv> TokenType 30035"
abbreviation I64Kw :: token_type where "I64Kw \<equiv> TokenType 30036"
abbreviation CharKw :: token_type where "CharKw \<equiv> TokenType 30037"
abbreviation ShortKw :: token_type where "ShortKw \<equiv> TokenType 30038"
abbreviation IntKw :: token_type where "IntKw \<equiv> TokenType 30039"
abbreviation LongKw :: token_type where "LongKw \<equiv> TokenType 30040"
abbreviation LongLongKw :: token_type where "LongLongKw \<equiv> TokenType 30041"
abbreviation BigIntKw :: token_type where "BigIntKw \<equiv> TokenType 30042"
abbreviation Int128Kw :: token_type where "Int128Kw \<equiv> TokenType 30043"
abbreviation U8Kw :: token_type where "U8Kw \<equiv> TokenType 30044"
abbreviation U16Kw :: token_type where "U16Kw \<equiv> TokenType 30045"
abbreviation U32Kw :: token_type where "U32Kw \<equiv> TokenType 30046"
abbreviation U64Kw :: token_type where "U64Kw \<equiv> TokenType 30047"
abbreviation UCharKw :: token_type where "UCharKw \<equiv> TokenType 30048"
abbreviation UShortKw :: token_type where "UShortKw \<equiv> TokenType 30049"
abbreviation UIntKw :: token_type where "UIntKw \<equiv> TokenType 30050"
abbreviation ULongKw :: token_type where "ULongKw \<equiv> TokenType 30051"
abbreviation ULongLongKw :: token_type where "ULongLongKw \<equiv> TokenType 30052"
abbreviation UBigIntKw :: token_type where "UBigIntKw \<equiv> TokenType 30053"
abbreviation UInt128Kw :: token_type where "UInt128Kw \<equiv> TokenType 30054"
abbreviation BoolKw :: token_type where "BoolKw \<equiv> TokenType 30055"
abbreviation AnyKw :: token_type where "AnyKw \<equiv> TokenType 30056"
abbreviation DoubleKw :: token_type where "DoubleKw \<equiv> TokenType 30057"
abbreviation LongdoubleKw :: token_type where "LongdoubleKw \<equiv> TokenType 30058"
abbreviation FloatKw :: token_type where "FloatKw \<equiv> TokenType 30059"
abbreviation Float128Kw :: token_type where "Float128Kw \<equiv> TokenType 30060"
abbreviation VoidKw :: token_type where "VoidKw \<equiv> TokenType 30061"
abbreviation SizeOfKw :: token_type where "SizeOfKw \<equiv> TokenType 30062"
abbreviation AlignOfKw :: token_type where "AlignOfKw \<equiv> TokenType 30063"
abbreviation OffsetOfKw :: token_type where "OffsetOfKw \<equiv> TokenType 30064"
abbreviation RawKw :: token_type where "RawKw \<equiv> TokenType 30065"
abbreviation ImportKw :: token_type where "ImportKw \<equiv> TokenType 30066"
abbreviation ExportKw :: token_type where "ExportKw \<equiv> TokenType 30067"
abbreviation FuncKw :: token_type where "FuncKw \<equiv> TokenType 30068"
abbreviation TypeKw :: token_type where "TypeKw \<equiv> TokenType 30069"
abbreviation StructKw :: token_type where "StructKw \<equiv> TokenType 30070"
abbreviation UnionKw :: token_type where "UnionKw \<equiv> TokenType 30071"
abbreviation VariantKw :: token_type where "VariantKw \<equiv> TokenType 30072"
abbreviation InterfaceKw :: token_type where "InterfaceKw \<equiv> TokenType 30073"
abbreviation ImplKw :: token_type where "ImplKw \<equiv> TokenType 30074"
abbreviation NamespaceKw :: token_type where "NamespaceKw \<equiv> TokenType 30075"
abbreviation EnumKw :: token_type where "EnumKw \<equiv> TokenType 30076"
abbreviation AliasKw :: token_type where "AliasKw \<equiv> TokenType 30077"
abbreviation VarKw :: token_type where "VarKw \<equiv> TokenType 30078"
abbreviation UsingKw :: token_type where "UsingKw \<equiv> TokenType 30079"
abbreviation ComptimeKw :: token_type where "ComptimeKw \<equiv> TokenType 30080"
abbreviation MutKw :: token_type where "MutKw \<equiv> TokenType 30081"
abbreviation SelfKw :: token_type where "SelfKw \<equiv> TokenType 30082"
abbreviation ThisKw :: token_type where "ThisKw \<equiv> TokenType 30083"
abbreviation AsKw :: token_type where "AsKw \<equiv> TokenType 30084"
abbreviation IsKw :: token_type where "IsKw \<equiv> TokenType 30085"
abbreviation InKw :: token_type where "InKw \<equiv> TokenType 30086"
abbreviation DynKw :: token_type where "DynKw \<equiv> TokenType 30087"
abbreviation ZeroedKw :: token_type where "ZeroedKw \<equiv> TokenType 30088"
abbreviation ConstKw :: token_type where "ConstKw \<equiv> TokenType 30089"
abbreviation WhereKw :: token_type where "WhereKw \<equiv> TokenType 30090"
abbreviation Identifier :: token_type where "Identifier \<equiv> TokenType 30091"
abbreviation Whitespace :: token_type where "Whitespace \<equiv> TokenType 30092"
abbreviation NewLine :: token_type where "NewLine \<equiv> TokenType 30093"
abbreviation LParen :: token_type where "LParen \<equiv> TokenType 30094"
abbreviation RParen :: token_type where "RParen \<equiv> TokenType 30095"
abbreviation LBrace :: token_type where "LBrace \<equiv> TokenType 30096"
abbreviation RBrace :: token_type where "RBrace \<equiv> TokenType 30097"
abbreviation LBracket :: token_type where "LBracket \<equiv> TokenType 30098"
abbreviation RBracket :: token_type where "RBracket \<equiv> TokenType 30099"
abbreviation Char :: token_type where "Char \<equiv> TokenType 30100"
abbreviation String :: token_type where "String \<equiv> TokenType 30101"
abbreviation MultilineString :: token_type where "MultilineString \<equiv> TokenType 30102"
abbreviation BacktickString :: token_type where "BacktickString \<equiv> TokenType 30103"
abbreviation Lifetime :: token_type where "Lifetime \<equiv> TokenType 30104"
abbreviation HashMacro :: token_type where "HashMacro \<equiv> TokenType 30105"
abbreviation Annotation :: token_type where "Annotation \<equiv> TokenType 30106"
abbreviation SingleLineComment :: token_type where "SingleLineComment \<equiv> TokenType 30107"
abbreviation MultiLineComment :: token_type where "MultiLineComment \<equiv> TokenType 30108"
abbreviation PlusSym :: token_type where "PlusSym \<equiv> TokenType 30109"
abbreviation MinusSym :: token_type where "MinusSym \<equiv> TokenType 30110"
abbreviation MultiplySym :: token_type where "MultiplySym \<equiv> TokenType 30111"
abbreviation DivideSym :: token_type where "DivideSym \<equiv> TokenType 30112"
abbreviation ModSym :: token_type where "ModSym \<equiv> TokenType 30113"
abbreviation DoublePlusSym :: token_type where "DoublePlusSym \<equiv> TokenType 30114"
abbreviation DoubleMinusSym :: token_type where "DoubleMinusSym \<equiv> TokenType 30115"
abbreviation EqualSym :: token_type where "EqualSym \<equiv> TokenType 30116"
abbreviation DoubleEqualSym :: token_type where "DoubleEqualSym \<equiv> TokenType 30117"
abbreviation NotEqualSym :: token_type where "NotEqualSym \<equiv> TokenType 30118"
abbreviation LessThanOrEqualSym :: token_type where "LessThanOrEqualSym \<equiv> TokenType 30119"
abbreviation LessThanSym :: token_type where "LessThanSym \<equiv> TokenType 30120"
abbreviation GreaterThanOrEqualSym :: token_type where "GreaterThanOrEqualSym \<equiv> TokenType 30121"
abbreviation GreaterThanSym :: token_type where "GreaterThanSym \<equiv> TokenType 30122"
abbreviation LogicalAndSym :: token_type where "LogicalAndSym \<equiv> TokenType 30123"
abbreviation LogicalOrSym :: token_type where "LogicalOrSym \<equiv> TokenType 30124"
abbreviation LeftShiftSym :: token_type where "LeftShiftSym \<equiv> TokenType 30125"
abbreviation RightShiftSym :: token_type where "RightShiftSym \<equiv> TokenType 30126"
abbreviation AmpersandSym :: token_type where "AmpersandSym \<equiv> TokenType 30127"
abbreviation PipeSym :: token_type where "PipeSym \<equiv> TokenType 30128"
abbreviation CaretUpSym :: token_type where "CaretUpSym \<equiv> TokenType 30129"
abbreviation BitNotSym :: token_type where "BitNotSym \<equiv> TokenType 30130"
abbreviation ColonSym :: token_type where "ColonSym \<equiv> TokenType 30131"
abbreviation DoubleColonSym :: token_type where "DoubleColonSym \<equiv> TokenType 30132"
abbreviation NotSym :: token_type where "NotSym \<equiv> TokenType 30133"
abbreviation DotSym :: token_type where "DotSym \<equiv> TokenType 30134"
abbreviation CommaSym :: token_type where "CommaSym \<equiv> TokenType 30135"
abbreviation SemiColonSym :: token_type where "SemiColonSym \<equiv> TokenType 30136"
abbreviation TripleDotSym :: token_type where "TripleDotSym \<equiv> TokenType 30137"
abbreviation LambdaSym :: token_type where "LambdaSym \<equiv> TokenType 30138"
abbreviation DollarSym :: token_type where "DollarSym \<equiv> TokenType 30139"
abbreviation QuestionMarkSym :: token_type where "QuestionMarkSym \<equiv> TokenType 30140"
abbreviation Number :: token_type where "Number \<equiv> TokenType 30141"
abbreviation StringExprStart :: token_type where "StringExprStart \<equiv> TokenType 30142"
abbreviation StringExprEnd :: token_type where "StringExprEnd \<equiv> TokenType 30143"

abbreviation IndexKwStart :: token_type where "IndexKwStart \<equiv> ForKw"
abbreviation IndexKwEnd :: token_type where "IndexKwEnd \<equiv> ConstKw"

definition token_type_enum :: "token_type list" where
  "token_type_enum =
     [EndOfFile, Unexpected, ForKw, SwitchKw, LoopKw, ReturnKw, BreakKw, NewKw, ContinueKw,
      DestructKw, DeleteKw, DeallocKw, ProvideKw, DefaultKw, UnsafeKw, UnreachableKw, InitKw,
      ReversedKw, TryKw, CatchKw, ThrowKw, IfKw, FromKw, ElseKw, WhileKw, DoKw, TrueKw, FalseKw,
      NullKw, PublicKw, PrivateKw, ProtectedKw, InternalKw, I8Kw, I16Kw, I32Kw, I64Kw, CharKw,
      ShortKw, IntKw, LongKw, LongLongKw, BigIntKw, Int128Kw, U8Kw, U16Kw, U32Kw, U64Kw, UCharKw,
      UShortKw, UIntKw, ULongKw, ULongLongKw, UBigIntKw, UInt128Kw, BoolKw, AnyKw, DoubleKw,
      LongdoubleKw, FloatKw, Float128Kw, VoidKw, SizeOfKw, AlignOfKw, OffsetOfKw, RawKw,
      ImportKw, ExportKw, FuncKw, TypeKw, StructKw, UnionKw, VariantKw, InterfaceKw, ImplKw,
      NamespaceKw, EnumKw, AliasKw, VarKw, UsingKw, ComptimeKw, MutKw, SelfKw, ThisKw, AsKw,
      IsKw, InKw, DynKw, ZeroedKw, ConstKw, WhereKw, Identifier, Whitespace, NewLine, LParen,
      RParen, LBrace, RBrace, LBracket, RBracket, Char, String, MultilineString, BacktickString,
      Lifetime, HashMacro, Annotation, SingleLineComment, MultiLineComment, PlusSym, MinusSym,
      MultiplySym, DivideSym, ModSym, DoublePlusSym, DoubleMinusSym, EqualSym, DoubleEqualSym,
      NotEqualSym, LessThanOrEqualSym, LessThanSym, GreaterThanOrEqualSym, GreaterThanSym,
      LogicalAndSym, LogicalOrSym, LeftShiftSym, RightShiftSym, AmpersandSym, PipeSym,
      CaretUpSym, BitNotSym, ColonSym, DoubleColonSym, NotSym, DotSym, CommaSym, SemiColonSym,
      TripleDotSym, LambdaSym, DollarSym, QuestionMarkSym, Number, StringExprStart,
      StringExprEnd]"

text \<open>The enum is ordered by its underlying value.\<close>

instantiation token_type :: linorder
begin
definition less_eq_token_type :: "token_type \<Rightarrow> token_type \<Rightarrow> bool" where
  "less_eq_token_type s t \<longleftrightarrow> token_code s \<le> token_code t"
definition less_token_type :: "token_type \<Rightarrow> token_type \<Rightarrow> bool" where
  "less_token_type s t \<longleftrightarrow> token_code s < token_code t"
instance
  by standard (auto simp: less_eq_token_type_def less_token_type_def intro: token_type.expand)
end

lemmas token_order = less_eq_token_type_def less_token_type_def

subsection \<open>Tokens\<close>

text \<open>\<^verbatim>\<open>Position\<close> and \<^verbatim>\<open>Token\<close>: lines and characters are zero based.\<close>

record source_position =
  pos_line :: nat
  pos_character :: nat

record token =
  tok_type :: token_type
  tok_value :: string
  tok_position :: source_position

definition isKeyword :: "token_type \<Rightarrow> bool" where
  "isKeyword t \<longleftrightarrow> t > IndexKwStart \<and> t < IndexKwEnd"

definition isKeywordOrId :: "token_type \<Rightarrow> bool" where
  "isKeywordOrId t \<longleftrightarrow> t = Identifier \<or> isKeyword t"

subsection \<open>The keyword table\<close>

definition keyword_table :: "(string \<times> token_type) list" where
  "keyword_table =
     [(''for'', ForKw), (''switch'', SwitchKw), (''loop'', LoopKw), (''return'', ReturnKw),
      (''break'', BreakKw), (''new'', NewKw), (''continue'', ContinueKw),
      (''destruct'', DestructKw), (''dealloc'', DeallocKw), (''delete'', DeleteKw),
      (''provide'', ProvideKw), (''default'', DefaultKw), (''unsafe'', UnsafeKw),
      (''unreachable'', UnreachableKw), (''init'', InitKw), (''reversed'', ReversedKw),
      (''try'', TryKw), (''catch'', CatchKw), (''throw'', ThrowKw), (''if'', IfKw),
      (''from'', FromKw), (''else'', ElseKw), (''while'', WhileKw), (''do'', DoKw),
      (''true'', TrueKw), (''false'', FalseKw), (''null'', NullKw), (''sizeof'', SizeOfKw),
      (''alignof'', AlignOfKw), (''offsetof'', OffsetOfKw), (''raw'', RawKw),
      (''public'', PublicKw), (''private'', PrivateKw), (''protected'', ProtectedKw),
      (''internal'', InternalKw), (''i8'', I8Kw), (''i16'', I16Kw), (''i32'', I32Kw),
      (''i64'', I64Kw), (''char'', CharKw), (''short'', ShortKw), (''int'', IntKw),
      (''long'', LongKw), (''longlong'', LongLongKw), (''bigint'', BigIntKw), (''u8'', U8Kw),
      (''u16'', U16Kw), (''u32'', U32Kw), (''u64'', U64Kw), (''uchar'', UCharKw),
      (''ushort'', UShortKw), (''uint'', UIntKw), (''ulong'', ULongKw),
      (''ulonglong'', ULongLongKw), (''ubigint'', UBigIntKw), (''bool'', BoolKw),
      (''any'', AnyKw), (''double'', DoubleKw), (''f64'', DoubleKw),
      (''longdouble'', LongdoubleKw), (''float'', FloatKw), (''f32'', FloatKw),
      (''int128'', Int128Kw), (''uint128'', UInt128Kw), (''float128'', Float128Kw),
      (''void'', VoidKw), (''import'', ImportKw), (''export'', ExportKw), (''func'', FuncKw),
      (''type'', TypeKw), (''struct'', StructKw), (''union'', UnionKw), (''variant'', VariantKw),
      (''interface'', InterfaceKw), (''impl'', ImplKw), (''namespace'', NamespaceKw),
      (''enum'', EnumKw), (''alias'', AliasKw), (''var'', VarKw), (''using'', UsingKw),
      (''comptime'', ComptimeKw), (''mut'', MutKw), (''self'', SelfKw), (''Self'', SelfKw),
      (''this'', ThisKw), (''as'', AsKw), (''is'', IsKw), (''in'', InKw), (''dyn'', DynKw),
      (''zeroed'', ZeroedKw), (''const'', ConstKw), (''where'', WhereKw)]"

definition keyword_of :: "string \<Rightarrow> token_type option" where
  "keyword_of w = map_of keyword_table w"

subsection \<open>What the table promises\<close>

lemma isKeyword_code: "isKeyword (TokenType c) \<longleftrightarrow> 30002 < c \<and> c < 30089"
  by (auto simp: isKeyword_def token_order)

lemma keywords_distinct: "distinct (map fst keyword_table)"
  by (simp add: keyword_table_def)

lemma keywords_range: "list_all (\<lambda>(w, t). ForKw \<le> t \<and> t \<le> WhereKw \<and> w \<noteq> []) keyword_table"
  by (simp add: keyword_table_def token_order)

lemma keyword_of_range: "keyword_of w = Some t \<Longrightarrow> ForKw \<le> t \<and> t \<le> WhereKw \<and> w \<noteq> []"
  unfolding keyword_of_def using keywords_range by (auto simp: list_all_iff dest: map_of_SomeD)

text \<open>
  Which words of the table are keywords to \<^verbatim>\<open>isKeyword\<close>: every word has a keyword token,
  and all but \<^verbatim>\<open>for\<close>, \<^verbatim>\<open>const\<close> and \<^verbatim>\<open>where\<close> are inside the exclusive bounds it tests.
\<close>

theorem keyword_words:
  "list_all (\<lambda>(w, t). keyword_of w = Some t \<and>
     (isKeyword t \<longleftrightarrow> w \<notin> {''for'', ''const'', ''where''})) keyword_table"
proof -
  have "list_all (\<lambda>(w, t). isKeyword t \<longleftrightarrow> w \<notin> {''for'', ''const'', ''where''}) keyword_table"
    by (simp add: keyword_table_def isKeyword_code)
  then show ?thesis
    by (auto simp: list_all_iff keyword_of_def intro: map_of_is_SomeI keywords_distinct)
qed

end
