(* ===== verification/Source_Provider.thy ===== *)
theory Source_Provider
  imports Prelude
begin

text \<open>
  The character source of the lexer: \<^verbatim>\<open>stream/SourceProvider.h\<close>. The buffer is a list of
  bytes and the pointer \<^verbatim>\<open>data_\<close> is an offset into it; \<^verbatim>\<open>end_\<close> is its length. Reading past
  the end gives the NUL byte, as \<^verbatim>\<open>peek\<close> does. Code points are natural numbers, decoded
  with the bit operations of the code; the line and character counters are \<^verbatim>\<open>unsigned int\<close>
  and wrap at \<open>2 ^ 32\<close>. \<open>reads\<close> relates a provider to every provider the
  reading operations can leave; its rule induction carries the invariants.
\<close>

record source_provider =
  buffer :: string
  data_pos :: nat
  lineNumber :: nat
  lineCharacterNumber :: nat

record stream_position =
  sp_data :: nat
  sp_line :: nat
  sp_character :: nat

abbreviation NUL :: char where "NUL \<equiv> CHR 0x00"
abbreviation TAB :: char where "TAB \<equiv> CHR 0x09"
abbreviation LF :: char where "LF \<equiv> CHR 0x0A"
abbreviation FF :: char where "FF \<equiv> CHR 0x0C"
abbreviation CR :: char where "CR \<equiv> CHR 0x0D"

abbreviation byte_code :: "char \<Rightarrow> nat" where "byte_code c \<equiv> of_char c"

definition source_provider_of :: "string \<Rightarrow> source_provider" where
  "source_provider_of s =
     \<lparr>buffer = s, data_pos = 0, lineNumber = 0, lineCharacterNumber = 0\<rparr>"

text \<open>The bytes that are still to be read.\<close>

definition rest_of :: "source_provider \<Rightarrow> string" where
  "rest_of p = drop (data_pos p) (buffer p)"

definition remaining :: "source_provider \<Rightarrow> nat" where
  "remaining p = length (buffer p) - data_pos p"

subsection \<open>Peeking\<close>

text \<open>The pointer never passes the end (\<open>reads_in_range\<close>), so \<open>\<ge>\<close> is the \<^verbatim>\<open>==\<close> of the code.\<close>

definition eof :: "source_provider \<Rightarrow> bool" where
  "eof p \<longleftrightarrow> data_pos p \<ge> length (buffer p)"

definition peek_ahead :: "nat \<Rightarrow> source_provider \<Rightarrow> char" where
  "peek_ahead a p =
     (let d = data_pos p + a in if d < length (buffer p) then buffer p ! d else NUL)"

definition peek :: "source_provider \<Rightarrow> char" where
  "peek p = (if data_pos p < length (buffer p) then buffer p ! data_pos p else NUL)"

definition peekByte :: "source_provider \<Rightarrow> nat" where
  "peekByte p =
     (if data_pos p < length (buffer p) then byte_code (buffer p ! data_pos p) else 0)"

subsection \<open>Counting lines and characters\<close>

definition handleCharacterRead :: "char \<Rightarrow> source_provider \<Rightarrow> source_provider" where
  "handleCharacterRead c p =
     (if c = LF \<or> c = FF \<or> (c = CR \<and> peekByte p \<noteq> byte_code LF)
      then p\<lparr>lineNumber := (lineNumber p + 1) mod 2 ^ 32, lineCharacterNumber := 0\<rparr>
      else p\<lparr>lineCharacterNumber := (lineCharacterNumber p + 1) mod 2 ^ 32\<rparr>)"

definition handleCodepointRead :: "nat \<Rightarrow> source_provider \<Rightarrow> source_provider" where
  "handleCodepointRead cp p =
     (if cp = byte_code LF \<or> cp = byte_code FF \<or>
         (cp = byte_code CR \<and> peekByte p \<noteq> byte_code LF)
      then p\<lparr>lineNumber := (lineNumber p + 1) mod 2 ^ 32, lineCharacterNumber := 0\<rparr>
      else p\<lparr>lineCharacterNumber := (lineCharacterNumber p + 1) mod 2 ^ 32\<rparr>)"

subsection \<open>Decoding UTF-8\<close>

text \<open>
  \<^verbatim>\<open>utf8_decode_peek\<close>: the code point at the current position and the number of bytes it
  takes; an ill-formed sequence gives U+FFFD and one byte.
\<close>

definition utf8_decode_peek :: "source_provider \<Rightarrow> nat \<times> nat" where
  "utf8_decode_peek p =
    (if eof p then (0, 0)
     else
       let byte = (\<lambda>i. byte_code (buffer p ! (data_pos p + i)));
           b0 = byte 0; rem = length (buffer p) - data_pos p in
       if b0 < 0x80 then (b0, 1)
       else if b0 AND 0xE0 = 0xC0 then
         (if rem \<ge> 2 then
            let b1 = byte 1 in
            if b1 AND 0xC0 = 0x80 \<and> b0 \<ge> 0xC2
            then (push_bit 6 (b0 AND 0x1F) OR (b1 AND 0x3F), 2)
            else (0xFFFD, 1)
          else (0xFFFD, 1))
       else if b0 AND 0xF0 = 0xE0 then
         (if rem \<ge> 3 then
            let b1 = byte 1; b2 = byte 2 in
            if b1 AND 0xC0 = 0x80 \<and> b2 AND 0xC0 = 0x80 \<and>
               (b0 \<noteq> 0xE0 \<or> b1 \<ge> 0xA0) \<and> (b0 \<noteq> 0xED \<or> b1 \<le> 0x9F)
            then (push_bit 12 (b0 AND 0x0F) OR push_bit 6 (b1 AND 0x3F) OR (b2 AND 0x3F), 3)
            else (0xFFFD, 1)
          else (0xFFFD, 1))
       else if b0 AND 0xF8 = 0xF0 then
         (if rem \<ge> 4 then
            let b1 = byte 1; b2 = byte 2; b3 = byte 3 in
            if b1 AND 0xC0 = 0x80 \<and> b2 AND 0xC0 = 0x80 \<and> b3 AND 0xC0 = 0x80 \<and>
               (b0 \<noteq> 0xF0 \<or> b1 \<ge> 0x90) \<and> (b0 \<noteq> 0xF4 \<or> b1 \<le> 0x8F) \<and> b0 \<le> 0xF4
            then (push_bit 18 (b0 AND 0x07) OR push_bit 12 (b1 AND 0x3F) OR
                  push_bit 6 (b2 AND 0x3F) OR (b3 AND 0x3F), 4)
            else (0xFFFD, 1)
          else (0xFFFD, 1))
       else (0xFFFD, 1))"

subsection \<open>Consuming\<close>

definition readCodePoint :: "source_provider \<Rightarrow> nat \<times> source_provider" where
  "readCodePoint p =
     (case utf8_decode_peek p of (cp, len) \<Rightarrow>
        if len = 0 then (0, p)
        else
          let rem = length (buffer p) - data_pos p; step = (if len \<le> rem then len else rem)
          in (cp, handleCodepointRead cp (p\<lparr>data_pos := data_pos p + step\<rparr>)))"

definition readCharacter :: "source_provider \<Rightarrow> char \<times> source_provider" where
  "readCharacter p =
     (if eof p then (NUL, p)
      else
        let c = buffer p ! data_pos p
        in (c, handleCharacterRead c (p\<lparr>data_pos := data_pos p + 1\<rparr>)))"

definition increment :: "source_provider \<Rightarrow> source_provider" where
  "increment p =
     (if eof p then p
      else handleCharacterRead (buffer p ! data_pos p) (p\<lparr>data_pos := data_pos p + 1\<rparr>))"

text \<open>The line handler runs before the pointer moves here, and in \<open>increment_if\<close>.\<close>

definition incrementCodepoint :: "nat \<Rightarrow> nat \<Rightarrow> source_provider \<Rightarrow> source_provider" where
  "incrementCodepoint cp len p =
     (let q = handleCodepointRead cp p;
          rem = length (buffer q) - data_pos q; step = (if len \<le> rem then len else rem)
      in q\<lparr>data_pos := data_pos q + step\<rparr>)"

definition increment_if :: "char \<Rightarrow> source_provider \<Rightarrow> bool \<times> source_provider" where
  "increment_if c p =
     (if data_pos p < length (buffer p) \<and> buffer p ! data_pos p = c
      then (True, (handleCharacterRead c p)\<lparr>data_pos := data_pos p + 1\<rparr>)
      else (False, p))"

definition reset :: "source_provider \<Rightarrow> source_provider" where
  "reset p = p\<lparr>lineNumber := 0, lineCharacterNumber := 0, data_pos := 0\<rparr>"

definition getStreamPosition :: "source_provider \<Rightarrow> stream_position" where
  "getStreamPosition p =
     \<lparr>sp_data = data_pos p, sp_line = lineNumber p, sp_character = lineCharacterNumber p\<rparr>"

definition restore :: "stream_position \<Rightarrow> source_provider \<Rightarrow> source_provider" where
  "restore s p =
     p\<lparr>data_pos := sp_data s, lineNumber := sp_line s, lineCharacterNumber := sp_character s\<rparr>"

subsection \<open>The fields after each operation\<close>

lemma handler_fields [simp]:
  "buffer (handleCharacterRead c p) = buffer p"
  "data_pos (handleCharacterRead c p) = data_pos p"
  "buffer (handleCodepointRead cp p) = buffer p"
  "data_pos (handleCodepointRead cp p) = data_pos p"
  by (simp_all add: handleCharacterRead_def handleCodepointRead_def)

lemma peek_rest: "peek p = (case rest_of p of [] \<Rightarrow> NUL | c # _ \<Rightarrow> c)"
  by (auto simp: peek_def rest_of_def Cons_nth_drop_Suc [symmetric])

lemma rest_peek: "data_pos p < length (buffer p) \<Longrightarrow> rest_of p = peek p # tl (rest_of p)"
  by (simp add: rest_of_def peek_def Cons_nth_drop_Suc [symmetric])

lemma byte_code_line_ends [simp]:
  "byte_code c = 10 \<longleftrightarrow> c = LF" "byte_code c = 12 \<longleftrightarrow> c = FF" "byte_code c = 13 \<longleftrightarrow> c = CR"
  using of_char_eq_iff[of c LF, where ?'a = nat] of_char_eq_iff[of c FF, where ?'a = nat]
    of_char_eq_iff[of c CR, where ?'a = nat] by simp_all

lemma peekByte_LF: "peekByte p = 10 \<longleftrightarrow>
    data_pos p < length (buffer p) \<and> buffer p ! data_pos p = LF"
  by (simp add: peekByte_def)

lemma peek_not_NUL: "peek p \<noteq> NUL \<Longrightarrow> data_pos p < length (buffer p)"
  by (simp add: peek_def split: if_splits)

lemma readCharacter_eq: "readCharacter p = (if eof p then NUL else buffer p ! data_pos p, increment p)"
  by (simp add: readCharacter_def increment_def Let_def)

lemma increment_fields [simp]:
  "buffer (increment p) = buffer p"
  "data_pos p < length (buffer p) \<Longrightarrow> data_pos (increment p) = Suc (data_pos p)"
  by (simp_all add: increment_def eof_def)

lemma incrementCodepoint_fields [simp]:
  "buffer (incrementCodepoint cp n p) = buffer p"
  "data_pos (incrementCodepoint cp n p) = data_pos p + min n (remaining p)"
  by (simp_all add: incrementCodepoint_def Let_def remaining_def min_def)

lemma readCodePoint_fields [simp]:
  "buffer (snd (readCodePoint p)) = buffer p"
  "data_pos (snd (readCodePoint p)) = data_pos p + min (snd (utf8_decode_peek p)) (remaining p)"
  by (simp_all add: readCodePoint_def Let_def remaining_def min_def split: prod.splits)

lemma increment_if_fields [simp]:
  "buffer (snd (increment_if c p)) = buffer p"
  by (simp add: increment_if_def)

lemma rest_increment [simp]: "data_pos p \<le> length (buffer p) \<Longrightarrow> rest_of (increment p) = tl (rest_of p)"
  by (auto simp: rest_of_def increment_def eof_def tl_drop [symmetric] drop_Suc)

lemma increment_if_increment:
  "c \<noteq> CR \<Longrightarrow> increment_if c p = (if data_pos p < length (buffer p) \<and> peek p = c
     then (True, increment p) else (False, p))"
  by (auto simp: increment_if_def increment_def peek_def eof_def handleCharacterRead_def)

lemma remaining_increment [termination_simp]:
  "peek p \<noteq> NUL \<Longrightarrow> remaining (increment p) < remaining p"
  using peek_not_NUL[of p] by (simp add: remaining_def)

lemma remaining_increment_char [termination_simp]:
  "peek p = c \<Longrightarrow> c \<noteq> NUL \<Longrightarrow> remaining (increment p) < remaining p"
  using remaining_increment by blast

subsection \<open>Loops\<close>

text \<open>
  The loops of the readers have one shape: consume while the peeked byte is not the end
  and satisfies a test.
\<close>

function skip_while :: "(char \<Rightarrow> bool) \<Rightarrow> source_provider \<Rightarrow> source_provider" where
  "skip_while P p = (if peek p \<noteq> NUL \<and> P (peek p) then skip_while P (increment p) else p)"
  by pat_completeness auto
termination
  by (relation "measure (\<lambda>(P, p). remaining p)") (auto intro: remaining_increment)

declare skip_while.simps [simp del]

text \<open>\<^verbatim>\<open>readWhitespaces\<close> counts a tab as four, in an \<^verbatim>\<open>unsigned int\<close>.\<close>

function readWhitespaces_loop :: "nat \<Rightarrow> source_provider \<Rightarrow> nat \<times> source_provider" where
  "readWhitespaces_loop whitespaces p =
     (if peek p = CHR '' '' then readWhitespaces_loop ((whitespaces + 1) mod 2 ^ 32) (increment p)
      else if peek p = TAB then readWhitespaces_loop ((whitespaces + 4) mod 2 ^ 32) (increment p)
      else (whitespaces, p))"
  by pat_completeness auto
termination
  by (relation "measure (\<lambda>(n, p). remaining p)") (auto intro: remaining_increment_char)

declare readWhitespaces_loop.simps [simp del]

definition readWhitespaces :: "source_provider \<Rightarrow> nat \<times> source_provider" where
  "readWhitespaces p = readWhitespaces_loop 0 p"

definition skipWhitespaces :: "source_provider \<Rightarrow> source_provider" where
  "skipWhitespaces p = skip_while (\<lambda>c. c = CHR '' '' \<or> c = TAB) p"

definition hasNewLine :: "source_provider \<Rightarrow> bool" where
  "hasNewLine p \<longleftrightarrow> peek p = LF \<or> peek p = CR"

definition readNewLineChars :: "source_provider \<Rightarrow> bool \<times> source_provider" where
  "readNewLineChars p =
     (if peek p = LF then (True, increment p)
      else if peek p = CR then
        let q = increment p in (True, if peek q = LF then increment q else q)
      else (False, p))"

definition readWhitespacesAndNewLines :: "source_provider \<Rightarrow> source_provider" where
  "readWhitespacesAndNewLines p =
     skip_while (\<lambda>c. c = CHR '' '' \<or> c = TAB \<or> c = LF \<or> c = CR) p"

lemma skip_while_rest:
  "data_pos p \<le> length (buffer p) \<Longrightarrow>
   rest_of (skip_while P p) = dropWhile (\<lambda>c. c \<noteq> NUL \<and> P c) (rest_of p)"
proof (induction P p rule: skip_while.induct)
  case (1 P p)
  show ?case
  proof (cases "peek p \<noteq> NUL \<and> P (peek p)")
    case True
    with peek_not_NUL have lt: "data_pos p < length (buffer p)" by blast
    have "rest_of (skip_while P p) = dropWhile (\<lambda>c. c \<noteq> NUL \<and> P c) (tl (rest_of p))"
      using 1 True lt by (simp add: skip_while.simps[of P p])
    moreover have "rest_of p = peek p # tl (rest_of p)" using lt by (rule rest_peek)
    ultimately show ?thesis using True dropWhile.simps(2)[of _ "peek p" "tl (rest_of p)"] by simp
  next
    case False
    then show ?thesis
      by (auto simp: skip_while.simps[of P p] peek_rest split: list.splits)
  qed
qed

subsection \<open>What the readers can reach\<close>

text \<open>
  Every reading operation is a sequence of four moves. \<open>reads p q\<close>: the provider \<open>p\<close> can be
  left as \<open>q\<close>. A carriage return is consumed by \<open>incrementCodepoint\<close> only right after a
  quote or a backslash, inside a character literal.
\<close>

definition after_quote :: "source_provider \<Rightarrow> bool" where
  "after_quote p \<longleftrightarrow> data_pos p > 0 \<and>
     (buffer p ! (data_pos p - 1) = CHR 0x27 \<or> buffer p ! (data_pos p - 1) = CHR 0x5C)"

inductive reads :: "source_provider \<Rightarrow> source_provider \<Rightarrow> bool" where
  reads_refl: "reads p p"
| reads_increment: "reads p q \<Longrightarrow> reads p (increment q)"
| reads_code_point: "reads p q \<Longrightarrow> reads p (snd (readCodePoint q))"
| reads_codepoint_increment:
    "reads p q \<Longrightarrow> utf8_decode_peek q = (cp, n) \<Longrightarrow>
     (cp = byte_code CR \<Longrightarrow> after_quote q) \<Longrightarrow> reads p (incrementCodepoint cp n q)"

lemma reads_trans: "reads q r \<Longrightarrow> reads p q \<Longrightarrow> reads p r"
  by (induction rule: reads.induct) (auto intro: reads.intros)

lemma reads_step: "reads (increment p) r \<Longrightarrow> reads p r"
  using reads_trans reads_increment[OF reads_refl] by blast

lemma reads_skip_while: "reads p (skip_while P p)"
proof (induction P p rule: skip_while.induct)
  case (1 P p)
  then show ?case
    by (subst skip_while.simps) (auto intro: reads_step reads_refl)
qed

lemma reads_readCharacter: "reads p (snd (readCharacter p))"
  by (simp add: readCharacter_eq reads_increment reads_refl)

lemma reads_increment_if: "c \<noteq> CR \<Longrightarrow> reads p (snd (increment_if c p))"
  by (simp add: increment_if_increment reads_increment reads_refl)

lemma reads_readWhitespaces_loop: "reads p (snd (readWhitespaces_loop n p))"
proof (induction n p rule: readWhitespaces_loop.induct)
  case (1 n p)
  then show ?case
    by (subst readWhitespaces_loop.simps) (auto intro: reads_step reads_refl)
qed

lemma reads_readNewLineChars: "reads p (snd (readNewLineChars p))"
  by (simp add: readNewLineChars_def Let_def reads.intros)

lemma reads_extends:
  "reads p q \<Longrightarrow> buffer q = buffer p \<and> data_pos p \<le> data_pos q \<and>
     (data_pos p \<le> length (buffer p) \<longrightarrow> data_pos q \<le> length (buffer q))"
proof (induction rule: reads.induct)
  case (reads_increment p q)
  then show ?case by (auto simp: increment_def eof_def)
qed (auto simp: remaining_def)

lemmas reads_buffer = reads_extends[THEN conjunct1]
lemmas reads_mono = reads_extends[THEN conjunct2, THEN conjunct1]
lemmas reads_in_range = reads_extends[THEN conjunct2, THEN conjunct2, rule_format]

subsection \<open>Line numbers\<close>

text \<open>
  A line ends at a line feed, a form feed, or a carriage return that no line feed follows.
  \<open>lines_upto\<close> counts the line ends among the first \<open>n\<close> bytes.
\<close>

definition line_break_at :: "string \<Rightarrow> nat \<Rightarrow> bool" where
  "line_break_at buf i \<longleftrightarrow> buf ! i = LF \<or> buf ! i = FF \<or>
     (buf ! i = CR \<and> \<not> (Suc i < length buf \<and> buf ! Suc i = LF))"

definition lines_upto :: "string \<Rightarrow> nat \<Rightarrow> nat" where
  "lines_upto buf n = length (filter (line_break_at buf) [0..<n])"

definition line_ok :: "source_provider \<Rightarrow> bool" where
  "line_ok p \<longleftrightarrow> data_pos p \<le> length (buffer p) \<and>
     lineNumber p = lines_upto (buffer p) (data_pos p) mod 2 ^ 32"

lemma lines_upto_Suc: "lines_upto buf (Suc n) = lines_upto buf n + (if line_break_at buf n then 1 else 0)"
  by (simp add: lines_upto_def)

lemma lines_upto_none:
  "\<forall>i. n \<le> i \<and> i < n + k \<longrightarrow> \<not> line_break_at buf i \<Longrightarrow> lines_upto buf (n + k) = lines_upto buf n"
  by (induction k) (simp_all add: lines_upto_Suc)

lemma line_ok_increment: "line_ok p \<Longrightarrow> line_ok (increment p)"
  by (auto simp: line_ok_def increment_def eof_def handleCharacterRead_def lines_upto_Suc
      line_break_at_def peekByte_LF mod_Suc_eq)

subsection \<open>What the decoder returns\<close>

lemma byte_code_less: "byte_code c < 256"
  using of_char_mod_256[of c, where ?'a = nat] by (metis mod_less_divisor zero_less_numeral)

lemma utf8_values:
  fixes a b c d :: nat
  assumes "b < 64" and "c < 64" and "d < 64"
  shows "push_bit 6 a OR b = a * 64 + b"
    and "push_bit 12 a OR push_bit 6 b OR c = a * 4096 + b * 64 + c"
    and "push_bit 18 a OR push_bit 12 b OR push_bit 6 c OR d = a * 262144 + b * 4096 + c * 64 + d"
proof -
  have bc: "push_bit 6 b OR c = b * 64 + c" and cd: "push_bit 6 c OR d = c * 64 + d"
    using push_or_add[of c 6 b] push_or_add[of d 6 c] assms by simp_all
  show "push_bit 6 a OR b = a * 64 + b" using push_or_add[of b 6 a] assms by simp
  show "push_bit 12 a OR push_bit 6 b OR c = a * 4096 + b * 64 + c"
    unfolding bc using push_or_add[of "b * 64 + c" 12 a] assms by simp
  have bcd: "push_bit 12 b OR (c * 64 + d) = b * 4096 + (c * 64 + d)"
    using push_or_add[of "c * 64 + d" 12 b] assms by simp
  show "push_bit 18 a OR push_bit 12 b OR push_bit 6 c OR d = a * 262144 + b * 4096 + c * 64 + d"
    unfolding cd bcd using push_or_add[of "b * 4096 + (c * 64 + d)" 18 a] assms by simp
qed

lemma utf8_values_mod:
  fixes a b c d :: nat
  shows "push_bit 6 a OR b mod 64 = a * 64 + b mod 64"
    and "push_bit 12 a OR push_bit 6 (b mod 64) OR c mod 64 = a * 4096 + b mod 64 * 64 + c mod 64"
    and "push_bit 18 a OR push_bit 12 (b mod 64) OR push_bit 6 (c mod 64) OR d mod 64 =
      a * 262144 + b mod 64 * 4096 + c mod 64 * 64 + d mod 64"
  using utf8_values[of "b mod 64" "c mod 64" "d mod 64" a] by simp_all

text \<open>The decoder with its bit operations read as arithmetic.\<close>

lemma utf8_decode_peek_arith:
  assumes "byte = (\<lambda>i. byte_code (buffer p ! (data_pos p + i)))"
  shows "utf8_decode_peek p =
    (if eof p then (0, 0)
     else if byte 0 < 128 then (byte 0, 1)
     else if 194 \<le> byte 0 \<and> byte 0 < 224 \<and> 2 \<le> remaining p \<and> 128 \<le> byte 1 \<and> byte 1 < 192
     then (byte 0 mod 32 * 64 + byte 1 mod 64, 2)
     else if 224 \<le> byte 0 \<and> byte 0 < 240 \<and> 3 \<le> remaining p \<and> 128 \<le> byte 1 \<and> byte 1 < 192 \<and>
       128 \<le> byte 2 \<and> byte 2 < 192 \<and> (byte 0 \<noteq> 224 \<or> 160 \<le> byte 1) \<and> (byte 0 \<noteq> 237 \<or> byte 1 \<le> 159)
     then (byte 0 mod 16 * 4096 + byte 1 mod 64 * 64 + byte 2 mod 64, 3)
     else if 240 \<le> byte 0 \<and> byte 0 \<le> 244 \<and> 4 \<le> remaining p \<and> 128 \<le> byte 1 \<and> byte 1 < 192 \<and>
       128 \<le> byte 2 \<and> byte 2 < 192 \<and> 128 \<le> byte 3 \<and> byte 3 < 192 \<and>
       (byte 0 \<noteq> 240 \<or> 144 \<le> byte 1) \<and> (byte 0 \<noteq> 244 \<or> byte 1 \<le> 143)
     then (byte 0 mod 8 * 262144 + byte 1 mod 64 * 4096 + byte 2 mod 64 * 64 + byte 3 mod 64, 4)
     else (0xFFFD, 1))"
proof -
  define b0 b1 b2 b3 where "b0 = byte 0" and "b1 = byte 1" and "b2 = byte 2" and "b3 = byte 3"
  have less: "b0 < 256" "b1 < 256" "b2 < 256" "b3 < 256"
    by (simp_all add: b0_def b1_def b2_def b3_def assms byte_code_less)
  note tests = less[THEN utf8_tests(1)] utf8_tests(2-4)[OF less(1)] byte_masks
    utf8_values[of "b1 mod 64" "b2 mod 64" "b3 mod 64", simplified]
  consider "b0 < 128" | "128 \<le> b0" "b0 < 192" | "192 \<le> b0" "b0 < 224"
    | "224 \<le> b0" "b0 < 240" | "240 \<le> b0" "b0 < 248" | "248 \<le> b0" by linarith
  then show ?thesis
    unfolding utf8_decode_peek_def Let_def assms[symmetric] remaining_def[symmetric]
      b0_def[symmetric] b1_def[symmetric] b2_def[symmetric] b3_def[symmetric]
    by cases (simp_all only: tests, simp_all, auto)
qed

lemma utf8_not_ascii:
  fixes b c x y :: nat
  shows "194 \<le> b \<Longrightarrow> b < 224 \<Longrightarrow> 128 \<le> b mod 32 * 64 + x"
    and "224 \<le> b \<Longrightarrow> b < 240 \<Longrightarrow> c < 192 \<Longrightarrow> b \<noteq> 224 \<or> 160 \<le> c \<Longrightarrow>
      128 \<le> b mod 16 * 4096 + c mod 64 * 64 + x"
    and "240 \<le> b \<Longrightarrow> b \<le> 244 \<Longrightarrow> c < 192 \<Longrightarrow> b \<noteq> 240 \<or> 144 \<le> c \<Longrightarrow>
      128 \<le> b mod 8 * 262144 + c mod 64 * 4096 + x + y"
proof -
  have sub: "n mod m = n - q * m" if "q * m \<le> n" "n < q * m + m" for n m q :: nat
    using that by (metis add_diff_cancel_left' div_mult_eq_iff[of m n q] gr0I less_nat_zero_code
        minus_div_mult_eq_mod mult_0_right add_0_right not_less)
  show "194 \<le> b \<Longrightarrow> b < 224 \<Longrightarrow> 128 \<le> b mod 32 * 64 + x"
    using sub[of 6 32 b] by simp
  show "224 \<le> b \<Longrightarrow> b < 240 \<Longrightarrow> c < 192 \<Longrightarrow> b \<noteq> 224 \<or> 160 \<le> c \<Longrightarrow>
      128 \<le> b mod 16 * 4096 + c mod 64 * 64 + x"
    using sub[of 14 16 b] sub[of 2 64 c] by (cases "b = 224") auto
  show "240 \<le> b \<Longrightarrow> b \<le> 244 \<Longrightarrow> c < 192 \<Longrightarrow> b \<noteq> 240 \<or> 144 \<le> c \<Longrightarrow>
      128 \<le> b mod 8 * 262144 + c mod 64 * 4096 + x + y"
    using sub[of 30 8 b] sub[of 2 64 c] by (cases "b = 240") auto
qed

lemma all_less_numerals:
  "(\<forall>i<1. P i) = P (0::nat)" "(\<forall>i<2. P i) = (P 0 \<and> P (1::nat))"
  "(\<forall>i<3. P i) = (P 0 \<and> P 1 \<and> P (2::nat))" "(\<forall>i<4. P i) = (P 0 \<and> P 1 \<and> P 2 \<and> P (3::nat))"
  by (auto simp: numeral_2_eq_2 numeral_3_eq_3 eval_nat_numeral less_Suc_eq)

lemma utf8_decode_multi:
  assumes byte: "byte = (\<lambda>i. byte_code (buffer p ! (data_pos p + i)))"
    and cp: "utf8_decode_peek p = (cp, n)" and ne: "\<not> eof p" and b0: "\<not> byte 0 < 128"
    and rem: "1 \<le> remaining p"
  shows "1 \<le> n \<and> n \<le> remaining p \<and> 128 \<le> cp \<and> (\<forall>i<n. 128 \<le> byte i)"
proof -
  note cp' = cp[symmetric, unfolded utf8_decode_peek_arith[OF byte] if_not_P[OF ne] if_not_P[OF b0]]
  from cp' consider "cp = byte 0 mod 32 * 64 + byte 1 mod 64" "n = 2" "194 \<le> byte 0" "byte 0 < 224"
      "2 \<le> remaining p" "128 \<le> byte 1"
    | "cp = byte 0 mod 16 * 4096 + byte 1 mod 64 * 64 + byte 2 mod 64" "n = 3" "224 \<le> byte 0"
      "byte 0 < 240" "3 \<le> remaining p" "128 \<le> byte 1" "byte 1 < 192" "128 \<le> byte 2"
      "byte 0 \<noteq> 224 \<or> 160 \<le> byte 1"
    | "cp = byte 0 mod 8 * 262144 + byte 1 mod 64 * 4096 + byte 2 mod 64 * 64 + byte 3 mod 64" "n = 4"
      "240 \<le> byte 0" "byte 0 \<le> 244" "4 \<le> remaining p" "128 \<le> byte 1" "byte 1 < 192"
      "128 \<le> byte 2" "128 \<le> byte 3" "byte 0 \<noteq> 240 \<or> 144 \<le> byte 1"
    | "cp = 0xFFFD" "n = 1"
    by (simp only: prod.inject split: if_splits)
  then show ?thesis
  proof cases
    case 1
    have "128 \<le> cp" unfolding 1(1) using 1(3,4) by (rule utf8_not_ascii(1))
    with 1(2,5,6) b0 show ?thesis by (simp add: all_less_numerals)
  next
    case 2
    have "128 \<le> cp" unfolding 2(1) using 2(3,4,7,9) by (rule utf8_not_ascii(2))
    with 2(2,5,6,8) b0 show ?thesis by (simp add: all_less_numerals)
  next
    case 3
    have "128 \<le> cp" unfolding 3(1) using 3(3,4,7,10) by (rule utf8_not_ascii(3))
    with 3(2,5,6,8,9) b0 show ?thesis by (simp add: all_less_numerals)
  next
    case 4
    with rem b0 show ?thesis by simp
  qed
qed

text \<open>
  The end of the input, an ASCII byte, or at least one byte none of which is ASCII.
\<close>

lemma utf8_decode_shape:
  assumes "data_pos p \<le> length (buffer p)" and "utf8_decode_peek p = (cp, n)"
  obtains "eof p" "n = 0" "cp = 0"
  | "\<not> eof p" "n = 1" "cp = byte_code (peek p)" "cp < 128"
  | "\<not> eof p" "1 \<le> n" "n \<le> remaining p" "128 \<le> cp"
    "\<forall>i<n. 128 \<le> byte_code (buffer p ! (data_pos p + i))"
proof (cases "eof p")
  case True
  with assms(2) that(1) show thesis by (simp add: utf8_decode_peek_def)
next
  case ne: False
  with assms(1) have lt: "data_pos p < length (buffer p)" by (simp add: eof_def)
  show thesis
  proof (cases "byte_code (buffer p ! data_pos p) < 128")
    case True
    with ne lt assms(2) that(2) show thesis by (simp add: utf8_decode_peek_def peek_def Let_def)
  next
    case False
    with utf8_decode_multi[OF refl assms(2) ne] lt that(3) ne show thesis by (simp add: remaining_def)
  qed
qed

lemma utf8_decode_eof: "utf8_decode_peek p = (cp, n) \<Longrightarrow> n = 0 \<longleftrightarrow> eof p"
  by (auto simp: utf8_decode_peek_def Let_def split: if_splits)

lemma handleCodepointRead_byte: "handleCodepointRead (byte_code c) p = handleCharacterRead c p"
  by (simp add: handleCodepointRead_def handleCharacterRead_def)

lemma readCodePoint_ascii:
  assumes "data_pos p < length (buffer p)" and "byte_code (peek p) < 128"
  shows "readCodePoint p = (byte_code (peek p), increment p)"
  using assms
  by (simp add: readCodePoint_def utf8_decode_peek_def increment_def eof_def peek_def Let_def
      handleCodepointRead_byte)

lemma incrementCodepoint_ascii:
  assumes "data_pos p < length (buffer p)" and "peek p \<noteq> CR"
  shows "incrementCodepoint (byte_code (peek p)) (Suc 0) p = increment p"
  using assms
  by (auto simp: incrementCodepoint_def increment_def eof_def peek_def Let_def
      handleCodepointRead_byte handleCharacterRead_def)

lemma lines_upto_non_ascii:
  assumes "\<forall>i<n. 128 \<le> byte_code (buf ! (k + i))"
  shows "lines_upto buf (k + n) = lines_upto buf k"
proof (rule lines_upto_none, intro allI impI)
  fix i assume i: "k \<le> i \<and> i < k + n"
  with assms[rule_format, of "i - k"] have "128 \<le> byte_code (buf ! i)" by auto
  then show "\<not> line_break_at buf i" by (auto simp: line_break_at_def)
qed

lemma line_ok_non_ascii:
  assumes "line_ok p" and "128 \<le> cp" and "n \<le> remaining p"
    and "\<forall>i<n. 128 \<le> byte_code (buffer p ! (data_pos p + i))"
  shows "line_ok (handleCodepointRead cp (p\<lparr>data_pos := data_pos p + n\<rparr>))"
  using assms lines_upto_non_ascii[OF assms(4)]
  by (auto simp: line_ok_def handleCodepointRead_def remaining_def)

lemma line_ok_readCodePoint:
  assumes "line_ok p"
  shows "line_ok (snd (readCodePoint p))"
proof -
  obtain cp n where u: "utf8_decode_peek p = (cp, n)" by fastforce
  have pos: "data_pos p \<le> length (buffer p)" using assms by (simp add: line_ok_def)
  from pos u show ?thesis
  proof (cases rule: utf8_decode_shape)
    case 1
    with u assms show ?thesis by (simp add: readCodePoint_def)
  next
    case 2
    with pos assms show ?thesis
      by (simp add: readCodePoint_ascii line_ok_increment eof_def)
  next
    case 3
    with u assms line_ok_non_ascii[OF assms, of cp n] show ?thesis
      by (simp add: readCodePoint_def remaining_def)
  qed
qed

lemma line_ok_incrementCodepoint:
  assumes "line_ok p" and "utf8_decode_peek p = (cp, n)"
    and "peek p = CR \<Longrightarrow> \<not> (Suc (data_pos p) < length (buffer p) \<and> buffer p ! Suc (data_pos p) = LF)"
  shows "line_ok (incrementCodepoint cp n p)"
proof -
  have pos: "data_pos p \<le> length (buffer p)" using assms(1) by (simp add: line_ok_def)
  from pos assms(2) show ?thesis
  proof (cases rule: utf8_decode_shape)
    case 1
    with assms(1) show ?thesis
      by (simp add: incrementCodepoint_def line_ok_def handleCodepointRead_def)
  next
    case 2
    show ?thesis
    proof (cases "peek p = CR")
      case True
      with 2 pos assms(1,3) show ?thesis
        by (auto simp: incrementCodepoint_def line_ok_def eof_def Let_def peek_def
            handleCodepointRead_byte handleCharacterRead_def lines_upto_Suc line_break_at_def handleCodepointRead_def peekByte_def mod_Suc_eq)
    next
      case False
      with 2 pos have "incrementCodepoint cp n p = increment p"
        by (simp add: incrementCodepoint_ascii eof_def)
      with assms(1) show ?thesis by (simp add: line_ok_increment)
    qed
  next
    case 3
    then have "incrementCodepoint cp n p = handleCodepointRead cp (p\<lparr>data_pos := data_pos p + n\<rparr>)"
      by (simp add: incrementCodepoint_def handleCodepointRead_def remaining_def)
    with 3 line_ok_non_ascii[OF assms(1)] show ?thesis by simp
  qed
qed

text \<open>
  A buffer without a carriage return and line feed inside a character literal: then every
  move keeps the line count exact.
\<close>

definition no_quoted_crlf :: "string \<Rightarrow> bool" where
  "no_quoted_crlf buf \<longleftrightarrow> list_all (\<lambda>i.
     \<not> ((buf ! i = CHR 0x27 \<or> buf ! i = CHR 0x5C) \<and> buf ! (i + 1) = CR \<and> buf ! (i + 2) = LF))
     [0..<length buf - 2]"

lemma reads_line_ok:
  "reads p q \<Longrightarrow> no_quoted_crlf (buffer p) \<Longrightarrow> line_ok p \<Longrightarrow> line_ok q"
proof (induction rule: reads.induct)
  case (reads_codepoint_increment p q cp n)
  then have ok: "line_ok q" and buf: "buffer q = buffer p" by (auto dest: reads_buffer)
  show ?case
  proof (rule line_ok_incrementCodepoint[OF ok reads_codepoint_increment.hyps(2)], rule notI)
    assume cr: "peek q = CR" and
      lf: "Suc (data_pos q) < length (buffer q) \<and> buffer q ! Suc (data_pos q) = LF"
    then have "cp = byte_code CR"
      using reads_codepoint_increment.hyps(2)
      by (auto simp: utf8_decode_peek_def eof_def peek_def Let_def split: if_splits)
    then have "after_quote q" by (rule reads_codepoint_increment.hyps(3))
    then have "\<not> no_quoted_crlf (buffer q)" using cr lf
      by (auto simp: after_quote_def no_quoted_crlf_def list_all_iff peek_def Suc_diff_Suc
          intro!: bexI[of _ "data_pos q - 1"])
    with buf reads_codepoint_increment.prems show False by simp
  qed
qed (simp_all add: line_ok_increment line_ok_readCodePoint)

end
