(* ===== verification/Unicode_Class.thy ===== *)
theory Unicode_Class
  imports Source_Provider
begin

text \<open>
  The code point classes of \<^verbatim>\<open>lexer/Lexer.cpp\<close> (lines 187 to 373): what may start and what
  may continue an identifier. Each test is a chain of early returns over ranges; a code
  point is a natural number.
\<close>

subsection \<open>ASCII\<close>

text \<open>The overloads on \<^verbatim>\<open>char\<close> and on \<^verbatim>\<open>uint32_t\<close>.\<close>

definition is_ascii_digit_char :: "char \<Rightarrow> bool" where
  "is_ascii_digit_char c \<longleftrightarrow> byte_code CHR ''0'' \<le> byte_code c \<and> byte_code c \<le> byte_code CHR ''9''"

definition is_ascii_letter_or_digit_char :: "char \<Rightarrow> bool" where
  "is_ascii_letter_or_digit_char c \<longleftrightarrow>
     (byte_code CHR ''a'' \<le> byte_code c \<and> byte_code c \<le> byte_code CHR ''z'') \<or>
     is_ascii_digit_char c \<or>
     (byte_code CHR ''A'' \<le> byte_code c \<and> byte_code c \<le> byte_code CHR ''Z'')"

definition is_ascii_digit :: "nat \<Rightarrow> bool" where
  "is_ascii_digit cp \<longleftrightarrow> byte_code CHR ''0'' \<le> cp \<and> cp \<le> byte_code CHR ''9''"

definition is_ascii_letter_or_underscore :: "nat \<Rightarrow> bool" where
  "is_ascii_letter_or_underscore cp \<longleftrightarrow>
     cp = byte_code CHR ''_'' \<or>
     (byte_code CHR ''A'' \<le> cp \<and> cp \<le> byte_code CHR ''Z'') \<or>
     (byte_code CHR ''a'' \<le> cp \<and> cp \<le> byte_code CHR ''z'')"

definition is_ascii_letter_digit_or_underscore :: "nat \<Rightarrow> bool" where
  "is_ascii_letter_digit_or_underscore cp \<longleftrightarrow>
     is_ascii_letter_or_underscore cp \<or> is_ascii_digit cp"

subsection \<open>Code points that are not characters of a name\<close>

definition is_noncharacter :: "nat \<Rightarrow> bool" where
  "is_noncharacter cp \<longleftrightarrow>
     (if 0xFDD0 \<le> cp \<and> cp \<le> 0xFDEF then True
      else cp AND 0xFFFE = 0xFFFE \<and> 0xFFFE \<le> cp \<and> cp \<le> 0x10FFFF)"

definition is_private_use :: "nat \<Rightarrow> bool" where
  "is_private_use cp \<longleftrightarrow>
    (if 0xE000 \<le> cp \<and> cp \<le> 0xF8FF then True
     else if 0xF0000 \<le> cp \<and> cp \<le> 0xFFFFD then True
     else if 0x100000 \<le> cp \<and> cp \<le> 0x10FFFD then True
     else False)"

definition is_surrogate :: "nat \<Rightarrow> bool" where
  "is_surrogate cp \<longleftrightarrow> 0xD800 \<le> cp \<and> cp \<le> 0xDFFF"

definition is_control_or_format :: "nat \<Rightarrow> bool" where
  "is_control_or_format cp \<longleftrightarrow>
    (if cp \<le> 0x1F then True
     else if 0x7F \<le> cp \<and> cp \<le> 0x9F then True
     else if (0x200E \<le> cp \<and> cp \<le> 0x200F) \<or> (0x202A \<le> cp \<and> cp \<le> 0x202E) \<or>
       (0x2060 \<le> cp \<and> cp \<le> 0x206F) then True
     else False)"

definition is_space_separator :: "nat \<Rightarrow> bool" where
  "is_space_separator cp \<longleftrightarrow>
    (if cp = 0x00A0 then True
     else if cp = 0x1680 then True
     else if 0x2000 \<le> cp \<and> cp \<le> 0x200A then True
     else if cp = 0x2028 \<or> cp = 0x2029 then True
     else if cp = 0x202F then True
     else if cp = 0x205F then True
     else if cp = 0x3000 then True
     else False)"

definition is_punctuation_or_symbol_block :: "nat \<Rightarrow> bool" where
  "is_punctuation_or_symbol_block cp \<longleftrightarrow>
    (if 0x2000 \<le> cp \<and> cp \<le> 0x206F then True
     else if 0x2E00 \<le> cp \<and> cp \<le> 0x2E7F then True
     else if 0x3000 \<le> cp \<and> cp \<le> 0x303F then True
     else if 0x2190 \<le> cp \<and> cp \<le> 0x21FF then True
     else if 0x2200 \<le> cp \<and> cp \<le> 0x22FF then True
     else if 0x2300 \<le> cp \<and> cp \<le> 0x23FF then True
     else if 0x2460 \<le> cp \<and> cp \<le> 0x24FF then True
     else if 0x2500 \<le> cp \<and> cp \<le> 0x257F then True
     else if 0x25A0 \<le> cp \<and> cp \<le> 0x25FF then True
     else if 0x2600 \<le> cp \<and> cp \<le> 0x26FF then True
     else if 0x2700 \<le> cp \<and> cp \<le> 0x27BF then True
     else if 0x2B00 \<le> cp \<and> cp \<le> 0x2BFF then True
     else if 0x1F000 \<le> cp \<and> cp \<le> 0x1F9FF then True
     else if 0x1FA70 \<le> cp \<and> cp \<le> 0x1FAFF then True
     else if 0x2300 \<le> cp \<and> cp \<le> 0x23FF then True
     else if 0xFE00 \<le> cp \<and> cp \<le> 0xFE0F then False
     else if 0x20A0 \<le> cp \<and> cp \<le> 0x20CF then True
     else False)"

definition is_unicode_digit_common :: "nat \<Rightarrow> bool" where
  "is_unicode_digit_common cp \<longleftrightarrow>
    (if 0x0660 \<le> cp \<and> cp \<le> 0x0669 then True
     else if 0x06F0 \<le> cp \<and> cp \<le> 0x06F9 then True
     else if 0x07C0 \<le> cp \<and> cp \<le> 0x07C9 then True
     else if 0x0966 \<le> cp \<and> cp \<le> 0x096F then True
     else if 0x09E6 \<le> cp \<and> cp \<le> 0x09EF then True
     else if 0x0A66 \<le> cp \<and> cp \<le> 0x0A6F then True
     else if 0x0AE6 \<le> cp \<and> cp \<le> 0x0AEF then True
     else if 0x0B66 \<le> cp \<and> cp \<le> 0x0B6F then True
     else if 0x0BE6 \<le> cp \<and> cp \<le> 0x0BEF then True
     else if 0x0C66 \<le> cp \<and> cp \<le> 0x0C6F then True
     else if 0x0CE6 \<le> cp \<and> cp \<le> 0x0CEF then True
     else if 0x0D66 \<le> cp \<and> cp \<le> 0x0D6F then True
     else if 0x0E50 \<le> cp \<and> cp \<le> 0x0E59 then True
     else if 0x0ED0 \<le> cp \<and> cp \<le> 0x0ED9 then True
     else if 0x0F20 \<le> cp \<and> cp \<le> 0x0F29 then True
     else if 0x1040 \<le> cp \<and> cp \<le> 0x1049 then True
     else if 0x17E0 \<le> cp \<and> cp \<le> 0x17E9 then True
     else if 0x1810 \<le> cp \<and> cp \<le> 0x1819 then True
     else if 0x1946 \<le> cp \<and> cp \<le> 0x194F then True
     else if 0x19D0 \<le> cp \<and> cp \<le> 0x19D9 then True
     else if 0x1A80 \<le> cp \<and> cp \<le> 0x1A89 then True
     else if 0x1B50 \<le> cp \<and> cp \<le> 0x1B59 then True
     else if 0x1BB0 \<le> cp \<and> cp \<le> 0x1BB9 then True
     else if 0xFF10 \<le> cp \<and> cp \<le> 0xFF19 then True
     else False)"

definition is_zero_width_joiner_or_non_joiner :: "nat \<Rightarrow> bool" where
  "is_zero_width_joiner_or_non_joiner cp \<longleftrightarrow> cp = 0x200C \<or> cp = 0x200D"

subsection \<open>Identifier characters\<close>

definition isIdentifierStart :: "nat \<Rightarrow> bool" where
  "isIdentifierStart cp \<longleftrightarrow>
    (if cp < 0x80 then is_ascii_letter_or_underscore cp
     else if cp > 0x10FFFF then False
     else if is_surrogate cp then False
     else if is_noncharacter cp then False
     else if is_private_use cp then False
     else if is_control_or_format cp then False
     else if is_space_separator cp then False
     else if is_punctuation_or_symbol_block cp then False
     else if is_unicode_digit_common cp then False
     else True)"

definition isIdentifierContinue :: "nat \<Rightarrow> bool" where
  "isIdentifierContinue cp \<longleftrightarrow>
    (if cp < 0x80 then is_ascii_letter_digit_or_underscore cp
     else if cp > 0x10FFFF then False
     else if is_surrogate cp then False
     else if is_noncharacter cp then False
     else if is_private_use cp then False
     else if is_control_or_format cp then False
     else if is_space_separator cp then False
     else if is_punctuation_or_symbol_block cp then False
     else if is_zero_width_joiner_or_non_joiner cp then True
     else True)"

subsection \<open>What the classes promise\<close>

lemma identifier_start_continue: "isIdentifierStart cp \<Longrightarrow> isIdentifierContinue cp"
  by (simp add: isIdentifierStart_def isIdentifierContinue_def
      is_ascii_letter_digit_or_underscore_def split: if_splits)

lemma identifier_continue_ascii:
  "cp < 128 \<Longrightarrow> isIdentifierContinue cp \<longleftrightarrow> cp = 95 \<or> 48 \<le> cp \<and> cp \<le> 57 \<or>
     65 \<le> cp \<and> cp \<le> 90 \<or> 97 \<le> cp \<and> cp \<le> 122"
  by (auto simp: isIdentifierContinue_def is_ascii_letter_digit_or_underscore_def
      is_ascii_letter_or_underscore_def is_ascii_digit_def)

lemma identifier_start_ascii:
  "cp < 128 \<Longrightarrow> isIdentifierStart cp \<longleftrightarrow> cp = 95 \<or> 65 \<le> cp \<and> cp \<le> 90 \<or> 97 \<le> cp \<and> cp \<le> 122"
  by (auto simp: isIdentifierStart_def is_ascii_letter_or_underscore_def)

lemma identifier_continue_not_line_end: "isIdentifierContinue cp \<Longrightarrow> cp \<noteq> 0 \<and> cp \<noteq> 10 \<and> cp \<noteq> 13"
  using identifier_continue_ascii by (cases "cp < 128") auto

lemma is_ascii_digit_char_code: "is_ascii_digit_char c \<longleftrightarrow> is_ascii_digit (byte_code c)"
  by (simp add: is_ascii_digit_char_def is_ascii_digit_def)

end
