(* ===== verification/Lexer_Readers.thy ===== *)
theory Lexer_Readers
  imports Source_Provider Unicode_Class
begin

text \<open>
  The scanning routines of \<^verbatim>\<open>lexer/Lexer.cpp\<close> (lines 375 to 744): numbers, comments, quoted
  and backtick strings, character literals, identifiers. Each takes the provider and leaves
  it after the text it recognises; the routines that return a pointer return an offset.
  Every routine is shown to be a sequence of moves (\<open>reads\<close>), so the invariants of the
  provider hold after it, and every loop terminates.
\<close>

subsection \<open>Numbers\<close>

definition read_digits :: "source_provider \<Rightarrow> source_provider" where
  "read_digits p = skip_while is_ascii_digit_char p"

definition read_alpha_or_digits :: "source_provider \<Rightarrow> source_provider" where
  "read_alpha_or_digits p = skip_while is_ascii_letter_or_digit_char p"

definition read_floating_digits :: "source_provider \<Rightarrow> bool \<times> source_provider" where
  "read_floating_digits p =
     (case increment_if CHR ''.'' (read_digits p) of
        (True, q) \<Rightarrow> (True, read_digits q)
      | (False, q) \<Rightarrow> (False, q))"

definition read_number_suffix :: "source_provider \<Rightarrow> source_provider" where
  "read_number_suffix p =
     (if peek p = CHR ''i'' then read_digits (increment p)
      else if peek p = CHR ''u'' then
        let q = increment p in
        if peek q = CHR ''i'' then read_digits (increment q)
        else if peek q = CHR ''l'' then increment q
        else read_digits q
      else if peek p = CHR ''U'' then
        let q = increment p in
        if peek q = CHR ''L'' then increment q else q
      else if peek p = CHR ''l'' \<or> peek p = CHR ''L'' \<or> peek p = CHR ''f'' then increment p
      else p)"

definition read_number :: "source_provider \<Rightarrow> source_provider" where
  "read_number p =
     (case read_floating_digits p of
        (True, q) \<Rightarrow> if peek q = CHR ''f'' then increment q else q
      | (False, q) \<Rightarrow> read_number_suffix q)"

definition read_zero_starting_number :: "source_provider \<Rightarrow> source_provider" where
  "read_zero_starting_number p =
     (if peek p = CHR ''X'' \<or> peek p = CHR ''x'' \<or> peek p = CHR ''o'' \<or> peek p = CHR ''O''
      then read_number_suffix (read_alpha_or_digits (increment p))
      else if peek p = CHR ''b'' \<or> peek p = CHR ''B''
      then read_number_suffix (read_digits (increment p))
      else read_number p)"

subsection \<open>Comments\<close>

definition read_current_line :: "source_provider \<Rightarrow> source_provider" where
  "read_current_line p = skip_while (\<lambda>c. c \<noteq> LF \<and> c \<noteq> CR) p"

function read_multi_line_comment_text :: "source_provider \<Rightarrow> nat \<times> source_provider" where
  "read_multi_line_comment_text p =
     (case readCharacter p of (read, q) \<Rightarrow>
        if read = NUL then (data_pos q, q)
        else if read = CHR ''*'' \<and> peek q = CHR ''/''
        then let r = increment q in (data_pos r - 2, r)
        else read_multi_line_comment_text q)"
  by pat_completeness auto
termination
  by (relation "measure remaining")
     (auto simp: readCharacter_eq remaining_def eof_def split: if_splits)

subsection \<open>Escapes inside quotes\<close>

definition is_hex_char :: "char \<Rightarrow> bool" where
  "is_hex_char c \<longleftrightarrow>
     (byte_code CHR ''0'' \<le> byte_code c \<and> byte_code c \<le> byte_code CHR ''9'') \<or>
     (byte_code CHR ''a'' \<le> byte_code c \<and> byte_code c \<le> byte_code CHR ''f'') \<or>
     (byte_code CHR ''A'' \<le> byte_code c \<and> byte_code c \<le> byte_code CHR ''F'')"

definition consume_hex_digits :: "source_provider \<Rightarrow> source_provider" where
  "consume_hex_digits p =
     (if is_hex_char (peek p) then
        let q = increment p in if is_hex_char (peek q) then increment q else q
      else p)"

text \<open>The loop \<^verbatim>\<open>while(!eof() && peek() != '}') increment()\<close>: a NUL byte does not stop it.\<close>

function skip_to_brace :: "source_provider \<Rightarrow> source_provider" where
  "skip_to_brace p =
     (if \<not> eof p \<and> peek p \<noteq> CHR ''}'' then skip_to_brace (increment p)
      else p)"
  by pat_completeness auto
termination
  by (relation "measure remaining") (auto simp: remaining_def eof_def)

declare skip_to_brace.simps [simp del] read_multi_line_comment_text.simps [simp del]

fun increment_times :: "nat \<Rightarrow> source_provider \<Rightarrow> source_provider" where
  "increment_times 0 p = p"
| "increment_times (Suc n) p = (if eof p then p else increment_times n (increment p))"

text \<open>The text after \<^verbatim>\<open>\u\<close>: braces, or four characters.\<close>

definition skip_unicode_escape :: "source_provider \<Rightarrow> source_provider" where
  "skip_unicode_escape p =
     (case increment_if CHR ''{'' p of
        (True, q) \<Rightarrow> snd (increment_if CHR ''}'' (skip_to_brace q))
      | (False, q) \<Rightarrow> increment_times 4 q)"

text \<open>What follows a backslash in the string readers: one character, and its operands.\<close>

definition skip_escape :: "source_provider \<Rightarrow> source_provider" where
  "skip_escape p =
     (case readCharacter p of (c, q) \<Rightarrow>
        if c = CHR ''x'' then consume_hex_digits q
        else if c = CHR ''u'' then skip_unicode_escape q
        else q)"

lemma reads_skip_to_brace: "reads p (skip_to_brace p)"
proof (induction p rule: skip_to_brace.induct)
  case (1 p)
  then show ?case by (subst skip_to_brace.simps) (auto intro: reads_step reads_refl)
qed

lemma reads_increment_times: "reads p (increment_times n p)"
  by (induction n p rule: increment_times.induct) (auto intro: reads_step reads_refl)

lemma reads_increment_if_then:
  "c \<noteq> CR \<Longrightarrow> reads (snd (increment_if c p)) q \<Longrightarrow> reads p q"
  using reads_trans reads_increment_if by blast

lemma reads_skip_unicode_escape: "reads p (skip_unicode_escape p)"
  unfolding skip_unicode_escape_def
  by (auto split: prod.splits bool.splits
      intro!: reads_increment_if_then[of "CHR ''{''" p]
        reads_trans[OF reads_increment_if reads_skip_to_brace] reads_increment_times)

lemma reads_consume_hex_digits: "reads p (consume_hex_digits p)"
  by (simp add: consume_hex_digits_def Let_def reads.intros)

lemma reads_skip_escape: "reads p (skip_escape p)"
  unfolding skip_escape_def
  using reads_trans[OF reads_consume_hex_digits reads_readCharacter]
    reads_trans[OF reads_skip_unicode_escape reads_readCharacter] reads_readCharacter
  by (auto split: prod.splits) (metis snd_conv)+

subsection \<open>Strings\<close>

lemma remaining_reads_le: "reads p q \<Longrightarrow> remaining q \<le> remaining p"
  using reads_extends[of p q] by (auto simp: remaining_def)

lemma remaining_readCharacter:
  "readCharacter p = (c, q) \<Longrightarrow> c \<noteq> NUL \<Longrightarrow> remaining q < remaining p"
  by (auto simp: readCharacter_eq remaining_def eof_def split: if_splits)

lemma remaining_skip_escape:
  "readCharacter p = (c, q) \<Longrightarrow> c \<noteq> NUL \<Longrightarrow> remaining (skip_escape q) < remaining p"
  using remaining_readCharacter[of p c q] remaining_reads_le[OF reads_skip_escape, of q] by simp

text \<open>\<^verbatim>\<open>read_multi_line_string\<close> returns the offset of the three closing quotes.\<close>

function read_multi_line_string :: "source_provider \<Rightarrow> nat \<times> source_provider" where
  "read_multi_line_string p =
     (case readCharacter p of (c, q) \<Rightarrow>
        if c = CHR 0x22 then
          (if peek q = CHR 0x22 then
             let r = increment q in
             if peek r = CHR 0x22 then let s = increment r in (data_pos s - 3, s)
             else read_multi_line_string r
           else read_multi_line_string q)
        else if c = NUL then (data_pos q, q)
        else read_multi_line_string q)"
  by pat_completeness auto
termination
proof (relation "measure remaining")
  fix p c q r
  assume "(c, q) = readCharacter p" "c = CHR 0x22" "peek q = CHR 0x22" "r = increment q"
  then have "readCharacter p = (CHR 0x22, q)" by simp
  then have "remaining q < remaining p" by (rule remaining_readCharacter) simp
  moreover have "remaining r < remaining q"
    using \<open>peek q = CHR 0x22\<close> \<open>r = increment q\<close> by (auto intro: remaining_increment_char)
  ultimately show "(r, p) \<in> measure remaining" by simp
qed (auto dest: remaining_readCharacter[OF sym])

text \<open>
  The result of \<^verbatim>\<open>read_backtick_string\<close>: \<open>Some True\<close> when the closing backtick was consumed,
  \<open>Some False\<close> before an expression, \<open>None\<close> at the end of the input.
\<close>

function read_backtick_string :: "source_provider \<Rightarrow> bool option \<times> source_provider" where
  "read_backtick_string p =
     (if peek p = CHR 0x60 then (Some True, increment p)
      else if peek p = CHR 0x5C then read_backtick_string (skip_escape (increment p))
      else if peek p = NUL then (None, p)
      else if peek p = CHR ''$'' \<and> peek_ahead 1 p = CHR ''{'' then (Some False, p)
      else read_backtick_string (increment p))"
  by pat_completeness auto
termination
proof (relation "measure remaining")
  fix p assume "peek p = CHR 0x5C"
  then have "remaining (increment p) < remaining p" by (rule remaining_increment_char) simp
  then show "(skip_escape (increment p), p) \<in> measure remaining"
    using remaining_reads_le[OF reads_skip_escape, of "increment p"] by simp
qed (auto intro: remaining_increment)

text \<open>\<^verbatim>\<open>read_quoted_string\<close>: whether the closing quote was found on the line.\<close>

function read_quoted_string :: "source_provider \<Rightarrow> bool \<times> source_provider" where
  "read_quoted_string p =
     (case readCharacter p of (c, q) \<Rightarrow>
        if c = CHR 0x5C then read_quoted_string (skip_escape q)
        else if c = CHR 0x22 then (True, q)
        else if c = LF \<or> c = CR \<or> c = NUL then (False, q)
        else read_quoted_string q)"
  by pat_completeness auto
termination
  by (relation "measure remaining")
     (auto dest: remaining_readCharacter[OF sym] remaining_skip_escape[OF sym])

declare read_multi_line_string.simps [simp del] read_backtick_string.simps [simp del]
  read_quoted_string.simps [simp del]

text \<open>
  \<^verbatim>\<open>read_quoted_string2\<close> has no case for the end of the input, so it is a partial function:
  \<open>None\<close> is a call that does not return.
\<close>

partial_function (option) read_quoted_string2 ::
  "source_provider \<Rightarrow> (bool option \<times> source_provider) option" where
  "read_quoted_string2 p =
     (if peek p = CHR 0x5C then read_quoted_string2 (skip_escape (increment p))
      else if peek p = CHR 0x22 then Some (Some True, increment p)
      else if peek p = CHR ''{'' then Some (Some False, p)
      else if peek p = LF \<or> peek p = CR then Some (None, increment p)
      else read_quoted_string2 (increment p))"

subsection \<open>Character literals and names\<close>

definition read_char_in_quotes :: "source_provider \<Rightarrow> bool \<times> source_provider" where
  "read_char_in_quotes p =
    (case utf8_decode_peek p of (cp, len) \<Rightarrow>
       if cp = 0 then (False, p)
       else if cp = byte_code CHR 0x5C then
         let q = incrementCodepoint cp len p in
         (case utf8_decode_peek q of (cp', len') \<Rightarrow>
            if cp' = 0 then (False, q)
            else if cp' = byte_code CHR ''x''
            then (True, consume_hex_digits (incrementCodepoint cp' len' q))
            else if cp' = byte_code CHR ''u'' then
              let r = incrementCodepoint cp' len' q in
              (True,
                if peek r = CHR ''{'' then
                  let t = skip_to_brace (increment r) in
                  if peek t = CHR ''}'' then increment t else t
                else increment_times 4 r)
            else (True, incrementCodepoint cp' len' q))
       else if cp = byte_code CHR 0x27 then (False, p)
       else (True, incrementCodepoint cp len p))"

lemma utf8_remaining:
  "utf8_decode_peek p = (cp, n) \<Longrightarrow> cp \<noteq> 0 \<Longrightarrow> remaining (incrementCodepoint cp n p) < remaining p"
  using utf8_decode_eof[of p cp n]
  by (auto simp: remaining_def utf8_decode_peek_def eof_def split: if_splits)

function read_id :: "source_provider \<Rightarrow> source_provider" where
  "read_id p =
     (case utf8_decode_peek p of (cp, len) \<Rightarrow>
        if cp \<noteq> 0 \<and> isIdentifierContinue cp then read_id (incrementCodepoint cp len p) else p)"
  by pat_completeness auto
termination
  by (relation "measure remaining") (auto dest: utf8_remaining[OF sym])

function read_annotation_id :: "source_provider \<Rightarrow> source_provider" where
  "read_annotation_id p =
     (case utf8_decode_peek p of (cp, len) \<Rightarrow>
        if cp = byte_code CHR ''_'' \<or> cp = byte_code CHR ''.'' \<or> cp = byte_code CHR '':''
        then read_annotation_id (incrementCodepoint cp len p)
        else if cp = 0 then p
        else if isIdentifierContinue cp then read_annotation_id (incrementCodepoint cp len p)
        else p)"
  by pat_completeness auto
termination
  by (relation "measure remaining") (auto dest: utf8_remaining[OF sym])

declare read_id.simps [simp del] read_annotation_id.simps [simp del]

subsection \<open>Every reader is a sequence of moves\<close>

lemma utf8_ascii:
  assumes "utf8_decode_peek p = (byte_code c, n)" and "byte_code c < 128" and "c \<noteq> NUL"
  shows "n = 1" and "peek p = c" and "data_pos p < length (buffer p)"
proof -
  have nz: "byte_code c \<noteq> 0" using assms(3) of_char_eq_iff[of c NUL, where ?'a = nat] by simp
  with assms(1) have lt: "data_pos p < length (buffer p)"
    by (auto simp: utf8_decode_peek_def eof_def split: if_splits)
  then have "data_pos p \<le> length (buffer p)" by simp
  then have "n = 1 \<and> byte_code c = byte_code (peek p)"
    using assms(1) by (cases rule: utf8_decode_shape) (use nz assms(2) in auto)
  then show "n = 1" and "peek p = c" by simp_all
  show "data_pos p < length (buffer p)" by (rule lt)
qed

lemma reads_codepoint_step:
  assumes "utf8_decode_peek p = (cp, n)" and "cp \<noteq> 13 \<or> after_quote p"
    and "reads (incrementCodepoint cp n p) r"
  shows "reads p r"
  by (rule reads_trans[OF assms(3) reads_codepoint_increment[OF reads_refl assms(1)]])
     (use assms(2) in auto)

lemma reads_number:
  "reads p (read_digits p)" "reads p (read_alpha_or_digits p)"
  "reads p (snd (read_floating_digits p))" "reads p (read_number_suffix p)"
  "reads p (read_number p)" "reads p (read_zero_starting_number p)"
proof -
  show d: "reads p (read_digits p)" for p by (simp add: read_digits_def reads_skip_while)
  show a: "reads p (read_alpha_or_digits p)" for p
    by (simp add: read_alpha_or_digits_def reads_skip_while)
  show f: "reads p (snd (read_floating_digits p))" for p
    using reads_trans[OF reads_increment_if[of "CHR ''.''" "read_digits p"] d]
      reads_trans[OF d, of _ "snd (increment_if CHR ''.'' (read_digits p))"]
    by (auto simp: read_floating_digits_def split: prod.splits bool.splits intro: reads_trans d)
  show s: "reads p (read_number_suffix p)" for p
    by (auto simp: read_number_suffix_def Let_def intro: reads.intros reads_step d)
  show n: "reads p (read_number p)" for p
    using f[of p] by (auto simp: read_number_def split: prod.splits bool.splits
        intro: reads_increment reads_trans s)
  show "reads p (read_zero_starting_number p)"
    by (auto simp: read_zero_starting_number_def intro: reads_step reads_trans[OF s a]
        reads_trans[OF s d] n)
qed

lemma reads_read_current_line: "reads p (read_current_line p)"
  by (simp add: read_current_line_def reads_skip_while)

lemma reads_readCharacter_eq: "readCharacter p = (c, q) \<Longrightarrow> reads p q"
  using reads_readCharacter[of p] by simp

lemma reads_comment: "reads p (snd (read_multi_line_comment_text p))"
proof (induction p rule: read_multi_line_comment_text.induct)
  case (1 p)
  obtain c q where rc: "readCharacter p = (c, q)" by fastforce
  note pq = reads_readCharacter_eq[OF rc]
  from 1[OF rc[symmetric]] rc pq show ?case
    by (subst read_multi_line_comment_text.simps)
       (auto simp: Let_def intro: reads_increment reads_trans[OF _ pq])
qed

lemma reads_multi_line_string: "reads p (snd (read_multi_line_string p))"
proof (induction p rule: read_multi_line_string.induct)
  case (1 p)
  obtain c q where rc: "readCharacter p = (c, q)" by fastforce
  note pq = reads_readCharacter_eq[OF rc]
  note ih = 1(1)[OF rc[symmetric] _ _ refl] 1(2,3)[OF rc[symmetric]]
  show ?case
    by (subst read_multi_line_string.simps)
       (auto simp: rc Let_def intro: ih pq reads_increment reads_trans[OF ih(1) reads_increment[OF pq]]
          reads_trans[OF ih(2) pq] reads_trans[OF ih(3) pq])
qed

lemma reads_backtick_string: "reads p (snd (read_backtick_string p))"
proof (induction p rule: read_backtick_string.induct)
  case (1 p)
  have "reads p (skip_escape (increment p))"
    by (rule reads_step[OF reads_skip_escape])
  with 1 show ?case
    by (subst read_backtick_string.simps)
       (auto intro: reads_step reads.intros elim: reads_trans[rotated])
qed

lemma reads_quoted_string: "reads p (snd (read_quoted_string p))"
proof (induction p rule: read_quoted_string.induct)
  case (1 p)
  obtain c q where rc: "readCharacter p = (c, q)" by fastforce
  note pq = reads_readCharacter_eq[OF rc]
  note ih = 1[OF rc[symmetric]]
  show ?case
    by (subst read_quoted_string.simps)
       (auto simp: rc pq intro: reads_trans[OF ih(2) pq]
          reads_trans[OF ih(1) reads_trans[OF reads_skip_escape pq]])
qed

lemma reads_id: "reads p (read_id p)"
proof (induction p rule: read_id.induct)
  case (1 p)
  then show ?case
    by (subst read_id.simps)
       (auto split: prod.splits intro: reads.intros reads_codepoint_step
          dest: identifier_continue_not_line_end)
qed

lemma reads_annotation_id: "reads p (read_annotation_id p)"
proof (induction p rule: read_annotation_id.induct)
  case (1 p)
  then show ?case
    by (subst read_annotation_id.simps)
       (auto split: prod.splits intro: reads.intros reads_codepoint_step
          dest: identifier_continue_not_line_end)
qed

lemma reads_char_in_quotes:
  assumes "after_quote p"
  shows "reads p (snd (read_char_in_quotes p))"
proof -
  obtain cp len where u: "utf8_decode_peek p = (cp, len)" by fastforce
  define q where "q = incrementCodepoint cp len p"
  have pq: "reads p q"
    using reads_codepoint_step[OF u] assms reads_refl by (simp add: q_def)
  obtain cp' len' where u': "utf8_decode_peek q = (cp', len')" by fastforce
  have qr: "reads p (incrementCodepoint cp' len' q)" if "cp = byte_code CHR 0x5C"
  proof -
    from u that have "peek p = CHR 0x5C" "len = 1" "data_pos p < length (buffer p)"
      using utf8_ascii[of p "CHR 0x5C" len] by simp_all
    then have "after_quote q" by (simp add: q_def after_quote_def peek_def remaining_def)
    then have "reads q (incrementCodepoint cp' len' q)"
      using reads_codepoint_step[OF u'] reads_refl by simp
    with pq show ?thesis by (rule reads_trans[rotated])
  qed
  show ?thesis
  proof (cases "cp = byte_code CHR 0x5C")
    case True
    define r where "r = incrementCodepoint cp' len' q"
    note pr = qr[OF True, folded r_def]
    have brace: "reads p (skip_to_brace (increment r))" "reads p (increment_times 4 r)"
      "reads p (consume_hex_digits r)"
      using reads_trans[OF reads_skip_to_brace reads_increment[OF pr]]
        reads_trans[OF reads_increment_times pr] reads_trans[OF reads_consume_hex_digits pr] by auto
    have "snd (read_char_in_quotes p) \<in>
        {q, r, consume_hex_digits r, increment_times 4 r, skip_to_brace (increment r),
         increment (skip_to_brace (increment r))}"
      by (simp only: read_char_in_quotes_def u True split_conv Let_def q_def[symmetric, unfolded True]
          u' r_def[symmetric]) simp
    with pq pr brace reads_increment[OF brace(1)] show ?thesis by auto
  next
    case False
    then show ?thesis
      using pq by (simp add: read_char_in_quotes_def u q_def reads_refl)
  qed
qed

text \<open>\<^verbatim>\<open>read_quoted_string2\<close> never returns once the input has ended.\<close>

lemma eof_skip_escape: "eof p \<Longrightarrow> eof (skip_escape p)"
  using reads_extends[OF reads_skip_escape, of p] by (auto simp: eof_def)

lemma read_quoted_string2_returns: "read_quoted_string2 p = Some r \<Longrightarrow> \<not> eof p"
proof (rule read_quoted_string2.raw_induct[of "\<lambda>p r. \<not> eof p" p r])
  fix f :: "source_provider \<Rightarrow> (bool option \<times> source_provider) option" and p r
  assume ih: "\<And>q s. f q = Some s \<Longrightarrow> \<not> eof q"
    and body: "(if peek p = CHR 0x5C then f (skip_escape (increment p))
      else if peek p = CHR 0x22 then Some (Some True, increment p)
      else if peek p = CHR ''{'' then Some (Some False, p)
      else if peek p = LF \<or> peek p = CR then Some (None, increment p)
      else f (increment p)) = Some r"
  have "eof p \<Longrightarrow> eof (increment p) \<and> peek p = NUL"
    by (simp add: eof_def increment_def peek_def)
  with body ih[of "increment p" r] show "\<not> eof p" by (auto split: if_splits)
qed

end
