(* ===== verification/Lexer.thy ===== *)
theory Lexer
  imports Token_Kinds Lexer_Readers
begin

text \<open>
  The tokenizer: \<^verbatim>\<open>lexer/Lexer.h\<close> and \<^verbatim>\<open>lexer/Lexer.cpp\<close> (from line 746). The state is the
  lexer object; \<^verbatim>\<open>getNextToken\<close> is split by the cases of its switch, each case a definition
  that returns a token, or \<open>None\<close> where the code calls itself again (after whitespace and
  dropped comments). Code that the compiler loads at run time is a parameter: \<open>find_hook\<close>
  is \<^verbatim>\<open>binder->findHook(view, InitializeLexer)\<close>, the initialiser of an embedded lexer, and
  \<open>subroutine\<close> is the function of the user lexer it installs.
\<close>

record diagnostic =
  diag_message :: string
  diag_start :: source_position
  diag_end :: source_position

record 'u lexer =
  other_mode :: bool
  user_mode :: bool
  str_expr :: bool
  provider :: source_provider
  user_lexer :: "'u option"
  user_lexer_fns_stack :: "'u list"
  file_path :: string
  diagnostics :: "diagnostic list"
  lex_whitespace :: bool
  keep_comments :: bool

definition new_lexer :: "string \<Rightarrow> string \<Rightarrow> 'u lexer" where
  "new_lexer path input =
     \<lparr>other_mode = False, user_mode = False, str_expr = False,
      provider = source_provider_of input, user_lexer = None, user_lexer_fns_stack = [],
      file_path = path, diagnostics = [], lex_whitespace = False, keep_comments = False\<rparr>"

subsection \<open>Building the result\<close>

definition position :: "source_provider \<Rightarrow> source_position" where
  "position p = \<lparr>pos_line = lineNumber p, pos_character = lineCharacterNumber p\<rparr>"

definition mk_token :: "token_type \<Rightarrow> string \<Rightarrow> source_position \<Rightarrow> token" where
  "mk_token t v pos = \<lparr>tok_type = t, tok_value = v, tok_position = pos\<rparr>"

definition diagnose ::
  "string \<Rightarrow> source_position \<Rightarrow> source_position \<Rightarrow> 'u lexer \<Rightarrow> 'u lexer" where
  "diagnose msg from to lx =
     lx\<lparr>diagnostics := diagnostics lx @ [\<lparr>diag_message = msg, diag_start = from, diag_end = to\<rparr>]\<rparr>"

definition at :: "source_provider \<Rightarrow> 'u lexer \<Rightarrow> 'u lexer" where
  "at p lx = lx\<lparr>provider := p\<rparr>"

text \<open>The bytes from an offset to the current position.\<close>

definition view_from :: "source_provider \<Rightarrow> nat \<Rightarrow> string" where
  "view_from p start = slice start (data_pos p) (buffer p)"

definition emit ::
  "token_type \<Rightarrow> string \<Rightarrow> source_position \<Rightarrow> 'u lexer \<Rightarrow> token option \<times> 'u lexer" where
  "emit t v pos lx = (Some (mk_token t v pos), lx)"

definition AnnotMacroStartErr :: string where
  "AnnotMacroStartErr =
     ''annotation or macro must start with a valid character that is not a digit''"

subsection \<open>Symbols\<close>

text \<open>The symbols that are one character whatever follows.\<close>

definition single_symbols :: "(char \<times> token_type) list" where
  "single_symbols =
     [(CHR ''{'', LBrace), (CHR ''('', LParen), (CHR '')'', RParen), (CHR ''['', LBracket),
      (CHR '']'', RBracket), (CHR ''*'', MultiplySym), (CHR ''%'', ModSym), (CHR ''^'', CaretUpSym),
      (CHR ''~'', BitNotSym), (CHR '','', CommaSym), (CHR '';'', SemiColonSym),
      (CHR ''?'', QuestionMarkSym)]"

text \<open>
  The symbols that a second character extends: the alternatives are tried in the order of
  the code, then the symbol stands alone.
\<close>

definition extended_symbols :: "(char \<times> (char \<times> token_type) list \<times> token_type) list" where
  "extended_symbols =
     [(CHR ''+'', [(CHR ''+'', DoublePlusSym)], PlusSym),
      (CHR ''-'', [(CHR ''-'', DoubleMinusSym)], MinusSym),
      (CHR ''!'', [(CHR ''='', NotEqualSym)], NotSym),
      (CHR ''<'', [(CHR ''='', LessThanOrEqualSym), (CHR ''<'', LeftShiftSym)], LessThanSym),
      (CHR ''>'', [(CHR ''='', GreaterThanOrEqualSym), (CHR ''>'', RightShiftSym)], GreaterThanSym),
      (CHR ''&'', [(CHR ''&'', LogicalAndSym)], AmpersandSym),
      (CHR ''|'', [(CHR ''|'', LogicalOrSym)], PipeSym),
      (CHR '':'', [(CHR '':'', DoubleColonSym)], ColonSym),
      (CHR ''='', [(CHR ''='', DoubleEqualSym), (CHR ''>'', LambdaSym)], EqualSym)]"

fun lex_extended ::
  "char \<Rightarrow> (char \<times> token_type) list \<Rightarrow> token_type \<Rightarrow> source_position \<Rightarrow> 'u lexer \<Rightarrow>
   token option \<times> 'u lexer" where
  "lex_extended c [] t pos lx = emit t [c] pos lx"
| "lex_extended c ((d, t') # alts) t pos lx =
     (case increment_if d (provider lx) of
        (True, q) \<Rightarrow> emit t' [c, d] pos (at q lx)
      | (False, _) \<Rightarrow> lex_extended c alts t pos lx)"

definition lex_dot :: "source_position \<Rightarrow> 'u lexer \<Rightarrow> token option \<times> 'u lexer" where
  "lex_dot pos lx =
     (let p = provider lx in
      if peek p = CHR ''.'' then
        (case readCharacter (increment p) of (c, q) \<Rightarrow>
           if c = CHR ''.'' then emit TripleDotSym ''...'' pos (at q lx)
           else emit Unexpected [] pos
                  (diagnose (''unexpected dot symbol '' @ [CHR 0x27] @ ''.'' @ [CHR 0x27]) (position q) (position q) (at q lx)))
      else emit DotSym ''.'' pos lx)"

definition lex_dollar :: "source_position \<Rightarrow> 'u lexer \<Rightarrow> token option \<times> 'u lexer" where
  "lex_dollar pos lx =
     (if str_expr lx then emit StringExprStart ''{'' pos (at (increment (provider lx)) lx)
      else emit DollarSym ''$'' pos lx)"

subsection \<open>Annotations and macros\<close>

text \<open>The common start: one code point, an error unless it starts an identifier, the name.\<close>

definition lex_annotation_name :: "source_position \<Rightarrow> 'u lexer \<Rightarrow> 'u lexer" where
  "lex_annotation_name pos lx =
     (case readCodePoint (provider lx) of (first, q) \<Rightarrow>
        let lx' = (if isIdentifierStart first then at q lx
                   else diagnose AnnotMacroStartErr pos (position q) (at q lx))
        in at (read_annotation_id q) lx')"

definition lex_annotation :: "nat \<Rightarrow> source_position \<Rightarrow> 'u lexer \<Rightarrow> token option \<times> 'u lexer" where
  "lex_annotation start pos lx =
     (let lx' = lex_annotation_name pos lx
      in emit Annotation (view_from (provider lx') start) pos lx')"

definition lex_hash ::
  "(string \<Rightarrow> ('u lexer \<Rightarrow> 'u lexer) option) \<Rightarrow> nat \<Rightarrow> source_position \<Rightarrow> 'u lexer \<Rightarrow>
   token option \<times> 'u lexer" where
  "lex_hash find_hook start pos lx =
     (let lx' = lex_annotation_name pos lx;
          hashed_view = view_from (provider lx') start
      in case find_hook (tl hashed_view) of
           Some init \<Rightarrow> emit HashMacro hashed_view pos (init lx')
         | None \<Rightarrow> emit HashMacro hashed_view pos lx')"

subsection \<open>Comments and white space\<close>

definition lex_slash :: "source_position \<Rightarrow> 'u lexer \<Rightarrow> token option \<times> 'u lexer" where
  "lex_slash pos lx =
     (let p = provider lx in
      if peek p = CHR ''/'' then
        (if keep_comments lx then
           let q = increment p; r = read_current_line q
           in emit SingleLineComment (view_from r (data_pos q)) pos (at r lx)
         else (None, at (read_current_line p) lx))
      else if peek p = CHR ''*'' then
        (if keep_comments lx then
           let q = increment p
           in case read_multi_line_comment_text q of (end, r) \<Rightarrow>
                emit MultiLineComment (slice (data_pos q) end (buffer r)) pos (at r lx)
         else (None, at (snd (read_multi_line_comment_text p)) lx))
      else emit DivideSym ''/'' pos lx)"

definition lex_space :: "nat \<Rightarrow> source_position \<Rightarrow> 'u lexer \<Rightarrow> token option \<times> 'u lexer" where
  "lex_space start pos lx =
     (let q = skipWhitespaces (provider lx); lx' = at q lx in
      if lex_whitespace lx then emit Whitespace (view_from q start) pos lx' else (None, lx'))"

definition win_new_line :: "source_position \<Rightarrow> 'u lexer \<Rightarrow> token option \<times> 'u lexer" where
  "win_new_line pos lx =
     (let p = provider lx in
      if peek p = LF then emit NewLine [CR, LF] pos (at (increment p) lx)
      else emit NewLine [CR] pos lx)"

subsection \<open>Quotes\<close>

text \<open>A character literal or a lifetime.\<close>

definition lex_single_quote :: "source_position \<Rightarrow> 'u lexer \<Rightarrow> token option \<times> 'u lexer" where
  "lex_single_quote pos lx =
     (let p = provider lx; start = data_pos p in
      case utf8_decode_peek p of (next_cp, len) \<Rightarrow>
        if next_cp \<noteq> 0 \<and> isIdentifierStart next_cp \<and> next_cp \<noteq> byte_code CHR 0x27 \<and>
           next_cp \<noteq> byte_code CHR 0x5C
        then
          let q = incrementCodepoint next_cp len p in
          if peek q = CHR 0x27
          then emit Char (view_from q start) pos (at (snd (increment_if CHR 0x27 q)) lx)
          else let r = read_id q in emit Lifetime (view_from r start) pos (at r lx)
        else
          (case read_char_in_quotes p of
             (True, q) \<Rightarrow> emit Char (view_from q start) pos (at (snd (increment_if CHR 0x27 q)) lx)
           | (False, q) \<Rightarrow>
               emit Char [] pos
                 (diagnose ''no value given inside single quotes'' pos (position q) (at q lx))))"

text \<open>
  A backtick string. The case for a dollar sign compares the character it has just found to
  be a dollar sign with an opening brace, so every backtick string takes the default.
\<close>

definition nested_expr_err :: string where
  "nested_expr_err = ''nested string expressions aren'' @ [CHR 0x27] @ ''t allowed''"

definition begin_str_expr :: "source_position \<Rightarrow> 'u lexer \<Rightarrow> 'u lexer" where
  "begin_str_expr pos lx =
     (if str_expr lx then diagnose nested_expr_err pos (position (provider lx)) lx
      else lx\<lparr>str_expr := True\<rparr>)"

definition lex_backtick :: "source_position \<Rightarrow> 'u lexer \<Rightarrow> token option \<times> 'u lexer" where
  "lex_backtick pos lx =
     (let p = provider lx; start = data_pos p in
      if peek p = CHR ''$'' \<and> peek p = CHR ''{''
      then emit StringExprStart ''{'' pos (begin_str_expr pos (at (increment p) lx))
      else
        (case read_backtick_string p of
           (Some True, q) \<Rightarrow>
             emit BacktickString (slice start (data_pos q - 1) (buffer q)) pos
               ((at q lx)\<lparr>str_expr := False\<rparr>)
         | (Some False, q) \<Rightarrow>
             emit BacktickString (view_from q start) pos (begin_str_expr pos (at q lx))
         | (None, q) \<Rightarrow>
             emit BacktickString (view_from q start) pos
               (diagnose ''no ending quotes for expressive string'' pos (position q) (at q lx))))"

definition lex_close_brace :: "nat \<Rightarrow> source_position \<Rightarrow> 'u lexer \<Rightarrow> token option \<times> 'u lexer" where
  "lex_close_brace start pos lx =
     (if str_expr lx then
        (case read_backtick_string (provider lx) of
           (Some True, q) \<Rightarrow>
             emit StringExprEnd (slice start (data_pos q - 1) (buffer q)) pos
               ((at q lx)\<lparr>str_expr := False\<rparr>)
         | (Some False, q) \<Rightarrow> emit StringExprEnd (view_from q start) pos (at q lx)
         | (None, q) \<Rightarrow>
             emit StringExprEnd (view_from q start) pos
               ((diagnose ''no ending backtick for expressive string'' pos (position q) (at q lx))
                \<lparr>str_expr := False\<rparr>))
      else emit RBrace ''}'' pos lx)"

definition lex_double_quote :: "source_position \<Rightarrow> 'u lexer \<Rightarrow> token option \<times> 'u lexer" where
  "lex_double_quote pos lx =
     (let p = provider lx in
      if peek p = CHR 0x22 then
        let q = increment p in
        if peek q = CHR 0x22 then
          let r = increment q in
          (case read_multi_line_string r of (end, t) \<Rightarrow>
             emit MultilineString (slice (data_pos r) end (buffer t)) pos (at t lx))
        else emit String [] pos (at q lx)
      else
        (case read_quoted_string p of
           (True, q) \<Rightarrow> emit String (slice (data_pos p) (data_pos q - 1) (buffer q)) pos (at q lx)
         | (False, q) \<Rightarrow>
             emit String (view_from q (data_pos p)) pos
               (diagnose ''no ending quotes for the single line string'' pos (position q) (at q lx))))"

subsection \<open>Numbers, names, anything else\<close>

definition lex_default ::
  "nat \<Rightarrow> nat \<Rightarrow> source_position \<Rightarrow> 'u lexer \<Rightarrow> token option \<times> 'u lexer" where
  "lex_default cp start pos lx =
     (let p = provider lx in
      if is_ascii_digit cp then
        let q = read_number p in emit Number (view_from q start) pos (at q lx)
      else if isIdentifierStart cp then
        let q = read_id p; view = view_from q start in
        (case keyword_of view of
           Some t \<Rightarrow> emit t view pos (at q lx)
         | None \<Rightarrow> emit Identifier view pos (at q lx))
      else emit Unexpected [] pos (diagnose ''unexpected token'' (position p) (position p) lx))"

subsection \<open>The next token\<close>

text \<open>
  The switch on the code point that was read; \<open>start\<close> is the offset it was read at and
  \<open>pos\<close> its position.
\<close>

definition lex_switch ::
  "(string \<Rightarrow> ('u lexer \<Rightarrow> 'u lexer) option) \<Rightarrow> nat \<Rightarrow> nat \<Rightarrow> source_position \<Rightarrow> 'u lexer \<Rightarrow>
   token option \<times> 'u lexer" where
  "lex_switch find_hook cp start pos lx =
    (if cp = 0 then emit EndOfFile [] pos lx
     else if cp = byte_code CHR ''}'' then lex_close_brace start pos lx
     else if cp = byte_code CHR ''.'' then lex_dot pos lx
     else if cp = byte_code CHR ''$'' then lex_dollar pos lx
     else if cp = byte_code CHR ''@'' then lex_annotation start pos lx
     else if cp = byte_code CHR ''#'' then lex_hash find_hook start pos lx
     else if cp = byte_code CHR ''/'' then lex_slash pos lx
     else if cp = byte_code CHR 0x27 then lex_single_quote pos lx
     else if cp = byte_code CHR 0x60 then lex_backtick pos lx
     else if cp = byte_code CHR 0x22 then lex_double_quote pos lx
     else if cp = byte_code CHR '' '' \<or> cp = byte_code TAB then lex_space start pos lx
     else if cp = byte_code LF then emit NewLine [LF] pos lx
     else if cp = byte_code CR then win_new_line pos lx
     else if cp = byte_code CHR ''0'' then
       (let q = read_zero_starting_number (provider lx)
        in emit Number (view_from q start) pos (at q lx))
     else if cp < 128 then
       (let c = char_of cp in
        case map_of single_symbols c of
          Some t \<Rightarrow> emit t [c] pos lx
        | None \<Rightarrow>
            (case map_of extended_symbols c of
               Some (alts, t) \<Rightarrow> lex_extended c alts t pos lx
             | None \<Rightarrow> lex_default cp start pos lx))
     else lex_default cp start pos lx)"

definition lex_once ::
  "(string \<Rightarrow> ('u lexer \<Rightarrow> 'u lexer) option) \<Rightarrow> 'u lexer \<Rightarrow> token option \<times> 'u lexer" where
  "lex_once find_hook lx =
     (let p = provider lx in
      case readCodePoint p of (cp, q) \<Rightarrow>
        lex_switch find_hook cp (data_pos p) (position p) (at q lx))"

lemma at_fields [simp]:
  "provider (at q lx) = q" "str_expr (at q lx) = str_expr lx" "keep_comments (at q lx) = keep_comments lx"
  "other_mode (at q lx) = other_mode lx" "user_mode (at q lx) = user_mode lx"
  "lex_whitespace (at q lx) = lex_whitespace lx" "at q (at p lx) = at q lx"
  by (simp_all add: at_def)

lemma diagnose_fields [simp]:
  "provider (diagnose m a b lx) = provider lx"
  by (simp add: diagnose_def)

lemma lex_extended_Some [simp]: "fst (lex_extended c alts t pos lx) \<noteq> None"
  by (induction c alts t pos lx rule: lex_extended.induct)
     (auto simp: emit_def split: prod.splits bool.splits)

lemma emit_Some [simp]: "emit t v pos lx \<noteq> (None, lx')" "fst (emit t v pos lx) \<noteq> None"
  by (simp_all add: emit_def)

text \<open>
  What is required of code loaded at run time: an initialiser moves the provider forward
  only through the reading operations.
\<close>

definition hooks_read :: "(string \<Rightarrow> ('u lexer \<Rightarrow> 'u lexer) option) \<Rightarrow> bool" where
  "hooks_read find_hook \<longleftrightarrow>
     (\<forall>v init lx. find_hook v = Some init \<longrightarrow> reads (provider lx) (provider (init lx)))"

subsection \<open>Every case is a sequence of moves\<close>

lemma provider_emit [simp]: "provider (snd (emit t v pos lx)) = provider lx"
  by (simp add: emit_def)

lemma reads_fst_snd: "f p = (a, q) \<Longrightarrow> reads p (snd (f p)) \<Longrightarrow> reads p q"
  by simp

lemma reads_lex_extended:
  "list_all (\<lambda>(d, t). d \<noteq> CR) alts \<Longrightarrow>
   reads (provider lx) (provider (snd (lex_extended c alts t pos lx)))"
  by (induction c alts t pos lx rule: lex_extended.induct)
     (auto split: prod.splits bool.splits intro: reads_refl reads_fst_snd reads_increment_if)

lemma reads_lex_dot: "reads (provider lx) (provider (snd (lex_dot pos lx)))"
proof -
  have "reads p (snd (readCharacter (increment p)))" for p
    using reads_step[OF reads_readCharacter] .
  then show ?thesis
    by (auto simp: lex_dot_def Let_def split: prod.splits intro: reads_refl reads_fst_snd)
      (metis snd_conv)+
qed

lemma reads_annotation_name: "reads (provider lx) (provider (lex_annotation_name pos lx))"
proof -
  have "reads p (read_annotation_id (snd (readCodePoint p)))" for p
    by (rule reads_trans[OF reads_annotation_id]) (intro reads.intros)
  then show ?thesis by (auto simp: lex_annotation_name_def Let_def split: prod.splits) (metis snd_conv)
qed

lemma reads_lex_hash:
  "hooks_read find_hook \<Longrightarrow>
   reads (provider lx) (provider (snd (lex_hash find_hook start pos lx)))"
  using reads_annotation_name[of lx pos]
  by (auto simp: lex_hash_def Let_def hooks_read_def split: option.splits intro: reads_trans)

lemma reads_lex_slash: "reads (provider lx) (provider (snd (lex_slash pos lx)))"
proof -
  have "reads p (snd (read_multi_line_comment_text (increment p)))" for p
    by (rule reads_step[OF reads_comment])
  then show ?thesis
    by (auto simp: lex_slash_def Let_def split: prod.splits
        intro: reads_refl reads_step[OF reads_read_current_line] reads_read_current_line reads_comment)
      (metis snd_conv)
qed

lemma reads_lex_space: "reads (provider lx) (provider (snd (lex_space start pos lx)))"
  by (simp add: lex_space_def Let_def skipWhitespaces_def reads_skip_while)

lemma reads_win_new_line: "reads (provider lx) (provider (snd (win_new_line pos lx)))"
  by (simp add: win_new_line_def Let_def reads.intros)

lemma reads_lex_backtick: "reads (provider lx) (provider (snd (lex_backtick pos lx)))"
  using reads_backtick_string[of "provider lx"]
  by (auto simp: lex_backtick_def begin_str_expr_def Let_def split: prod.splits option.splits bool.splits)

lemma reads_lex_close_brace: "reads (provider lx) (provider (snd (lex_close_brace start pos lx)))"
  using reads_backtick_string[of "provider lx"]
  by (auto simp: lex_close_brace_def reads_refl split: prod.splits option.splits bool.splits)

lemma reads_lex_double_quote: "reads (provider lx) (provider (snd (lex_double_quote pos lx)))"
proof -
  let ?p = "provider lx"
  obtain e t where m: "read_multi_line_string (increment (increment ?p)) = (e, t)" by fastforce
  obtain b q where r: "read_quoted_string ?p = (b, q)" by fastforce
  have "reads ?p (snd (read_multi_line_string (increment (increment ?p))))"
    by (rule reads_step[OF reads_step[OF reads_multi_line_string]])
  then have "reads ?p t" "reads ?p q" using m r reads_quoted_string[of ?p] by simp_all
  moreover have "reads ?p (increment ?p)" by (intro reads.intros)
  ultimately show ?thesis
    by (cases b) (simp_all add: lex_double_quote_def Let_def m r)
qed

lemma reads_lex_default: "reads (provider lx) (provider (snd (lex_default cp start pos lx)))"
  by (auto simp: lex_default_def Let_def split: option.splits
      intro: reads_refl reads_number reads_id)

lemma reads_lex_single_quote:
  assumes "after_quote (provider lx)"
  shows "reads (provider lx) (provider (snd (lex_single_quote pos lx)))"
proof -
  let ?p = "provider lx"
  obtain cp n where u: "utf8_decode_peek ?p = (cp, n)" by fastforce
  have q: "reads ?p (incrementCodepoint cp n ?p)"
    by (rule reads_codepoint_step[OF u]) (simp_all add: assms reads_refl)
  have "reads ?p (snd (read_char_in_quotes ?p))" using assms by (rule reads_char_in_quotes)
  then have "reads ?p (snd (increment_if CHR 0x27 (snd (read_char_in_quotes ?p))))"
    and "reads ?p (snd (read_char_in_quotes ?p))"
    by (auto intro: reads_trans[OF reads_increment_if])
  moreover have "reads ?p (snd (increment_if CHR 0x27 (incrementCodepoint cp n ?p)))"
    "reads ?p (read_id (incrementCodepoint cp n ?p))"
    using q by (auto intro: reads_trans[OF reads_increment_if] reads_trans[OF reads_id])
  ultimately show ?thesis
    by (auto simp: lex_single_quote_def Let_def u split: prod.splits bool.splits)
qed

lemma reads_lex_switch:
  assumes "hooks_read find_hook" and "cp = byte_code CHR 0x27 \<Longrightarrow> after_quote (provider lx)"
  shows "reads (provider lx) (provider (snd (lex_switch find_hook cp start pos lx)))"
proof -
  have alts: "list_all (\<lambda>(c, alts, t). list_all (\<lambda>(d, t). d \<noteq> CR) alts) extended_symbols"
    by (simp add: extended_symbols_def)
  then have ext: "reads (provider lx) (provider (snd (lex_extended c alts t pos lx)))"
    if "map_of extended_symbols c = Some (alts, t)" for c alts t
    using map_of_SomeD[OF that] by (auto simp: list_all_iff intro!: reads_lex_extended)
  show ?thesis
    unfolding lex_switch_def Let_def
    by (simp add: reads_lex_dot reads_lex_hash[OF assms(1)] reads_lex_slash reads_lex_space
        reads_win_new_line reads_lex_backtick reads_lex_close_brace reads_lex_double_quote
        reads_lex_default reads_lex_single_quote assms(2) reads_refl reads_number
        lex_dollar_def lex_annotation_def Let_def reads_annotation_name reads_increment ext
        split: option.split prod.split)
qed

lemma readCodePoint_quote:
  assumes "readCodePoint p = (byte_code CHR 0x27, q)"
  shows "after_quote q"
proof -
  obtain cp n where u: "utf8_decode_peek p = (cp, n)" by fastforce
  with assms have "cp = byte_code CHR 0x27"
    by (simp add: readCodePoint_def Let_def split: if_splits)
  with u utf8_ascii[of p "CHR 0x27" n] have n: "n = 1" "peek p = CHR 0x27" "data_pos p < length (buffer p)"
    by simp_all
  have "buffer q = buffer p" "data_pos q = data_pos p + min n (remaining p)"
    using readCodePoint_fields[of p] by (simp_all add: assms u)
  moreover have "min n (remaining p) = 1" using n by (simp add: remaining_def)
  ultimately show ?thesis using n by (simp add: after_quote_def peek_def)
qed

lemma reads_lex_once:
  assumes "hooks_read find_hook"
  shows "reads (snd (readCodePoint (provider lx))) (provider (snd (lex_once find_hook lx)))"
proof -
  obtain cp q where r: "readCodePoint (provider lx) = (cp, q)" by fastforce
  have "reads (provider (at q lx))
      (provider (snd (lex_switch find_hook cp (data_pos (provider lx)) (position (provider lx)) (at q lx))))"
    using readCodePoint_quote[of "provider lx" q] r by (intro reads_lex_switch[OF assms]) simp
  then show ?thesis by (simp add: lex_once_def Let_def r)
qed

text \<open>
  Only white space and dropped comments give no token, and they consume at least the code
  point that was read: the measure of the recursion.
\<close>

lemma token_given [simp]:
  "fst (lex_dot pos lx) \<noteq> None" "fst (lex_dollar pos lx) \<noteq> None"
  "fst (lex_annotation start pos lx) \<noteq> None" "fst (lex_hash find_hook start pos lx) \<noteq> None"
  "fst (lex_single_quote pos lx) \<noteq> None" "fst (lex_backtick pos lx) \<noteq> None"
  "fst (lex_close_brace start pos lx) \<noteq> None" "fst (lex_double_quote pos lx) \<noteq> None"
  "fst (win_new_line pos lx) \<noteq> None" "fst (lex_default cp start pos lx) \<noteq> None"
proof -
  show "fst (lex_dot pos lx) \<noteq> None"
    by (simp add: lex_dot_def emit_def Let_def split: prod.split)
  show "fst (lex_dollar pos lx) \<noteq> None" by (simp add: lex_dollar_def emit_def)
  show "fst (lex_annotation start pos lx) \<noteq> None" by (simp add: lex_annotation_def emit_def Let_def)
  show "fst (lex_hash find_hook start pos lx) \<noteq> None"
    by (simp add: lex_hash_def emit_def Let_def split: option.split)
  show "fst (lex_single_quote pos lx) \<noteq> None"
    by (simp add: lex_single_quote_def emit_def Let_def split: prod.split bool.split)
  show "fst (lex_backtick pos lx) \<noteq> None"
    by (simp add: lex_backtick_def emit_def Let_def split: prod.split option.split bool.split)
  show "fst (lex_close_brace start pos lx) \<noteq> None"
    by (simp add: lex_close_brace_def emit_def split: prod.split option.split bool.split)
  show "fst (lex_double_quote pos lx) \<noteq> None"
    by (simp add: lex_double_quote_def emit_def Let_def split: prod.split bool.split)
  show "fst (win_new_line pos lx) \<noteq> None" by (simp add: win_new_line_def emit_def Let_def)
  show "fst (lex_default cp start pos lx) \<noteq> None"
    by (simp add: lex_default_def emit_def Let_def split: option.split)
qed

lemma lex_switch_again:
  assumes "lex_switch find_hook cp start pos lx = (None, lx')"
  shows "cp \<noteq> 0" and "reads (provider lx) (provider lx')"
    and "lex_slash pos lx = (None, lx') \<or> lex_space start pos lx = (None, lx')"
proof -
  have *: "fst (lex_switch find_hook cp start pos lx) \<noteq> None"
    if "cp \<noteq> byte_code CHR ''/''" "cp \<noteq> byte_code CHR '' ''" "cp \<noteq> byte_code TAB"
    using that
    by (simp add: lex_switch_def Let_def del: not_None_eq split: prod.split option.split)
  then show again: "lex_slash pos lx = (None, lx') \<or> lex_space start pos lx = (None, lx')"
    using assms by (auto simp: lex_switch_def split: if_splits)
  from again show "reads (provider lx) (provider lx')"
    using reads_lex_slash[of lx pos] reads_lex_space[of lx start pos] by auto
  show "cp \<noteq> 0"
  proof
    assume "cp = 0"
    with assms show False by (simp add: lex_switch_def)
  qed
qed

lemma readCodePoint_progress:
  assumes "readCodePoint p = (cp, q)" and "cp \<noteq> 0"
  shows "remaining q < remaining p"
proof -
  obtain c n where u: "utf8_decode_peek p = (c, n)" by fastforce
  with assms have "c = cp" "n \<noteq> 0" by (auto simp: readCodePoint_def Let_def split: if_splits)
  with u utf8_remaining[of p c n] assms(2) show ?thesis
    using readCodePoint_fields[of p] by (simp add: assms(1) remaining_def)
qed

lemma lex_once_again:
  assumes "lex_once find_hook lx = (None, lx')"
  shows "remaining (provider lx') < remaining (provider lx)"
proof -
  obtain cp q where r: "readCodePoint (provider lx) = (cp, q)" by fastforce
  then have "lex_switch find_hook cp (data_pos (provider lx)) (position (provider lx)) (at q lx) = (None, lx')"
    using assms by (simp add: lex_once_def Let_def)
  from lex_switch_again[OF this] readCodePoint_progress[OF r] remaining_reads_le[of q "provider lx'"]
  show ?thesis by auto
qed

text \<open>
  \<^verbatim>\<open>getNextToken\<close>: the user lexer in its mode, otherwise the switch, again after white
  space and dropped comments.
\<close>

function getNextToken ::
  "('u option \<Rightarrow> 'u lexer \<Rightarrow> token \<times> 'u lexer) \<Rightarrow> (string \<Rightarrow> ('u lexer \<Rightarrow> 'u lexer) option) \<Rightarrow>
   'u lexer \<Rightarrow> token \<times> 'u lexer" where
  "getNextToken subroutine find_hook lx =
     (if other_mode lx \<and> user_mode lx then subroutine (user_lexer lx) lx
      else
        (case lex_once find_hook lx of
           (Some t, lx') \<Rightarrow> (t, lx')
         | (None, lx') \<Rightarrow> getNextToken subroutine find_hook lx'))"
  by pat_completeness auto
termination
  by (relation "measure (\<lambda>(s, h, lx). remaining (provider lx))") (auto dest: lex_once_again[OF sym])

declare getNextToken.simps [simp del]

subsection \<open>All tokens\<close>

text \<open>\<^verbatim>\<open>getTokens\<close> appends to the vector until the end of the file or an unexpected token.\<close>

partial_function (option) getTokens ::
  "('u option \<Rightarrow> 'u lexer \<Rightarrow> token \<times> 'u lexer) \<Rightarrow> (string \<Rightarrow> ('u lexer \<Rightarrow> 'u lexer) option) \<Rightarrow>
   token list \<Rightarrow> 'u lexer \<Rightarrow> (token list \<times> 'u lexer) option" where
  "getTokens subroutine find_hook tokens lx =
     (case getNextToken subroutine find_hook lx of
        (token, lx') \<Rightarrow>
          if tok_type token = EndOfFile then Some (tokens @ [token], lx')
          else if tok_type token = Unexpected then Some (tokens @ [token], lx')
          else getTokens subroutine find_hook (tokens @ [token]) lx')"

text \<open>
  \<^verbatim>\<open>to_string\<close>: the case for white space has no \<^verbatim>\<open>break\<close> and falls through to the default.
\<close>

fun tokens_to_string :: "string \<Rightarrow> token list \<Rightarrow> string" where
  "tokens_to_string out [] = out"
| "tokens_to_string out (t # ts) =
     (if tok_type t = EndOfFile \<or> tok_type t = Unexpected then tokens_to_string out ts
      else if tok_type t = Whitespace
      then tokens_to_string (out @ replicate (length (tok_value t)) CHR '' '' @ tok_value t) ts
      else tokens_to_string (out @ tok_value t) ts)"

end
