(* ===== verification/Lexer_Correct.thy ===== *)
theory Lexer_Correct
  imports Lexer
begin

text \<open>
  What the tokenizer promises: it moves forward over an unchanged buffer with exact line
  numbers, it reads a whole file in finitely many tokens, and it recognises names, keywords
  and string literals as written.
\<close>

subsection \<open>One token\<close>

lemma new_lexer_fields [simp]:
  "buffer (provider (new_lexer path s)) = s" "data_pos (provider (new_lexer path s)) = 0"
  "lineNumber (provider (new_lexer path s)) = 0" "lineCharacterNumber (provider (new_lexer path s)) = 0"
  "\<not> other_mode (new_lexer path s)" "\<not> user_mode (new_lexer path s)" "\<not> str_expr (new_lexer path s)"
  "rest_of (provider (new_lexer path s)) = s"
  "\<not> keep_comments (new_lexer path s)" "\<not> lex_whitespace (new_lexer path s)"
  by (simp_all add: new_lexer_def source_provider_of_def rest_of_def)

lemma token_position:
  assumes "lex_switch find_hook cp start pos lx = (Some t, lx')"
  shows "tok_position t = pos"
proof -
  have e: "emit ty v pos l = (Some t, l') \<Longrightarrow> tok_position t = pos" for ty v l l'
    by (auto simp: emit_def mk_token_def)
  have ext: "lex_extended c alts ty pos lx = (Some t, lx') \<Longrightarrow> tok_position t = pos" for c alts ty
    by (induction c alts ty pos lx rule: lex_extended.induct)
       (auto dest: e split: prod.splits bool.splits simp: emit_def mk_token_def)
  have subs:
    "lex_dot pos lx = (Some t, lx') \<Longrightarrow> tok_position t = pos"
    "lex_dollar pos lx = (Some t, lx') \<Longrightarrow> tok_position t = pos"
    "lex_annotation start pos lx = (Some t, lx') \<Longrightarrow> tok_position t = pos"
    "lex_hash find_hook start pos lx = (Some t, lx') \<Longrightarrow> tok_position t = pos"
    "lex_slash pos lx = (Some t, lx') \<Longrightarrow> tok_position t = pos"
    "lex_space start pos lx = (Some t, lx') \<Longrightarrow> tok_position t = pos"
    "win_new_line pos lx = (Some t, lx') \<Longrightarrow> tok_position t = pos"
    "lex_single_quote pos lx = (Some t, lx') \<Longrightarrow> tok_position t = pos"
    "lex_backtick pos lx = (Some t, lx') \<Longrightarrow> tok_position t = pos"
    "lex_close_brace start pos lx = (Some t, lx') \<Longrightarrow> tok_position t = pos"
    "lex_double_quote pos lx = (Some t, lx') \<Longrightarrow> tok_position t = pos"
    "lex_default cp start pos lx = (Some t, lx') \<Longrightarrow> tok_position t = pos"
    unfolding lex_dot_def lex_dollar_def lex_annotation_def lex_hash_def lex_slash_def lex_space_def
      win_new_line_def lex_single_quote_def lex_backtick_def lex_close_brace_def
      lex_double_quote_def lex_default_def Let_def
    by (auto dest: e split: prod.splits option.splits bool.splits if_splits)
  show ?thesis
    using assms unfolding lex_switch_def Let_def
    by (auto dest: e ext subs split: option.splits prod.splits if_splits)
qed

lemma lex_once_modes:
  assumes "lex_once find_hook lx = (None, lx')"
  shows "other_mode lx' = other_mode lx" and "user_mode lx' = user_mode lx"
proof -
  obtain cp q where r: "readCodePoint (provider lx) = (cp, q)" by fastforce
  have "lex_slash (position (provider lx)) (at q lx) = (None, lx') \<or>
      lex_space (data_pos (provider lx)) (position (provider lx)) (at q lx) = (None, lx')"
    using assms lex_switch_again(3) by (simp add: lex_once_def Let_def r)
  then show "other_mode lx' = other_mode lx" and "user_mode lx' = user_mode lx"
    by (auto simp: lex_slash_def lex_space_def Let_def emit_def split: if_splits prod.splits)
qed

lemma lex_once_token:
  assumes "hooks_read find_hook" and "lex_once find_hook lx = (Some t, lx')"
  shows "tok_position t = position (provider lx)"
    and "reads (provider lx) (provider lx')"
    and "tok_type t \<noteq> EndOfFile \<Longrightarrow> remaining (provider lx') < remaining (provider lx)"
proof -
  obtain cp q where r: "readCodePoint (provider lx) = (cp, q)" by fastforce
  have sw: "lex_switch find_hook cp (data_pos (provider lx)) (position (provider lx)) (at q lx) = (Some t, lx')"
    using assms(2) by (simp add: lex_once_def Let_def r)
  then show "tok_position t = position (provider lx)" by (rule token_position)
  have qr: "reads q (provider lx')"
    using reads_lex_once[OF assms(1), of lx] assms(2) r by simp
  have "reads (provider lx) q" using reads_code_point[OF reads_refl, of "provider lx"] r by simp
  with qr show "reads (provider lx) (provider lx')" by (rule reads_trans)
  assume "tok_type t \<noteq> EndOfFile"
  have "cp \<noteq> 0"
  proof
    assume "cp = 0"
    with sw \<open>tok_type t \<noteq> EndOfFile\<close> show False by (auto simp: lex_switch_def emit_def mk_token_def)
  qed
  with readCodePoint_progress[OF r] remaining_reads_le[OF qr]
  show "remaining (provider lx') < remaining (provider lx)" by simp
qed

lemma getNextToken_start:
  assumes "hooks_read find_hook" and "\<not> (other_mode lx \<and> user_mode lx)"
    and "getNextToken subroutine find_hook lx = (t, lx')"
  obtains q where "reads (provider lx) q" and "tok_position t = position q"
    and "reads q (provider lx')"
    and "tok_type t \<noteq> EndOfFile \<Longrightarrow> remaining (provider lx') < remaining q"
proof -
  have "hooks_read find_hook \<Longrightarrow> \<not> (other_mode lx \<and> user_mode lx) \<Longrightarrow>
      getNextToken subroutine find_hook lx = (t, lx') \<Longrightarrow>
      \<exists>q. reads (provider lx) q \<and> tok_position t = position q \<and> reads q (provider lx') \<and>
        (tok_type t \<noteq> EndOfFile \<longrightarrow> remaining (provider lx') < remaining q)"
  proof (induction subroutine find_hook lx rule: getNextToken.induct)
    case (1 subroutine find_hook lx)
    obtain r lx1 where once: "lex_once find_hook lx = (r, lx1)" by fastforce
    show ?case
    proof (cases r)
      case (Some t1)
      with once 1(3,4) have "t1 = t" "lx1 = lx'" by (auto simp: getNextToken.simps[of _ _ lx])
      with Some once lex_once_token[OF 1(2), of lx t lx'] reads_refl show ?thesis by blast
    next
      case None
      with once 1(3,4) have rest: "getNextToken subroutine find_hook lx1 = (t, lx')"
        by (auto simp: getNextToken.simps[of _ _ lx])
      have again: "lex_once find_hook lx = (None, lx1)" using once None by simp
      have "reads (provider lx) (provider lx1)"
        using reads_trans[OF reads_lex_once[OF 1(2)] reads_code_point[OF reads_refl]] again
        by (metis snd_conv)
      with 1(1)[OF 1(3) again[symmetric] _ 1(2) _ rest] lex_once_modes[OF again] 1(3) reads_trans
      show ?thesis by (metis (no_types, lifting))
    qed
  qed
  with assms that show thesis by blast
qed

text \<open>
  The tokenizer moves forward: a token leaves the buffer as it was and the position
  inside it, never behind where it started, and strictly further for every token but the
  end of the file. Embedded lexers are only required to use the reading operations.
\<close>

theorem next_token_progress:
  assumes "hooks_read find_hook" and "\<not> (other_mode lx \<and> user_mode lx)"
    and "data_pos (provider lx) \<le> length (buffer (provider lx))"
    and "getNextToken subroutine find_hook lx = (t, lx')"
  shows "buffer (provider lx') = buffer (provider lx) \<and>
    data_pos (provider lx') \<le> length (buffer (provider lx')) \<and>
    (if tok_type t = EndOfFile then data_pos (provider lx) \<le> data_pos (provider lx')
     else data_pos (provider lx) < data_pos (provider lx'))"
proof -
  obtain q where q: "reads (provider lx) q" "reads q (provider lx')"
    "tok_type t \<noteq> EndOfFile \<Longrightarrow> remaining (provider lx') < remaining q"
    using getNextToken_start[OF assms(1,2,4)] by metis
  show ?thesis
    using reads_extends[OF q(1)] reads_extends[OF q(2)] q(3) assms(3)
    by (auto simp: remaining_def)
qed

theorem next_token_progress_witness:
  "case getNextToken (\<lambda>_ lx. (mk_token EndOfFile [] (position (provider lx)), lx)) (\<lambda>_. None)
       (new_lexer ''a.ch'' ''var x'' :: unit lexer) of (t, lx') \<Rightarrow>
     buffer (provider lx') = ''var x'' \<and> data_pos (provider lx') \<le> length ''var x''"
proof -
  let ?lx = "new_lexer ''a.ch'' ''var x'' :: unit lexer"
  obtain t lx' where g: "getNextToken (\<lambda>_ lx. (mk_token EndOfFile [] (position (provider lx)), lx))
      (\<lambda>_. None) ?lx = (t, lx')" by fastforce
  have "buffer (provider lx') = buffer (provider ?lx) \<and>
    data_pos (provider lx') \<le> length (buffer (provider lx')) \<and>
    (if tok_type t = EndOfFile then data_pos (provider ?lx) \<le> data_pos (provider lx')
     else data_pos (provider ?lx) < data_pos (provider lx'))"
    by (rule next_token_progress[OF _ _ _ g])
       (simp_all add: hooks_read_def)
  then show ?thesis by (auto simp: g)
qed

subsection \<open>What is skipped before a token\<close>

text \<open>Reading forward over bytes that are known.\<close>

definition moved :: "source_provider \<Rightarrow> nat \<Rightarrow> string \<Rightarrow> source_provider \<Rightarrow> bool" where
  "moved p n s q \<longleftrightarrow> buffer q = buffer p \<and> data_pos q = data_pos p + n \<and> rest_of q = s"

lemma rest_Cons_peek:
  assumes "rest_of p = c # s"
  shows "data_pos p < length (buffer p)" and "peek p = c" and "rest_of (increment p) = s"
    and "moved p 1 s (increment p)"
proof -
  show lt: "data_pos p < length (buffer p)"
    using assms by (metis drop_all list.distinct(1) not_less rest_of_def)
  show "peek p = c" using assms by (simp add: peek_rest)
  show r: "rest_of (increment p) = s" using assms lt by (simp add: less_imp_le)
  show "moved p 1 s (increment p)" using lt r by (simp add: moved_def)
qed

lemma readCharacter_rest: "rest_of p = c # s \<Longrightarrow> readCharacter p = (c, increment p)"
  using rest_Cons_peek(1,2)[of p c s] by (simp add: readCharacter_eq eof_def peek_def)

lemma lex_once_ascii:
  assumes "rest_of (provider lx) = c # s" and "byte_code c < 128"
  shows "lex_once find_hook lx =
    lex_switch find_hook (byte_code c) (data_pos (provider lx)) (position (provider lx))
      (at (increment (provider lx)) lx)"
  using rest_Cons_peek[OF assms(1)] assms(2)
  by (simp add: lex_once_def readCodePoint_ascii Let_def)

text \<open>
  The blanks of the language, on the text alone: runs of spaces and tabs, unless the lexer
  reports white space, and comments, unless it keeps them. A line comment ends before its
  line end (or a NUL byte); a block comment, whose star may serve as the first of the closing
  mark, ends behind that mark or behind a NUL byte.
\<close>

definition is_blank :: "char \<Rightarrow> bool" where
  "is_blank c \<longleftrightarrow> c = CHR '' '' \<or> c = TAB"

definition in_line :: "char \<Rightarrow> bool" where
  "in_line c \<longleftrightarrow> c \<noteq> NUL \<and> c \<noteq> LF \<and> c \<noteq> CR"

fun after_comment :: "string \<Rightarrow> string" where
  "after_comment [] = []"
| "after_comment (c # s) =
     (if c = NUL then s
      else if c = CHR ''*'' \<and> take 1 s = ''/'' then drop 1 s
      else after_comment s)"

lemma after_comment_length: "length (after_comment s) \<le> length s"
  by (induction s) auto

function skip_blanks :: "bool \<Rightarrow> bool \<Rightarrow> string \<Rightarrow> string" where
  "skip_blanks report keep s =
     (case s of
        [] \<Rightarrow> []
      | c # s' \<Rightarrow>
          if is_blank c \<and> \<not> report then skip_blanks report keep (dropWhile is_blank s')
          else if c = CHR ''/'' \<and> take 1 s' = ''/'' \<and> \<not> keep
          then skip_blanks report keep (dropWhile in_line s')
          else if c = CHR ''/'' \<and> take 1 s' = ''*'' \<and> \<not> keep
          then skip_blanks report keep (after_comment s')
          else s)"
  by pat_completeness auto
termination
  by (relation "measure (\<lambda>(r, k, s). length s)")
     (auto simp: less_Suc_eq_le length_dropWhile_le after_comment_length)

declare skip_blanks.simps [simp del]

lemma comment_rest:
  "rest_of (snd (read_multi_line_comment_text p)) = after_comment (rest_of p)"
proof (induction p rule: read_multi_line_comment_text.induct)
  case (1 p)
  show ?case
  proof (cases "rest_of p")
    case Nil
    then have "readCharacter p = (NUL, p)"
      by (simp add: readCharacter_eq rest_of_def eof_def increment_def)
    with Nil show ?thesis by (simp add: read_multi_line_comment_text.simps[of p])
  next
    case (Cons c s)
    note rc = readCharacter_rest[OF Cons] and r1 = rest_Cons_peek(3)[OF Cons]
    have closing: "peek (increment p) = CHR ''/'' \<longleftrightarrow> take 1 s = ''/''"
      by (cases s) (simp_all add: peek_rest r1)
    show ?thesis
    proof (cases "c = CHR ''*'' \<and> take 1 s = ''/''")
      case True
      then obtain s' where s: "s = CHR ''/'' # s'" by (cases s) auto
      with r1 have "rest_of (increment (increment p)) = s'" using rest_Cons_peek(3) by blast
      with True s closing Cons show ?thesis
        by (simp add: read_multi_line_comment_text.simps[of p] rc Let_def)
    next
      case False
      with 1[OF rc[symmetric]] closing Cons r1 show ?thesis
        by (auto simp: read_multi_line_comment_text.simps[of p] rc)
    qed
  qed
qed

lemma line_rest:
  "data_pos p \<le> length (buffer p) \<Longrightarrow>
   rest_of (read_current_line p) = dropWhile in_line (rest_of p)"
  by (simp add: read_current_line_def skip_while_rest in_line_def[abs_def])

lemma spaces_rest:
  assumes "data_pos p \<le> length (buffer p)"
  shows "rest_of (skipWhitespaces p) = dropWhile is_blank (rest_of p)"
proof -
  have "(\<lambda>c. c \<noteq> NUL \<and> (c = CHR '' '' \<or> c = TAB)) = is_blank" by (auto simp: is_blank_def)
  with assms show ?thesis by (simp add: skipWhitespaces_def skip_while_rest)
qed

lemma lex_switch_blank:
  assumes "lex_switch find_hook cp start pos lx = (None, lx')" and "readCodePoint p = (cp, q)"
  obtains c s where "rest_of p = c # s" and "byte_code c = cp" and "q = increment p"
    and "c = CHR ''/'' \<or> is_blank c"
proof -
  have cp: "cp = byte_code CHR ''/'' \<or> cp = byte_code CHR '' '' \<or> cp = byte_code TAB"
  proof (rule ccontr)
    assume "\<not> ?thesis"
    then have "fst (lex_switch find_hook cp start pos lx) \<noteq> None"
      by (simp add: lex_switch_def Let_def del: not_None_eq split: prod.split option.split)
    with assms(1) show False by simp
  qed
  obtain cp' n where u: "utf8_decode_peek p = (cp', n)" by fastforce
  with assms(2) cp have cp': "cp' = cp" and ne: "\<not> eof p"
    by (auto simp: readCodePoint_def Let_def utf8_decode_eof split: if_splits)
  then have lt: "data_pos p < length (buffer p)" by (simp add: eof_def)
  then have byte: "cp = byte_code (peek p) \<and> byte_code (peek p) < 128"
  proof -
    have "cp' < 128" using cp cp' by auto
    with utf8_decode_shape[OF less_imp_le[OF lt] u] ne show ?thesis unfolding cp'
      by (metis not_less)
  qed
  with assms(2) lt readCodePoint_ascii have "q = increment p" by simp
  moreover have "peek p = CHR ''/'' \<or> is_blank (peek p)"
    using byte cp unfolding is_blank_def by (metis of_char_eq_iff)
  ultimately show thesis using rest_peek[OF lt] byte that by metis
qed

text \<open>One round of the lexer skips one blank, or is at a token.\<close>

lemma lex_once_skips:
  assumes "lex_once find_hook lx = (None, lx')"
  shows "lex_whitespace lx' = lex_whitespace lx" and "keep_comments lx' = keep_comments lx"
    and "skip_blanks (lex_whitespace lx) (keep_comments lx) (rest_of (provider lx')) =
      skip_blanks (lex_whitespace lx) (keep_comments lx) (rest_of (provider lx))"
proof -
  let ?p = "provider lx" and ?q = "increment (provider lx)"
  obtain cp q where r: "readCodePoint ?p = (cp, q)" by fastforce
  have sw: "lex_switch find_hook cp (data_pos ?p) (position ?p) (at q lx) = (None, lx')"
    using assms by (simp add: lex_once_def Let_def r)
  obtain c s where rest: "rest_of ?p = c # s" and c: "byte_code c = cp" and q: "q = ?q"
    and cp: "c = CHR ''/'' \<or> is_blank c"
    using lex_switch_blank[OF sw r] by metis
  note r1 = rest_Cons_peek(3)[OF rest]
  have in_range: "data_pos ?q \<le> length (buffer ?q)" using rest_Cons_peek(1)[OF rest] by simp
  note once = assms[unfolded lex_once_def Let_def r prod.case q c[symmetric]]
  have "lex_whitespace lx' = lex_whitespace lx \<and> keep_comments lx' = keep_comments lx \<and>
     skip_blanks (lex_whitespace lx) (keep_comments lx) (rest_of (provider lx')) =
      skip_blanks (lex_whitespace lx) (keep_comments lx) (c # s)"
  proof (cases "is_blank c")
    case True
    then have "lex_space (data_pos ?p) (position ?p) (at ?q lx) = (None, lx')"
      using once by (auto simp: lex_switch_def is_blank_def)
    with True r1 spaces_rest[OF in_range] show ?thesis
      by (auto simp: lex_space_def Let_def skip_blanks.simps[of _ _ "c # s"] split: if_splits)
  next
    case False
    with cp have slash: "c = CHR ''/''" by simp
    then have "lex_slash (position ?p) (at ?q lx) = (None, lx')"
      using once by (simp add: lex_switch_def)
    moreover have "peek ?q = CHR ''/'' \<longleftrightarrow> take 1 s = ''/''" "peek ?q = CHR ''*'' \<longleftrightarrow> take 1 s = ''*''"
      by (cases s; simp add: peek_rest r1)+
    ultimately have "lex_whitespace lx' = lex_whitespace lx \<and> keep_comments lx' = keep_comments lx \<and>
        \<not> keep_comments lx \<and> (take 1 s = ''/'' \<and> rest_of (provider lx') = dropWhile in_line s \<or>
          take 1 s = ''*'' \<and> rest_of (provider lx') = after_comment s)"
      using line_rest[OF in_range] comment_rest[of ?q] r1
      by (auto simp: lex_slash_def Let_def split: if_splits prod.splits)
    then show ?thesis
      by (elim conjE disjE) (simp_all add: slash is_blank_def skip_blanks.simps[of _ _ "CHR ''/'' # s"])
  qed
  then show "lex_whitespace lx' = lex_whitespace lx" and "keep_comments lx' = keep_comments lx"
    and "skip_blanks (lex_whitespace lx) (keep_comments lx) (rest_of (provider lx')) =
      skip_blanks (lex_whitespace lx) (keep_comments lx) (rest_of ?p)"
    by (simp_all add: rest)
qed

lemma lex_once_at_token:
  assumes "lex_once find_hook lx = (Some t, lx')"
  shows "skip_blanks (lex_whitespace lx) (keep_comments lx) (rest_of (provider lx)) = rest_of (provider lx)"
proof (cases "rest_of (provider lx)")
  case Nil
  then show ?thesis by (simp add: skip_blanks.simps)
next
  case (Cons c s)
  let ?p = "provider lx"
  note r1 = rest_Cons_peek(3)[OF Cons]
  have "lex_whitespace lx" if "is_blank c"
    using that assms lex_once_ascii[OF Cons, of find_hook]
    by (auto simp: is_blank_def lex_switch_def lex_space_def Let_def split: if_splits)
  moreover have "keep_comments lx" if "c = CHR ''/''" "take 1 s = ''/'' \<or> take 1 s = ''*''"
    using that assms lex_once_ascii[OF Cons, of find_hook] r1
    by (cases s) (auto simp: lex_switch_def lex_slash_def Let_def peek_rest split: if_splits)
  ultimately show ?thesis by (auto simp: Cons skip_blanks.simps[of _ _ "c # s"])
qed

text \<open>So a token starts behind the blanks, and nowhere else.\<close>

lemma getNextToken_position:
  assumes "hooks_read find_hook" and "\<not> (other_mode lx \<and> user_mode lx)"
    and "getNextToken subroutine find_hook lx = (t, lx')"
  obtains q where "reads (provider lx) q" and "tok_position t = position q"
    and "reads q (provider lx')"
    and "rest_of q = skip_blanks (lex_whitespace lx) (keep_comments lx) (rest_of (provider lx))"
proof -
  have "hooks_read find_hook \<Longrightarrow> \<not> (other_mode lx \<and> user_mode lx) \<Longrightarrow>
      getNextToken subroutine find_hook lx = (t, lx') \<Longrightarrow>
      \<exists>q. reads (provider lx) q \<and> tok_position t = position q \<and> reads q (provider lx') \<and>
        rest_of q = skip_blanks (lex_whitespace lx) (keep_comments lx) (rest_of (provider lx))"
  proof (induction subroutine find_hook lx rule: getNextToken.induct)
    case (1 subroutine find_hook lx)
    obtain r lx1 where once: "lex_once find_hook lx = (r, lx1)" by fastforce
    show ?case
    proof (cases r)
      case (Some t1)
      with once 1(3,4) have e: "t1 = t" "lx1 = lx'" by (auto simp: getNextToken.simps[of _ _ lx])
      with Some once have o: "lex_once find_hook lx = (Some t, lx')" by simp
      show ?thesis
        using lex_once_token[OF 1(2) o] lex_once_at_token[OF o] reads_refl by metis
    next
      case None
      with once 1(3,4) have rest: "getNextToken subroutine find_hook lx1 = (t, lx')"
        by (auto simp: getNextToken.simps[of _ _ lx])
      have again: "lex_once find_hook lx = (None, lx1)" using once None by simp
      have "reads (provider lx) (provider lx1)"
        using reads_trans[OF reads_lex_once[OF 1(2)] reads_code_point[OF reads_refl]] again
        by (metis snd_conv)
      have "\<not> (other_mode lx1 \<and> user_mode lx1)" using lex_once_modes[OF again] 1(3) by simp
      from 1(1)[OF 1(3) again[symmetric] refl 1(2) this rest] obtain q where
        q: "reads (provider lx1) q" "tok_position t = position q" "reads q (provider lx')"
          "rest_of q = skip_blanks (lex_whitespace lx1) (keep_comments lx1) (rest_of (provider lx1))"
        by blast
      have "reads (provider lx) q" using q(1) \<open>reads (provider lx) (provider lx1)\<close> by (rule reads_trans)
      with q(2-4) show ?thesis unfolding lex_once_skips[OF again] by blast
    qed
  qed
  with assms that show thesis by blast
qed

text \<open>
  C3. Line numbers are exact: on a file where no carriage return and line feed follow a
  quote or a backslash, the line of every token is the number of line ends before the
  offset where the token starts, which is the first one behind the blanks (\<open>skip_blanks\<close>)
  that follow the previous token; and the count stays exact for the next token. The counter
  is an \<^verbatim>\<open>unsigned int\<close>, so lines are counted modulo \<open>2 ^ 32\<close>.
\<close>

theorem token_line_exact:
  assumes "hooks_read find_hook" and "\<not> (other_mode lx \<and> user_mode lx)"
    and "line_ok (provider lx)" and "no_quoted_crlf (buffer (provider lx))"
    and "getNextToken subroutine find_hook lx = (t, lx')"
  shows "line_ok (provider lx') \<and>
    pos_line (tok_position t) =
      lines_upto (buffer (provider lx))
        (length (buffer (provider lx)) -
         length (skip_blanks (lex_whitespace lx) (keep_comments lx) (rest_of (provider lx)))) mod 2 ^ 32"
proof -
  obtain q where q: "reads (provider lx) q" "tok_position t = position q" "reads q (provider lx')"
    "rest_of q = skip_blanks (lex_whitespace lx) (keep_comments lx) (rest_of (provider lx))"
    using getNextToken_position[OF assms(1,2,5)] by metis
  have ok: "line_ok q" by (rule reads_line_ok[OF q(1) assms(4,3)])
  have "line_ok (provider lx')"
    using reads_line_ok[OF q(3) _ ok] reads_buffer[OF q(1)] assms(4) by simp
  moreover have "pos_line (tok_position t) = lines_upto (buffer (provider lx)) (data_pos q) mod 2 ^ 32"
    using ok reads_buffer[OF q(1)] by (simp add: q(2) position_def line_ok_def)
  moreover have "data_pos q = length (buffer (provider lx)) - length (rest_of q)"
    using ok reads_buffer[OF q(1)] by (simp add: rest_of_def line_ok_def)
  ultimately show ?thesis by (simp add: q(4))
qed

theorem token_line_exact_witness:
  "case getNextToken (\<lambda>_ lx. (mk_token EndOfFile [] (position (provider lx)), lx)) (\<lambda>_. None)
       (new_lexer ''a.ch'' (''// '' @ [LF] @ ''if'') :: unit lexer) of (t, lx') \<Rightarrow>
     line_ok (provider lx') \<and> pos_line (tok_position t) = 0"
proof -
  let ?b = "''// '' @ [LF] @ ''if''"
  let ?lx = "new_lexer ''a.ch'' ?b :: unit lexer"
  obtain t lx' where g: "getNextToken (\<lambda>_ lx. (mk_token EndOfFile [] (position (provider lx)), lx))
      (\<lambda>_. None) ?lx = (t, lx')" by fastforce
  have skip: "length ?b - length (skip_blanks False False ?b) = 3"
    by (simp add: skip_blanks.simps is_blank_def in_line_def)
  have lines: "lines_upto ?b 3 = 0"
    by (simp add: lines_upto_def line_break_at_def upt_rec)
  have "line_ok (provider lx') \<and>
    pos_line (tok_position t) =
      lines_upto (buffer (provider ?lx))
        (length (buffer (provider ?lx)) -
         length (skip_blanks (lex_whitespace ?lx) (keep_comments ?lx) (rest_of (provider ?lx)))) mod 2 ^ 32"
    by (rule token_line_exact[OF _ _ _ _ g])
       (simp_all add: hooks_read_def line_ok_def lines_upto_def no_quoted_crlf_def)
  then have "line_ok (provider lx') \<and> pos_line (tok_position t) =
      lines_upto ?b (length ?b - length (skip_blanks False False ?b)) mod 2 ^ 32"
    unfolding new_lexer_fields(1,8) using new_lexer_fields(9,10) by metis
  then show ?thesis unfolding skip lines g prod.case by simp
qed

subsection \<open>All tokens\<close>

definition token_stops :: "token \<Rightarrow> bool" where
  "token_stops t \<longleftrightarrow> tok_type t = EndOfFile \<or> tok_type t = Unexpected"

text \<open>A user lexer reads forward, and consumes something unless its token ends the file.\<close>

definition subroutine_reads :: "('u option \<Rightarrow> 'u lexer \<Rightarrow> token \<times> 'u lexer) \<Rightarrow> bool" where
  "subroutine_reads subroutine \<longleftrightarrow>
     (\<forall>u lx t lx'. subroutine u lx = (t, lx') \<longrightarrow>
        reads (provider lx) (provider lx') \<and>
        (token_stops t \<or> remaining (provider lx') < remaining (provider lx)))"

lemma getNextToken_decreases:
  assumes "hooks_read find_hook" and "subroutine_reads subroutine"
    and "getNextToken subroutine find_hook lx = (t, lx')" and "\<not> token_stops t"
  shows "remaining (provider lx') < remaining (provider lx)"
proof (cases "other_mode lx \<and> user_mode lx")
  case True
  with assms show ?thesis
    by (auto simp: getNextToken.simps[of _ _ lx] subroutine_reads_def)
next
  case False
  obtain q where "reads (provider lx) q" "tok_type t \<noteq> EndOfFile \<Longrightarrow> remaining (provider lx') < remaining q"
    using getNextToken_start[OF assms(1) False assms(3)] by metis
  with assms(4) remaining_reads_le[of "provider lx" q] show ?thesis by (auto simp: token_stops_def)
qed

text \<open>
  C36. Lexing a whole file ends: \<^verbatim>\<open>getTokens\<close> returns, it appends to the vector a sequence of
  tokens whose last one is an end of file or an unexpected token, and no other one is.
\<close>

theorem getTokens_returns:
  assumes "hooks_read find_hook" and "subroutine_reads subroutine"
  shows "\<exists>ts end lx'. getTokens subroutine find_hook tokens lx = Some (tokens @ ts @ [end], lx') \<and>
    token_stops end \<and> list_all (\<lambda>t. \<not> token_stops t) ts"
proof (induction "remaining (provider lx)" arbitrary: lx tokens rule: less_induct)
  case less
  obtain t lx1 where g: "getNextToken subroutine find_hook lx = (t, lx1)" by fastforce
  show ?case
  proof (cases "token_stops t")
    case True
    then have "getTokens subroutine find_hook tokens lx = Some (tokens @ [] @ [t], lx1)"
      by (subst getTokens.simps) (auto simp: g token_stops_def)
    with True show ?thesis by fastforce
  next
    case False
    obtain ts e lx' where "getTokens subroutine find_hook (tokens @ [t]) lx1 =
        Some ((tokens @ [t]) @ ts @ [e], lx')" "token_stops e" "list_all (\<lambda>t. \<not> token_stops t) ts"
      using less getNextToken_decreases[OF assms g False] by blast
    moreover have "getTokens subroutine find_hook tokens lx = getTokens subroutine find_hook (tokens @ [t]) lx1"
      using False by (subst getTokens.simps) (auto simp: g token_stops_def)
    ultimately show ?thesis using False
      by (intro exI[of _ "t # ts"] exI[of _ e] exI[of _ lx']) simp
  qed
qed

theorem getTokens_returns_witness:
  "\<exists>ts end lx'. getTokens (\<lambda>_ lx. (mk_token EndOfFile [] (position (provider lx)), lx)) (\<lambda>_. None) []
       (new_lexer ''a.ch'' ''var x = 5;'' :: unit lexer) = Some ([] @ ts @ [end], lx') \<and>
    token_stops end \<and> list_all (\<lambda>t. \<not> token_stops t) ts"
  by (rule getTokens_returns)
     (auto simp: hooks_read_def subroutine_reads_def token_stops_def mk_token_def reads_refl)

subsection \<open>Names and string literals\<close>

lemma moved_trans: "moved p m (w @ s) q \<Longrightarrow> moved q n s r \<Longrightarrow> moved p (m + n) s r"
  by (simp add: moved_def)

lemma moved_Cons:
  "rest_of p = c # s \<Longrightarrow> moved (increment p) n s' q \<Longrightarrow> moved p (Suc n) s' q"
  using rest_Cons_peek(1) by (auto simp: moved_def)

lemma view_moved:
  assumes "rest_of p = w @ s" and "buffer q = buffer p" and "data_pos q = data_pos p + length w"
  shows "view_from q (data_pos p) = w"
  using assms by (simp add: view_from_def slice_def rest_of_def)

lemma slice_moved:
  assumes "rest_of p = w @ s" and "n = data_pos p + length w"
  shows "slice (data_pos p) n (buffer p) = w"
  using assms by (simp add: slice_def rest_of_def)

text \<open>The ASCII characters of names, and what may follow a name.\<close>

definition name_char :: "char \<Rightarrow> bool" where
  "name_char c \<longleftrightarrow> byte_code c < 128 \<and> isIdentifierContinue (byte_code c)"

definition ends_name :: "string \<Rightarrow> bool" where
  "ends_name s \<longleftrightarrow> (case s of [] \<Rightarrow> True | c # _ \<Rightarrow> byte_code c < 128 \<and> \<not> name_char c)"

lemma decode_ascii_rest:
  "rest_of p = c # s \<Longrightarrow> byte_code c < 128 \<Longrightarrow> utf8_decode_peek p = (byte_code c, Suc 0)"
  using rest_Cons_peek(1,2)[of p c s] by (auto simp: utf8_decode_peek_def eof_def peek_def Let_def)

lemma decode_end: "rest_of p = [] \<Longrightarrow> utf8_decode_peek p = (0, 0)"
  by (simp add: rest_of_def utf8_decode_peek_def eof_def)

lemma read_id_word:
  "list_all name_char w \<Longrightarrow> ends_name s \<Longrightarrow> rest_of p = w @ s \<Longrightarrow>
   moved p (length w) s (read_id p)"
proof (induction w arbitrary: p)
  case Nil
  then have "read_id p = p"
    by (cases s) (auto simp: read_id.simps[of p] decode_end decode_ascii_rest ends_name_def name_char_def)
  with Nil show ?case by (simp add: moved_def)
next
  case (Cons c w)
  then have c: "byte_code c < 128" "isIdentifierContinue (byte_code c)" by (simp_all add: name_char_def)
  have rest: "rest_of p = c # (w @ s)" using Cons.prems(3) by simp
  have "byte_code c \<noteq> 0 \<and> c \<noteq> CR" using identifier_continue_not_line_end[OF c(2)] by auto
  then have "read_id p = read_id (increment p)"
    using c rest_Cons_peek(1,2)[OF rest] decode_ascii_rest[OF rest c(1)]
      incrementCodepoint_ascii[of p] by (simp add: read_id.simps[of p])
  with Cons.IH[of "increment p"] Cons.prems rest_Cons_peek(3)[OF rest] moved_Cons[OF rest]
  show ?case by simp
qed

lemma lex_switch_name:
  assumes "isIdentifierStart (byte_code c)" and "byte_code c < 128"
  shows "lex_switch find_hook (byte_code c) start pos lx = lex_default (byte_code c) start pos lx"
proof -
  have "\<not> isIdentifierStart (byte_code d)" if "d \<in> set (map fst single_symbols)" for d
    using that by (auto simp: single_symbols_def identifier_start_ascii)
  then have "map_of single_symbols c = None" using assms(1) by (auto simp: map_of_eq_None_iff)
  moreover have "\<not> isIdentifierStart (byte_code d)" if "d \<in> set (map fst extended_symbols)" for d
    using that by (auto simp: extended_symbols_def identifier_start_ascii)
  then have "map_of extended_symbols c = None" using assms(1) by (auto simp: map_of_eq_None_iff)
  moreover have "byte_code c \<noteq> k" if "\<not> isIdentifierStart k" for k
    using assms(1) that by auto
  moreover have "c \<noteq> LF" "c \<noteq> CR" using assms(1) by (auto simp: identifier_start_ascii)
  ultimately show ?thesis using assms(2)
    by (simp add: lex_switch_def Let_def identifier_start_ascii)
qed

text \<open>
  Names and keywords: on an ASCII word that starts with a letter or underscore and is
  followed by the end of the input or a character that is not part of a name, the next
  token has exactly that word as its text, the position where it starts, the keyword's type
  when the table has the word and the identifier type otherwise; and the tokenizer is left
  right after the word.
\<close>

theorem lex_name:
  assumes "\<not> (other_mode lx \<and> user_mode lx)" and "rest_of (provider lx) = w @ s"
    and "w \<noteq> []" and "list_all name_char w" and "isIdentifierStart (byte_code (hd w))"
    and "ends_name s"
  shows "\<exists>q. moved (provider lx) (length w) s q \<and> getNextToken subroutine find_hook lx =
    (mk_token (case keyword_of w of Some t \<Rightarrow> t | None \<Rightarrow> Identifier) w (position (provider lx)),
     at q lx)"
proof -
  let ?p = "provider lx"
  obtain c w' where w: "w = c # w'" using assms(3) by (cases w) auto
  have rest: "rest_of ?p = c # (w' @ s)" and c: "byte_code c < 128" "isIdentifierStart (byte_code c)"
    using assms(2,4,5) by (simp_all add: w name_char_def)
  let ?q = "read_id (increment ?p)"
  have "moved (increment ?p) (length w') s ?q"
    using assms(4,6) rest_Cons_peek(3)[OF rest] by (intro read_id_word) (simp_all add: w)
  then have m: "moved ?p (length w) s ?q" using moved_Cons[OF rest] by (simp add: w)
  have view: "view_from ?q (data_pos ?p) = w"
    using view_moved[OF assms(2)] m by (simp add: moved_def)
  have "\<not> is_ascii_digit (byte_code c)" using c by (auto simp: identifier_start_ascii is_ascii_digit_def)
  then have "lex_once find_hook lx = (Some (mk_token (case keyword_of w of Some t \<Rightarrow> t | None \<Rightarrow> Identifier)
      w (position ?p)), at ?q lx)"
    using c(2) view
    by (simp add: lex_once_ascii[OF rest c(1)] lex_switch_name[OF c(2,1)] lex_default_def Let_def
        emit_def split: option.split)
  with m assms(1) show ?thesis by (auto simp: getNextToken.simps[of _ _ lx])
qed

theorem lex_name_witness:
  "\<exists>q. moved (provider (new_lexer ''a.ch'' ''while(x)'' :: unit lexer)) (length ''while'') ''(x)'' q \<and>
    getNextToken (\<lambda>_ lx. (mk_token EndOfFile [] (position (provider lx)), lx)) (\<lambda>_. None)
      (new_lexer ''a.ch'' ''while(x)'' :: unit lexer) =
    (mk_token (case keyword_of ''while'' of Some t \<Rightarrow> t | None \<Rightarrow> Identifier) ''while''
       (position (provider (new_lexer ''a.ch'' ''while(x)'' :: unit lexer))),
     at q (new_lexer ''a.ch'' ''while(x)''))"
  by (rule lex_name) (simp_all add: name_char_def ends_name_def identifier_continue_ascii identifier_start_ascii)

text \<open>The characters a string literal holds as they are.\<close>

definition plain_char :: "char \<Rightarrow> bool" where
  "plain_char c \<longleftrightarrow> c \<noteq> CHR 0x22 \<and> c \<noteq> CHR 0x5C \<and> c \<noteq> LF \<and> c \<noteq> CR \<and> c \<noteq> NUL"

lemma read_quoted_plain:
  "list_all plain_char w \<Longrightarrow> rest_of p = w @ CHR 0x22 # s \<Longrightarrow>
   fst (read_quoted_string p) \<and> moved p (Suc (length w)) s (snd (read_quoted_string p))"
proof (induction w arbitrary: p)
  case Nil
  then have rest: "rest_of p = CHR 0x22 # s" by simp
  from rest_Cons_peek(4)[OF rest] show ?case
    by (simp add: read_quoted_string.simps[of p] readCharacter_rest[OF rest])
next
  case (Cons c w)
  then have rest: "rest_of p = c # (w @ CHR 0x22 # s)" and c: "plain_char c" by simp_all
  have "read_quoted_string p = read_quoted_string (increment p)"
    using c by (simp add: read_quoted_string.simps[of p] readCharacter_rest[OF rest] plain_char_def)
  with Cons.IH[of "increment p"] Cons.prems(1) rest_Cons_peek(3)[OF rest] moved_Cons[OF rest]
  show ?case by simp
qed

text \<open>
  String literals: on a quote, characters that are not a quote, a backslash, a line
  end or NUL, and a quote (not the start of a multi-line string), the next token is a string
  token whose text is the characters between the quotes, nothing is reported, and the
  tokenizer is left right after the closing quote.
\<close>

theorem lex_string_literal:
  assumes "\<not> (other_mode lx \<and> user_mode lx)"
    and "rest_of (provider lx) = CHR 0x22 # w @ CHR 0x22 # s" and "list_all plain_char w"
    and "w = [] \<longrightarrow> (s = [] \<or> hd s \<noteq> CHR 0x22)"
  shows "\<exists>q. moved (provider lx) (length w + 2) s q \<and>
    getNextToken subroutine find_hook lx = (mk_token String w (position (provider lx)), at q lx)"
proof -
  let ?p = "provider lx" and ?q = "increment (provider lx)"
  note start = rest_Cons_peek[OF assms(2)]
  have once: "lex_once find_hook lx = lex_double_quote (position ?p) (at ?q lx)"
    using lex_once_ascii[OF assms(2)] by (simp add: lex_switch_def)
  have "\<exists>r. moved ?p (length w + 2) s r \<and>
      lex_double_quote (position ?p) (at ?q lx) = (Some (mk_token String w (position ?p)), at r lx)"
  proof (cases w)
    case Nil
    then have rest: "rest_of ?q = CHR 0x22 # s" using start(3) by simp
    have "peek (increment ?q) \<noteq> CHR 0x22"
      using assms(4) rest_Cons_peek(3)[OF rest] Nil by (cases s) (simp_all add: peek_rest)
    then have "lex_double_quote (position ?p) (at ?q lx) =
        (Some (mk_token String w (position ?p)), at (increment ?q) lx)"
      using rest_Cons_peek(2)[OF rest] Nil by (simp add: lex_double_quote_def Let_def emit_def)
    moreover have "moved ?p (length w + 2) s (increment ?q)"
      using moved_Cons[OF assms(2) rest_Cons_peek(4)[OF rest]] Nil by simp
    ultimately show ?thesis by blast
  next
    case (Cons c w')
    obtain b r where rq: "read_quoted_string ?q = (b, r)" by fastforce
    have r: "b" "moved ?q (Suc (length w)) s r"
      using read_quoted_plain[OF assms(3) start(3)] rq by simp_all
    have "peek ?q \<noteq> CHR 0x22"
      using rest_Cons_peek(2)[of ?q c] start(3) assms(3) Cons by (simp add: plain_char_def)
    moreover have "slice (data_pos ?q) (data_pos r - 1) (buffer r) = w"
      using slice_moved[OF start(3), of "data_pos r - 1"] r(2) by (simp add: moved_def)
    ultimately have "lex_double_quote (position ?p) (at ?q lx) =
        (Some (mk_token String w (position ?p)), at r lx)"
      using r(1) rq by (simp add: lex_double_quote_def Let_def emit_def)
    moreover have "moved ?p (length w + 2) s r" using moved_Cons[OF assms(2) r(2)] by simp
    ultimately show ?thesis by blast
  qed
  with once assms(1) show ?thesis by (auto simp: getNextToken.simps[of _ _ lx])
qed

theorem lex_string_literal_witness:
  "\<exists>q. moved (provider (new_lexer ''a.ch'' ([CHR 0x22] @ ''hi'' @ [CHR 0x22] @ '';'') :: unit lexer))
      (length ''hi'' + 2) '';'' q \<and>
    getNextToken (\<lambda>_ lx. (mk_token EndOfFile [] (position (provider lx)), lx)) (\<lambda>_. None)
      (new_lexer ''a.ch'' ([CHR 0x22] @ ''hi'' @ [CHR 0x22] @ '';'') :: unit lexer) =
    (mk_token String ''hi''
       (position (provider (new_lexer ''a.ch'' ([CHR 0x22] @ ''hi'' @ [CHR 0x22] @ '';'') :: unit lexer))),
     at q (new_lexer ''a.ch'' ([CHR 0x22] @ ''hi'' @ [CHR 0x22] @ '';'')))"
  by (rule lex_string_literal) (simp_all add: plain_char_def)

subsection \<open>Comments\<close>

lemma comment_text_unclosed:
  "list_all (\<lambda>c. c \<noteq> CHR ''*'' \<and> c \<noteq> NUL) s \<Longrightarrow> rest_of p = s \<Longrightarrow>
   fst (read_multi_line_comment_text p) = data_pos p + length s \<and>
   moved p (length s) [] (snd (read_multi_line_comment_text p))"
proof (induction s arbitrary: p)
  case Nil
  then have "readCharacter p = (NUL, p)"
    by (simp add: readCharacter_eq rest_of_def eof_def increment_def)
  with Nil show ?case by (simp add: read_multi_line_comment_text.simps[of p] moved_def)
next
  case (Cons c s)
  note start = rest_Cons_peek[OF Cons.prems(2)]
  have "read_multi_line_comment_text p = read_multi_line_comment_text (increment p)"
    using Cons.prems(1)
    by (simp add: read_multi_line_comment_text.simps[of p] readCharacter_rest[OF Cons.prems(2)])
  with Cons.IH[OF _ start(3)] Cons.prems(1) moved_Cons[OF Cons.prems(2)] start(1)
  show ?case by simp
qed

text \<open>
  Keeping comments changes what a comment is: on \<^verbatim>\<open>/*/\<close> followed by text without a
  closing mark, the tokenizer that drops comments takes the three characters as a whole
  comment and goes on after them, the one that keeps comments takes the rest of the file as
  the comment.
\<close>

theorem comment_end_depends_on_keep_comments:
  assumes "rest_of (provider lx) = ''/*/'' @ s" and "\<not> (other_mode lx \<and> user_mode lx)"
    and "list_all (\<lambda>c. c \<noteq> CHR ''*'' \<and> c \<noteq> NUL) s"
  shows "if keep_comments lx
    then \<exists>q. lex_once find_hook lx =
      (Some (mk_token MultiLineComment (''/'' @ s) (position (provider lx))), at q lx) \<and> rest_of q = []
    else \<exists>q. lex_once find_hook lx = (None, at q lx) \<and> rest_of q = s"
proof -
  let ?p = "provider lx"
  have r0: "rest_of ?p = CHR ''/'' # (''*/'' @ s)" using assms(1) by simp
  let ?q = "increment ?p"
  have r1: "rest_of ?q = CHR ''*'' # CHR ''/'' # s" using rest_Cons_peek(3)[OF r0] by simp
  let ?r = "increment ?q"
  note r2 = rest_Cons_peek(3)[OF r1]
  have once: "lex_once find_hook lx = lex_slash (position ?p) (at ?q lx)"
    using lex_once_ascii[OF r0] by (simp add: lex_switch_def)
  show ?thesis
  proof (cases "keep_comments lx")
    case True
    obtain e t where rd: "read_multi_line_comment_text ?r = (e, t)" by fastforce
    have t: "e = data_pos ?r + length (CHR ''/'' # s)" "moved ?r (length (CHR ''/'' # s)) [] t"
      using comment_text_unclosed[OF _ r2] assms(3) rd by simp_all
    have "slice (data_pos ?r) e (buffer t) = CHR ''/'' # s"
      using slice_moved[of ?r "CHR ''/'' # s" "[]" e] r2 t by (simp add: moved_def)
    then have "lex_once find_hook lx =
        (Some (mk_token MultiLineComment (''/'' @ s) (position ?p)), at t lx)"
      using True rest_Cons_peek(2)[OF r1] rd by (simp add: once lex_slash_def Let_def emit_def)
    with True t(2) show ?thesis by (auto simp: moved_def)
  next
    case False
    have "read_multi_line_comment_text ?q = (data_pos (increment ?r) - 2, increment ?r)"
      using rest_Cons_peek(2)[OF r2]
      by (simp add: read_multi_line_comment_text.simps[of ?q] readCharacter_rest[OF r1] Let_def)
    then have "lex_once find_hook lx = (None, at (increment ?r) lx)"
      using False rest_Cons_peek(2)[OF r1] by (simp add: once lex_slash_def Let_def)
    with False rest_Cons_peek(3)[OF r2] show ?thesis by auto
  qed
qed

theorem comment_end_depends_on_keep_comments_witness:
  "\<exists>q. lex_once (\<lambda>_. None) (new_lexer ''a.ch'' ''/*/ x'' :: unit lexer) =
     (None, at q (new_lexer ''a.ch'' ''/*/ x'')) \<and> rest_of q = '' x''"
  using comment_end_depends_on_keep_comments[of "new_lexer ''a.ch'' ''/*/ x'' :: unit lexer" "'' x''" "\<lambda>_. None"]
  by simp

text \<open>
  Writing lexed tokens back repeats white space: a white space token is written as that
  many blanks and then as its own text, so one blank comes back as two.
\<close>

theorem tokens_to_string_repeats_whitespace:
  "tokens_to_string [] [mk_token Identifier ''a'' p, mk_token Whitespace w p, mk_token Identifier ''b'' p]
   = ''a'' @ replicate (length w) CHR '' '' @ w @ ''b''"
  by (simp add: mk_token_def)

text \<open>
  The unused \<^verbatim>\<open>read_quoted_string2\<close> has no case for the end of the input: called there,
  it never returns.
\<close>

theorem string2_never_returns_at_end:
  assumes "eof p"
  shows "read_quoted_string2 p = None"
  using read_quoted_string2_returns[of p] assms by (cases "read_quoted_string2 p") auto

theorem string2_never_returns_at_end_witness:
  "read_quoted_string2 (source_provider_of []) = None"
  by (rule string2_never_returns_at_end) (simp add: eof_def source_provider_of_def)

end
