(* ===== verification/Escapes.thy ===== *)
theory Escapes
  imports Source_Provider
begin

text \<open>
  Escape sequences and code points in literals: \<^verbatim>\<open>utils/StringHelpers.cpp\<close> and the start of
  \<^verbatim>\<open>parser/utils/LexValue.cpp\<close>. A pointer into the text is the list of the bytes that are
  left; a result is whether the escape is valid, the bytes it appends, and what is left.
  32-bit code points are numbers reduced modulo \<open>2 ^ 32\<close> where the code shifts them.
\<close>

subsection \<open>Single-character escapes\<close>

definition escaped_char :: "char \<Rightarrow> char" where
  "escaped_char current =
    (if current = CHR ''a'' then CHR 0x07
     else if current = CHR ''f'' then FF
     else if current = CHR ''r'' then CR
     else if current = CHR ''n'' then LF
     else if current = CHR ''0'' then NUL
     else if current = CHR ''t'' then TAB
     else if current = CHR ''v'' then CHR 0x0B
     else if current = CHR ''b'' then CHR 0x08
     else if current = CHR 0x5C then CHR 0x5C
     else if current = CHR 0x22 then CHR 0x22
     else if current = CHR 0x27 then CHR 0x27
     else if current = CHR ''?'' then CHR ''?''
     else current)"

text \<open>
  \<^verbatim>\<open>escapable_char\<close> on a \<^verbatim>\<open>std::string_view\<close> and on a \<^verbatim>\<open>chem::string_view\<close>: the character and the
  index after it, or -1. The second also takes an escaped quote. An index out of range is
  undefined: \<open>None\<close>.
\<close>

definition escape_esc :: "string \<Rightarrow> nat \<Rightarrow> bool" where
  "escape_esc value i \<longleftrightarrow> i + 2 < length value \<and> value ! (i + 1) = CHR ''1'' \<and> value ! (i + 2) = CHR ''b''"

definition escapable_char_std :: "string \<Rightarrow> nat \<Rightarrow> (char \<times> int) option" where
  "escapable_char_std value i =
    (if i \<ge> length value then None
     else
       let current = value ! i in
       if current \<noteq> CHR ''x'' then
         (let next = escaped_char current in
          if next \<noteq> current \<or> next = CHR 0x5C then Some (next, int i + 1) else Some (current, -1))
       else if escape_esc value i then Some (CHR 0x1B, int i + 3)
       else Some (current, -1))"

definition escapable_char_chem :: "string \<Rightarrow> nat \<Rightarrow> (char \<times> int) option" where
  "escapable_char_chem value i =
    (if i \<ge> length value then None
     else
       let current = value ! i in
       if current \<noteq> CHR ''x'' then
         (let next = escaped_char current in
          if next \<noteq> current \<or> next = CHR 0x5C \<or> next = CHR 0x27 then Some (next, int i + 1)
          else Some (current, -1))
       else if escape_esc value i then Some (CHR 0x1B, int i + 3)
       else Some (current, -1))"

definition escapable_char_provider :: "source_provider \<Rightarrow> char \<Rightarrow> char \<times> source_provider" where
  "escapable_char_provider p current =
    (if current = CHR ''x'' then
       (case increment_if CHR ''1'' p of
          (True, q) \<Rightarrow>
            (case increment_if CHR ''b'' q of
               (True, r) \<Rightarrow> (CHR 0x1B, r)
             | (False, r) \<Rightarrow> (current, r))
        | (False, q) \<Rightarrow> (current, q))
     else (escaped_char current, p))"

definition escape_single :: "string \<Rightarrow> nat \<Rightarrow> char \<times> bool" where
  "escape_single value i =
    (case escapable_char_std value i of
       None \<Rightarrow> (NUL, False)
     | Some (c, n) \<Rightarrow> if n = -1 then (value ! i, False) else (c, True))"

subsection \<open>Code points\<close>

definition is_escaped_self :: "char \<Rightarrow> bool" where
  "is_escaped_self self \<longleftrightarrow> self = CHR 0x5C \<or> self = CHR 0x27 \<or> self = CHR 0x22"

definition hex_digit_to_int :: "char \<Rightarrow> int" where
  "hex_digit_to_int c =
    (let n = int (byte_code c) in
     if 48 \<le> n \<and> n \<le> 57 then n - 48
     else if 97 \<le> n \<and> n \<le> 102 then n - 97 + 10
     else if 65 \<le> n \<and> n \<le> 70 then n - 65 + 10
     else -1)"

definition append_utf8 :: "string \<Rightarrow> nat \<Rightarrow> string" where
  "append_utf8 str cp =
    (if cp < 0x80 then str @ [char_of cp]
     else if cp < 0x800 then
       str @ [char_of (0xC0 OR drop_bit 6 cp), char_of (0x80 OR (cp AND 0x3F))]
     else if cp < 0x10000 then
       str @ [char_of (0xE0 OR drop_bit 12 cp), char_of (0x80 OR (drop_bit 6 cp AND 0x3F)),
              char_of (0x80 OR (cp AND 0x3F))]
     else
       str @ [char_of (0xF0 OR drop_bit 18 cp), char_of (0x80 OR (drop_bit 12 cp AND 0x3F)),
              char_of (0x80 OR (drop_bit 6 cp AND 0x3F)), char_of (0x80 OR (cp AND 0x3F))])"

text \<open>One more hexadecimal digit: \<^verbatim>\<open>codepoint = (codepoint << 4) | h\<close> in 32 bits.\<close>

definition shift_digit :: "nat \<Rightarrow> int \<Rightarrow> nat" where
  "shift_digit codepoint h = take_bit 32 (push_bit 4 codepoint OR nat h)"

text \<open>The digits between braces: the code point, whether there was one, the rest.\<close>

fun read_braced_digits :: "nat \<Rightarrow> bool \<Rightarrow> string \<Rightarrow> nat \<times> bool \<times> string" where
  "read_braced_digits codepoint found [] = (codepoint, found, [])"
| "read_braced_digits codepoint found (c # cs) =
     (if c = CHR ''}'' then (codepoint, found, c # cs)
      else let h = hex_digit_to_int c in
        if h = -1 then (codepoint, found, c # cs)
        else read_braced_digits (shift_digit codepoint h) True cs)"

fun read_four_digits :: "nat \<Rightarrow> nat \<Rightarrow> string \<Rightarrow> (nat \<times> string) option" where
  "read_four_digits 0 codepoint cs = Some (codepoint, cs)"
| "read_four_digits (Suc n) codepoint [] = None"
| "read_four_digits (Suc n) codepoint (c # cs) =
     (let h = hex_digit_to_int c in
      if h = -1 then None else read_four_digits n (shift_digit codepoint h) cs)"

text \<open>\<^verbatim>\<open>read_escapable_char\<close>, on the bytes that follow the backslash (at least one).\<close>

definition read_hex_escape :: "string \<Rightarrow> string \<Rightarrow> bool \<times> string \<times> string" where
  "read_hex_escape rest str =
    (case rest of
       next # nextNext # rest' \<Rightarrow>
         (let h1 = hex_digit_to_int next; h2 = hex_digit_to_int nextNext in
          if h1 \<noteq> -1 \<and> h2 \<noteq> -1
          then (True, str @ [char_of (nat (push_bit 4 h1 OR h2))], rest')
          else (False, str @ [CHR ''x''], rest))
     | _ \<Rightarrow> (False, str, rest))"

definition read_unicode_escape :: "string \<Rightarrow> string \<Rightarrow> bool \<times> string \<times> string" where
  "read_unicode_escape rest str =
    (case rest of
       [] \<Rightarrow> (False, str, rest)
     | c # cs \<Rightarrow>
         if c = CHR ''{'' then
           (case read_braced_digits 0 False cs of
              (codepoint, found, rest') \<Rightarrow>
                if \<not> found \<or> rest' = [] \<or> hd rest' \<noteq> CHR ''}'' then (False, str, rest)
                else (True, append_utf8 str codepoint, tl rest'))
         else
           (case read_four_digits 4 0 rest of
              None \<Rightarrow> (False, str, rest)
            | Some (codepoint, rest') \<Rightarrow> (True, append_utf8 str codepoint, rest')))"

definition read_escapable_char :: "char \<Rightarrow> string \<Rightarrow> string \<Rightarrow> bool \<times> string \<times> string" where
  "read_escapable_char current rest str =
    (if current = CHR ''x'' then read_hex_escape rest str
     else if current = CHR ''u'' then read_unicode_escape rest str
     else
       let next = escaped_char current
       in (next \<noteq> current \<or> is_escaped_self next, str @ [next], rest))"

subsection \<open>The text of a literal\<close>

datatype escape_error = NoCharacterAfterBackslash | InvalidEscape

lemma braced_digits_length:
  "read_braced_digits cp f cs = (cp', f', rest) \<Longrightarrow> length rest \<le> length cs"
  by (induction cp f cs rule: read_braced_digits.induct) (auto simp: Let_def split: if_splits)

lemma four_digits_length:
  "read_four_digits n cp cs = Some (cp', rest) \<Longrightarrow> length rest \<le> length cs"
  by (induction n cp cs rule: read_four_digits.induct) (auto simp: Let_def split: if_splits)

lemma escape_length:
  "read_escapable_char c rest str = (ok, str', rest') \<Longrightarrow> length rest' \<le> length rest"
  by (auto simp: read_escapable_char_def read_hex_escape_def read_unicode_escape_def Let_def
      dest!: braced_digits_length four_digits_length split: if_splits list.splits prod.splits option.splits)

text \<open>\<^verbatim>\<open>escaped_view\<close>: the bytes of the literal and the errors reported, in order.\<close>

function escaped_view_loop :: "string \<Rightarrow> string \<Rightarrow> escape_error list \<Rightarrow> string \<times> escape_error list" where
  "escaped_view_loop [] str errs = (str, errs)"
| "escaped_view_loop (current # rest) str errs =
     (if current = CHR 0x5C then
        (case rest of
           [] \<Rightarrow> (str, errs @ [NoCharacterAfterBackslash])
         | c # cs \<Rightarrow>
             (case read_escapable_char c cs str of
                (ok, str', rest') \<Rightarrow>
                  escaped_view_loop rest' str' (if ok then errs else errs @ [InvalidEscape])))
      else escaped_view_loop rest (str @ [current]) errs)"
  by pat_completeness auto
termination
  by (relation "measure (\<lambda>(t, s, e). length t)") (auto dest: escape_length[OF sym])

definition escaped_view :: "string \<Rightarrow> string \<times> escape_error list" where
  "escaped_view value = escaped_view_loop value [] []"

text \<open>
  \<^verbatim>\<open>parseCharValue\<close>: the code point of the literal and whether its text is more than one
  code point (which is reported).
\<close>

definition char_literal_value :: "string \<Rightarrow> nat \<times> bool" where
  "char_literal_value escaped =
    (if escaped = [] then (0, False)
     else
       let p = (\<lambda>i. byte_code (escaped ! i)); n = length escaped;
           (cp, len) =
             (if p 0 < 0x80 then (p 0, 1)
              else if p 0 AND 0xE0 = 0xC0 \<and> n \<ge> 2
              then (push_bit 6 (p 0 AND 0x1F) OR (p 1 AND 0x3F), 2)
              else if p 0 AND 0xF0 = 0xE0 \<and> n \<ge> 3
              then (push_bit 12 (p 0 AND 0x0F) OR push_bit 6 (p 1 AND 0x3F) OR (p 2 AND 0x3F), 3)
              else if p 0 AND 0xF8 = 0xF0 \<and> n \<ge> 4
              then (push_bit 18 (p 0 AND 0x07) OR push_bit 12 (p 1 AND 0x3F) OR
                    push_bit 6 (p 2 AND 0x3F) OR (p 3 AND 0x3F), 4)
              else (p 0, 1))
       in (cp, len \<noteq> n))"

subsection \<open>Encoding and decoding\<close>

lemma utf8_leads:
  fixes x :: nat
  shows "x < 64 \<Longrightarrow> 0x80 OR x = 128 + x" "x < 32 \<Longrightarrow> 0xC0 OR x = 192 + x"
    "x < 16 \<Longrightarrow> 0xE0 OR x = 224 + x" "x < 8 \<Longrightarrow> 0xF0 OR x = 240 + x"
  using push_or_add[of x 6 2] push_or_add[of x 5 6] push_or_add[of x 4 14] push_or_add[of x 3 30]
  by (simp_all add: push_bit_eq_mult)

lemma digits_base64:
  fixes n :: nat
  shows "n = n div 64 * 64 + n mod 64"
    and "n = n div 4096 * 4096 + n div 64 mod 64 * 64 + n mod 64"
    and "n = n div 262144 * 262144 + n div 4096 mod 64 * 4096 + n div 64 mod 64 * 64 + n mod 64"
proof -
  have a: "n div 64 = n div 4096 * 64 + n div 64 mod 64"
    and b: "n div 4096 = n div 262144 * 64 + n div 4096 mod 64"
    using div_mult_mod_eq[of "n div 64" 64] div_mult_mod_eq[of "n div 4096" 64]
    by (simp_all add: div_mult2_eq[symmetric])
  show c: "n = n div 64 * 64 + n mod 64" by simp
  show d: "n = n div 4096 * 4096 + n div 64 mod 64 * 64 + n mod 64" using a c by linarith
  show "n = n div 262144 * 262144 + n div 4096 mod 64 * 4096 + n div 64 mod 64 * 64 + n mod 64"
    using b d by linarith
qed

text \<open>The bytes of \<^verbatim>\<open>append_utf8\<close> as numbers.\<close>

definition utf8_bytes :: "nat \<Rightarrow> nat list" where
  "utf8_bytes cp =
    (if cp < 128 then [cp]
     else if cp < 2048 then [192 + cp div 64, 128 + cp mod 64]
     else if cp < 65536 then [224 + cp div 4096, 128 + cp div 64 mod 64, 128 + cp mod 64]
     else [240 + cp div 262144, 128 + cp div 4096 mod 64, 128 + cp div 64 mod 64, 128 + cp mod 64])"

lemma append_utf8_bytes:
  assumes "cp < 2 ^ 21"
  shows "append_utf8 str cp = str @ map char_of (utf8_bytes cp)"
proof -
  have m: "x AND 0x3F = x mod 64" for x :: nat by (rule byte_masks)
  have lt: "cp < 2048 \<Longrightarrow> cp div 64 < 32" "cp < 65536 \<Longrightarrow> cp div 4096 < 16" "cp div 262144 < 8"
    using assms by auto
  show ?thesis
    using lt by (simp add: append_utf8_def utf8_bytes_def drop_bit_eq_div m utf8_leads)
qed

lemma utf8_bytes_less: "cp < 0x110000 \<Longrightarrow> b \<in> set (utf8_bytes cp) \<Longrightarrow> b < 256"
proof -
  assume "cp < 0x110000"
  then have "cp div 262144 < 5" by auto
  moreover have "cp < 2048 \<Longrightarrow> cp div 64 < 32" "cp < 65536 \<Longrightarrow> cp div 4096 < 16" by auto
  moreover assume "b \<in> set (utf8_bytes cp)"
  ultimately show "b < 256" by (auto simp: utf8_bytes_def split: if_splits)
qed

lemma rest_nth:
  assumes "rest_of p = xs"
  shows "i < length xs \<Longrightarrow> buffer p ! (data_pos p + i) = xs ! i" and "remaining p = length xs"
    and "eof p \<longleftrightarrow> xs = []"
  using assms by (auto simp: rest_of_def remaining_def eof_def)

lemma byte_of_rest:
  assumes "rest_of p = map char_of (utf8_bytes cp) @ s" and "cp < 0x110000"
    and "i < length (utf8_bytes cp)"
  shows "byte_code (buffer p ! (data_pos p + i)) = utf8_bytes cp ! i"
proof -
  have "utf8_bytes cp ! i < 256" using utf8_bytes_less[OF assms(2)] assms(3) by simp
  with rest_nth(1)[OF assms(1)] assms(3) show ?thesis by (simp add: nth_append)
qed

lemma lead_mods:
  fixes x :: nat
  shows "x < 64 \<Longrightarrow> (128 + x) mod 64 = x" "x < 32 \<Longrightarrow> (192 + x) mod 32 = x"
    "x < 16 \<Longrightarrow> (224 + x) mod 16 = x" "x < 8 \<Longrightarrow> (240 + x) mod 8 = x"
  using mod_mult_self1[of x 2 64] mod_mult_self1[of x 6 32] mod_mult_self1[of x 14 16]
    mod_mult_self1[of x 30 8] by (simp_all add: add.commute)

lemma decode_two:
  fixes byte :: "nat \<Rightarrow> nat"
  assumes "byte = (\<lambda>i. byte_code (buffer p ! (data_pos p + i)))" and "\<not> eof p" and "2 \<le> remaining p"
    and "byte 0 = 192 + a" and "byte 1 = 128 + b" and "2 \<le> a" and "a < 32" and "b < 64"
  shows "utf8_decode_peek p = (a * 64 + b, 2)"
  unfolding utf8_decode_peek_arith[OF assms(1)] using assms(2-) by (simp add: lead_mods)

lemma decode_three:
  fixes byte :: "nat \<Rightarrow> nat"
  assumes "byte = (\<lambda>i. byte_code (buffer p ! (data_pos p + i)))" and "\<not> eof p" and "3 \<le> remaining p"
    and "byte 0 = 224 + a" and "byte 1 = 128 + b" and "byte 2 = 128 + c"
    and "a < 16" and "b < 64" and "c < 64" and "a = 0 \<longrightarrow> 32 \<le> b" and "a = 13 \<longrightarrow> b < 32"
  shows "utf8_decode_peek p = (a * 4096 + b * 64 + c, 3)"
proof -
  have "byte 0 \<noteq> 224 \<or> 160 \<le> byte 1" "byte 0 \<noteq> 237 \<or> byte 1 \<le> 159" using assms by auto
  then show ?thesis
    unfolding utf8_decode_peek_arith[OF assms(1)] using assms(2-9) by (simp add: lead_mods)
qed

lemma decode_four:
  fixes byte :: "nat \<Rightarrow> nat"
  assumes "byte = (\<lambda>i. byte_code (buffer p ! (data_pos p + i)))" and "\<not> eof p" and "4 \<le> remaining p"
    and "byte 0 = 240 + a" and "byte 1 = 128 + b" and "byte 2 = 128 + c" and "byte 3 = 128 + d"
    and "a \<le> 4" and "b < 64" and "c < 64" and "d < 64" and "a = 0 \<longrightarrow> 16 \<le> b" and "a = 4 \<longrightarrow> b < 16"
  shows "utf8_decode_peek p = (a * 262144 + b * 4096 + c * 64 + d, 4)"
proof -
  have "byte 0 \<noteq> 240 \<or> 144 \<le> byte 1" "byte 0 \<noteq> 244 \<or> byte 1 \<le> 143" using assms by auto
  then show ?thesis
    unfolding utf8_decode_peek_arith[OF assms(1)] using assms(2-11) by (simp add: lead_mods)
qed

lemma decode_utf8_bytes:
  assumes "cp < 0x110000" and "\<not> (0xD800 \<le> cp \<and> cp \<le> 0xDFFF)"
    and "rest_of p = map char_of (utf8_bytes cp) @ s"
  shows "utf8_decode_peek p = (cp, length (utf8_bytes cp))"
proof -
  define byte where byte: "byte = (\<lambda>i. byte_code (buffer p ! (data_pos p + i)))"
  have b: "i < length (utf8_bytes cp) \<Longrightarrow> byte i = utf8_bytes cp ! i" for i
    using byte_of_rest[OF assms(3,1)] by (simp add: byte)
  have rem: "\<not> eof p" "remaining p = length (utf8_bytes cp) + length s"
    using rest_nth(2,3)[OF assms(3)] by (auto simp: utf8_bytes_def)
  note digits = digits_base64[of cp]
  consider "cp < 128" | "128 \<le> cp" "cp < 2048" | "2048 \<le> cp" "cp < 65536" | "65536 \<le> cp" by linarith
  then show ?thesis
  proof cases
    case 1
    then show ?thesis
      unfolding utf8_decode_peek_arith[OF byte] using rem(1) b[of 0] by (simp add: utf8_bytes_def)
  next
    case 2
    then have bytes: "utf8_bytes cp = [192 + cp div 64, 128 + cp mod 64]" by (simp add: utf8_bytes_def)
    have "utf8_decode_peek p = (cp div 64 * 64 + cp mod 64, 2)"
      by (rule decode_two[OF byte rem(1)]) (use rem(2) b 2 bytes in auto)
    then show ?thesis using digits(1) bytes by simp
  next
    case 3
    then have bytes: "utf8_bytes cp = [224 + cp div 4096, 128 + cp div 64 mod 64, 128 + cp mod 64]"
      by (simp add: utf8_bytes_def)
    have "cp div 4096 = 0 \<longrightarrow> 32 \<le> cp div 64 mod 64" "cp div 4096 = 13 \<longrightarrow> cp div 64 mod 64 < 32"
      using digits(2) 3 assms(2) by linarith+
    then have "utf8_decode_peek p = (cp div 4096 * 4096 + cp div 64 mod 64 * 64 + cp mod 64, 3)"
      using 3 rem(2) bytes b[of 0] b[of 1] b[of 2]
      by (intro decode_three[OF byte rem(1)]) (simp_all add: less_mult_imp_div_less)
    then show ?thesis using digits(2) bytes by simp
  next
    case 4
    then have bytes: "utf8_bytes cp =
        [240 + cp div 262144, 128 + cp div 4096 mod 64, 128 + cp div 64 mod 64, 128 + cp mod 64]"
      by (simp add: utf8_bytes_def)
    have "cp div 262144 = 0 \<longrightarrow> 16 \<le> cp div 4096 mod 64" "cp div 262144 = 4 \<longrightarrow> cp div 4096 mod 64 < 16"
      "cp div 262144 \<le> 4"
      using digits(3) 4 assms(1) by linarith+
    then have "utf8_decode_peek p =
        (cp div 262144 * 262144 + cp div 4096 mod 64 * 4096 + cp div 64 mod 64 * 64 + cp mod 64, 4)"
      using 4 rem(2) bytes b[of 0] b[of 1] b[of 2] b[of 3]
      by (intro decode_four[OF byte rem(1)]) simp_all
    then show ?thesis using digits(3) bytes by simp
  qed
qed

text \<open>
  C27. What \<^verbatim>\<open>append_utf8\<close> writes, \<^verbatim>\<open>utf8_decode_peek\<close> reads: for every Unicode scalar value, a
  source positioned at its encoding decodes to that value and to the number of bytes of the
  encoding, whatever follows.
\<close>

theorem utf8_encode_decode:
  assumes "cp < 0x110000" and "\<not> (0xD800 \<le> cp \<and> cp \<le> 0xDFFF)"
    and "rest_of p = append_utf8 [] cp @ s"
  shows "utf8_decode_peek p = (cp, length (append_utf8 [] cp))"
proof -
  have "append_utf8 [] cp = map char_of (utf8_bytes cp)"
    using assms(1) by (simp add: append_utf8_bytes)
  with assms decode_utf8_bytes[of cp p s] show ?thesis by simp
qed

theorem utf8_encode_decode_witness:
  "utf8_decode_peek (source_provider_of (append_utf8 [] 0x20AC @ ''!'')) =
     (0x20AC, length (append_utf8 [] 0x20AC))"
  by (rule utf8_encode_decode) (simp_all add: rest_of_def source_provider_of_def)

text \<open>
  Surrogates are encoded but not decoded: \<^verbatim>\<open>append_utf8\<close> accepts a surrogate code point (an
  escape can name one) and writes three bytes that \<^verbatim>\<open>utf8_decode_peek\<close> rejects, giving the
  replacement character for one byte.
\<close>

theorem surrogate_not_decoded:
  assumes "0xD800 \<le> cp" and "cp \<le> 0xDFFF" and "rest_of p = append_utf8 [] cp @ s"
  shows "utf8_decode_peek p = (0xFFFD, 1)"
proof -
  have bytes: "utf8_bytes cp = [224 + cp div 4096, 128 + cp div 64 mod 64, 128 + cp mod 64]"
    using assms(1,2) by (simp add: utf8_bytes_def)
  have rest: "rest_of p = map char_of (utf8_bytes cp) @ s"
    using assms by (simp add: append_utf8_bytes)
  define byte where byte: "byte = (\<lambda>i. byte_code (buffer p ! (data_pos p + i)))"
  have b: "byte 0 = 224 + cp div 4096" "byte 1 = 128 + cp div 64 mod 64"
    using byte_of_rest[OF rest, of 0] byte_of_rest[OF rest, of 1] assms(2) by (simp_all add: byte bytes)
  have "cp div 4096 = 13" using assms(1,2) by simp
  moreover from this have "32 \<le> cp div 64 mod 64"
    using digits_base64(2)[of cp] assms(1) by linarith
  moreover have "\<not> eof p" using rest_nth(3)[OF rest] by (simp add: bytes)
  ultimately show ?thesis
    unfolding utf8_decode_peek_arith[OF byte] using b by simp
qed

theorem surrogate_not_decoded_witness:
  "utf8_decode_peek (source_provider_of (append_utf8 [] 0xD801)) = (0xFFFD, 1)"
  by (rule surrogate_not_decoded[where s = "[]"]) (simp_all add: rest_of_def source_provider_of_def)

subsection \<open>Escapes\<close>

text \<open>Hexadecimal digits, and the escape that names a byte.\<close>

definition hex_digit :: "nat \<Rightarrow> char" where
  "hex_digit d = (if d < 10 then char_of (48 + d) else char_of (87 + d))"

definition byte_escape :: "char \<Rightarrow> string" where
  "byte_escape c = [CHR 0x5C, CHR ''x'', hex_digit (byte_code c div 16), hex_digit (byte_code c mod 16)]"

fun hex_string :: "nat \<Rightarrow> string" where
  "hex_string n =
     (if n < 16 then [hex_digit n] else hex_string (n div 16) @ [hex_digit (n mod 16)])"

declare hex_string.simps [simp del] escaped_view_loop.simps(2) [simp del]

lemma hex_digit_value: "d < 16 \<Longrightarrow> hex_digit_to_int (hex_digit d) = int d"
  by (auto simp: hex_digit_to_int_def hex_digit_def Let_def)

lemma hex_digit_not_brace: "d < 16 \<Longrightarrow> hex_digit d \<noteq> CHR ''}''"
  using hex_digit_value[of d] by (auto simp: hex_digit_to_int_def)

lemma hex_byte: "h1 < 16 \<Longrightarrow> h2 < 16 \<Longrightarrow> nat (push_bit 4 (int h1) OR int h2) = h1 * 16 + h2"
proof -
  assume "h1 < 16" and "h2 < 16"
  then have "push_bit 4 h1 OR h2 = h1 * 16 + h2" using push_or_add[of h2 4 h1] by simp
  moreover have "push_bit 4 (int h1) OR int h2 = int (push_bit 4 h1 OR h2)"
    by (simp add: of_nat_or_eq of_nat_push_bit)
  ultimately show ?thesis by simp
qed

lemma escape_byte:
  "escaped_view_loop (byte_escape c @ s) str errs = escaped_view_loop s (str @ [c]) errs"
proof -
  have "byte_code c div 16 < 16"
    by (rule less_mult_imp_div_less) (use byte_code_less[of c] in linarith)
  then have "char_of (nat (push_bit 4 (int (byte_code c div 16)) OR int (byte_code c mod 16))) = c"
    using hex_byte[of "byte_code c div 16" "byte_code c mod 16"] by simp
  with \<open>byte_code c div 16 < 16\<close> show ?thesis
    by (simp add: byte_escape_def escaped_view_loop.simps(2)[of "CHR 0x5C"] read_escapable_char_def
        read_hex_escape_def hex_digit_value Let_def)
qed

text \<open>
  Every byte string can be written in a literal: the text that escapes each byte as
  \<^verbatim>\<open>\xNN\<close> is read back as exactly those bytes, and nothing is reported.
\<close>

theorem byte_escapes_roundtrip:
  "escaped_view (concat (map byte_escape bs)) = (bs, [])"
proof -
  have "escaped_view_loop (concat (map byte_escape bs)) str errs = (str @ bs, errs)" for str errs
    by (induction bs arbitrary: str) (simp_all add: escape_byte)
  then show ?thesis by (simp add: escaped_view_def)
qed

lemma braced_hex:
  "n < 2 ^ 32 \<Longrightarrow> read_braced_digits 0 f (hex_string n @ t) = read_braced_digits n True t"
proof (induction n arbitrary: f t rule: hex_string.induct)
  case (1 n)
  have step: "shift_digit m (int d) = m * 16 + d" if "d < 16" "m * 16 + d < 2 ^ 32" for m d
    using that push_or_add[of d 4 m] by (simp add: shift_digit_def take_bit_nat_eq_self)
  show ?case
  proof (cases "n < 16")
    case True
    then show ?thesis
      using step[of n 0] by (simp add: hex_string.simps[of n] hex_digit_value hex_digit_not_brace Let_def)
  next
    case False
    then have "read_braced_digits 0 f (hex_string n @ t) =
        read_braced_digits (n div 16) True (hex_digit (n mod 16) # t)"
      using 1 by (simp add: hex_string.simps[of n])
    then show ?thesis
      using step[of "n mod 16" "n div 16"] 1(2) by (simp add: hex_digit_value hex_digit_not_brace Let_def)
  qed
qed

lemma char_value_bytes:
  assumes "\<forall>b\<in>set bs. b < 256" and "bs \<noteq> []"
  shows "char_literal_value (map char_of bs) =
    (let p = (\<lambda>i. bs ! i); n = length bs;
         (cp, len) =
           (if p 0 < 128 then (p 0, 1)
            else if 192 \<le> p 0 \<and> p 0 < 224 \<and> n \<ge> 2 then (p 0 mod 32 * 64 + p 1 mod 64, 2)
            else if 224 \<le> p 0 \<and> p 0 < 240 \<and> n \<ge> 3
            then (p 0 mod 16 * 4096 + p 1 mod 64 * 64 + p 2 mod 64, 3)
            else if 240 \<le> p 0 \<and> p 0 < 248 \<and> n \<ge> 4
            then (p 0 mod 8 * 262144 + p 1 mod 64 * 4096 + p 2 mod 64 * 64 + p 3 mod 64, 4)
            else (p 0, 1))
     in (cp, len \<noteq> n))"
proof -
  have byte: "byte_code (map char_of bs ! i) = bs ! i" if "i < length bs" for i
    using assms(1) that by (simp add: nth_mem)
  have b0: "bs ! 0 < 256" and b0': "byte_code (map char_of bs ! 0) = bs ! 0"
    using assms byte[of 0] by simp_all
  have "map char_of bs \<noteq> ([] :: string)" using assms(2) by simp
  then show ?thesis
    unfolding char_literal_value_def Let_def if_not_P[OF \<open>map char_of bs \<noteq> []\<close>] b0' length_map
      utf8_tests(2-4)[OF b0] byte_masks utf8_values_mod(3)
    unfolding utf8_values_mod(2)
    unfolding utf8_values_mod(1)
    using byte[of 1] byte[of 2] byte[of 3]
    by (simp cong: if_cong del: nth_map)
qed

lemma char_value_utf8:
  assumes "cp < 0x110000"
  shows "char_literal_value (append_utf8 [] cp) = (cp, False)"
proof -
  have bytes: "append_utf8 [] cp = map char_of (utf8_bytes cp)"
    using assms by (simp add: append_utf8_bytes)
  note val = char_value_bytes[of "utf8_bytes cp"]
  have small: "\<forall>b\<in>set (utf8_bytes cp). b < 256" "utf8_bytes cp \<noteq> []"
    using utf8_bytes_less[OF assms] by (simp_all add: utf8_bytes_def)
  have lt: "cp < 2048 \<Longrightarrow> cp div 64 < 32" "cp < 65536 \<Longrightarrow> cp div 4096 < 16" "cp div 262144 < 8"
    using assms by auto
  show ?thesis
    unfolding bytes val[OF small] using lt
    by (simp add: utf8_bytes_def Let_def lead_mods digits_base64(2,3)[of cp, symmetric])
qed

text \<open>
  Character literals hold any Unicode value: the text \<^verbatim>\<open>\u{\<close>, hexadecimal digits of the
  value, \<^verbatim>\<open>}\<close> is one character whose value is that number, and nothing is reported. The
  range is not checked for surrogates.
\<close>

theorem unicode_escape_value:
  assumes "cp < 0x110000"
  shows "case escaped_view ([CHR 0x5C, CHR ''u'', CHR ''{''] @ hex_string cp @ [CHR ''}'']) of
    (text, errs) \<Rightarrow> errs = [] \<and> char_literal_value text = (cp, False)"
  using assms
  by (simp add: escaped_view_def escaped_view_loop.simps(2)[of "CHR 0x5C"] read_escapable_char_def
      read_unicode_escape_def braced_hex char_value_utf8)

theorem unicode_escape_value_witness:
  "case escaped_view ([CHR 0x5C, CHR ''u'', CHR ''{''] @ hex_string 0x1F600 @ [CHR ''}'']) of
    (text, errs) \<Rightarrow> errs = [] \<and> char_literal_value text = (0x1F600, False)"
  by (rule unicode_escape_value) simp

text \<open>
  An escaped question mark is an invalid escape: \<^verbatim>\<open>escaped_char\<close> has a case for it, but
  the reader takes an escape that maps to itself as valid only for the backslash and the two
  quotes.
\<close>

theorem escaped_question_mark_reported:
  "escaped_view [CHR 0x5C, CHR ''?''] = (''?'', [InvalidEscape])"
  by (simp add: escaped_view_def escaped_view_loop.simps(2) read_escapable_char_def escaped_char_def
      is_escaped_self_def)

end
