(* ===== verification/Operations.thy ===== *)
theory Operations
  imports Token_Kinds
begin

text \<open>
  Operators: \<^verbatim>\<open>ast/utils/Operation.h\<close> and \<^verbatim>\<open>.cpp\<close>, and the token to operator switches of
  \<^verbatim>\<open>parser/statements/LexAssignment.cpp\<close>. The switches of \<^verbatim>\<open>Operation.cpp\<close> group their cases;
  a group is a list of operators here.
\<close>

datatype (plugins only: code size) operation =
    Grouping | ScopeResolutionUnary | ScopeResolutionBinary | FunctionCall | Subscript |
    StructureMember | StructurePointerMember | PostfixIncrement | PostfixDecrement |
    LogicalNegate | OnesComplement | UnaryPlus | UnaryMinus | PrefixIncrement | PrefixDecrement |
    Indirection | AddressOf | Sizeof | TypeConversion | Division | Multiplication | Modulus |
    Addition | Subtraction | LeftShift | RightShift | GreaterThan | GreaterThanOrEqual |
    LessThan | LessThanOrEqual | IsEqual | IsNotEqual | LogicalAND | LogicalOR | BitwiseAND |
    BitwiseXOR | BitwiseOR | Conditional | Assignment | AddTo | SubtractFrom | MultiplyBy |
    DivideBy | ModuloBy | ShiftLeftBy | ShiftRightBy | ANDWith | ExclusiveORWith | InclusiveORWith

definition operation_to_string :: "operation \<Rightarrow> string" where
  "operation_to_string op = (case op of
      Grouping \<Rightarrow> ''()''
    | ScopeResolutionUnary \<Rightarrow> ''::''
    | ScopeResolutionBinary \<Rightarrow> ''::''
    | FunctionCall \<Rightarrow> ''()''
    | Subscript \<Rightarrow> ''[]''
    | StructureMember \<Rightarrow> ''.''
    | StructurePointerMember \<Rightarrow> ''->''
    | PostfixIncrement \<Rightarrow> ''++''
    | PostfixDecrement \<Rightarrow> ''--''
    | LogicalNegate \<Rightarrow> ''!''
    | OnesComplement \<Rightarrow> ''~''
    | UnaryPlus \<Rightarrow> ''+''
    | UnaryMinus \<Rightarrow> ''-''
    | PrefixIncrement \<Rightarrow> ''++''
    | PrefixDecrement \<Rightarrow> ''--''
    | Indirection \<Rightarrow> ''*''
    | AddressOf \<Rightarrow> ''&''
    | Sizeof \<Rightarrow> ''sizeof''
    | TypeConversion \<Rightarrow> ''(type)''
    | Multiplication \<Rightarrow> ''*''
    | Division \<Rightarrow> ''/''
    | Modulus \<Rightarrow> ''%''
    | Addition \<Rightarrow> ''+''
    | Subtraction \<Rightarrow> ''-''
    | LeftShift \<Rightarrow> ''<<''
    | RightShift \<Rightarrow> ''>>''
    | GreaterThan \<Rightarrow> ''>''
    | GreaterThanOrEqual \<Rightarrow> ''>=''
    | LessThan \<Rightarrow> ''<''
    | LessThanOrEqual \<Rightarrow> ''<=''
    | IsEqual \<Rightarrow> ''==''
    | IsNotEqual \<Rightarrow> ''!=''
    | BitwiseAND \<Rightarrow> ''&''
    | BitwiseXOR \<Rightarrow> ''^''
    | BitwiseOR \<Rightarrow> ''|''
    | LogicalAND \<Rightarrow> ''&&''
    | LogicalOR \<Rightarrow> ''||''
    | Conditional \<Rightarrow> ''?:''
    | Assignment \<Rightarrow> ''=''
    | AddTo \<Rightarrow> ''+=''
    | SubtractFrom \<Rightarrow> ''-=''
    | MultiplyBy \<Rightarrow> ''*=''
    | DivideBy \<Rightarrow> ''/=''
    | ModuloBy \<Rightarrow> ''%=''
    | ShiftLeftBy \<Rightarrow> ''<<=''
    | ShiftRightBy \<Rightarrow> ''>>=''
    | ANDWith \<Rightarrow> ''&=''
    | ExclusiveORWith \<Rightarrow> ''^=''
    | InclusiveORWith \<Rightarrow> ''|='')"

text \<open>The cases of the precedence switch.\<close>

definition precedence_table :: "(operation list \<times> nat) list" where
  "precedence_table = [
    ([Grouping, ScopeResolutionUnary, ScopeResolutionBinary], 16),
    ([FunctionCall, Subscript, StructureMember, StructurePointerMember], 15),
    ([PostfixIncrement, PostfixDecrement], 14),
    ([LogicalNegate, OnesComplement, UnaryPlus, UnaryMinus, PrefixIncrement, PrefixDecrement,
      Indirection, AddressOf, Sizeof, TypeConversion], 13),
    ([Division, Multiplication, Modulus], 12),
    ([Addition, Subtraction], 11),
    ([LeftShift, RightShift], 10),
    ([GreaterThan, GreaterThanOrEqual, LessThan, LessThanOrEqual], 9),
    ([IsEqual, IsNotEqual], 8),
    ([BitwiseAND], 7),
    ([BitwiseXOR], 6),
    ([BitwiseOR], 5),
    ([LogicalAND], 4),
    ([LogicalOR], 3),
    ([Conditional], 2),
    ([Assignment, AddTo, SubtractFrom, MultiplyBy, DivideBy, ModuloBy, ShiftLeftBy, ShiftRightBy,
      ANDWith, ExclusiveORWith, InclusiveORWith], 1)]"

definition to_precedence :: "operation \<Rightarrow> nat" where
  "to_precedence op =
     (case filter (\<lambda>(ops, p). op \<in> set ops) precedence_table of [] \<Rightarrow> 0 | (ops, p) # _ \<Rightarrow> p)"

definition right_associative :: "operation list" where
  "right_associative =
    [LogicalNegate, OnesComplement, UnaryPlus, UnaryMinus, PrefixIncrement, PrefixDecrement,
     Indirection, AddressOf, Sizeof, TypeConversion, Assignment, AddTo, SubtractFrom, MultiplyBy,
     DivideBy, ModuloBy, ShiftLeftBy, ShiftRightBy, ANDWith, ExclusiveORWith, InclusiveORWith]"

definition is_assoc_left_to_right :: "operation \<Rightarrow> bool" where
  "is_assoc_left_to_right op \<longleftrightarrow> op \<notin> set right_associative"

definition operation_tokens :: "(token_type \<times> operation) list" where
  "operation_tokens =
    [(LogicalAndSym, LogicalAND), (LogicalOrSym, LogicalOR), (PlusSym, Addition),
     (MinusSym, Subtraction), (MultiplySym, Multiplication), (DivideSym, Division),
     (ModSym, Modulus), (AmpersandSym, BitwiseAND), (PipeSym, BitwiseOR),
     (CaretUpSym, BitwiseXOR), (LeftShiftSym, LeftShift), (RightShiftSym, RightShift),
     (GreaterThanOrEqualSym, GreaterThanOrEqual), (LessThanOrEqualSym, LessThanOrEqual),
     (GreaterThanSym, GreaterThan), (LessThanSym, LessThan), (DoubleEqualSym, IsEqual),
     (NotEqualSym, IsNotEqual)]"

definition assignment_operation_tokens :: "(token_type \<times> operation) list" where
  "assignment_operation_tokens =
    [(PlusSym, Addition), (MinusSym, Subtraction), (MultiplySym, Multiplication),
     (DivideSym, Division), (ModSym, Modulus), (AmpersandSym, BitwiseAND), (PipeSym, BitwiseOR),
     (CaretUpSym, BitwiseXOR), (LeftShiftSym, LeftShift), (RightShiftSym, RightShift)]"

text \<open>
  The parser's current token is the head of the tokens that are left; a list that has run
  out reads as the end of the file. Both switches consume the token they recognise.
\<close>

definition current_type :: "token list \<Rightarrow> token_type" where
  "current_type ts = (case ts of [] \<Rightarrow> EndOfFile | t # _ \<Rightarrow> tok_type t)"

definition parseOperation :: "token list \<Rightarrow> operation option \<times> token list" where
  "parseOperation ts =
     (case map_of operation_tokens (current_type ts) of
        Some op \<Rightarrow> (Some op, tl ts)
      | None \<Rightarrow> (None, ts))"

definition parseAssignmentOperator :: "token list \<Rightarrow> operation option \<times> token list" where
  "parseAssignmentOperator ts =
     (case map_of assignment_operation_tokens (current_type ts) of
        Some op \<Rightarrow> (Some op, tl ts)
      | None \<Rightarrow> (None, ts))"

subsection \<open>What the tables promise\<close>

lemma to_precedence_simps:
  "to_precedence LogicalAND = 4" "to_precedence LogicalOR = 3" "to_precedence Addition = 11"
  "to_precedence Subtraction = 11" "to_precedence Multiplication = 12" "to_precedence Division = 12"
  "to_precedence Modulus = 12" "to_precedence BitwiseAND = 7" "to_precedence BitwiseOR = 5"
  "to_precedence BitwiseXOR = 6" "to_precedence LeftShift = 10" "to_precedence RightShift = 10"
  "to_precedence GreaterThanOrEqual = 9" "to_precedence LessThanOrEqual = 9" "to_precedence GreaterThan = 9"
  "to_precedence LessThan = 9" "to_precedence IsEqual = 8" "to_precedence IsNotEqual = 8"
  by (simp_all add: to_precedence_def precedence_table_def)

lemma assoc_by_precedence:
  "is_assoc_left_to_right op \<longleftrightarrow> to_precedence op \<noteq> 1 \<and> to_precedence op \<noteq> 13"
  by (cases op)
     (simp_all add: is_assoc_left_to_right_def right_associative_def to_precedence_def precedence_table_def)

lemma same_precedence_same_assoc:
  "to_precedence a = to_precedence b \<Longrightarrow> is_assoc_left_to_right a = is_assoc_left_to_right b"
  by (simp add: assoc_by_precedence)

end
