(* ===== verification/Shunting_Yard.thy ===== *)
theory Shunting_Yard
  imports Operations
begin

text \<open>
  Expressions from tokens: \<^verbatim>\<open>parser/utils/Expression.cpp\<close> (lines 21 to 124) and
  \<^verbatim>\<open>utils/ValueAndOperatorStack.h\<close>. The two stacks are lists whose last element is the top,
  as the vector has it. Operands come from \<^verbatim>\<open>parseAccessChainOrValue\<close>, the rest of the
  parser: it is a parameter \<open>parse_value\<close> from tokens to an operand (if there is one) and
  the tokens left. The result is shown to be the one tree over the operands that respects
  precedence and associativity.
\<close>

datatype 'v expr =
    Leaf 'v
  | Expression (first_value: "'v expr") (second_value: "'v expr") (operation_of: operation)

datatype 'v stack_item =
    ItemValue "'v expr"
  | ItemChar char
  | ItemOperation operation

type_synonym 'v vo_stack = "'v stack_item list"

subsection \<open>The stack of values and operators\<close>

definition putValue :: "'v expr \<Rightarrow> 'v vo_stack \<Rightarrow> 'v vo_stack" where
  "putValue v st = st @ [ItemValue v]"

definition putOperator :: "operation \<Rightarrow> 'v vo_stack \<Rightarrow> 'v vo_stack" where
  "putOperator op st = st @ [ItemOperation op]"

definition putCharacter :: "char \<Rightarrow> 'v vo_stack \<Rightarrow> 'v vo_stack" where
  "putCharacter c st = st @ [ItemChar c]"

text \<open>\<^verbatim>\<open>putAllInto\<close> appends from the top down; the source stack is left as it is.\<close>

definition putAllInto :: "'v vo_stack \<Rightarrow> 'v vo_stack \<Rightarrow> 'v vo_stack" where
  "putAllInto st other = other @ rev st"

definition top_item :: "'v vo_stack \<Rightarrow> 'v stack_item option" where
  "top_item st = (if st = [] then None else Some (last st))"

text \<open>
  The result of building an expression: a pointer that may be null, or undefined behaviour
  (\<^verbatim>\<open>back()\<close> of an empty vector).
\<close>

datatype 'a raw = Undefined | Null | Made 'a

fun toExpressionRaw_loop :: "'v vo_stack \<Rightarrow> 'v expr list \<Rightarrow> 'v expr raw" where
  "toExpressionRaw_loop [] st = (if st = [] then Null else Made (last st))"
| "toExpressionRaw_loop (ItemValue v # items) st = toExpressionRaw_loop items (st @ [v])"
| "toExpressionRaw_loop (ItemChar c # items) st = toExpressionRaw_loop items st"
| "toExpressionRaw_loop (ItemOperation op # items) st =
     (if st = [] then Undefined
      else
        let second = last st; st1 = butlast st in
        if st1 = [] then Null
        else toExpressionRaw_loop items (butlast st1 @ [Expression (last st1) second op]))"

definition toExpressionRaw :: "'v vo_stack \<Rightarrow> 'v expr raw" where
  "toExpressionRaw final = toExpressionRaw_loop final []"

subsection \<open>Operators and parentheses\<close>

definition yields_to :: "operation \<Rightarrow> operation \<Rightarrow> bool" where
  "yields_to o1 o2 \<longleftrightarrow>
     to_precedence o2 > to_precedence o1 \<or>
     (to_precedence o1 = to_precedence o2 \<and> is_assoc_left_to_right o1)"

text \<open>The loop that moves operators to the output; the stack is given with its top first.\<close>

fun pop_operators :: "operation \<Rightarrow> 'v stack_item list \<Rightarrow> 'v vo_stack \<Rightarrow> 'v stack_item list \<times> 'v vo_stack" where
  "pop_operators o1 (ItemOperation o2 # st) final =
     (if yields_to o1 o2 then pop_operators o1 st (putOperator o2 final)
      else (ItemOperation o2 # st, final))"
| "pop_operators o1 st final = (st, final)"

definition shunting_yard_on_operator ::
  "'v vo_stack \<Rightarrow> 'v vo_stack \<Rightarrow> operation \<Rightarrow> 'v vo_stack \<times> 'v vo_stack" where
  "shunting_yard_on_operator st final o1 =
     (case pop_operators o1 (rev st) final of
        (st', final') \<Rightarrow> (putOperator o1 (rev st'), final'))"

text \<open>
  The loop at a closing parenthesis. A value on the operator stack would make it run
  forever; none is ever put there (\<open>no_values\<close> below), and the model stops.
\<close>

fun close_paren :: "'v stack_item list \<Rightarrow> 'v vo_stack \<Rightarrow> bool \<times> 'v stack_item list \<times> 'v vo_stack" where
  "close_paren [] final = (False, [], final)"
| "close_paren (ItemOperation op # st) final = close_paren st (putOperator op final)"
| "close_paren (ItemChar c # st) final =
     (if c = CHR ''('' then (True, st, final) else close_paren st (putCharacter c final))"
| "close_paren (ItemValue v # st) final = (False, ItemValue v # st, final)"

fun consumeNewLines :: "token list \<Rightarrow> token list" where
  "consumeNewLines [] = []"
| "consumeNewLines (t # ts) = (if tok_type t = NewLine then consumeNewLines ts else t # ts)"

definition consumeToken :: "token_type \<Rightarrow> token list \<Rightarrow> bool \<times> token list" where
  "consumeToken ty ts = (if current_type ts = ty then (True, tl ts) else (False, ts))"

subsection \<open>The expression loop\<close>

text \<open>
  One round at \<^verbatim>\<open>other_values\<close>: \<open>Inl\<close> leaves the loop, \<open>Inr\<close> goes on.
\<close>

type_synonym 'v yard = "'v vo_stack \<times> 'v vo_stack \<times> token list"

definition other_values :: "'v yard \<Rightarrow> 'v yard + 'v yard" where
  "other_values y =
    (case y of (st, final, ts) \<Rightarrow>
       (case consumeToken LParen ts of
          (True, ts') \<Rightarrow> Inr (putCharacter CHR ''('' st, final, ts')
        | (False, ts') \<Rightarrow>
            if current_type ts' = RParen then
              (case close_paren (rev st) final of
                 (found, st', final') \<Rightarrow>
                   if found then Inr (rev st', final', tl ts') else Inl (rev st', final', ts'))
            else Inl (st, final, ts')))"

partial_function (option) parseExpressionWith ::
  "(token list \<Rightarrow> 'v option \<times> token list) \<Rightarrow> bool \<Rightarrow> 'v yard \<Rightarrow> 'v yard option" where
  "parseExpressionWith parse_value value_first y =
    (case y of (st, final, ts) \<Rightarrow>
       if current_type ts = EndOfFile then Some (st, putAllInto st final, ts)
       else if value_first then
         (case parse_value (consumeNewLines ts) of
            (Some v, ts') \<Rightarrow> parseExpressionWith parse_value False (st, putValue (Leaf v) final, ts')
          | (None, ts') \<Rightarrow>
              (case parseOperation ts' of
                 (Some o1, ts'') \<Rightarrow>
                   (case shunting_yard_on_operator st final o1 of
                      (st', final') \<Rightarrow> parseExpressionWith parse_value True (st', final', ts''))
               | (None, ts'') \<Rightarrow>
                   (case other_values (st, final, ts'') of
                      Inr y' \<Rightarrow> parseExpressionWith parse_value value_first y'
                    | Inl (st', final', ts3) \<Rightarrow> Some (st', putAllInto st' final', ts3))))
       else
         (case parseOperation ts of
            (Some o1, ts') \<Rightarrow>
              (case shunting_yard_on_operator st final o1 of
                 (st', final') \<Rightarrow> parseExpressionWith parse_value True (st', final', ts'))
          | (None, ts') \<Rightarrow>
              (case other_values (st, final, ts') of
                 Inr y' \<Rightarrow> parseExpressionWith parse_value value_first y'
               | Inl (st', final', ts3) \<Rightarrow> Some (st', putAllInto st' final', ts3))))"

text \<open>
  \<^verbatim>\<open>parseRemainingExpression\<close>: \<open>None\<close> is a loop that does not end. Without an operator the
  first value is the expression.
\<close>

definition parseRemainingExpression ::
  "(token list \<Rightarrow> 'v option \<times> token list) \<Rightarrow> 'v \<Rightarrow> token list \<Rightarrow> ('v expr raw \<times> token list) option" where
  "parseRemainingExpression parse_value first ts =
    (case parseOperation ts of
       (None, _) \<Rightarrow> Some (Made (Leaf first), ts)
     | (Some op, ts') \<Rightarrow>
         (case parseExpressionWith parse_value True
                 (putOperator op [], putValue (Leaf first) [], ts') of
            None \<Rightarrow> None
          | Some (st, final, ts'') \<Rightarrow> Some (toExpressionRaw final, ts'')))"

subsection \<open>Trees that respect an order on operators\<close>

fun expr_values :: "'v expr \<Rightarrow> 'v list" where
  "expr_values (Leaf v) = [v]"
| "expr_values (Expression l r op) = expr_values l @ expr_values r"

fun expr_ops :: "'v expr \<Rightarrow> operation list" where
  "expr_ops (Leaf v) = []"
| "expr_ops (Expression l r op) = expr_ops l @ op # expr_ops r"

text \<open>
  \<open>yields o1 o2\<close>: an operator \<open>o1\<close> that comes after \<open>o2\<close> lets \<open>o2\<close> take the operand between
  them. A tree may be the left operand of \<open>op\<close> when \<open>op\<close> yields to its root, and the right
  operand when its root does not yield to \<open>op\<close>.
\<close>

fun left_ok :: "(operation \<Rightarrow> operation \<Rightarrow> bool) \<Rightarrow> operation \<Rightarrow> 'v expr \<Rightarrow> bool" where
  "left_ok yields op (Leaf v) = True"
| "left_ok yields op (Expression l r op') = yields op op'"

fun right_ok :: "(operation \<Rightarrow> operation \<Rightarrow> bool) \<Rightarrow> operation \<Rightarrow> 'v expr \<Rightarrow> bool" where
  "right_ok yields op (Leaf v) = True"
| "right_ok yields op (Expression l r op') = (\<not> yields op' op)"

fun well_grouped :: "(operation \<Rightarrow> operation \<Rightarrow> bool) \<Rightarrow> 'v expr \<Rightarrow> bool" where
  "well_grouped yields (Leaf v) = True"
| "well_grouped yields (Expression l r op) =
     (well_grouped yields l \<and> well_grouped yields r \<and> left_ok yields op l \<and> right_ok yields op r)"

text \<open>
  The order the grammar means: \<open>o2\<close>, before \<open>o1\<close>, takes the operand between them when it binds
  more tightly, or as tightly with both associating to the left.
\<close>

definition goes_first :: "operation \<Rightarrow> operation \<Rightarrow> bool" where
  "goes_first o1 o2 \<longleftrightarrow> to_precedence o1 < to_precedence o2 \<or>
     (to_precedence o1 = to_precedence o2 \<and> is_assoc_left_to_right o1 \<and> is_assoc_left_to_right o2)"

lemma length_expr_values: "length (expr_values t) = Suc (length (expr_ops t))"
  by (induction t) auto

text \<open>
  The interface between the operator tables and the expression parser: what the tables
  promise for the tree over a sequence of operands to be unique.
\<close>

locale operator_order =
  fixes yields :: "operation \<Rightarrow> operation \<Rightarrow> bool"
  assumes left_left: "yields o1 o2 \<Longrightarrow> yields o2 o3 \<Longrightarrow> yields o1 o3"
    and left_right: "yields o1 o2 \<Longrightarrow> \<not> yields o3 o2 \<Longrightarrow> yields o1 o3"
    and right_left: "\<not> yields o2 o1 \<Longrightarrow> yields o2 o3 \<Longrightarrow> \<not> yields o3 o1"
    and right_right: "\<not> yields o2 o1 \<Longrightarrow> \<not> yields o3 o2 \<Longrightarrow> \<not> yields o3 o1"
begin

lemma right_all:
  "well_grouped yields t \<Longrightarrow> right_ok yields op t \<Longrightarrow> o' \<in> set (expr_ops t) \<Longrightarrow> \<not> yields o' op"
  and left_all:
  "well_grouped yields t \<Longrightarrow> left_ok yields op t \<Longrightarrow> o' \<in> set (expr_ops t) \<Longrightarrow> yields op o'"
proof (induction t arbitrary: op)
  case (Expression l r op1)
  have below: "o' \<in> set (expr_ops l) \<Longrightarrow> yields op1 o'" "o' \<in> set (expr_ops r) \<Longrightarrow> \<not> yields o' op1"
    if "well_grouped yields (Expression l r op1)"
    using that Expression.IH by simp_all
  { case 1
    with below show ?case using right_left[of op1 op o'] right_right[of op1 op o'] by auto
  next
    case 2
    with below show ?case using left_left[of op op1 o'] left_right[of op op1 o'] by auto }
qed simp_all

text \<open>A tree that obeys the order is determined by its operands and operators.\<close>

lemma root_not_before:
  assumes "well_grouped yields (Expression a c oa)" and "well_grouped yields (Expression b d ob)"
    and "expr_ops a @ oa # expr_ops c = expr_ops b @ ob # expr_ops d"
  shows "\<not> length (expr_ops a) < length (expr_ops b)"
proof
  assume lt: "length (expr_ops a) < length (expr_ops b)"
  let ?n = "length (expr_ops a)" and ?m = "length (expr_ops b)"
  have "expr_ops b ! ?n = oa"
    using lt assms(3) by (metis nth_append nth_append_length)
  then have "yields ob oa"
    using assms(2) lt left_all[of b ob oa] by (metis nth_mem well_grouped.simps(2))
  moreover have "(expr_ops a @ oa # expr_ops c) ! ?m = ob" using assms(3) by simp
  then have "expr_ops c ! (?m - Suc ?n) = ob"
    using lt by (simp add: nth_append nth_Cons')
  moreover have "length (expr_ops a @ oa # expr_ops c) = length (expr_ops b @ ob # expr_ops d)"
    using assms(3) by simp
  then have "?m - Suc ?n < length (expr_ops c)" using lt by simp
  ultimately show False
    using assms(1) right_all[of c oa ob] by (metis nth_mem well_grouped.simps(2))
qed

lemma root_position:
  assumes "well_grouped yields (Expression l r op)" and "well_grouped yields (Expression l' r' op')"
    and "expr_ops (Expression l r op) = expr_ops (Expression l' r' op')"
  shows "length (expr_ops l) = length (expr_ops l')"
  using root_not_before[OF assms(1,2)] root_not_before[OF assms(2,1)] assms(3)
  by (simp add: not_less_iff_gr_or_eq)

lemma grouping_unique:
  "well_grouped yields t \<Longrightarrow> well_grouped yields t' \<Longrightarrow> expr_values t = expr_values t' \<Longrightarrow>
   expr_ops t = expr_ops t' \<Longrightarrow> t = t'"
proof (induction t arbitrary: t')
  case (Leaf v)
  then show ?case by (cases t') (auto simp: append_eq_Cons_conv)
next
  case (Expression l r op)
  then obtain l' r' op' where t': "t' = Expression l' r' op'" by (cases t') auto
  have len: "length (expr_ops l) = length (expr_ops l')"
    using root_position Expression.prems t' by blast
  then have "expr_ops l = expr_ops l' \<and> op = op' \<and> expr_ops r = expr_ops r'"
    using Expression.prems(4) t' by simp
  moreover have "expr_values l = expr_values l' \<and> expr_values r = expr_values r'"
    using Expression.prems(3) t' len length_expr_values[of l] length_expr_values[of l'] by simp
  ultimately show ?case using Expression t' by simp
qed

end

text \<open>The tables of \<^verbatim>\<open>Operation.cpp\<close> keep the promise.\<close>

lemma yields_to_goes_first: "yields_to = goes_first"
  by (intro ext) (auto simp: yields_to_def goes_first_def dest: same_precedence_same_assoc)

interpretation operators: operator_order yields_to
  by unfold_locales (auto simp: yields_to_def dest: same_precedence_same_assoc)

subsection \<open>The invariant of the expression loop\<close>

text \<open>
  The operators that wait (top first) and the trees they wait for (top first): each tree may
  stand to the right of the operator below it and to the left of the one above it, and no
  waiting operator yields to the one below it.
\<close>

fun waiting_ok :: "operation list \<Rightarrow> 'v expr list \<Rightarrow> bool" where
  "waiting_ok [] [t] = well_grouped yields_to t"
| "waiting_ok (op # ops) (t # ts) =
     (well_grouped yields_to t \<and> right_ok yields_to op t \<and> waiting_ok ops ts \<and>
      left_ok yields_to op (hd ts) \<and> (ops \<noteq> [] \<longrightarrow> \<not> yields_to op (hd ops)))"
| "waiting_ok _ _ = False"

fun waiting_values :: "'v expr list \<Rightarrow> 'v list" where
  "waiting_values [] = []"
| "waiting_values (t # ts) = waiting_values ts @ expr_values t"

fun waiting_ops :: "operation list \<Rightarrow> 'v expr list \<Rightarrow> operation list" where
  "waiting_ops (op # ops) (t # ts) = waiting_ops ops ts @ op # expr_ops t"
| "waiting_ops [] [t] = expr_ops t"
| "waiting_ops _ _ = []"

text \<open>The output so far builds these trees.\<close>

definition builds :: "'v vo_stack \<Rightarrow> 'v expr list \<Rightarrow> bool" where
  "builds final trees \<longleftrightarrow>
     (\<forall>items. toExpressionRaw_loop (final @ items) [] = toExpressionRaw_loop items (rev trees))"

lemma builds_putValue: "builds final trees \<Longrightarrow> builds (putValue v final) (v # trees)"
  by (simp add: builds_def putValue_def)

lemma builds_putOperator:
  "builds final (t # t' # trees) \<Longrightarrow> builds (putOperator op final) (Expression t' t op # trees)"
  by (simp add: builds_def putOperator_def Let_def butlast_append)

lemma waiting_ok_pop:
  assumes "waiting_ok (op # ops) (t # t' # trees)"
  shows "waiting_ok ops (Expression t' t op # trees)"
    and "waiting_values (Expression t' t op # trees) = waiting_values (t # t' # trees)"
    and "waiting_ops ops (Expression t' t op # trees) = waiting_ops (op # ops) (t # t' # trees)"
  using assms by (cases ops; cases trees; auto)+

lemma waiting_ok_two: "waiting_ok (op # ops) trees \<Longrightarrow> \<exists>t t' trees'. trees = t # t' # trees'"
  by (cases trees; cases "tl trees"; cases ops) auto

lemma pop_operators_correct:
  assumes "waiting_ok ops trees" and "builds final trees" and "left_ok yields_to o1 (hd trees)"
  shows "\<exists>ops' final' trees'. pop_operators o1 (map ItemOperation ops) final = (map ItemOperation ops', final') \<and>
    waiting_ok ops' trees' \<and> builds final' trees' \<and> left_ok yields_to o1 (hd trees') \<and>
    (ops' \<noteq> [] \<longrightarrow> \<not> yields_to o1 (hd ops')) \<and>
    waiting_values trees' = waiting_values trees \<and> waiting_ops ops' trees' = waiting_ops ops trees"
  using assms
proof (induction ops arbitrary: trees final)
  case Nil
  then show ?case by (intro exI[of _ "[]"] exI[of _ final] exI[of _ trees]) simp
next
  case (Cons op ops)
  show ?case
  proof (cases "yields_to o1 op")
    case True
    obtain t t' ts where trees: "trees = t # t' # ts" using waiting_ok_two[OF Cons.prems(1)] by blast
    note pop = waiting_ok_pop[OF Cons.prems(1)[unfolded trees]]
    have "builds (putOperator op final) (Expression t' t op # ts)"
      using Cons.prems(2) trees by (simp add: builds_putOperator)
    from Cons.IH[OF pop(1) this] True pop(2,3) trees show ?thesis by simp
  next
    case False
    with Cons.prems show ?thesis
      by (intro exI[of _ "op # ops"] exI[of _ final] exI[of _ trees]) simp
  qed
qed

lemma waiting_ok_push:
  assumes "waiting_ok ops trees" and "left_ok yields_to o1 (hd trees)"
    and "ops \<noteq> [] \<longrightarrow> \<not> yields_to o1 (hd ops)"
  shows "waiting_ok (o1 # ops) (Leaf v # trees)"
  using assms by (cases trees) auto

lemma putAllInto_builds:
  "waiting_ok ops trees \<Longrightarrow> builds final trees \<Longrightarrow>
   \<exists>t. toExpressionRaw (final @ map ItemOperation ops) = Made t \<and> well_grouped yields_to t \<and>
     expr_values t = waiting_values trees \<and> expr_ops t = waiting_ops ops trees"
proof (induction ops arbitrary: trees final)
  case Nil
  then obtain t where t: "trees = [t]" by (cases trees; cases "tl trees") auto
  have "toExpressionRaw_loop (final @ []) [] = toExpressionRaw_loop [] (rev trees)"
    using Nil(2) unfolding builds_def by blast
  with Nil t show ?case by (simp add: toExpressionRaw_def)
next
  case (Cons op ops)
  obtain t t' ts where trees: "trees = t # t' # ts" using waiting_ok_two[OF Cons.prems(1)] by blast
  note pop = waiting_ok_pop[OF Cons.prems(1)[unfolded trees]]
  have "builds (putOperator op final) (Expression t' t op # ts)"
    using Cons.prems(2) trees by (simp add: builds_putOperator)
  from Cons.IH[OF pop(1) this] pop(2,3) trees show ?case by (simp add: putOperator_def)
qed

lemma close_paren_no_paren:
  "close_paren (map ItemOperation ops) final = (False, [], final @ map ItemOperation ops)"
  by (induction ops arbitrary: final) (simp_all add: putOperator_def)

subsection \<open>Expressions without parentheses of their own\<close>

text \<open>
  The tokens of an expression after its first operator: \<open>operand_stream parse_value ts vs ops
  rest\<close> holds when the operand parser reads the operands \<open>vs\<close> from \<open>ts\<close>, the operators
  \<open>ops\<close> stand between them, and what is left is \<open>rest\<close>, at a token that is neither an
  operator nor an opening parenthesis.
\<close>

inductive operand_stream ::
  "(token list \<Rightarrow> 'v option \<times> token list) \<Rightarrow> token list \<Rightarrow> 'v list \<Rightarrow> operation list \<Rightarrow>
   token list \<Rightarrow> bool"
  for parse_value where
  stream_end:
    "current_type ts \<noteq> EndOfFile \<Longrightarrow> parse_value (consumeNewLines ts) = (Some v, rest) \<Longrightarrow>
     fst (parseOperation rest) = None \<Longrightarrow> current_type rest \<noteq> LParen \<Longrightarrow>
     operand_stream parse_value ts [v] [] rest"
| stream_step:
    "current_type ts \<noteq> EndOfFile \<Longrightarrow> parse_value (consumeNewLines ts) = (Some v, ts1) \<Longrightarrow>
     parseOperation ts1 = (Some op, ts2) \<Longrightarrow> operand_stream parse_value ts2 vs ops rest \<Longrightarrow>
     operand_stream parse_value ts (v # vs) (op # ops) rest"

inductive_cases operand_stream_nil: "operand_stream parse_value ts [] ops rest"

lemma parseOperation_eof: "parseOperation ts = (Some op, ts') \<Longrightarrow> current_type ts \<noteq> EndOfFile"
  by (auto simp: parseOperation_def operation_tokens_def split: option.splits)

lemma parse_value_step:
  assumes "current_type ts \<noteq> EndOfFile" and "parse_value (consumeNewLines ts) = (Some v, ts1)"
  shows "parseExpressionWith parse_value True (st, final, ts) =
    parseExpressionWith parse_value False (st, putValue (Leaf v) final, ts1)"
  using assms by (subst parseExpressionWith.simps) simp

lemma parse_operator_step:
  assumes "parseOperation ts = (Some o1, ts1)"
    and "shunting_yard_on_operator st final o1 = (st', final')"
  shows "parseExpressionWith parse_value False (st, final, ts) =
    parseExpressionWith parse_value True (st', final', ts1)"
  using assms parseOperation_eof[OF assms(1)]
  by (subst parseExpressionWith.simps) simp

text \<open>The loop ends at a token that continues nothing, popping what waits either way.\<close>

lemma parse_end:
  assumes "fst (parseOperation ts) = None" and "current_type ts \<noteq> LParen"
    and "rev st = map ItemOperation ops"
  shows "\<exists>st'. parseExpressionWith parse_value False (st, final, ts) =
    Some (st', final @ map ItemOperation ops, ts)"
proof -
  have parse: "parseOperation ts = (None, ts)"
    using assms(1) by (auto simp: parseOperation_def split: option.splits)
  have st: "st = rev (map ItemOperation ops)" using assms(3) by (metis rev_rev_ident)
  show ?thesis
    using assms(2,3) parse
    by (subst parseExpressionWith.simps)
       (auto simp: other_values_def consumeToken_def putAllInto_def close_paren_no_paren st)
qed

lemma operand_stream_correct:
  "operand_stream parse_value ts vs ops rest \<Longrightarrow>
   rev st = map ItemOperation (o1 # os) \<Longrightarrow> waiting_ok os trees \<Longrightarrow> builds final trees \<Longrightarrow>
   left_ok yields_to o1 (hd trees) \<Longrightarrow> (os \<noteq> [] \<longrightarrow> \<not> yields_to o1 (hd os)) \<Longrightarrow>
   \<exists>st' final' t. parseExpressionWith parse_value True (st, final, ts) = Some (st', final', rest) \<and>
     toExpressionRaw final' = Made t \<and> well_grouped yields_to t \<and>
     expr_values t = waiting_values trees @ vs \<and>
     expr_ops t = waiting_ops os trees @ o1 # ops"
proof (induction arbitrary: st final o1 os trees rule: operand_stream.induct)
  case (stream_end ts v rest)
  let ?final = "putValue (Leaf v) final" and ?trees = "Leaf v # trees"
  have "waiting_ok (o1 # os) ?trees" using stream_end.prems by (intro waiting_ok_push)
  moreover have "builds ?final ?trees" using stream_end.prems(3) by (rule builds_putValue)
  ultimately obtain t where "toExpressionRaw (?final @ map ItemOperation (o1 # os)) = Made t"
    "well_grouped yields_to t" "expr_values t = waiting_values ?trees"
    "expr_ops t = waiting_ops (o1 # os) ?trees"
    using putAllInto_builds by blast
  moreover obtain st' where "parseExpressionWith parse_value False (st, ?final, rest) =
      Some (st', ?final @ map ItemOperation (o1 # os), rest)"
    using parse_end[OF stream_end.hyps(3,4) stream_end.prems(1)] by blast
  ultimately show ?case
    using parse_value_step[of ts parse_value v rest st final] stream_end.hyps(1,2) by auto
next
  case (stream_step ts v ts1 op ts2 vs ops rest)
  let ?final = "putValue (Leaf v) final" and ?trees = "Leaf v # trees"
  have "waiting_ok (o1 # os) ?trees" using stream_step.prems by (intro waiting_ok_push)
  moreover have "builds ?final ?trees" using stream_step.prems(3) by (rule builds_putValue)
  ultimately obtain os' final' trees' where pop:
    "pop_operators op (map ItemOperation (o1 # os)) ?final = (map ItemOperation os', final')"
    "waiting_ok os' trees'" "builds final' trees'" "left_ok yields_to op (hd trees')"
    "os' \<noteq> [] \<longrightarrow> \<not> yields_to op (hd os')" "waiting_values trees' = waiting_values ?trees"
    "waiting_ops os' trees' = waiting_ops (o1 # os) ?trees"
    using pop_operators_correct[of "o1 # os" ?trees ?final op] by auto
  obtain st' where push: "shunting_yard_on_operator st ?final op = (st', final')"
    and st': "rev st' = map ItemOperation (op # os')"
    using pop(1) stream_step.prems(1) by (simp add: shunting_yard_on_operator_def putOperator_def)
  from stream_step.IH[OF st' pop(2-5)] pop(6,7)
  show ?case
    using parse_value_step[of ts parse_value v ts1 st final] stream_step.hyps(1,2)
      parse_operator_step[OF stream_step.hyps(3) push] by auto
qed

lemma operands_grouped:
  assumes "parseOperation ts = (Some op, ts')" and "operand_stream parse_value ts' vs ops rest"
  shows "\<exists>t. parseRemainingExpression parse_value first ts = Some (Made t, rest) \<and>
    expr_values t = first # vs \<and> expr_ops t = op # ops \<and> well_grouped goes_first t \<and>
    (\<forall>t'. expr_values t' = first # vs \<and> expr_ops t' = op # ops \<and> well_grouped goes_first t' \<longrightarrow> t' = t)"
proof -
  let ?st = "putOperator op []" and ?final = "putValue (Leaf first) []"
  have st: "rev ?st = map ItemOperation [op]" by (simp add: putOperator_def)
  have wait: "waiting_ok [] [Leaf first]" by simp
  have final: "builds ?final [Leaf first]" by (simp add: builds_def putValue_def)
  have left: "left_ok yields_to op (hd [Leaf first])" by simp
  have none: "[] \<noteq> [] \<longrightarrow> \<not> yields_to op (hd [])" by simp
  obtain st' final' t where t:
    "parseExpressionWith parse_value True (?st, ?final, ts') = Some (st', final', rest)"
    "toExpressionRaw final' = Made t" "well_grouped yields_to t"
    "expr_values t = waiting_values [Leaf first] @ vs"
    "expr_ops t = waiting_ops [] [Leaf first] @ op # ops"
    using operand_stream_correct[OF assms(2) st wait final left none] by (elim exE conjE)
  have unique: "t' = t" if "expr_values t' = first # vs" "expr_ops t' = op # ops" "well_grouped yields_to t'" for t'
    by (rule operators.grouping_unique[OF that(3) t(3)]) (simp_all add: that t(4,5))
  have "parseRemainingExpression parse_value first ts = Some (Made t, rest)"
    using t(1,2) assms(1) by (simp add: parseRemainingExpression_def)
  moreover have "expr_values t = first # vs" "expr_ops t = op # ops" using t(4,5) by simp_all
  ultimately show ?thesis using t(3) unique unfolding yields_to_goes_first by blast
qed

text \<open>
  C2. Operator precedence: after a first operand, on a sequence of operators and operands
  that ends at a token which continues no expression, the parser returns with an expression
  over exactly those operands and operators in order, whose grouping obeys the precedence
  and associativity tables; it is the only such expression, and the tokens left are the ones
  after the last operand.
\<close>

theorem expression_grouping:
  assumes "parseOperation ts = (Some op, ts')" and "operand_stream parse_value ts' vs ops rest"
  shows "\<exists>t. parseRemainingExpression parse_value first ts = Some (Made t, rest) \<and>
    expr_values t = first # vs \<and> expr_ops t = op # ops \<and> well_grouped goes_first t \<and>
    (\<forall>t'. expr_values t' = first # vs \<and> expr_ops t' = op # ops \<and> well_grouped goes_first t' \<longrightarrow> t' = t)"
  by (rule operands_grouped[OF assms])

text \<open>An operand parser that takes one number token, for concrete expressions.\<close>

definition number_operand :: "token list \<Rightarrow> string option \<times> token list" where
  "number_operand ts =
     (if current_type ts = Number then (Some (tok_value (hd ts)), tl ts) else (None, ts))"

definition tokens_of :: "(token_type \<times> string) list \<Rightarrow> token list" where
  "tokens_of = map (\<lambda>(t, v). \<lparr>tok_type = t, tok_value = v,
     tok_position = \<lparr>pos_line = 0, pos_character = 0\<rparr>\<rparr>)"

lemma tokens_of_simps:
  "current_type (tokens_of ((t, v) # ts)) = t" "tl (tokens_of (x # ts)) = tokens_of ts"
  "tok_value (hd (tokens_of ((t, v) # ts))) = v"
  "t \<noteq> NewLine \<Longrightarrow> consumeNewLines (tokens_of ((t, v) # ts)) = tokens_of ((t, v) # ts)"
  by (simp_all add: tokens_of_def current_type_def)

theorem expression_grouping_witness:
  "\<exists>t. parseRemainingExpression number_operand ''1''
       (tokens_of [(PlusSym, ''+''), (Number, ''2''), (MultiplySym, ''*''), (Number, ''3''), (SemiColonSym, '';'')]) =
       Some (Made t, tokens_of [(SemiColonSym, '';'')]) \<and>
    expr_values t = [''1'', ''2'', ''3''] \<and> expr_ops t = [Addition, Multiplication] \<and>
    well_grouped goes_first t \<and>
    (\<forall>t'. expr_values t' = [''1'', ''2'', ''3''] \<and> expr_ops t' = [Addition, Multiplication] \<and>
       well_grouped goes_first t' \<longrightarrow> t' = t)"
proof -
  have "parseOperation (tokens_of [(PlusSym, ''+''), (Number, ''2''), (MultiplySym, ''*''), (Number, ''3''), (SemiColonSym, '';'')]) =
      (Some Addition, tokens_of [(Number, ''2''), (MultiplySym, ''*''), (Number, ''3''), (SemiColonSym, '';'')])"
    by (simp add: parseOperation_def tokens_of_simps operation_tokens_def)
  moreover
  have "number_operand (consumeNewLines (tokens_of [(Number, ''2''), (MultiplySym, ''*''), (Number, ''3''), (SemiColonSym, '';'')]))
      = (Some ''2'', tokens_of [(MultiplySym, ''*''), (Number, ''3''), (SemiColonSym, '';'')])"
    and "number_operand (consumeNewLines (tokens_of [(Number, ''3''), (SemiColonSym, '';'')]))
      = (Some ''3'', tokens_of [(SemiColonSym, '';'')])"
    and "parseOperation (tokens_of [(MultiplySym, ''*''), (Number, ''3''), (SemiColonSym, '';'')]) =
      (Some Multiplication, tokens_of [(Number, ''3''), (SemiColonSym, '';'')])"
    and "fst (parseOperation (tokens_of [(SemiColonSym, '';'')])) = None"
    by (simp_all add: number_operand_def parseOperation_def tokens_of_simps operation_tokens_def)
  note parses = this
  have "operand_stream number_operand (tokens_of [(Number, ''3''), (SemiColonSym, '';'')])
      [''3''] [] (tokens_of [(SemiColonSym, '';'')])"
    by (rule stream_end[where parse_value = number_operand, OF _ parses(2,4)]) (simp_all add: tokens_of_simps)
  from stream_step[where parse_value = number_operand, OF _ parses(1,3) this]
  have "operand_stream number_operand
      (tokens_of [(Number, ''2''), (MultiplySym, ''*''), (Number, ''3''), (SemiColonSym, '';'')])
      [''2'', ''3''] [Multiplication] (tokens_of [(SemiColonSym, '';'')])"
    by (simp add: tokens_of_simps)
  ultimately show ?thesis by (rule expression_grouping)
qed

subsection \<open>No access to an empty stack\<close>

lemma toExpressionRaw_loop_defined: "st \<noteq> [] \<Longrightarrow> toExpressionRaw_loop items st \<noteq> Undefined"
  by (induction items st rule: toExpressionRaw_loop.induct) (auto simp: Let_def)

lemma pop_operators_extends: "\<exists>xs. snd (pop_operators o1 st final) = final @ xs"
  by (induction o1 st final rule: pop_operators.induct) (auto simp: putOperator_def)

lemma close_paren_extends: "\<exists>xs. snd (snd (close_paren st final)) = final @ xs"
  by (induction st final rule: close_paren.induct) (auto simp: putOperator_def putCharacter_def)

lemma shunting_yard_extends:
  "shunting_yard_on_operator st final o1 = (st', final') \<Longrightarrow> \<exists>xs. final' = final @ xs"
  using pop_operators_extends[of o1 "rev st" final]
  by (auto simp: shunting_yard_on_operator_def split: prod.splits)

lemma other_values_extends:
  "other_values (st, final, ts) = Inl (st', final', ts') \<Longrightarrow> \<exists>xs. final' = final @ xs"
  "other_values (st, final, ts) = Inr (st', final', ts') \<Longrightarrow> \<exists>xs. final' = final @ xs"
  using close_paren_extends[of "rev st" final]
  by (auto simp: other_values_def split: prod.splits bool.splits if_splits)

lemma parseExpressionWith_extends:
  assumes "parseExpressionWith parse_value b y = Some y'"
  shows "\<exists>xs. fst (snd y') = fst (snd y) @ xs"
proof (rule parseExpressionWith.raw_induct[of "\<lambda>_ _ y y'. \<exists>xs. fst (snd y') = fst (snd y) @ xs",
      OF _ assms])
  show "\<exists>xs. fst (snd y') = fst (snd y) @ xs" if
    ih: "\<And>p b y y'. f p b y = Some y' \<Longrightarrow> \<exists>xs. fst (snd y') = fst (snd y) @ xs" and
    body: "(case y of (st, final, ts) \<Rightarrow>
       if current_type ts = EndOfFile then Some (st, putAllInto st final, ts)
       else if b then
         (case p (consumeNewLines ts) of
            (Some v, ts') \<Rightarrow> f p False (st, putValue (Leaf v) final, ts')
          | (None, ts') \<Rightarrow>
              (case parseOperation ts' of
                 (Some o1, ts'') \<Rightarrow>
                   (case shunting_yard_on_operator st final o1 of
                      (st', final') \<Rightarrow> f p True (st', final', ts''))
               | (None, ts'') \<Rightarrow>
                   (case other_values (st, final, ts'') of
                      Inr y' \<Rightarrow> f p b y'
                    | Inl (st', final', ts3) \<Rightarrow> Some (st', putAllInto st' final', ts3))))
       else
         (case parseOperation ts of
            (Some o1, ts') \<Rightarrow>
              (case shunting_yard_on_operator st final o1 of
                 (st', final') \<Rightarrow> f p True (st', final', ts'))
          | (None, ts') \<Rightarrow>
              (case other_values (st, final, ts') of
                 Inr y' \<Rightarrow> f p b y'
               | Inl (st', final', ts3) \<Rightarrow> Some (st', putAllInto st' final', ts3)))) = Some y'"
    for f :: "(token list \<Rightarrow> 'a option \<times> token list) \<Rightarrow> bool \<Rightarrow> 'a yard \<Rightarrow> 'a yard option"
      and p b and y :: "'a yard" and y'
    using body
    by (auto simp: putAllInto_def putValue_def split: prod.splits if_splits option.splits sum.splits
        dest!: ih shunting_yard_extends other_values_extends)
qed

text \<open>
  Whatever the operand parser does, on well-formed input or not: if the expression
  parser returns, it has not read or popped an empty stack; an operator without its second
  operand ends in a null expression.
\<close>

theorem expression_defined:
  assumes "parseRemainingExpression parse_value first ts = Some (r, ts')"
  shows "r \<noteq> Undefined"
proof -
  consider "r = Made (Leaf first)"
    | op ts1 st final where "parseExpressionWith parse_value True
        (putOperator op [], putValue (Leaf first) [], ts1) = Some (st, final, ts')"
      "r = toExpressionRaw final"
    using assms by (auto simp: parseRemainingExpression_def split: prod.splits option.splits)
  then show ?thesis
  proof cases
    case 2
    from parseExpressionWith_extends[OF 2(1)] obtain xs where "final = ItemValue (Leaf first) # xs"
      by (auto simp: putValue_def)
    then show ?thesis using toExpressionRaw_loop_defined[of "[Leaf first]" xs] 2(2)
      by (simp add: toExpressionRaw_def)
  qed simp
qed

theorem expression_defined_witness:
  "\<exists>ts'. parseRemainingExpression number_operand ''1'' (tokens_of [(PlusSym, ''+'')]) = Some (Null, ts') \<and>
     (Null :: string expr raw) \<noteq> Undefined"
proof -
  have "parseRemainingExpression number_operand ''1'' (tokens_of [(PlusSym, ''+'')]) =
      Some (Null, tokens_of [])"
    by (simp add: parseRemainingExpression_def parseOperation_def tokens_of_simps operation_tokens_def
        parseExpressionWith.simps[of _ _ "(_, _, tokens_of [])"])
       (simp add: tokens_of_def current_type_def putOperator_def putValue_def putAllInto_def
        toExpressionRaw_def)
  with expression_defined[OF this] show ?thesis by blast
qed

subsection \<open>Returning\<close>

text \<open>
  An operand parser that goes forward: an operand takes a token at least. With it the loop takes a
  token in every round, so it returns.
\<close>

definition takes_tokens :: "(token list \<Rightarrow> 'v option \<times> token list) \<Rightarrow> bool" where
  "takes_tokens parse_value \<longleftrightarrow>
     (\<forall>ts. length (snd (parse_value ts)) \<le> length ts \<and>
       (if fst (parse_value ts) = None then True else length (snd (parse_value ts)) < length ts))"

lemma takes_tokensD:
  assumes "takes_tokens parse_value"
  shows "parse_value ts = (Some v, ts') \<Longrightarrow> length ts' < length ts"
    and "parse_value ts = (None, ts') \<Longrightarrow> length ts' \<le> length ts"
  using assms unfolding takes_tokens_def by (metis fst_conv option.discI snd_conv)+

lemma consumeNewLines_length: "length (consumeNewLines ts) \<le> length ts"
  by (induction ts rule: consumeNewLines.induct) auto

lemma parseOperation_length: "parseOperation ts = (Some op, ts') \<Longrightarrow> length ts' < length ts"
  using parseOperation_eof[of ts op ts']
  by (cases ts) (auto simp: parseOperation_def current_type_def split: option.splits)

lemma parseOperation_none: "parseOperation ts = (None, ts') \<Longrightarrow> ts' = ts"
  by (auto simp: parseOperation_def split: option.splits)

lemma other_values_length:
  "other_values (st, final, ts) = Inr (st', final', ts') \<Longrightarrow> length ts' < length ts"
  "other_values (st, final, ts) = Inl (st', final', ts') \<Longrightarrow> length ts' \<le> length ts"
  by (cases ts;
      auto simp: other_values_def consumeToken_def current_type_def split: prod.splits if_splits)+

lemma parseExpressionWith_returns:
  assumes "takes_tokens parse_value"
  shows "\<exists>st' final' ts'. parseExpressionWith parse_value b (st, final, ts) = Some (st', final', ts') \<and>
    length ts' \<le> length ts"
proof (induction "length ts" arbitrary: b st final ts rule: less_induct)
  case less
  let ?returns = "\<lambda>y. \<exists>st' final' ts'. y = Some (st', final', ts') \<and> length ts' \<le> length ts"
  have again: "?returns (parseExpressionWith parse_value b' (st', final', ts'))"
    if "length ts' < length ts" for b' st' final' ts'
    using less[OF that, of b' st' final'] that by (auto intro: order_trans less_imp_le)
  have others: "?returns (case other_values (st, final, ts') of
      Inr y' \<Rightarrow> parseExpressionWith parse_value b y'
    | Inl (st', final', ts3) \<Rightarrow> Some (st', putAllInto st' final', ts3))" if "length ts' \<le> length ts" for ts'
    using that other_values_length[of st final ts'] again
    by (auto split: sum.splits dest: le_trans less_le_trans)
  note operand = takes_tokensD[OF assms] consumeNewLines_length[of ts]
  show ?case
  proof (cases "current_type ts = EndOfFile")
    case True
    then show ?thesis by (subst parseExpressionWith.simps) simp
  next
    case False
    have op: "?returns (case parseOperation ts' of
        (Some o1, ts'') \<Rightarrow> (case shunting_yard_on_operator st final o1 of
            (st', final') \<Rightarrow> parseExpressionWith parse_value True (st', final', ts''))
      | (None, ts'') \<Rightarrow> (case other_values (st, final, ts'') of
            Inr y' \<Rightarrow> parseExpressionWith parse_value b y'
          | Inl (st', final', ts3) \<Rightarrow> Some (st', putAllInto st' final', ts3)))"
      if "length ts' \<le> length ts" for ts'
    proof (cases "fst (parseOperation ts')")
      case None
      then have "parseOperation ts' = (None, ts')" using parseOperation_none by (metis prod.collapse)
      then show ?thesis using others[OF that] by simp
    next
      case (Some o1)
      then obtain ts'' where op: "parseOperation ts' = (Some o1, ts'')" by (metis prod.collapse)
      have "length ts'' < length ts" using parseOperation_length[OF op] that by simp
      then show ?thesis using again op by (simp split: prod.split)
    qed
    show ?thesis
    proof (cases b)
      case True
      obtain r ts' where r: "parse_value (consumeNewLines ts) = (r, ts')" by fastforce
      show ?thesis
      proof (cases r)
        case None
        have "length ts' \<le> length ts" using operand(2)[OF r[unfolded None]] operand(3) by simp
        from op[OF this] show ?thesis using False True r None by (subst parseExpressionWith.simps) simp
      next
        case (Some v)
        have "length ts' < length ts" using operand(1)[OF r[unfolded Some]] operand(3) by simp
        from again[OF this] show ?thesis
          using False True r Some by (subst parseExpressionWith.simps) simp
      qed
    next
      case b: False
      then show ?thesis using False op[OF order_refl] by (subst parseExpressionWith.simps) simp
    qed
  qed
qed

lemma parseRemainingExpression_returns:
  assumes "takes_tokens parse_value"
  shows "\<exists>r ts'. parseRemainingExpression parse_value first ts = Some (r, ts') \<and> length ts' \<le> length ts"
proof (cases "fst (parseOperation ts)")
  case None
  then obtain ts1 where "parseOperation ts = (None, ts1)" by (metis prod.collapse)
  then show ?thesis by (simp add: parseRemainingExpression_def)
next
  case (Some op)
  then obtain ts1 where op: "parseOperation ts = (Some op, ts1)" by (metis prod.collapse)
  show ?thesis
    using parseExpressionWith_returns[OF assms, of True "putOperator op []" "putValue (Leaf first) []" ts1]
      parseOperation_length[OF op] op
    by (auto simp: parseRemainingExpression_def)
qed

end
