(* ===== verification/Scoped_Env.thy ===== *)
theory Scoped_Env
  imports Prelude
begin

text \<open>
  The interface between symbol resolution and the table it declares names in: what a
  scoped table promises, stated over what is visible in each open scope, and what follows
  for a whole program of declarations and nested blocks. The tables of the compiler that
  keep the promise are the interpretations.
\<close>

text \<open>
  \<open>visible e\<close> lists, innermost first, the names that are visible in each open scope; its head
  is what a lookup sees now, its tail what will be visible when the scope ends.
\<close>

locale scoped_env =
  fixes invar :: "'t \<Rightarrow> bool"
    and visible :: "'t \<Rightarrow> ('k \<Rightarrow> 'n option) list"
    and empty :: 't
    and declare_in :: "'k \<Rightarrow> 'n \<Rightarrow> 't \<Rightarrow> 't"
    and lookup :: "'t \<Rightarrow> 'k \<Rightarrow> 'n option"
    and enter :: "'t \<Rightarrow> 't"
    and leave :: "'t \<Rightarrow> 't"
  assumes invar_empty: "invar empty"
    and visible_empty: "hd (visible empty) = (\<lambda>k. None)"
    and invar_declare: "invar e \<Longrightarrow> invar (declare_in k n e)"
    and visible_declare: "invar e \<Longrightarrow> visible (declare_in k n e) =
      (\<lambda>k'. if k' = k then Some n else hd (visible e) k') # tl (visible e)"
    and invar_enter: "invar e \<Longrightarrow> invar (enter e)"
    and visible_enter: "invar e \<Longrightarrow> visible (enter e) = hd (visible e) # visible e"
    and invar_leave: "invar e \<Longrightarrow> length (visible e) > 1 \<Longrightarrow> invar (leave e)"
    and visible_leave: "invar e \<Longrightarrow> length (visible e) > 1 \<Longrightarrow> visible (leave e) = tl (visible e)"
    and lookup_visible: "invar e \<Longrightarrow> lookup e k = hd (visible e) k"
    and visible_nonempty: "invar e \<Longrightarrow> visible e \<noteq> []"

text \<open>Declarations and blocks, and what they mean without a table.\<close>

datatype ('k, 'n) decl =
    Declare 'k 'n
  | Block "('k, 'n) decl list"

fun static_env :: "('k, 'n) decl list \<Rightarrow> ('k \<Rightarrow> 'n option) \<Rightarrow> ('k \<Rightarrow> 'n option)" where
  "static_env [] m = m"
| "static_env (Declare k n # ds) m = static_env ds (\<lambda>k'. if k' = k then Some n else m k')"
| "static_env (Block b # ds) m = static_env ds m"

text \<open>Running a program on a table: a block enters a scope, runs, and leaves it.\<close>

fun run_decls ::
  "('k \<Rightarrow> 'n \<Rightarrow> 't \<Rightarrow> 't) \<Rightarrow> ('t \<Rightarrow> 't) \<Rightarrow> ('t \<Rightarrow> 't) \<Rightarrow> ('k, 'n) decl list \<Rightarrow> 't \<Rightarrow> 't" where
  "run_decls dec ent lea [] e = e"
| "run_decls dec ent lea (Declare k n # ds) e = run_decls dec ent lea ds (dec k n e)"
| "run_decls dec ent lea (Block b # ds) e =
     run_decls dec ent lea ds (lea (run_decls dec ent lea b (ent e)))"

context scoped_env
begin

lemma run_correct_aux:
  "dec = declare_in \<Longrightarrow> ent = enter \<Longrightarrow> lea = leave \<Longrightarrow> invar e \<Longrightarrow>
   invar (run_decls dec ent lea ds e) \<and>
   visible (run_decls dec ent lea ds e) = static_env ds (hd (visible e)) # tl (visible e)"
proof (induction dec ent lea ds e rule: run_decls.induct)
  case (1 dec ent lea e)
  then show ?case using visible_nonempty by simp
next
  case (2 dec ent lea k n ds e)
  then show ?case by (simp add: invar_declare visible_declare)
next
  case (3 dec ent lea b ds e)
  note eqs = 3(3-5)
  let ?inner = "run_decls declare_in enter leave b (enter e)"
  have inner: "invar ?inner \<and> visible ?inner = static_env b (hd (visible e)) # visible e"
    using 3(1)[OF eqs] 3(6) eqs by (simp add: invar_enter visible_enter)
  then have "length (visible ?inner) > 1"
    using visible_nonempty[OF 3(6)] by (cases "visible e") simp_all
  with inner have "invar (leave ?inner)" "visible (leave ?inner) = visible e"
    by (simp_all add: invar_leave visible_leave)
  with 3(2)[OF eqs] eqs show ?case by simp
qed

lemmas run_correct = run_correct_aux[OF refl refl refl]

lemma lookup_run:
  "lookup (run_decls declare_in enter leave ds empty) k = static_env ds (\<lambda>k. None) k"
  using run_correct[OF invar_empty, of ds] by (simp add: lookup_visible visible_empty)

lemma lookup_block:
  "invar e \<Longrightarrow> lookup (leave (run_decls declare_in enter leave b (enter e))) k = lookup e k"
proof -
  assume e: "invar e"
  have "run_decls declare_in enter leave [Block b] e =
      leave (run_decls declare_in enter leave b (enter e))" by simp
  with run_correct[OF e, of "[Block b]"] show ?thesis
    using e visible_nonempty[OF e] by (simp add: lookup_visible)
qed

end

end
