(* ===== verification/Symbol_Table.thy ===== *)
theory Symbol_Table
  imports Scoped_Env
begin

text \<open>
  The table of declared names: \<^verbatim>\<open>compiler/symres/SymbolTable.h\<close>. The vector of entries and
  the array of buckets are lists; a chain of \<^verbatim>\<open>BucketSymbol\<close> objects linked by \<^verbatim>\<open>next\<close> is
  the list of its objects, so a bucket is its active symbol, the chain it shadows, and the
  chain of the other keys of the bucket. The memory pool the chains are allocated from is
  left out. Sizes and the bucket mask are unbounded numbers.
\<close>

datatype scope_kind = GlobalScope | ModuleScope | FileScope | DefaultScope

record 'n symbol_entry =
  e_key :: string
  e_hash :: u64
  e_node :: 'n

record 'n bucket_symbol =
  s_key :: string
  s_hash :: u64
  s_node :: "'n option"
  s_index :: int

record 'n bucket =
  b_active :: "'n bucket_symbol"
  b_next :: "'n bucket_symbol list"
  b_collision :: "'n bucket_symbol list"

record symbol_scope =
  sc_kind :: scope_kind
  sc_start :: nat

record 'n symbol_table =
  symbols :: "'n symbol_entry list"
  buckets :: "'n bucket list"
  bucketMask :: nat
  scopeStack :: "symbol_scope list"

subsection \<open>Hashing\<close>

text \<open>FNV-1a over the characters, each sign-extended to 64 bits.\<close>

definition computeHash :: "string \<Rightarrow> u64" where
  "computeHash key =
     foldl (\<lambda>hash c. (hash XOR scast (of_char c :: u8)) * 0x100000001b3) 0xcbf29ce484222325 key"

definition next_power_of_two :: "u64 \<Rightarrow> u64" where
  "next_power_of_two x =
    (if x = 0 then 1
     else
       let x = x - 1;
           x = x OR drop_bit 1 x;
           x = x OR drop_bit 2 x;
           x = x OR drop_bit 4 x;
           x = x OR drop_bit 8 x;
           x = x OR drop_bit 16 x;
           x = x OR drop_bit 32 x
       in x + 1)"

subsection \<open>Buckets\<close>

definition empty_symbol :: "'n bucket_symbol" where
  "empty_symbol = \<lparr>s_key = [], s_hash = 0, s_node = None, s_index = -1\<rparr>"

definition empty_bucket :: "'n bucket" where
  "empty_bucket = \<lparr>b_active = empty_symbol, b_next = [], b_collision = []\<rparr>"

definition mk_symbol :: "string \<Rightarrow> u64 \<Rightarrow> 'n \<Rightarrow> int \<Rightarrow> 'n bucket_symbol" where
  "mk_symbol key hash node index = \<lparr>s_key = key, s_hash = hash, s_node = Some node, s_index = index\<rparr>"

definition set_to_bucket ::
  "string \<Rightarrow> u64 \<Rightarrow> 'n \<Rightarrow> int \<Rightarrow> 'n bucket_symbol list \<Rightarrow> 'n bucket \<Rightarrow> 'n bucket" where
  "set_to_bucket key hash node index next b =
     b\<lparr>b_active := mk_symbol key hash node index, b_next := next\<rparr>"

definition bucket_empty :: "'n bucket \<Rightarrow> bool" where
  "bucket_empty b \<longleftrightarrow> s_index (b_active b) = -1"

definition is_symbol :: "string \<Rightarrow> u64 \<Rightarrow> 'n bucket_symbol \<Rightarrow> bool" where
  "is_symbol key hash s \<longleftrightarrow> s_hash s = hash \<and> s_key s = key"

text \<open>
  Putting a symbol into its bucket: the steps that \<^verbatim>\<open>insert_symbol\<close>, \<^verbatim>\<open>declare\<close> and
  \<^verbatim>\<open>declare_entry\<close> take.
\<close>

definition put_symbol :: "string \<Rightarrow> u64 \<Rightarrow> 'n \<Rightarrow> int \<Rightarrow> 'n bucket \<Rightarrow> 'n bucket" where
  "put_symbol key hash node index b =
    (if bucket_empty b then set_to_bucket key hash node index [] b
     else if is_symbol key hash (b_active b)
     then set_to_bucket key hash node index (b_active b # b_next b) b
     else b\<lparr>b_collision := mk_symbol key hash node index # b_collision b\<rparr>)"

definition bucket_index :: "u64 \<Rightarrow> nat \<Rightarrow> nat" where
  "bucket_index hash bmask = unat hash AND bmask"

definition insert_symbol :: "int \<Rightarrow> 'n symbol_entry \<Rightarrow> nat \<Rightarrow> 'n bucket list \<Rightarrow> 'n bucket list" where
  "insert_symbol index entry bmask bs =
     (let i = bucket_index (e_hash entry) bmask
      in bs[i := put_symbol (e_key entry) (e_hash entry) (e_node entry) index (bs ! i)])"

fun insert_symbols :: "nat \<Rightarrow> 'n symbol_entry list \<Rightarrow> nat \<Rightarrow> 'n bucket list \<Rightarrow> 'n bucket list" where
  "insert_symbols i [] bmask bs = bs"
| "insert_symbols i (e # es) bmask bs =
     insert_symbols (Suc i) es bmask (insert_symbol (int i) e bmask bs)"

definition rehash :: "'n symbol_table \<Rightarrow> 'n symbol_table" where
  "rehash t =
     (let newBucketCount = length (buckets t) * 2; newMask = newBucketCount - 1
      in t\<lparr>buckets := insert_symbols 0 (symbols t) newMask (replicate newBucketCount empty_bucket),
           bucketMask := newMask\<rparr>)"

definition rehash_if_needed :: "'n symbol_table \<Rightarrow> 'n symbol_table" where
  "rehash_if_needed t =
     (if length (symbols t) \<ge> length (buckets t) * 9 div 10 then rehash t else t)"

subsection \<open>The table\<close>

definition new_symbol_table :: "'n symbol_table" where
  "new_symbol_table =
     \<lparr>symbols = [], buckets = replicate 128 empty_bucket, bucketMask = 128 - 1, scopeStack = []\<rparr>"

definition new_symbol_table_sized :: "u64 \<Rightarrow> 'n symbol_table" where
  "new_symbol_table_sized initialBucketCount =
     (let n = unat (next_power_of_two initialBucketCount)
      in \<lparr>symbols = [], buckets = replicate n empty_bucket, bucketMask = n - 1, scopeStack = []\<rparr>)"

definition local_symbol_count :: "'n symbol_table \<Rightarrow> nat" where
  "local_symbol_count t = length (symbols t)"

definition local_scope_count :: "'n symbol_table \<Rightarrow> nat" where
  "local_scope_count t = length (scopeStack t)"

definition put_entry :: "string \<Rightarrow> u64 \<Rightarrow> 'n \<Rightarrow> 'n symbol_table \<Rightarrow> int \<times> 'n symbol_table" where
  "put_entry key hash node t =
     (int (length (symbols t)),
      t\<lparr>symbols := symbols t @ [\<lparr>e_key = key, e_hash = hash, e_node = node\<rparr>]\<rparr>)"

definition update_bucket :: "nat \<Rightarrow> ('n bucket \<Rightarrow> 'n bucket) \<Rightarrow> 'n symbol_table \<Rightarrow> 'n symbol_table" where
  "update_bucket i f t = t\<lparr>buckets := (buckets t)[i := f (buckets t ! i)]\<rparr>"

definition declare_symbol :: "string \<Rightarrow> 'n \<Rightarrow> 'n symbol_table \<Rightarrow> 'n symbol_table" where
  "declare_symbol key node t0 =
    (let t = rehash_if_needed t0;
         hash = computeHash key;
         i = bucket_index hash (bucketMask t);
         b = buckets t ! i
     in if \<not> bucket_empty b \<and> is_symbol key hash (b_active b) \<and> s_node (b_active b) = Some node
        then t
        else case put_entry key hash node t of
          (index, t') \<Rightarrow> update_bucket i (put_symbol key hash node index) t')"

definition declare_entry :: "'n symbol_entry \<Rightarrow> int \<Rightarrow> 'n symbol_table \<Rightarrow> 'n symbol_table" where
  "declare_entry entry index t0 =
    (let t = rehash_if_needed t0;
         i = bucket_index (e_hash entry) (bucketMask t)
     in update_bucket i (put_symbol (e_key entry) (e_hash entry) (e_node entry) index) t)"

definition declare_no_shadow_sym ::
  "string \<Rightarrow> 'n \<Rightarrow> 'n symbol_table \<Rightarrow> 'n bucket_symbol option \<times> 'n symbol_table" where
  "declare_no_shadow_sym key node t0 =
    (let t = rehash_if_needed t0;
         hash = computeHash key;
         i = bucket_index hash (bucketMask t);
         b = buckets t ! i;
         added = (case put_entry key hash node t of
                    (index, t') \<Rightarrow> update_bucket i (put_symbol key hash node index) t')
     in if bucket_empty b then (None, added)
        else if is_symbol key hash (b_active b) then (Some (b_active b), t)
        else (case find (is_symbol key hash) (b_collision b) of
                Some found \<Rightarrow> (Some found, t)
              | None \<Rightarrow> (None, added)))"

definition declare_no_shadow :: "string \<Rightarrow> 'n \<Rightarrow> 'n symbol_table \<Rightarrow> 'n option \<times> 'n symbol_table" where
  "declare_no_shadow key node t =
     (case declare_no_shadow_sym key node t of
        (Some d, t') \<Rightarrow> (s_node d, t')
      | (None, t') \<Rightarrow> (None, t'))"

definition resolve_bucket :: "string \<Rightarrow> 'n symbol_table \<Rightarrow> 'n bucket_symbol option" where
  "resolve_bucket key t =
    (let hash = computeHash key; b = buckets t ! bucket_index hash (bucketMask t)
     in if \<not> bucket_empty b \<and> is_symbol key hash (b_active b) then Some (b_active b)
        else find (is_symbol key hash) (b_collision b))"

definition resolve :: "string \<Rightarrow> 'n symbol_table \<Rightarrow> 'n option" where
  "resolve key t =
     (case resolve_bucket key t of None \<Rightarrow> None | Some found \<Rightarrow> s_node found)"

text \<open>
  \<^verbatim>\<open>erase\<close>; \<open>remove_first\<close> unlinks the first object of a chain that satisfies a test.
\<close>

fun remove_first :: "('a \<Rightarrow> bool) \<Rightarrow> 'a list \<Rightarrow> 'a list" where
  "remove_first P [] = []"
| "remove_first P (x # xs) = (if P x then xs else x # remove_first P xs)"

definition erase_from_bucket :: "string \<Rightarrow> u64 \<Rightarrow> 'n bucket \<Rightarrow> bool \<times> 'n bucket" where
  "erase_from_bucket key hash b =
    (if \<not> bucket_empty b \<and> is_symbol key hash (b_active b) then
       (True,
        case b_next b of
          current # rest \<Rightarrow>
            b\<lparr>b_active := (b_active b)\<lparr>s_index := s_index current, s_node := s_node current\<rparr>,
              b_next := rest\<rparr>
        | [] \<Rightarrow> b\<lparr>b_active := (b_active b)\<lparr>s_index := -1, s_node := None\<rparr>\<rparr>)
     else if find (is_symbol key hash) (b_collision b) \<noteq> None then
       (True, b\<lparr>b_collision := remove_first (is_symbol key hash) (b_collision b)\<rparr>)
     else (False, b))"

definition erase :: "string \<Rightarrow> 'n symbol_table \<Rightarrow> bool \<times> 'n symbol_table" where
  "erase key t =
    (let hash = computeHash key; i = bucket_index hash (bucketMask t)
     in (fst (erase_from_bucket key hash (buckets t ! i)),
         update_bucket i (\<lambda>b. snd (erase_from_bucket key hash b)) t))"

subsection \<open>Scopes\<close>

text \<open>\<^verbatim>\<open>back()\<close> of an empty scope stack is undefined: \<open>None\<close>.\<close>

definition last_start :: "'n symbol_table \<Rightarrow> nat option" where
  "last_start t = (if scopeStack t = [] then None else Some (sc_start (last (scopeStack t))))"

definition is_in_current_scope :: "'n bucket_symbol \<Rightarrow> 'n symbol_table \<Rightarrow> bool option" where
  "is_in_current_scope s t =
     map_option (\<lambda>start. s_index s < 0 \<or> int start \<le> s_index s) (last_start t)"

definition scope_start :: "scope_kind \<Rightarrow> 'n symbol_table \<Rightarrow> 'n symbol_table" where
  "scope_start kind t =
     t\<lparr>scopeStack := scopeStack t @ [\<lparr>sc_kind = kind, sc_start = length (symbols t)\<rparr>]\<rparr>"

definition scope_start_index :: "scope_kind \<Rightarrow> 'n symbol_table \<Rightarrow> nat \<times> 'n symbol_table" where
  "scope_start_index kind t = (length (scopeStack t), scope_start kind t)"

definition get_last_scope_kind :: "'n symbol_table \<Rightarrow> scope_kind option" where
  "get_last_scope_kind t =
     (if scopeStack t = [] then None else Some (sc_kind (last (scopeStack t))))"

definition get_scope_at_index :: "nat \<Rightarrow> 'n symbol_table \<Rightarrow> symbol_scope option" where
  "get_scope_at_index index t =
     (if index \<ge> length (scopeStack t) then None else Some (scopeStack t ! index))"

definition last_scope :: "'n symbol_table \<Rightarrow> 'n symbol_entry list option" where
  "last_scope t = map_option (\<lambda>start. drop start (symbols t)) (last_start t)"

text \<open>Rolling back the entry at an index.\<close>

definition drop_from_bucket :: "int \<Rightarrow> 'n bucket \<Rightarrow> 'n bucket" where
  "drop_from_bucket i b =
    (if s_index (b_active b) = i then
       (case b_next b of
          current # rest \<Rightarrow> b\<lparr>b_active := current, b_next := rest\<rparr>
        | [] \<Rightarrow> b\<lparr>b_active := (b_active b)\<lparr>s_index := -1, s_node := None\<rparr>\<rparr>)
     else b\<lparr>b_collision := remove_first (\<lambda>s. s_index s = i) (b_collision b)\<rparr>)"

text \<open>\<^verbatim>\<open>for(i = size - 1; i >= marker; --i)\<close>: \<open>n\<close> entries are left to look at.\<close>

fun drop_symbols_loop :: "nat \<Rightarrow> nat \<Rightarrow> 'n symbol_table \<Rightarrow> 'n symbol_table" where
  "drop_symbols_loop marker 0 t = t"
| "drop_symbols_loop marker (Suc i) t =
     (if i \<ge> marker then
        let b = bucket_index (e_hash (symbols t ! i)) (bucketMask t)
        in drop_symbols_loop marker i (update_bucket b (drop_from_bucket (int i)) t)
      else t)"

definition drop_symbols_from :: "nat \<Rightarrow> 'n symbol_table \<Rightarrow> 'n symbol_table" where
  "drop_symbols_from marker t = drop_symbols_loop marker (length (symbols t)) t"

definition drop_all_scopes_from :: "nat \<Rightarrow> 'n symbol_table \<Rightarrow> 'n symbol_table option" where
  "drop_all_scopes_from scope_index t =
    (if scope_index < length (scopeStack t) then
       let marker = sc_start (scopeStack t ! scope_index);
           t' = drop_symbols_from marker (t\<lparr>scopeStack := take scope_index (scopeStack t)\<rparr>)
       in Some (t'\<lparr>symbols := take marker (symbols t')\<rparr>)
     else None)"

definition scope_end :: "'n symbol_table \<Rightarrow> 'n symbol_table option" where
  "scope_end t =
    (if scopeStack t = [] then None
     else
       let marker = sc_start (last (scopeStack t));
           t' = drop_symbols_from marker (t\<lparr>scopeStack := butlast (scopeStack t)\<rparr>)
       in Some (t'\<lparr>symbols := take marker (symbols t')\<rparr>))"

definition clear :: "'n symbol_table \<Rightarrow> 'n symbol_table" where
  "clear t =
     t\<lparr>symbols := [], scopeStack := [], buckets := map (\<lambda>b. empty_bucket) (buckets t)\<rparr>"

end
