(* ===== verification/Symbol_Table_Correct.thy ===== *)
theory Symbol_Table_Correct
  imports Symbol_Table
begin

text \<open>
  The symbol table is a scoped environment. Every bucket is related to the entries that
  hash to it, in declaration order; declaring appends an entry, ending a scope undoes the
  last ones, rehashing rebuilds the relation for twice as many buckets.
\<close>

subsection \<open>What a bucket stands for\<close>

definition to_symbol :: "nat \<times> 'n symbol_entry \<Rightarrow> 'n bucket_symbol" where
  "to_symbol p = mk_symbol (e_key (snd p)) (e_hash (snd p)) (e_node (snd p)) (int (fst p))"

definition same_key :: "nat \<times> 'n symbol_entry \<Rightarrow> nat \<times> 'n symbol_entry \<Rightarrow> bool" where
  "same_key p q \<longleftrightarrow> e_hash (snd q) = e_hash (snd p) \<and> e_key (snd q) = e_key (snd p)"

fun bucket_rel :: "'n bucket \<Rightarrow> (nat \<times> 'n symbol_entry) list \<Rightarrow> bool" where
  "bucket_rel b [] \<longleftrightarrow> s_index (b_active b) = -1 \<and> b_next b = [] \<and> b_collision b = []"
| "bucket_rel b (p # ps) \<longleftrightarrow>
     b_active b # b_next b = rev (map to_symbol (filter (same_key p) (p # ps))) \<and>
     b_collision b = rev (map to_symbol (filter (\<lambda>q. \<not> same_key p q) (p # ps)))"

lemma to_symbol_sel [simp]:
  "s_key (to_symbol p) = e_key (snd p)" "s_hash (to_symbol p) = e_hash (snd p)"
  "s_node (to_symbol p) = Some (e_node (snd p))" "s_index (to_symbol p) = int (fst p)"
  by (simp_all add: to_symbol_def mk_symbol_def)

lemma same_key_refl [simp]: "same_key p p"
  by (simp add: same_key_def)

lemma active_of_rel:
  assumes "bucket_rel b ps" "ps = p # qs"
  shows "\<exists>q. q \<in> set ps \<and> same_key p q \<and> b_active b = to_symbol q"
proof -
  have "b_active b \<in> set (rev (map to_symbol (filter (same_key p) ps)))"
    using assms by (metis bucket_rel.simps(2) list.set_intros(1))
  then show ?thesis by auto
qed

lemma rel_empty_iff: "bucket_rel b ps \<Longrightarrow> bucket_empty b \<longleftrightarrow> ps = []"
proof (cases ps)
  case (Cons p qs)
  assume "bucket_rel b ps"
  from active_of_rel[OF this Cons] obtain q where "b_active b = to_symbol q" by blast
  with Cons show ?thesis by (simp add: bucket_empty_def)
qed (simp add: bucket_empty_def)

lemma put_rel:
  assumes "bucket_rel b ps"
  shows "bucket_rel (put_symbol (e_key e) (e_hash e) (e_node e) (int i) b) (ps @ [(i, e)])"
proof (cases ps)
  case Nil
  with assms show ?thesis
    by (simp add: put_symbol_def bucket_empty_def set_to_bucket_def to_symbol_def)
next
  case (Cons p qs)
  from active_of_rel[OF assms this] obtain q where q: "same_key p q" "b_active b = to_symbol q"
    by blast
  have new: "mk_symbol (e_key e) (e_hash e) (e_node e) (int i) = to_symbol (i, e)"
    by (simp add: to_symbol_def)
  have ne: "\<not> bucket_empty b" using rel_empty_iff[OF assms] Cons by simp
  have "is_symbol (e_key e) (e_hash e) (b_active b) \<longleftrightarrow> same_key p (i, e)"
    using q by (auto simp: is_symbol_def same_key_def)
  then show ?thesis using assms Cons ne
    by (simp add: put_symbol_def set_to_bucket_def new)
qed

lemma drop_rel:
  assumes rel: "bucket_rel b (ps @ [(i, e)])" and fresh: "i \<notin> fst ` set ps"
  shows "bucket_rel (drop_from_bucket (int i) b) ps"
proof (cases ps)
  case Nil
  with rel show ?thesis by (simp add: drop_from_bucket_def to_symbol_def mk_symbol_def)
next
  case (Cons p qs)
  show ?thesis
  proof (cases "same_key p (i, e)")
    case True
    then have act: "b_active b = to_symbol (i, e)"
      and nxt: "b_next b = rev (map to_symbol (filter (same_key p) ps))"
      and col: "b_collision b = rev (map to_symbol (filter (\<lambda>q. \<not> same_key p q) ps))"
      using rel Cons by simp_all
    have "b_next b \<noteq> []" using nxt Cons by simp
    then obtain x xs where x: "b_next b = x # xs" by (cases "b_next b") blast+
    have "drop_from_bucket (int i) b = b\<lparr>b_active := x, b_next := xs\<rparr>"
      using act x by (simp add: drop_from_bucket_def)
    then show ?thesis using nxt[symmetric] x col Cons by simp
  next
    case False
    then have chain: "b_active b # b_next b = rev (map to_symbol (filter (same_key p) ps))"
      and col: "b_collision b =
        to_symbol (i, e) # rev (map to_symbol (filter (\<lambda>q. \<not> same_key p q) ps))"
      using rel Cons by simp_all
    have "b_active b \<in> set (rev (map to_symbol (filter (same_key p) ps)))"
      by (metis chain list.set_intros(1))
    then have "s_index (b_active b) \<noteq> int i" using fresh by force
    then show ?thesis using chain col Cons by (simp add: drop_from_bucket_def)
  qed
qed

lemma find_filter: "find P xs = (case filter P xs of [] \<Rightarrow> None | x # _ \<Rightarrow> Some x)" for xs
  by (induction xs) simp_all

text \<open>The symbols of a bucket that have a key, the one that is found first.\<close>

definition chain :: "string \<Rightarrow> 'n bucket \<Rightarrow> 'n bucket_symbol list" where
  "chain key b =
    (if \<not> bucket_empty b \<and> is_symbol key (computeHash key) (b_active b) then b_active b # b_next b
     else filter (is_symbol key (computeHash key)) (b_collision b))"

definition key_bucket :: "string \<Rightarrow> 'n symbol_table \<Rightarrow> 'n bucket" where
  "key_bucket key t = buckets t ! bucket_index (computeHash key) (bucketMask t)"

lemma resolve_bucket_chain:
  "resolve_bucket key t = (case chain key (key_bucket key t) of [] \<Rightarrow> None | s # _ \<Rightarrow> Some s)"
  by (auto simp: resolve_bucket_def chain_def key_bucket_def Let_def find_filter split: list.split)

lemma chain_rel:
  assumes rel: "bucket_rel b ps"
    and hashes: "\<forall>q\<in>set ps. e_hash (snd q) = computeHash (e_key (snd q))"
  shows "chain key b = map to_symbol (filter (\<lambda>q. e_key (snd q) = key) (rev ps))"
proof (cases ps)
  case Nil
  with rel show ?thesis by (simp add: bucket_empty_def chain_def)
next
  case (Cons p qs)
  from active_of_rel[OF rel this] obtain q
    where q: "q \<in> set ps" "same_key p q" "b_active b = to_symbol q" by blast
  have same: "same_key p r \<longleftrightarrow> e_key (snd r) = e_key (snd p)" if "r \<in> set ps" for r
    using that hashes Cons by (auto simp: same_key_def)
  have active: "is_symbol key (computeHash key) (b_active b) \<longleftrightarrow> e_key (snd p) = key"
    using q same hashes by (auto simp: is_symbol_def)
  have ne: "\<not> bucket_empty b" using rel_empty_iff[OF rel] Cons by simp
  have next_rel: "b_active b # b_next b = map to_symbol (filter (same_key p) (rev ps))"
    and col: "b_collision b = map to_symbol (filter (\<lambda>q. \<not> same_key p q) (rev ps))"
    using rel Cons by (simp_all add: rev_map rev_filter)
  show ?thesis
  proof (cases "e_key (snd p) = key")
    case True
    then have "filter (same_key p) (rev ps) = filter (\<lambda>q. e_key (snd q) = key) (rev ps)"
      using same by (intro filter_cong) auto
    with True active ne next_rel show ?thesis by (simp add: chain_def)
  next
    case False
    then have "filter (\<lambda>r. is_symbol key (computeHash key) (to_symbol r))
        (filter (\<lambda>q. \<not> same_key p q) (rev ps)) = filter (\<lambda>q. e_key (snd q) = key) (rev ps)"
      unfolding filter_filter using same hashes by (intro filter_cong) (auto simp: is_symbol_def)
    with False active col show ?thesis by (simp add: chain_def filter_map comp_def)
  qed
qed

subsection \<open>The table and its entries\<close>

definition bucket_entries :: "nat \<Rightarrow> 'n symbol_entry list \<Rightarrow> nat \<Rightarrow> (nat \<times> 'n symbol_entry) list" where
  "bucket_entries m es j = filter (\<lambda>p. bucket_index (e_hash (snd p)) m = j) (enumerate 0 es)"

definition buckets_rel :: "nat \<Rightarrow> 'n symbol_entry list \<Rightarrow> 'n bucket list \<Rightarrow> bool" where
  "buckets_rel m es bs \<longleftrightarrow> (\<forall>j < length bs. bucket_rel (bs ! j) (bucket_entries m es j))"

definition sizes_ok :: "nat \<Rightarrow> 'n bucket list \<Rightarrow> bool" where
  "sizes_ok m bs \<longleftrightarrow> (\<exists>k. length bs = 2 ^ k) \<and> m = length bs - 1"

definition hashes_ok :: "'n symbol_entry list \<Rightarrow> bool" where
  "hashes_ok es \<longleftrightarrow> (\<forall>e\<in>set es. e_hash e = computeHash (e_key e))"

definition scopes_ok :: "symbol_scope list \<Rightarrow> nat \<Rightarrow> bool" where
  "scopes_ok scs n \<longleftrightarrow> sorted (map sc_start scs) \<and> (\<forall>s\<in>set scs. sc_start s \<le> n)"

definition table_ok :: "'n symbol_table \<Rightarrow> bool" where
  "table_ok t \<longleftrightarrow> sizes_ok (bucketMask t) (buckets t) \<and> hashes_ok (symbols t) \<and>
     scopes_ok (scopeStack t) (length (symbols t)) \<and>
     buckets_rel (bucketMask t) (symbols t) (buckets t)"

text \<open>The names declared by a list of entries: the last entry of a key counts.\<close>

definition declared :: "'n symbol_entry list \<Rightarrow> string \<Rightarrow> 'n option" where
  "declared es key = map_option e_node (find (\<lambda>e. e_key e = key) (rev es))"

definition visible_names :: "'n symbol_table \<Rightarrow> (string \<Rightarrow> 'n option) list" where
  "visible_names t = map (\<lambda>n. declared (take n (symbols t)))
     (length (symbols t) # rev (map sc_start (scopeStack t)))"

lemma bucket_index_less: "sizes_ok m bs \<Longrightarrow> bucket_index h m < length bs"
proof -
  assume "sizes_ok m bs"
  then obtain k where k: "length bs = 2 ^ k" "m = 2 ^ k - 1" by (auto simp: sizes_ok_def)
  have "m = mask k" by (simp add: k(2) mask_eq_exp_minus_1)
  then have "unat h AND m = unat h mod 2 ^ k" by (simp add: take_bit_eq_mask[symmetric] take_bit_eq_mod)
  then show ?thesis by (simp add: bucket_index_def k(1))
qed

lemma declared_append [simp]:
  "declared (es @ [e]) = (\<lambda>key. if key = e_key e then Some (e_node e) else declared es key)"
  by (auto simp: declared_def)

lemma declared_Nil [simp]: "declared [] = (\<lambda>key. None)"
  by (auto simp: declared_def)

lemma bucket_entries_append:
  "bucket_entries m (es @ [e]) j = bucket_entries m es j @
     (if bucket_index (e_hash e) m = j then [(length es, e)] else [])"
  by (simp add: bucket_entries_def enumerate_append_eq)

lemma bucket_entries_Nil [simp]: "bucket_entries m [] j = []"
  by (simp add: bucket_entries_def)

lemma bucket_entries_index: "p \<in> set (bucket_entries m es j) \<Longrightarrow> fst p < length es"
  by (auto simp: bucket_entries_def in_set_enumerate_eq)

lemma buckets_rel_put:
  assumes "buckets_rel m es bs" "i = bucket_index (e_hash e) m"
  shows "buckets_rel m (es @ [e])
    (bs[i := put_symbol (e_key e) (e_hash e) (e_node e) (int (length es)) (bs ! i)])"
  using assms by (auto simp: buckets_rel_def bucket_entries_append nth_list_update put_rel)

lemma buckets_rel_drop:
  assumes rel: "buckets_rel m (es @ [e]) bs" and i: "i = bucket_index (e_hash e) m"
  shows "buckets_rel m es (bs[i := drop_from_bucket (int (length es)) (bs ! i)])"
proof -
  have "length es \<notin> fst ` set (bucket_entries m es i)"
    using bucket_entries_index[of _ m es i] by force
  then have "bucket_rel (drop_from_bucket (int (length es)) (bs ! i)) (bucket_entries m es i)"
    if "i < length bs"
    using rel that i by (auto simp: buckets_rel_def bucket_entries_append intro!: drop_rel)
  then show ?thesis
    using rel i by (cases "i < length bs")
      (auto simp: buckets_rel_def bucket_entries_append nth_list_update split: if_splits)
qed

lemma buckets_rel_new [simp]: "buckets_rel m [] (replicate n empty_bucket)"
  by (simp add: buckets_rel_def empty_bucket_def empty_symbol_def)

lemma insert_symbols_rel:
  "buckets_rel m es0 bs \<Longrightarrow> buckets_rel m (es0 @ es) (insert_symbols (length es0) es m bs) \<and>
   length (insert_symbols (length es0) es m bs) = length bs"
proof (induction es arbitrary: es0 bs)
  case (Cons e es)
  have "buckets_rel m (es0 @ [e]) (insert_symbol (int (length es0)) e m bs)"
    using buckets_rel_put[OF Cons.prems refl] by (simp add: insert_symbol_def Let_def)
  from Cons.IH[OF this] show ?case
    by (simp add: insert_symbol_def Let_def)
qed simp

lemma rehash_aux:
  fixes es :: "'n symbol_entry list"
  shows "buckets_rel m es (insert_symbols 0 es m (replicate n empty_bucket)) \<and>
    length (insert_symbols 0 es m (replicate n (empty_bucket :: 'n bucket))) = n"
proof -
  have "buckets_rel m ([] :: 'n symbol_entry list) (replicate n empty_bucket)" by simp
  from insert_symbols_rel[OF this, of es] show ?thesis by simp
qed

lemma rehash_simps [simp]:
  "symbols (rehash t) = symbols t" "scopeStack (rehash t) = scopeStack t"
  "symbols (rehash_if_needed t) = symbols t" "scopeStack (rehash_if_needed t) = scopeStack t"
  "visible_names (rehash_if_needed t) = visible_names t"
  "bucketMask (rehash t) = length (buckets t) * 2 - 1"
  by (simp_all add: rehash_def rehash_if_needed_def visible_names_def Let_def)

lemma rehash_rel:
  "buckets_rel (bucketMask (rehash t)) (symbols t) (buckets (rehash t))"
  by (simp add: rehash_def rehash_aux Let_def)

lemma rehash_sizes:
  "sizes_ok (bucketMask t) (buckets t) \<Longrightarrow> sizes_ok (bucketMask (rehash t)) (buckets (rehash t))"
proof -
  assume "sizes_ok (bucketMask t) (buckets t)"
  then obtain k where "length (buckets t) = 2 ^ k" by (auto simp: sizes_ok_def)
  moreover have len: "length (buckets (rehash t)) = length (buckets t) * 2"
    by (simp add: rehash_def rehash_aux Let_def)
  ultimately have "length (buckets (rehash t)) = 2 ^ Suc k" by simp
  with len show ?thesis
    unfolding sizes_ok_def rehash_simps by (metis One_nat_def)
qed

lemma rehash_if_needed_ok: "table_ok t \<Longrightarrow> table_ok (rehash_if_needed t)"
  by (simp add: rehash_if_needed_def table_ok_def rehash_rel rehash_sizes del: rehash_simps(6))

subsection \<open>The operations\<close>

lemma update_bucket_simps [simp]:
  "symbols (update_bucket i f t) = symbols t" "scopeStack (update_bucket i f t) = scopeStack t"
  "bucketMask (update_bucket i f t) = bucketMask t"
  "length (buckets (update_bucket i f t)) = length (buckets t)"
  by (simp_all add: update_bucket_def)

lemma sizes_update [simp]: "sizes_ok m (buckets (update_bucket i f t)) \<longleftrightarrow> sizes_ok m (buckets t)"
  by (simp add: sizes_ok_def)

text \<open>Adding an entry, as \<open>declare\<close> does after the checks.\<close>

definition add_entry :: "string \<Rightarrow> 'n \<Rightarrow> 'n symbol_table \<Rightarrow> 'n symbol_table" where
  "add_entry key node t =
    (case put_entry key (computeHash key) node t of
       (index, t') \<Rightarrow> update_bucket (bucket_index (computeHash key) (bucketMask t))
         (put_symbol key (computeHash key) node index) t')"

lemma scopes_ok_more: "scopes_ok scs n \<Longrightarrow> n \<le> n' \<Longrightarrow> scopes_ok scs n'"
  by (auto simp: scopes_ok_def)

lemma add_entry_ok: "table_ok t \<Longrightarrow> table_ok (add_entry key node t)"
proof -
  assume ok: "table_ok t"
  let ?e = "\<lparr>e_key = key, e_hash = computeHash key, e_node = node\<rparr>"
  have "buckets_rel (bucketMask t) (symbols t @ [?e]) (buckets (add_entry key node t))"
    using buckets_rel_put[of "bucketMask t" "symbols t" "buckets t" _ ?e, OF _ refl] ok
    by (simp add: add_entry_def put_entry_def update_bucket_def table_ok_def)
  then show ?thesis using ok
    by (auto simp: add_entry_def put_entry_def table_ok_def hashes_ok_def update_bucket_def
        sizes_ok_def intro: scopes_ok_more)
qed

lemma visible_cons:
  "visible_names t = declared (symbols t) #
     map (\<lambda>n. declared (take n (symbols t))) (rev (map sc_start (scopeStack t)))"
  by (simp add: visible_names_def)

lemma take_visible:
  "scopes_ok scs (length es) \<Longrightarrow>
   map (\<lambda>n. declared (take n (es @ fs))) (rev (map sc_start scs)) =
   map (\<lambda>n. declared (take n es)) (rev (map sc_start scs))"
  by (auto simp: scopes_ok_def)

lemma add_entry_visible:
  "table_ok t \<Longrightarrow> visible_names (add_entry key node t) =
    (\<lambda>k. if k = key then Some node else hd (visible_names t) k) # tl (visible_names t)"
  by (simp add: visible_cons add_entry_def put_entry_def table_ok_def take_visible fun_eq_iff
      del: take_append)

lemma chain_declarations:
  assumes "table_ok t"
  shows "map s_node (chain key (key_bucket key t)) =
    map (\<lambda>e. Some (e_node e)) (filter (\<lambda>e. e_key e = key) (rev (symbols t)))"
proof -
  let ?j = "bucket_index (computeHash key) (bucketMask t)"
  let ?ps = "bucket_entries (bucketMask t) (symbols t) ?j"
  have rel: "bucket_rel (key_bucket key t) ?ps"
    using assms bucket_index_less by (auto simp: table_ok_def buckets_rel_def key_bucket_def)
  have hashes: "\<forall>q\<in>set ?ps. e_hash (snd q) = computeHash (e_key (snd q))"
    using assms by (auto simp: table_ok_def hashes_ok_def bucket_entries_def in_set_enumerate_eq)
  have "filter (\<lambda>p. e_key (snd p) = key) ?ps =
      filter (\<lambda>p. e_key (snd p) = key) (enumerate 0 (symbols t))"
    using assms unfolding bucket_entries_def filter_filter
    by (intro filter_cong) (auto simp: table_ok_def hashes_ok_def in_set_enumerate_eq)
  then have "chain key (key_bucket key t) =
      map to_symbol (rev (filter (\<lambda>p. e_key (snd p) = key) (enumerate 0 (symbols t))))"
    by (simp add: chain_rel[OF rel hashes] rev_filter[symmetric])
  also have "map s_node \<dots> = map (\<lambda>e. Some (e_node e))
      (rev (filter (\<lambda>e. e_key e = key) (map snd (enumerate 0 (symbols t)))))"
    by (simp only: filter_map rev_map map_map comp_def to_symbol_sel)
  also have "map snd (enumerate 0 (symbols t)) = symbols t" by simp
  finally show ?thesis by (simp add: rev_filter)
qed

lemma resolve_bucket_declared:
  assumes "table_ok t"
  shows "map_option s_node (resolve_bucket key t) = map_option Some (declared (symbols t) key)"
proof -
  have "map_option s_node (resolve_bucket key t) =
      (case map s_node (chain key (key_bucket key t)) of [] \<Rightarrow> None | n # _ \<Rightarrow> Some n)"
    by (simp add: resolve_bucket_chain split: list.split)
  then show ?thesis unfolding chain_declarations[OF assms]
    by (simp add: declared_def find_filter split: list.split)
qed

lemma resolve_declared: "table_ok t \<Longrightarrow> resolve key t = declared (symbols t) key"
  using resolve_bucket_declared[of t key]
  by (cases "resolve_bucket key t"; cases "declared (symbols t) key") (simp_all add: resolve_def)

text \<open>Declaring adds an entry, unless the same node is already what the name means.\<close>

lemma declare_symbol_cases:
  "declare_symbol key node t =
    (let t' = rehash_if_needed t; b = buckets t' ! bucket_index (computeHash key) (bucketMask t')
     in if \<not> bucket_empty b \<and> is_symbol key (computeHash key) (b_active b) \<and>
           s_node (b_active b) = Some node then t' else add_entry key node t')"
  by (simp add: declare_symbol_def add_entry_def Let_def)

lemma active_is_declared:
  assumes "table_ok t" "b = buckets t ! bucket_index (computeHash key) (bucketMask t)"
    "\<not> bucket_empty b" "is_symbol key (computeHash key) (b_active b)" "s_node (b_active b) = Some node"
  shows "declared (symbols t) key = Some node"
  using assms resolve_declared[of t key]
  by (simp add: resolve_def resolve_bucket_def Let_def)

lemma declare_symbol_ok: "table_ok t \<Longrightarrow> table_ok (declare_symbol key node t)"
  by (simp add: declare_symbol_cases Let_def rehash_if_needed_ok add_entry_ok)

lemma declare_symbol_visible:
  assumes "table_ok t"
  shows "visible_names (declare_symbol key node t) =
    (\<lambda>k. if k = key then Some node else hd (visible_names t) k) # tl (visible_names t)"
proof -
  let ?t = "rehash_if_needed t"
  have ok: "table_ok ?t" using assms by (rule rehash_if_needed_ok)
  have same: "declare_symbol key node t = ?t \<and> declared (symbols ?t) key = Some node \<or>
      declare_symbol key node t = add_entry key node ?t"
    unfolding declare_symbol_cases Let_def using active_is_declared[OF ok refl, of key node]
    by (cases "declare_symbol key node t = add_entry key node ?t")
      (auto simp: declare_symbol_cases Let_def)
  then show ?thesis
  proof
    assume s: "declare_symbol key node t = ?t \<and> declared (symbols ?t) key = Some node"
    then have "(\<lambda>k. if k = key then Some node else declared (symbols t) k) = declared (symbols t)"
      by (auto simp: fun_eq_iff)
    then show ?thesis using s by (simp only: visible_cons list.sel rehash_simps)
  next
    assume "declare_symbol key node t = add_entry key node ?t"
    with add_entry_visible[OF ok, of key node] show ?thesis unfolding rehash_simps by simp
  qed
qed

lemma resolve_bucket_keeps:
  "table_ok t \<Longrightarrow> resolve_bucket key t = None \<longleftrightarrow> declared (symbols t) key = None"
  using resolve_bucket_declared[of t key]
  by (cases "resolve_bucket key t"; cases "declared (symbols t) key") simp_all

lemma declare_no_shadow_cases:
  assumes "table_ok t"
  shows "declare_no_shadow key node t =
    (let t' = rehash_if_needed t
     in case declared (symbols t) key of
          Some old \<Rightarrow> (Some old, t') | None \<Rightarrow> (None, add_entry key node t'))"
proof -
  let ?t = "rehash_if_needed t"
  have ok: "table_ok ?t" using assms by (rule rehash_if_needed_ok)
  let ?b = "buckets ?t ! bucket_index (computeHash key) (bucketMask ?t)"
  have col: "b_collision ?b = []" if "bucket_empty ?b"
  proof -
    have "bucket_rel ?b (bucket_entries (bucketMask ?t) (symbols ?t)
        (bucket_index (computeHash key) (bucketMask ?t)))"
      using ok bucket_index_less by (auto simp: table_ok_def buckets_rel_def)
    with rel_empty_iff[OF this] that show ?thesis by simp
  qed
  have "declare_no_shadow_sym key node t = (case resolve_bucket key ?t of
      Some s \<Rightarrow> (Some s, ?t) | None \<Rightarrow> (None, add_entry key node ?t))"
    using col by (auto simp: declare_no_shadow_sym_def resolve_bucket_def add_entry_def Let_def
        split: option.split)
  then show ?thesis using resolve_bucket_declared[OF ok, of key]
    by (auto simp: declare_no_shadow_def Let_def split: option.split)
qed

subsection \<open>Scopes\<close>

lemma scope_start_ok: "table_ok t \<Longrightarrow> table_ok (scope_start kind t)"
  by (auto simp: table_ok_def scope_start_def scopes_ok_def sorted_append)

lemma scope_start_visible:
  "visible_names (scope_start kind t) = hd (visible_names t) # visible_names t"
  by (simp add: visible_names_def scope_start_def)

lemma drop_symbols_loop_simps [simp]:
  "symbols (drop_symbols_loop m n t) = symbols t"
  "scopeStack (drop_symbols_loop m n t) = scopeStack t"
  "bucketMask (drop_symbols_loop m n t) = bucketMask t"
  "length (buckets (drop_symbols_loop m n t)) = length (buckets t)"
  by (induction m n t rule: drop_symbols_loop.induct) (simp_all add: Let_def)

lemma drop_symbols_loop_rel:
  "buckets_rel (bucketMask t) (take n (symbols t)) (buckets t) \<Longrightarrow> m \<le> n \<Longrightarrow> n \<le> length (symbols t) \<Longrightarrow>
   buckets_rel (bucketMask t) (take m (symbols t)) (buckets (drop_symbols_loop m n t))"
proof (induction m n t rule: drop_symbols_loop.induct)
  case (2 m i t)
  show ?case
  proof (cases "m \<le> i")
    case True
    let ?e = "symbols t ! i"
    let ?j = "bucket_index (e_hash ?e) (bucketMask t)"
    have "take (Suc i) (symbols t) = take i (symbols t) @ [?e]"
      using 2(4) by (simp add: take_Suc_conv_app_nth)
    with 2(2) have "buckets_rel (bucketMask t) (take i (symbols t) @ [?e]) (buckets t)" by simp
    from buckets_rel_drop[OF this refl]
    have "buckets_rel (bucketMask t) (take i (symbols t))
        (buckets (update_bucket ?j (drop_from_bucket (int i)) t))"
      using 2(4) by (simp add: update_bucket_def)
    with 2(1)[OF True refl] 2(4) True show ?thesis by (simp add: Let_def)
  next
    case False
    with 2 show ?thesis by (simp add: le_Suc_eq)
  qed
qed simp

lemma drop_symbols_from_rel:
  "buckets_rel (bucketMask t) (symbols t) (buckets t) \<Longrightarrow> m \<le> length (symbols t) \<Longrightarrow>
   buckets_rel (bucketMask t) (take m (symbols t)) (buckets (drop_symbols_from m t))"
  using drop_symbols_loop_rel[of t "length (symbols t)" m] by (simp add: drop_symbols_from_def)

text \<open>Ending scopes, down to one of them: \<open>scope_end\<close> is the case of the last scope.\<close>

lemma scope_end_drop_all:
  "scopeStack t \<noteq> [] \<Longrightarrow> scope_end t = drop_all_scopes_from (length (scopeStack t) - 1) t"
  by (simp add: scope_end_def drop_all_scopes_from_def last_conv_nth butlast_conv_take)

lemma starts_before:
  assumes "sorted (map sc_start scs)" "i < length scs" "s \<in> set (take i scs)"
  shows "sc_start s \<le> sc_start (scs ! i)"
proof -
  obtain j where j: "j < length (take i scs)" "s = take i scs ! j"
    using assms(3) unfolding in_set_conv_nth by blast
  have "map sc_start scs ! j \<le> map sc_start scs ! i"
    by (rule sorted_nth_mono[OF assms(1)]) (use j assms(2) in simp_all)
  with j assms(2) show ?thesis by simp
qed

lemma drop_all_scopes_ok:
  assumes "table_ok t" "i < length (scopeStack t)" "drop_all_scopes_from i t = Some t'"
  shows "table_ok t'"
proof -
  let ?m = "sc_start (scopeStack t ! i)"
  have m: "?m \<le> length (symbols t)" using assms by (auto simp: table_ok_def scopes_ok_def)
  have "sc_start s \<le> ?m" if "s \<in> set (take i (scopeStack t))" for s
    using starts_before assms that by (auto simp: table_ok_def scopes_ok_def)
  then have "scopes_ok (take i (scopeStack t)) ?m"
    using assms by (auto simp: table_ok_def scopes_ok_def sorted_wrt_take simp flip: take_map)
  moreover have "hashes_ok (take ?m (symbols t))"
    using assms by (auto simp: table_ok_def hashes_ok_def dest: in_set_takeD)
  moreover have "buckets_rel (bucketMask t) (take ?m (symbols t))
      (buckets (drop_symbols_from ?m (t\<lparr>scopeStack := take i (scopeStack t)\<rparr>)))"
    using drop_symbols_from_rel[of "t\<lparr>scopeStack := take i (scopeStack t)\<rparr>" ?m] assms m
    by (simp add: table_ok_def)
  ultimately show ?thesis
    using assms m by (auto simp: drop_all_scopes_from_def table_ok_def Let_def drop_symbols_from_def
        sizes_ok_def)
qed

lemma drop_visible_positions:
  "i < length xs \<Longrightarrow> drop (length xs - i) (x # rev xs) = xs ! i # rev (take i xs)"
proof -
  assume i: "i < length xs"
  then have "length xs - i = Suc (length xs - Suc i)" by simp
  then have "drop (length xs - i) (x # rev xs) = drop (length xs - Suc i) (rev xs)" by simp
  also have "\<dots> = rev (take (Suc i) xs)" using i by (simp add: rev_take)
  finally show ?thesis using i by (simp add: take_Suc_conv_app_nth)
qed

lemma drop_all_scopes_visible:
  assumes "table_ok t" "i < length (scopeStack t)" "drop_all_scopes_from i t = Some t'"
  shows "visible_names t' = drop (length (scopeStack t) - i) (visible_names t)"
proof -
  let ?m = "sc_start (scopeStack t ! i)"
  have m: "?m \<le> length (symbols t)" using assms by (auto simp: table_ok_def scopes_ok_def)
  have before: "sc_start s \<le> ?m" if "s \<in> set (take i (scopeStack t))" for s
    using starts_before assms that by (auto simp: table_ok_def scopes_ok_def)
  have "symbols t' = take ?m (symbols t)" "scopeStack t' = take i (scopeStack t)"
    using assms by (auto simp: drop_all_scopes_from_def Let_def drop_symbols_from_def)
  then have "visible_names t' = map (\<lambda>n. declared (take n (symbols t)))
      (?m # rev (map sc_start (take i (scopeStack t))))"
    using m before by (auto simp: visible_names_def min_def)
  moreover have "?m # rev (map sc_start (take i (scopeStack t))) =
      drop (length (scopeStack t) - i) (length (symbols t) # rev (map sc_start (scopeStack t)))"
    using drop_visible_positions[of i "map sc_start (scopeStack t)"] assms(2) by (simp add: take_map)
  ultimately show ?thesis by (simp only: visible_names_def drop_map)
qed

lemma drop_all_scopes_defined:
  "i < length (scopeStack t) \<Longrightarrow> \<exists>t'. drop_all_scopes_from i t = Some t'"
  by (simp add: drop_all_scopes_from_def Let_def)

lemma scope_end_step:
  assumes "table_ok t" "length (visible_names t) > 1"
  shows "\<exists>t'. scope_end t = Some t' \<and> table_ok t' \<and> visible_names t' = tl (visible_names t)"
proof -
  have ne: "scopeStack t \<noteq> []" using assms(2) by (auto simp: visible_names_def)
  let ?i = "length (scopeStack t) - 1"
  have i: "?i < length (scopeStack t)" using ne by simp
  from drop_all_scopes_defined[OF this] obtain t' where t': "drop_all_scopes_from ?i t = Some t'"
    by blast
  have "length (scopeStack t) - ?i = 1" using ne by (cases "scopeStack t") simp_all
  then show ?thesis using drop_all_scopes_ok[OF assms(1) i t'] drop_all_scopes_visible[OF assms(1) i t']
    using t' by (simp add: scope_end_drop_all[OF ne] drop_Suc)
qed

lemma new_table_ok: "table_ok new_symbol_table"
proof -
  have "sizes_ok 127 (replicate 128 empty_bucket)"
    unfolding sizes_ok_def by (auto intro: exI[of _ 7])
  then show ?thesis
    by (simp add: table_ok_def new_symbol_table_def hashes_ok_def scopes_ok_def)
qed

text \<open>The end of a block; a program of nested blocks ends only scopes it has started.\<close>

definition leave_scope :: "'n symbol_table \<Rightarrow> 'n symbol_table" where
  "leave_scope t = (case scope_end t of Some t' \<Rightarrow> t' | None \<Rightarrow> t)"

interpretation symtab: scoped_env table_ok visible_names new_symbol_table declare_symbol
  "\<lambda>t key. resolve key t" "scope_start kind" leave_scope for kind
proof
  show "table_ok new_symbol_table" by (rule new_table_ok)
  show "hd (visible_names new_symbol_table) = (\<lambda>k. None)"
    by (simp add: visible_names_def new_symbol_table_def)
  show "resolve key t = hd (visible_names t) key" if "table_ok t" for t key
    using that by (simp add: resolve_declared visible_cons)
  show "visible_names t \<noteq> []" for t by (simp add: visible_cons)
  show "table_ok (leave_scope t)" "visible_names (leave_scope t) = tl (visible_names t)"
    if "table_ok t" "length (visible_names t) > 1" for t
    using scope_end_step[OF that] by (auto simp: leave_scope_def)
qed (simp_all add: declare_symbol_ok declare_symbol_visible scope_start_ok scope_start_visible)


subsection \<open>Erasing\<close>

lemma remove_first_filter:
  "filter P (remove_first P xs) = tl (filter P xs)"
  "\<forall>x\<in>set xs. P x \<longrightarrow> \<not> Q x \<Longrightarrow> filter Q (remove_first P xs) = filter Q xs"
  by (induction xs) auto

lemma is_symbol_other: "is_symbol key h s \<Longrightarrow> key' \<noteq> key \<Longrightarrow> \<not> is_symbol key' h' s"
  by (simp add: is_symbol_def)

lemma active_excludes_collision:
  assumes rel: "bucket_rel b ps" and act: "\<not> bucket_empty b" "is_symbol key h (b_active b)"
  shows "filter (is_symbol key h) (b_collision b) = []"
proof (cases ps)
  case Nil
  with rel show ?thesis by simp
next
  case (Cons p qs)
  from active_of_rel[OF rel this] obtain q where "same_key p q" "b_active b = to_symbol q" by blast
  with act have p: "e_key (snd p) = key" "e_hash (snd p) = h"
    by (auto simp: is_symbol_def same_key_def)
  have "b_collision b = rev (map to_symbol (filter (\<lambda>q. \<not> same_key p q) ps))"
    using rel Cons by simp
  with p show ?thesis by (auto simp: filter_empty_conv is_symbol_def same_key_def)
qed

lemma chain_erase:
  assumes rel: "bucket_rel b ps"
    and hashes: "\<forall>q\<in>set ps. e_hash (snd q) = computeHash (e_key (snd q))"
  shows "chain key' (snd (erase_from_bucket key (computeHash key) b)) =
    (if key' = key then tl (chain key b) else chain key' b)"
proof (cases "\<not> bucket_empty b \<and> is_symbol key (computeHash key) (b_active b)")
  case True
  note act = this
  then have front: "b_active b # b_next b = map to_symbol (filter (\<lambda>q. e_key (snd q) = key) (rev ps))"
    using chain_rel[OF rel hashes, of key] by (simp add: chain_def)
  have col: "filter (is_symbol key (computeHash key)) (b_collision b) = []"
    using active_excludes_collision[OF rel] act by blast
  show ?thesis
  proof (cases "b_next b")
    case Nil
    with act col show ?thesis
      by (auto simp: erase_from_bucket_def chain_def bucket_empty_def is_symbol_def)
  next
    case (Cons current rest)
    then have "current \<in> set (map to_symbol (filter (\<lambda>q. e_key (snd q) = key) (rev ps)))"
      by (metis front list.set_intros(1) list.set_intros(2))
    then obtain q where "q \<in> set ps" "e_key (snd q) = key" "current = to_symbol q" by auto
    then have "s_key current = key" "s_hash current = computeHash key" "\<not> s_index current = - 1"
      using hashes by simp_all
    moreover from this have "(b_active b)\<lparr>s_index := s_index current, s_node := s_node current\<rparr> = current"
      using act by (auto simp: is_symbol_def intro!: bucket_symbol.equality)
    ultimately show ?thesis using act Cons
      by (auto simp: erase_from_bucket_def chain_def bucket_empty_def is_symbol_def)
  qed
next
  case False
  let ?P = "is_symbol key (computeHash key)"
  have none: "find ?P (b_collision b) = None \<longleftrightarrow> filter ?P (b_collision b) = []"
    by (auto simp: find_None_iff filter_empty_conv)
  have other: "\<forall>x\<in>set (b_collision b). ?P x \<longrightarrow> \<not> is_symbol key' (computeHash key') x" if "key' \<noteq> key"
    using that by (simp add: is_symbol_def)
  have "bucket_empty (b\<lparr>b_collision := c\<rparr>) = bucket_empty b" for c
    by (simp add: bucket_empty_def)
  moreover have "snd (erase_from_bucket key (computeHash key) b) =
      (if filter ?P (b_collision b) = [] then b
       else b\<lparr>b_collision := remove_first ?P (b_collision b)\<rparr>)"
    unfolding erase_from_bucket_def if_not_P[OF False] none[symmetric] by simp
  moreover have "chain key b = filter ?P (b_collision b)"
    unfolding chain_def if_not_P[OF False] ..
  ultimately show ?thesis using False
    by (auto simp: chain_def remove_first_filter(1) remove_first_filter(2)[OF other])
qed

lemma key_bucket_erase:
  assumes "table_ok t"
  shows "chain key' (key_bucket key' (snd (erase key t))) =
    (if key' = key then tl (chain key (key_bucket key t)) else chain key' (key_bucket key' t))"
proof -
  let ?i = "bucket_index (computeHash key) (bucketMask t)"
  let ?ps = "bucket_entries (bucketMask t) (symbols t) ?i"
  have i: "?i < length (buckets t)" using assms bucket_index_less by (auto simp: table_ok_def)
  have rel: "bucket_rel (buckets t ! ?i) ?ps" using assms i by (simp add: table_ok_def buckets_rel_def)
  have hashes: "\<forall>q\<in>set ?ps. e_hash (snd q) = computeHash (e_key (snd q))"
    using assms by (auto simp: table_ok_def hashes_ok_def bucket_entries_def in_set_enumerate_eq)
  have "key_bucket key' (snd (erase key t)) =
      (if bucket_index (computeHash key') (bucketMask t) = ?i
       then snd (erase_from_bucket key (computeHash key) (buckets t ! ?i)) else key_bucket key' t)"
    using i by (simp add: key_bucket_def erase_def Let_def update_bucket_def nth_list_update)
  moreover have "key_bucket key t = buckets t ! ?i" by (simp add: key_bucket_def)
  ultimately show ?thesis using chain_erase[OF rel hashes, of key' key]
    by (cases "bucket_index (computeHash key') (bucketMask t) = ?i") (auto simp: key_bucket_def)
qed

subsection \<open>Sizes\<close>

text \<open>\<open>x\<close> holds the first \<open>m\<close> right shifts of \<open>y\<close>, joined.\<close>

definition smeared :: "nat \<Rightarrow> u64 \<Rightarrow> u64 \<Rightarrow> bool" where
  "smeared m y x \<longleftrightarrow> (\<forall>i. bit x i \<longleftrightarrow> (\<exists>j<m. bit y (i + j)))"

lemma smeared_1: "smeared 1 y y"
  by (simp add: smeared_def)

lemma smeared_step: "smeared m y x \<Longrightarrow> smeared (2 * m) y (x OR drop_bit m x)"
proof -
  assume s: "smeared m y x"
  have "(\<exists>j<2 * m. bit y (i + j)) \<longleftrightarrow> (\<exists>j<m. bit y (i + j)) \<or> (\<exists>j<m. bit y (m + i + j))" for i
  proof
    assume "\<exists>j<2 * m. bit y (i + j)"
    then obtain j where j: "j < 2 * m" "bit y (i + j)" by blast
    show "(\<exists>j<m. bit y (i + j)) \<or> (\<exists>j<m. bit y (m + i + j))"
    proof (cases "j < m")
      case False
      with j have "j - m < m \<and> bit y (m + i + (j - m))" by (simp add: algebra_simps)
      then show ?thesis by blast
    qed (use j in blast)
  next
    assume "(\<exists>j<m. bit y (i + j)) \<or> (\<exists>j<m. bit y (m + i + j))"
    then consider j where "j < m" "bit y (i + j)" | j where "j < m" "bit y (i + (m + j))"
      by (auto simp: algebra_simps)
    then show "\<exists>j<2 * m. bit y (i + j)"
      by cases (metis mult_2 trans_less_add1, metis add_less_cancel_left mult_2)
  qed
  with s show ?thesis by (simp add: smeared_def bit_or_iff bit_drop_bit_eq)
qed

lemma smeared_64:
  assumes "smeared 64 y z" "2 ^ k \<le> unat y" "unat y < 2 ^ Suc k"
  shows "z = mask (Suc k)"
proof (rule bit_word_eqI)
  fix i assume i: "i < LENGTH(64)"
  have bits: "bit y n \<longleftrightarrow> odd (unat y div 2 ^ n)" for n
    by (metis bit_iff_odd bit_unsigned_iff possible_bit_nat)
  have "unat y div 2 ^ k = 1" using assms(2,3) by (simp add: div_nat_eqI)
  then have top: "bit y k" by (simp add: bits)
  then have k: "k < 64" using bit_imp_le_length[of y k] by simp
  have above: "\<not> bit y n" if "n > k" for n
  proof -
    have "(2::nat) ^ Suc k \<le> 2 ^ n" using that by (intro power_increasing) auto
    then show ?thesis using assms(3) by (simp add: bits)
  qed
  show "bit z i = bit (mask (Suc k) :: u64) i"
  proof (cases "i \<le> k")
    case True
    then have "k - i < 64 \<and> bit y (i + (k - i))" using k top by simp
    then show ?thesis using assms(1) True i by (auto simp: smeared_def bit_mask_iff)
  next
    case False
    then show ?thesis using assms(1) above by (auto simp: smeared_def bit_mask_iff)
  qed
qed

lemma next_power_of_two_mask:
  assumes "2 ^ k \<le> unat (x - 1)" "unat (x - 1) < 2 ^ Suc k" "x \<noteq> 0"
  shows "next_power_of_two x = mask (Suc k) + 1"
proof -
  have "smeared 2 y (y OR drop_bit 1 y)" for y using smeared_step[OF smeared_1[of y]] by (simp add: numeral_2_eq_2)
  note step = this smeared_step[of 2 "x - 1", simplified]
    smeared_step[of 4 "x - 1", simplified] smeared_step[of 8 "x - 1", simplified]
    smeared_step[of 16 "x - 1", simplified] smeared_step[of 32 "x - 1", simplified]
  show ?thesis
    unfolding next_power_of_two_def Let_def if_not_P[OF assms(3)]
    by (rule arg_cong[where f = "\<lambda>z. z + 1"], rule smeared_64[OF _ assms(1,2)])
      (rule step)+
qed

lemma mask_plus_1: "(mask n :: u64) + 1 = 2 ^ n"
  by (simp add: mask_eq_exp_minus_1)

lemma next_power_of_two_exp:
  assumes "x \<noteq> 0"
  obtains k where "next_power_of_two x = 2 ^ k" "unat x \<le> 2 ^ k" "2 ^ k < 2 * unat x"
proof (cases "x = 1")
  case True
  then have "next_power_of_two x = 2 ^ 0" by (simp add: next_power_of_two_def)
  then show thesis using that[of 0] True by simp
next
  case False
  have u: "unat (x - 1) = unat x - 1" using assms by (simp add: unat_minus_one)
  then have "1 \<le> unat (x - 1)"
    using assms False unat_eq_zero[of "x - 1"] by (metis One_nat_def Suc_leI neq0_conv right_minus_eq)
  then obtain k where k: "2 ^ k \<le> unat (x - 1)" "unat (x - 1) < 2 ^ (k + 1)"
    using ex_power_ivl1[of 2 "unat (x - 1)"] by auto
  have "next_power_of_two x = 2 ^ Suc k"
    unfolding mask_plus_1[symmetric] using k assms by (intro next_power_of_two_mask) simp_all
  then show thesis using that[of "Suc k"] k u by simp
qed

lemma unat_exp: "k < 64 \<Longrightarrow> unat (2 ^ k :: u64) = 2 ^ k"
proof -
  assume "k < 64"
  then have "unat (of_nat (2 ^ k) :: u64) = 2 ^ k"
    using power_strict_increasing[of k 64 "2 :: nat"] by (simp add: unat_of_nat del: of_nat_power)
  then show ?thesis by simp
qed

lemma new_sized_ok:
  assumes "unat n \<le> 2 ^ 63"
  shows "table_ok (new_symbol_table_sized n)"
proof -
  have "\<exists>k. unat (next_power_of_two n) = 2 ^ k"
  proof (cases "n = 0")
    case True
    then show ?thesis by (auto simp: next_power_of_two_def intro: exI[of _ 0])
  next
    case False
    then obtain k where k: "next_power_of_two n = 2 ^ k" "2 ^ k < 2 * unat n"
      by (rule next_power_of_two_exp)
    then have "(2::nat) ^ k < 2 ^ 64" using assms by simp
    then have "k < 64" by (rule power_less_imp_less_exp[rotated]) simp
    then have "unat (next_power_of_two n) = 2 ^ k" by (simp add: k(1) unat_exp)
    then show ?thesis ..
  qed
  then show ?thesis
    by (simp add: table_ok_def new_symbol_table_sized_def Let_def sizes_ok_def hashes_ok_def
        scopes_ok_def)
qed

subsection \<open>Properties\<close>

text \<open>
  C1. Name resolution is static scoping. Take any program of declarations and nested
  blocks, run it on a new table, entering a scope at the start of a block and ending it at
  its end: a lookup then finds for each name its last declaration that is not inside a
  block that has ended, whatever the order, the shadowing, the collisions of hashes and the
  rehashes on the way.
\<close>

theorem symbol_table_scoping:
  "resolve key (run_decls declare_symbol (scope_start kind) leave_scope ds new_symbol_table) =
   static_env ds (\<lambda>k. None) key"
  by (rule symtab.lookup_run)

text \<open>
  C28. Ending a scope undoes everything in it. Whatever is declared in a scope and in blocks
  nested in it, \<^verbatim>\<open>scope_end\<close> succeeds and leaves every name of every enclosing scope meaning
  what it meant before the scope started, with the same scopes open.
\<close>

theorem scope_end_restores:
  assumes "table_ok t"
  shows "\<exists>t'. scope_end (run_decls declare_symbol (scope_start kind') leave_scope ds (scope_start kind t)) = Some t' \<and>
    table_ok t' \<and> visible_names t' = visible_names t \<and> (\<forall>key. resolve key t' = resolve key t)"
proof -
  let ?t = "run_decls declare_symbol (scope_start kind') leave_scope ds (scope_start kind t)"
  have start: "table_ok (scope_start kind t)" using assms by (rule scope_start_ok)
  have run: "table_ok ?t \<and> visible_names ?t =
      static_env ds (hd (visible_names (scope_start kind t))) # tl (visible_names (scope_start kind t))"
    by (rule symtab.run_correct[OF start])
  then have vis: "visible_names ?t = static_env ds (hd (visible_names t)) # visible_names t"
    by (simp add: scope_start_visible)
  moreover have "visible_names t \<noteq> []" by (simp add: visible_cons)
  ultimately have "length (visible_names ?t) > 1" by simp
  from scope_end_step[OF conjunct1[OF run] this] obtain t' where
    "scope_end ?t = Some t'" "table_ok t'" "visible_names t' = visible_names t"
    by (auto simp: vis)
  moreover from this assms have "resolve key t' = resolve key t" for key
    by (simp add: resolve_declared visible_cons)
  ultimately show ?thesis by blast
qed

theorem scope_end_restores_witness:
  "\<exists>t'. scope_end (run_decls declare_symbol (scope_start DefaultScope) leave_scope
      [Declare ''x'' 2, Block [Declare ''y'' 3]]
      (scope_start FileScope (declare_symbol ''x'' (1 :: nat) new_symbol_table))) = Some t' \<and>
    table_ok t' \<and>
    visible_names t' = visible_names (declare_symbol ''x'' 1 new_symbol_table) \<and>
    (\<forall>key. resolve key t' = resolve key (declare_symbol ''x'' 1 new_symbol_table))"
  by (rule scope_end_restores[OF declare_symbol_ok[OF new_table_ok]])

text \<open>
  Unwinding many scopes at once: \<^verbatim>\<open>drop_all_scopes_from\<close> closes the scopes from an
  index on, and what is visible afterwards, in the scope that is then the innermost and in
  every scope around it, is what was visible there before.
\<close>

theorem drop_all_scopes_unwinds:
  assumes "table_ok t" "i < length (scopeStack t)"
  shows "\<exists>t'. drop_all_scopes_from i t = Some t' \<and> table_ok t' \<and>
    length (scopeStack t') = i \<and>
    visible_names t' = drop (length (scopeStack t) - i) (visible_names t)"
proof -
  from drop_all_scopes_defined[OF assms(2)] obtain t' where t': "drop_all_scopes_from i t = Some t'"
    by blast
  moreover have "length (scopeStack t') = i"
    using t' assms(2) by (auto simp: drop_all_scopes_from_def Let_def drop_symbols_from_def)
  ultimately show ?thesis
    using drop_all_scopes_ok[OF assms t'] drop_all_scopes_visible[OF assms t'] by blast
qed

theorem drop_all_scopes_unwinds_witness:
  "\<exists>t'. drop_all_scopes_from 0 (scope_start DefaultScope (scope_start FileScope
        (declare_symbol ''x'' (1 :: nat) new_symbol_table))) = Some t' \<and>
    table_ok t' \<and> length (scopeStack t') = 0 \<and>
    visible_names t' = drop (length (scopeStack (scope_start DefaultScope (scope_start FileScope
        (declare_symbol ''x'' (1 :: nat) new_symbol_table)))) - 0)
      (visible_names (scope_start DefaultScope (scope_start FileScope
        (declare_symbol ''x'' (1 :: nat) new_symbol_table))))"
  by (rule drop_all_scopes_unwinds[OF scope_start_ok[OF scope_start_ok[OF
        declare_symbol_ok[OF new_table_ok]]]]) (simp add: scope_start_def)

text \<open>
  \<^verbatim>\<open>declare_no_shadow\<close> returns what the name already means and then changes nothing
  that can be seen; a new name is declared, and no other name is affected.
\<close>

theorem declare_no_shadow_keeps:
  assumes "table_ok t"
  shows "fst (declare_no_shadow key node t) = resolve key t \<and>
    table_ok (snd (declare_no_shadow key node t)) \<and>
    resolve key' (snd (declare_no_shadow key node t)) =
      (if key' = key \<and> resolve key t = None then Some node else resolve key' t)"
proof -
  let ?t = "rehash_if_needed t"
  have ok: "table_ok ?t" using assms by (rule rehash_if_needed_ok)
  have added: "table_ok (add_entry key node ?t)" by (rule add_entry_ok[OF ok])
  have "declared (symbols (add_entry key node ?t)) key' =
      (if key' = key then Some node else declared (symbols t) key')"
    by (simp add: add_entry_def put_entry_def)
  then show ?thesis
    by (cases "declared (symbols t) key")
      (auto simp: declare_no_shadow_cases[OF assms] resolve_declared assms ok added)
qed

theorem declare_no_shadow_keeps_witness:
  "fst (declare_no_shadow ''x'' 2 (declare_symbol ''x'' (1 :: nat) new_symbol_table)) =
     resolve ''x'' (declare_symbol ''x'' 1 new_symbol_table) \<and>
   table_ok (snd (declare_no_shadow ''x'' 2 (declare_symbol ''x'' (1 :: nat) new_symbol_table))) \<and>
   resolve ''x'' (snd (declare_no_shadow ''x'' 2 (declare_symbol ''x'' (1 :: nat) new_symbol_table))) =
     (if ''x'' = ''x'' \<and> resolve ''x'' (declare_symbol ''x'' (1 :: nat) new_symbol_table) = None
      then Some 2 else resolve ''x'' (declare_symbol ''x'' 1 new_symbol_table))"
  by (rule declare_no_shadow_keeps[OF declare_symbol_ok[OF new_table_ok]])

text \<open>
  \<^verbatim>\<open>erase\<close> uncovers the declaration before the last one of its key, or leaves the key
  undeclared when there was one only; every other key keeps its meaning. The entry itself
  stays in the vector of entries, so the next rehash brings the erased symbol back.
\<close>

theorem erase_uncovers_until_rehash:
  assumes "table_ok t"
  shows "resolve key' (snd (erase key t)) =
      (if key' = key
       then (case filter (\<lambda>e. e_key e = key) (rev (symbols t)) of
               e # e' # es \<Rightarrow> Some (e_node e') | _ \<Rightarrow> None)
       else resolve key' t) \<and>
    resolve key' (rehash (snd (erase key t))) = resolve key' t"
proof
  have chain_nodes: "resolve k u = (case map s_node (chain k (key_bucket k u)) of [] \<Rightarrow> None | n # _ \<Rightarrow> n)"
    for k and u :: "'a symbol_table"
    by (simp add: resolve_def resolve_bucket_chain split: list.split)
  show "resolve key' (snd (erase key t)) =
      (if key' = key
       then (case filter (\<lambda>e. e_key e = key) (rev (symbols t)) of
               e # e' # es \<Rightarrow> Some (e_node e') | _ \<Rightarrow> None)
       else resolve key' t)"
    unfolding chain_nodes key_bucket_erase[OF assms]
    using chain_declarations[OF assms, of key]
    by (auto simp: map_tl chain_declarations[OF assms] split: list.split)
  have "table_ok (rehash (snd (erase key t)))"
    using assms rehash_sizes[of "snd (erase key t)"] rehash_rel[of "snd (erase key t)"]
    by (simp add: table_ok_def erase_def Let_def del: rehash_simps(6))
  then show "resolve key' (rehash (snd (erase key t))) = resolve key' t"
    using assms by (simp add: resolve_declared erase_def Let_def)
qed

theorem erase_uncovers_until_rehash_witness:
  "resolve ''x'' (snd (erase ''x'' (declare_symbol ''x'' (1 :: nat) new_symbol_table))) =
      (if ''x'' = ''x''
       then (case filter (\<lambda>e. e_key e = ''x'') (rev (symbols (declare_symbol ''x'' (1 :: nat) new_symbol_table))) of
               e # e' # es \<Rightarrow> Some (e_node e') | _ \<Rightarrow> None)
       else resolve ''x'' (declare_symbol ''x'' (1 :: nat) new_symbol_table)) \<and>
    resolve ''x'' (rehash (snd (erase ''x'' (declare_symbol ''x'' (1 :: nat) new_symbol_table)))) =
      resolve ''x'' (declare_symbol ''x'' (1 :: nat) new_symbol_table)"
  by (rule erase_uncovers_until_rehash[OF declare_symbol_ok[OF new_table_ok]])

text \<open>
  \<^verbatim>\<open>next_power_of_two\<close> gives the smallest power of two that is not below its argument, up
  to \<open>2 ^ 63\<close>, and a table sized with it is well formed; above \<open>2 ^ 63\<close> it wraps around to 0.
\<close>

theorem next_power_of_two_smallest:
  "(x \<noteq> 0 \<and> unat x \<le> 2 ^ 63 \<longrightarrow>
     (\<exists>k. unat (next_power_of_two x) = 2 ^ k \<and> unat x \<le> 2 ^ k \<and> 2 ^ k < 2 * unat x)) \<and>
   (unat x \<le> 2 ^ 63 \<longrightarrow> table_ok (new_symbol_table_sized x)) \<and>
   (unat x > 2 ^ 63 \<longrightarrow> next_power_of_two x = 0)"
proof (cases "x = 0")
  case False
  then obtain k where k: "next_power_of_two x = 2 ^ k" "unat x \<le> 2 ^ k" "2 ^ k < 2 * unat x"
    by (rule next_power_of_two_exp)
  have "\<exists>k. unat (next_power_of_two x) = 2 ^ k \<and> unat x \<le> 2 ^ k \<and> 2 ^ k < 2 * unat x"
    if "unat x \<le> 2 ^ 63"
  proof -
    have "(2::nat) ^ k < 2 ^ 64" using k(3) that by simp
    then have "k < 64" by (rule power_less_imp_less_exp[rotated]) simp
    then show ?thesis using k by (auto simp: unat_exp)
  qed
  moreover have "next_power_of_two x = 0" if "unat x > 2 ^ 63"
  proof -
    have "(2::nat) ^ 63 < 2 ^ k" using k(2) that by simp
    then have "63 < k" by (rule power_less_imp_less_exp[rotated]) simp
    then show ?thesis using k(1) by simp
  qed
  ultimately show ?thesis using new_sized_ok by blast
qed (use new_sized_ok[of 0] in simp)

theorem next_power_of_two_smallest_witness:
  "(\<exists>k. unat (next_power_of_two 100) = 2 ^ k \<and> unat (100 :: u64) \<le> 2 ^ k \<and> 2 ^ k < 2 * unat (100 :: u64)) \<and>
   next_power_of_two 0x8000000000000001 = 0"
  using next_power_of_two_smallest[of 100] next_power_of_two_smallest[of "0x8000000000000001"]
  by auto

end
