(* ===== verification/Int_Kinds.thy ===== *)
theory Int_Kinds
  imports Prelude
begin

text \<open>
  The integer types of the language: \<^verbatim>\<open>ast/base/IntNTypeKind.h\<close>, the sizes of
  \<^verbatim>\<open>ast/types/IntNType.cpp\<close> on a target, and the choice of a type by its width in
  \<^verbatim>\<open>ast/base/TypeBuilder.h\<close>. The order of the enumerators matters to the code; it is
  \<open>kind_index\<close>.
\<close>

datatype int_n_kind =
    KChar | KShort | KInt | KLong | KLongLong | KInt128 | KI8 | KI16 | KI32 | KI64 |
    KUChar | KUShort | KUInt | KULong | KULongLong | KUInt128 | KU8 | KU16 | KU32 | KU64

definition all_kinds :: "int_n_kind list" where
  "all_kinds = [KChar, KShort, KInt, KLong, KLongLong, KInt128, KI8, KI16, KI32, KI64,
     KUChar, KUShort, KUInt, KULong, KULongLong, KUInt128, KU8, KU16, KU32, KU64]"

text \<open>The underlying integer of an enumerator, and the cast back.\<close>

fun kind_index :: "int_n_kind \<Rightarrow> nat" where
  "kind_index KChar = 0" | "kind_index KShort = 1" | "kind_index KInt = 2"
| "kind_index KLong = 3" | "kind_index KLongLong = 4" | "kind_index KInt128 = 5"
| "kind_index KI8 = 6" | "kind_index KI16 = 7" | "kind_index KI32 = 8" | "kind_index KI64 = 9"
| "kind_index KUChar = 10" | "kind_index KUShort = 11" | "kind_index KUInt = 12"
| "kind_index KULong = 13" | "kind_index KULongLong = 14" | "kind_index KUInt128 = 15"
| "kind_index KU8 = 16" | "kind_index KU16 = 17" | "kind_index KU32 = 18" | "kind_index KU64 = 19"

definition kind_of_index :: "nat \<Rightarrow> int_n_kind" where
  "kind_of_index i = all_kinds ! i"

definition UnsignedStart :: int_n_kind where
  "UnsignedStart = KUChar"

definition is_unsigned :: "int_n_kind \<Rightarrow> bool" where
  "is_unsigned k \<longleftrightarrow> kind_index k \<ge> kind_index UnsignedStart"

definition to_signed :: "int_n_kind \<Rightarrow> int_n_kind" where
  "to_signed k =
    (if \<not> is_unsigned k then k else kind_of_index (kind_index k - kind_index UnsignedStart))"

definition determine_output :: "int_n_kind \<Rightarrow> int_n_kind \<Rightarrow> int_n_kind" where
  "determine_output first second =
    (if is_unsigned first \<and> is_unsigned second \<or> \<not> is_unsigned first \<and> \<not> is_unsigned second then
       (if kind_index first > kind_index second then first else second)
     else if is_unsigned first then
       (let signedFirst = to_signed first
        in if kind_index signedFirst > kind_index second then signedFirst else second)
     else
       (let signedSecond = to_signed second
        in if kind_index signedSecond > kind_index first then signedSecond else first))"

record target_data =
  is64Bit :: bool
  windows :: bool

definition num_bits :: "target_data \<Rightarrow> int_n_kind \<Rightarrow> nat" where
  "num_bits target k =
    (if k \<in> set [KChar, KUChar, KI8, KU8] then 8
     else if k \<in> set [KShort, KUShort, KI16, KU16] then 16
     else if k \<in> set [KInt, KUInt, KI32, KU32] then 32
     else if k \<in> set [KLong, KULong] then
       (if is64Bit target then if windows target then 32 else 64 else 32)
     else if k \<in> set [KLongLong, KULongLong, KI64, KU64] then 64
     else 128)"

definition byte_size :: "target_data \<Rightarrow> int_n_kind \<Rightarrow> nat" where
  "byte_size target k =
    (if k \<in> set [KChar, KUChar, KI8, KU8] then 1
     else if k \<in> set [KShort, KUShort, KI16, KU16] then 2
     else if k \<in> set [KInt, KUInt, KI32, KU32] then 4
     else if k \<in> set [KLong, KULong] then
       (if is64Bit target then if windows target then 4 else 8 else 4)
     else if k \<in> set [KI64, KU64, KLongLong, KULongLong] then 8
     else 16)"

text \<open>\<^verbatim>\<open>TypeBuilder::getIntNType\<close> by width, and the switch of \<^verbatim>\<open>NegativeValue\<close>.\<close>

definition getIntNType :: "nat \<Rightarrow> bool \<Rightarrow> int_n_kind" where
  "getIntNType bitWidth isUnsigned =
    (if bitWidth = 8 then if isUnsigned then KU8 else KI8
     else if bitWidth = 16 then if isUnsigned then KU16 else KI16
     else if bitWidth = 64 then if isUnsigned then KU64 else KI64
     else if bitWidth = 128 then if isUnsigned then KInt128 else KUInt128
     else if isUnsigned then KU32 else KI32)"

fun negative_to_signed :: "int_n_kind \<Rightarrow> int_n_kind" where
  "negative_to_signed KUChar = KChar"
| "negative_to_signed KUShort = KShort"
| "negative_to_signed KUInt = KInt"
| "negative_to_signed KULong = KLong"
| "negative_to_signed KULongLong = KLongLong"
| "negative_to_signed KUInt128 = KInt128"
| "negative_to_signed KU8 = KI8"
| "negative_to_signed KU16 = KI16"
| "negative_to_signed KU32 = KI32"
| "negative_to_signed KU64 = KI64"
| "negative_to_signed k = k"

subsection \<open>Facts about the kinds\<close>

lemma kind_of_index_inverse [simp]: "kind_of_index (kind_index k) = k"
  by (cases k) (simp_all add: kind_of_index_def all_kinds_def)

lemma kind_index_inject [simp]: "kind_index a = kind_index b \<longleftrightarrow> a = b"
  by (metis kind_of_index_inverse)

instantiation int_n_kind :: linorder
begin

definition less_eq_int_n_kind :: "int_n_kind \<Rightarrow> int_n_kind \<Rightarrow> bool" where
  "a \<le> b \<longleftrightarrow> kind_index a \<le> kind_index b"

definition less_int_n_kind :: "int_n_kind \<Rightarrow> int_n_kind \<Rightarrow> bool" where
  "a < b \<longleftrightarrow> kind_index a < kind_index b"

instance
  by standard (auto simp: less_eq_int_n_kind_def less_int_n_kind_def)

end

lemma is_unsigned_simps [simp]:
  "is_unsigned k \<longleftrightarrow> k \<in> set [KUChar, KUShort, KUInt, KULong, KULongLong, KUInt128, KU8, KU16, KU32, KU64]"
  by (cases k) (simp_all add: is_unsigned_def UnsignedStart_def)

lemma to_signed_negative: "to_signed k = negative_to_signed k"
  by (cases k) (simp_all add: to_signed_def UnsignedStart_def kind_of_index_def all_kinds_def
      del: is_unsigned_simps, simp_all)

end
