(* ===== verification/Num_Parse.thy ===== *)
theory Num_Parse
  imports Int_Kinds
begin

text \<open>
  From the text of a number to its value: \<^verbatim>\<open>parser/utils/parse_num.h\<close>, and
  \<^verbatim>\<open>convert_number_to_value\<close> of \<^verbatim>\<open>parser/utils/LexValue.cpp\<close>. The text is a view into the source
  buffer; what follows it in the buffer is an argument too, since \<^verbatim>\<open>strtoull\<close> and its kin do
  not know where the view ends. Behind the buffer there is a NUL character. \<^verbatim>\<open>long\<close> has 64
  bits and \<^verbatim>\<open>char\<close> is signed. The conversions to floating point, \<^verbatim>\<open>strtof\<close> and \<^verbatim>\<open>strtod\<close>, are
  parameters: from the text, the number, how many characters it took, and whether it was
  out of range.
\<close>

subsection \<open>The C library's integer conversions\<close>

abbreviation (input) NUL_char :: char where "NUL_char \<equiv> CHR 0x00"

definition char_at :: "string \<Rightarrow> nat \<Rightarrow> char" where
  "char_at mem i = (if i < length mem then mem ! i else NUL_char)"

definition is_space :: "char \<Rightarrow> bool" where
  "is_space c \<longleftrightarrow> c = CHR '' '' \<or> c \<in> set [CHR 0x09, CHR 0x0A, CHR 0x0B, CHR 0x0C, CHR 0x0D]"

definition digit_value :: "char \<Rightarrow> nat" where
  "digit_value c =
    (let n = of_char c :: nat
     in if 48 \<le> n \<and> n \<le> 57 then n - 48
        else if 97 \<le> n \<and> n \<le> 122 then n - 97 + 10
        else if 65 \<le> n \<and> n \<le> 90 then n - 65 + 10
        else 36)"

definition digits_value :: "nat \<Rightarrow> string \<Rightarrow> nat" where
  "digits_value base ds = foldl (\<lambda>acc c. acc * base + digit_value c) 0 ds"

text \<open>
  The subject of a conversion: sign, magnitude and the number of characters taken, which is
  0 when there is no number.
\<close>

definition strto_subject :: "nat \<Rightarrow> string \<Rightarrow> bool \<times> nat \<times> nat" where
  "strto_subject base s =
    (let s1 = dropWhile is_space s;
         neg = (s1 \<noteq> [] \<and> hd s1 = CHR ''-'');
         s2 = (if s1 \<noteq> [] \<and> (hd s1 = CHR ''-'' \<or> hd s1 = CHR ''+'') then tl s1 else s1);
         s3 = (if base = 16 \<and> char_at s2 0 = CHR ''0'' \<and>
                  (char_at s2 1 = CHR ''x'' \<or> char_at s2 1 = CHR ''X'') \<and>
                  digit_value (char_at s2 2) < 16
               then drop 2 s2 else s2);
         ds = takeWhile (\<lambda>c. digit_value c < base) s3
     in if ds = [] then (neg, 0, 0)
        else (neg, digits_value base ds, length s - length s3 + length ds))"

text \<open>Value, characters taken, and whether \<^verbatim>\<open>errno\<close> is \<^verbatim>\<open>ERANGE\<close>.\<close>

definition strtoull :: "nat \<Rightarrow> string \<Rightarrow> u64 \<times> nat \<times> bool" where
  "strtoull base s = (case strto_subject base s of (neg, m, n) \<Rightarrow>
     if m \<ge> 2 ^ 64 then (-1, n, True)
     else (if neg then - of_nat m else of_nat m, n, False))"

definition strtoll :: "nat \<Rightarrow> string \<Rightarrow> u64 \<times> nat \<times> bool" where
  "strtoll base s = (case strto_subject base s of (neg, m, n) \<Rightarrow>
     if neg then if m > 2 ^ 63 then (of_int (- (2 ^ 63)), n, True) else (- of_nat m, n, False)
     else if m \<ge> 2 ^ 63 then (of_nat (2 ^ 63 - 1), n, True) else (of_nat m, n, False))"

subsection \<open>parse_num\<close>

definition get_parse_num_base :: "string \<Rightarrow> nat \<Rightarrow> nat" where
  "get_parse_num_base num num_size =
    (if char_at num 0 = CHR ''0'' \<and> num_size > 1 then
       if char_at num 1 = CHR ''x'' \<or> char_at num 1 = CHR ''X'' then 16
       else if char_at num 1 = CHR ''b'' \<or> char_at num 1 = CHR ''B'' then 2
       else if char_at num 1 = CHR ''o'' \<or> char_at num 1 = CHR ''O'' then 8
       else 10
     else 10)"

definition get_parse_num_prefix_size :: "string \<Rightarrow> nat \<Rightarrow> nat \<Rightarrow> nat" where
  "get_parse_num_prefix_size num num_size base =
    (if num_size > 2 \<and> char_at num 0 = CHR ''0'' then
       let prefix = char_at num 1
       in if base = 16 \<and> (prefix = CHR ''x'' \<or> prefix = CHR ''X'') \<or>
             base = 8 \<and> (prefix = CHR ''o'' \<or> prefix = CHR ''O'') \<or>
             base = 2 \<and> (prefix = CHR ''b'' \<or> prefix = CHR ''B'') then 2 else 0
     else 0)"

datatype num_error = InvalidValue | OutOfRange | UnknownBitWidth

definition parse_num ::
  "string \<Rightarrow> nat \<Rightarrow> (nat \<Rightarrow> string \<Rightarrow> u64 \<times> nat \<times> bool) \<Rightarrow> u64 \<times> num_error option" where
  "parse_num ptr num_size parseFunc =
    (let base = get_parse_num_base ptr num_size;
         prefix_size = get_parse_num_prefix_size ptr num_size base;
         parse_size = num_size - prefix_size
     in case parseFunc base (drop prefix_size ptr) of (ans, taken, erange) \<Rightarrow>
          if taken = 0 then (ans, Some InvalidValue)
          else if taken \<noteq> parse_size then (ans, Some InvalidValue)
          else if erange then (ans, Some OutOfRange)
          else (ans, None))"

definition parse_real :: "string \<Rightarrow> (string \<Rightarrow> 'f \<times> nat \<times> bool) \<Rightarrow> 'f \<times> num_error option" where
  "parse_real ptr parseFunc =
    (case parseFunc ptr of (ans, taken, erange) \<Rightarrow>
       if taken = 0 then (ans, Some InvalidValue)
       else if erange then (ans, Some OutOfRange)
       else (ans, None))"

subsection \<open>convert_number_to_value\<close>

datatype ('f, 'd) number =
    IntNum u64 int_n_kind
  | FloatNum 'f
  | DoubleNum 'd

definition allocate_number_value :: "u64 \<Rightarrow> ('f, 'd) number" where
  "allocate_number_value value =
    (if unat value > 2 ^ 31 - 1 then
       if unat value > 2 ^ 63 - 1 then IntNum value KU64 else IntNum value KLong
     else IntNum value KInt)"

text \<open>The type suffix: unsigned, index of the suffix, index and size of the bit width.\<close>

definition is_suffix_digit :: "char \<Rightarrow> bool" where
  "is_suffix_digit c \<longleftrightarrow> 48 \<le> (of_char c :: nat) \<and> (of_char c :: nat) \<le> 57"

definition number_suffix :: "string \<Rightarrow> nat \<Rightarrow> bool \<times> nat \<times> nat \<times> nat" where
  "number_suffix value value_size =
    (let last_char = char_at value (value_size - 1);
         sec_last = char_at value (value_size - 2);
         third_last = char_at value (value_size - 3);
         fourth_last = char_at value (value_size - 4);
         none = (False, value_size, value_size, 0)
     in if value_size > 2 then
          if sec_last = CHR ''i'' \<and> is_suffix_digit last_char then
            if value_size > 3 \<and> char_at value (value_size - 3) = CHR ''u''
            then (True, value_size - 3, value_size - 1, 1)
            else (False, value_size - 2, value_size - 1, 1)
          else if sec_last = CHR ''u'' \<and> is_suffix_digit last_char then
            (True, value_size - 2, value_size - 1, 1)
          else if value_size > 3 then
            if third_last = CHR ''i'' \<and> is_suffix_digit sec_last \<and> is_suffix_digit last_char then
              if value_size > 4 \<and> char_at value (value_size - 4) = CHR ''u''
              then (True, value_size - 4, value_size - 2, 2)
              else (False, value_size - 3, value_size - 2, 2)
            else if third_last = CHR ''u'' \<and> is_suffix_digit sec_last \<and> is_suffix_digit last_char then
              (True, value_size - 3, value_size - 2, 2)
            else if value_size > 4 then
              if fourth_last = CHR ''i'' \<and> is_suffix_digit third_last \<and> is_suffix_digit sec_last \<and>
                 is_suffix_digit last_char then
                if value_size > 5 \<and> char_at value (value_size - 5) = CHR ''u''
                then (True, value_size - 5, value_size - 3, 3)
                else (False, value_size - 4, value_size - 3, 3)
              else if fourth_last = CHR ''u'' \<and> is_suffix_digit third_last \<and> is_suffix_digit sec_last \<and>
                 is_suffix_digit last_char then
                (True, value_size - 4, value_size - 3, 3)
              else none
            else none
          else none
        else none)"

text \<open>
  The integer of a width: \<open>Inl\<close> is returned, \<open>Inr\<close> is the error the function goes on with. The
  width is an \<^verbatim>\<open>int8_t\<close>. \<^verbatim>\<open>i64\<close> reads with \<^verbatim>\<open>strtoull\<close>, so that the magnitude of the least
  number is accepted.
\<close>

definition sized_number ::
  "string \<Rightarrow> nat \<Rightarrow> bool \<Rightarrow> int \<Rightarrow> (('f, 'd) number \<times> num_error option) + num_error option" where
  "sized_number value suffix_index is_unsgn num =
    (let int_num = (\<lambda>parse cast kind. case parse_num value suffix_index parse of
            (r, e) \<Rightarrow> Inl (IntNum (cast r) kind, e))
     in if num = 8 then
          if is_unsgn then int_num strtoull (\<lambda>r. scast (ucast r :: 8 word)) KU8
          else int_num strtoll (\<lambda>r. scast (ucast r :: 8 word)) KI8
        else if num = 16 then
          if is_unsgn then int_num strtoull (\<lambda>r. ucast (ucast r :: 16 word)) KU16
          else int_num strtoll (\<lambda>r. scast (ucast r :: 16 word)) KI16
        else if num = 32 then
          if is_unsgn then int_num strtoull (\<lambda>r. ucast (ucast r :: 32 word)) KU32
          else int_num strtoll (\<lambda>r. scast (ucast r :: 32 word)) KI32
        else if num = 64 then
          if is_unsgn then int_num strtoull (\<lambda>r. r) KU64
          else int_num strtoull (\<lambda>r. r) KI64
        else if num = 128 then
          if is_unsgn then Inr None
          else
            let begin_index = (if char_at value 0 = CHR ''-'' then 1 else 0)
            in (case parse_num (drop begin_index value) suffix_index strtoull of
                  (r, e) \<Rightarrow> Inl (IntNum r KInt128, e))
        else Inr (Some UnknownBitWidth))"

definition or_error :: "num_error option \<Rightarrow> num_error option \<Rightarrow> num_error option" where
  "or_error err e = (case err of None \<Rightarrow> e | Some x \<Rightarrow> Some x)"

definition convert_rest ::
  "(string \<Rightarrow> 'f \<times> nat \<times> bool) \<Rightarrow> (string \<Rightarrow> 'd \<times> nat \<times> bool) \<Rightarrow> string \<Rightarrow> string \<Rightarrow> nat \<Rightarrow> num_error option \<Rightarrow>
   ('f, 'd) number \<times> num_error option" where
  "convert_rest strtof strtod text value suffix_index err =
    (let value_size = length text;
         last_char_index = value_size - 1;
         last_char = char_at value last_char_index;
         final_block =
           (if CHR ''.'' \<in> set text then
              case parse_real value strtod of (r, e) \<Rightarrow> (DoubleNum r, or_error err e)
            else case parse_num value value_size strtoull of
              (r, e) \<Rightarrow> (allocate_number_value r, or_error err e));
         parse_size = (if suffix_index = value_size then last_char_index else suffix_index)
     in if last_char = CHR ''f'' \<or> last_char = CHR ''F'' then
          if char_at value 0 = CHR ''0'' \<and> (char_at value 1 = CHR ''x'' \<or> char_at value 1 = CHR ''X'')
          then final_block
          else case parse_real value strtof of (r, e) \<Rightarrow> (FloatNum r, or_error err e)
        else if last_char = CHR ''U'' \<or> last_char = CHR ''u'' then
          case parse_num value parse_size strtoull of
            (r, e) \<Rightarrow> (IntNum (ucast (ucast r :: 32 word)) KUInt, e)
        else if last_char = CHR ''i'' \<or> last_char = CHR ''I'' then
          case parse_num value parse_size strtoll of
            (r, e) \<Rightarrow> (IntNum (scast (ucast r :: 32 word)) KInt, e)
        else if last_char = CHR ''l'' \<or> last_char = CHR ''L'' then
          if value_size > 2 \<and> (char_at value (value_size - 2) = CHR ''u'' \<or>
               char_at value (value_size - 2) = CHR ''U'') then
            case parse_num value (value_size - 2) strtoull of
              (r, e) \<Rightarrow> (IntNum r KULong, or_error err e)
          else case parse_num value last_char_index strtoll of
              (r, e) \<Rightarrow> (IntNum r KLong, or_error err e)
        else final_block)"

definition convert_number_to_value ::
  "(string \<Rightarrow> 'f \<times> nat \<times> bool) \<Rightarrow> (string \<Rightarrow> 'd \<times> nat \<times> bool) \<Rightarrow> string \<Rightarrow> string \<Rightarrow>
   ('f, 'd) number \<times> num_error option" where
  "convert_number_to_value strtof strtod text rest =
    (let value = text @ rest
     in case number_suffix value (length text) of
          (is_unsgn, suffix_index, bit_width_index, bit_width_size) \<Rightarrow>
            if bit_width_size > 0 then
              let num = sint (ucast (fst (parse_num (drop bit_width_index value) bit_width_size strtoll)) :: 8 word)
              in case sized_number value suffix_index is_unsgn num of
                   Inl result \<Rightarrow> result
                 | Inr err \<Rightarrow> convert_rest strtof strtod text value suffix_index err
            else convert_rest strtof strtod text value suffix_index None)"

end
