(* ===== verification/Comptime_Eval.thy ===== *)
theory Comptime_Eval
  imports Int_Kinds Operations "HOL-Library.Signed_Division"
begin

text \<open>
  Evaluation of operators at compile time: \<^verbatim>\<open>operate\<close> and \<^verbatim>\<open>InterpretScope::evaluate\<close> of
  \<^verbatim>\<open>ast/base/InterpretScope.cpp\<close>, \<^verbatim>\<open>pack_by_kind\<close> of \<^verbatim>\<open>ast/types/IntNType.cpp\<close>, and the unary
  operators of \<^verbatim>\<open>ast/values\<close>, on values that are integers, booleans, strings or null. An
  integer is 64 bits and a kind. What C++ leaves undefined (division by zero, a shift by
  more than 63, a view past the end of its string) is the outcome \<open>Undefined_Behaviour\<close>; a
  null result, with its error message where there is one, is \<open>No_Value\<close>.
\<close>

type_synonym i64 = "64 word"

record int_num_value =
  num_value :: u64
  num_kind :: int_n_kind

datatype comptime_value =
    VBool bool
  | VInt int_num_value
  | VString string
  | VNull

datatype 'a outcome =
    Value 'a
  | No_Value "string option"
  | Undefined_Behaviour

subsection \<open>Operators on representations\<close>

text \<open>On booleans.\<close>

definition operate_bool :: "operation \<Rightarrow> bool \<Rightarrow> bool \<Rightarrow> bool" where
  "operate_bool op first second = (case op of
      LogicalAND \<Rightarrow> first \<and> second
    | LogicalOR \<Rightarrow> first \<or> second
    | IsEqual \<Rightarrow> first = second
    | IsNotEqual \<Rightarrow> first \<noteq> second
    | _ \<Rightarrow> False)"

text \<open>On unsigned 64-bit integers; a comparison gives 0 or 1.\<close>

definition shift_defined :: "u64 \<Rightarrow> bool" where
  "shift_defined second \<longleftrightarrow> unat second < 64"

definition operate_u64 :: "operation \<Rightarrow> u64 \<Rightarrow> u64 \<Rightarrow> u64 outcome" where
  "operate_u64 op first second = (case op of
      Addition \<Rightarrow> Value (first + second)
    | Subtraction \<Rightarrow> Value (first - second)
    | Multiplication \<Rightarrow> Value (first * second)
    | Division \<Rightarrow> if second = 0 then Undefined_Behaviour else Value (first div second)
    | IsEqual \<Rightarrow> Value (of_bool (first = second))
    | IsNotEqual \<Rightarrow> Value (of_bool (first \<noteq> second))
    | GreaterThan \<Rightarrow> Value (of_bool (first > second))
    | LessThan \<Rightarrow> Value (of_bool (first < second))
    | GreaterThanOrEqual \<Rightarrow> Value (of_bool (first \<ge> second))
    | LessThanOrEqual \<Rightarrow> Value (of_bool (first \<le> second))
    | Modulus \<Rightarrow> if second = 0 then Undefined_Behaviour else Value (first mod second)
    | LeftShift \<Rightarrow> if shift_defined second then Value (push_bit (unat second) first) else Undefined_Behaviour
    | RightShift \<Rightarrow> if shift_defined second then Value (drop_bit (unat second) first) else Undefined_Behaviour
    | BitwiseAND \<Rightarrow> Value (first AND second)
    | BitwiseOR \<Rightarrow> Value (first OR second)
    | BitwiseXOR \<Rightarrow> Value (first XOR second)
    | _ \<Rightarrow> Value 0)"

text \<open>On strings, compared as arrays of signed characters.\<close>

definition signed_char :: "char \<Rightarrow> int" where
  "signed_char c = sint (of_char c :: u8)"

fun lexicographical_compare :: "string \<Rightarrow> string \<Rightarrow> bool" where
  "lexicographical_compare xs [] = False"
| "lexicographical_compare [] (y # ys) = True"
| "lexicographical_compare (x # xs) (y # ys) =
     (if signed_char x < signed_char y then True
      else if signed_char y < signed_char x then False
      else lexicographical_compare xs ys)"

definition operate_string :: "operation \<Rightarrow> string \<Rightarrow> string \<Rightarrow> bool option" where
  "operate_string op first second = (case op of
      IsEqual \<Rightarrow> Some (first = second)
    | IsNotEqual \<Rightarrow> Some (first \<noteq> second)
    | GreaterThan \<Rightarrow> Some (lexicographical_compare second first)
    | LessThan \<Rightarrow> Some (lexicographical_compare first second)
    | GreaterThanOrEqual \<Rightarrow> Some (\<not> lexicographical_compare first second)
    | LessThanOrEqual \<Rightarrow> Some (\<not> lexicographical_compare second first)
    | _ \<Rightarrow> None)"

definition is_bool_output :: "operation \<Rightarrow> bool" where
  "is_bool_output op \<longleftrightarrow> op \<in> set [IsEqual, IsNotEqual, GreaterThan, GreaterThanOrEqual,
     LessThan, LessThanOrEqual]"

subsection \<open>Packing a result into its kind\<close>

definition pack_by_kind :: "target_data \<Rightarrow> int_n_kind \<Rightarrow> u64 \<Rightarrow> int_num_value" where
  "pack_by_kind target kind value =
    (let bits = num_bits target kind;
         value = (if bits < 64 then
                    let msk = push_bit bits 1 - 1;
                        value = value AND msk
                    in if \<not> is_unsigned kind then
                         let sign_bit = push_bit (bits - 1) 1
                         in if value AND sign_bit \<noteq> 0 then value OR NOT msk else value
                       else value
                  else value)
     in \<lparr>num_value = value, num_kind = kind\<rparr>)"

subsection \<open>Evaluation\<close>

text \<open>The four cases of two integers; \<^verbatim>\<open>a / b\<close> on \<^verbatim>\<open>int64_t\<close> is undefined when it overflows.\<close>

definition sdiv_defined :: "i64 \<Rightarrow> i64 \<Rightarrow> bool" where
  "sdiv_defined a b \<longleftrightarrow> b \<noteq> 0 \<and> \<not> (sint a = - (2 ^ 63) \<and> sint b = -1)"

definition int_answer :: "operation \<Rightarrow> int_num_value \<Rightarrow> int_num_value \<Rightarrow> u64 outcome" where
  "int_answer op first second =
    (let firstIsSigned = \<not> is_unsigned (num_kind first);
         secondIsSigned = \<not> is_unsigned (num_kind second);
         a = num_value first; b = num_value second
     in if op = RightShift \<and> firstIsSigned then
          if shift_defined b then Value (signed_drop_bit (unat b) a) else Undefined_Behaviour
        else if (op = Division \<or> op = Modulus) \<and> firstIsSigned \<and> secondIsSigned then
          if \<not> sdiv_defined a b then Undefined_Behaviour
          else if op = Division then Value (of_int (sint a sdiv sint b))
          else Value (of_int (sint a smod sint b))
        else if op \<in> set [LessThan, GreaterThan, LessThanOrEqual, GreaterThanOrEqual] \<and>
                firstIsSigned \<and> secondIsSigned then
          Value (case op of
              LessThan \<Rightarrow> of_bool (sint a < sint b)
            | GreaterThan \<Rightarrow> of_bool (sint a > sint b)
            | LessThanOrEqual \<Rightarrow> of_bool (sint a \<le> sint b)
            | GreaterThanOrEqual \<Rightarrow> of_bool (sint a \<ge> sint b)
            | _ \<Rightarrow> 0)
        else operate_u64 op a b)"

text \<open>
  \<open>expected\<close> is the kind of the integer type the expression was given, when it has one.
\<close>

definition evaluate_ints ::
  "target_data \<Rightarrow> int_n_kind option \<Rightarrow> operation \<Rightarrow> int_num_value \<Rightarrow> int_num_value \<Rightarrow> comptime_value outcome" where
  "evaluate_ints target expected op first second =
    (case int_answer op first second of
       Value answer \<Rightarrow>
         if is_bool_output op then Value (VBool (answer \<noteq> 0))
         else Value (VInt (pack_by_kind target
           (case expected of Some k \<Rightarrow> k
            | None \<Rightarrow> determine_output (num_kind first) (num_kind second)) answer))
     | No_Value e \<Rightarrow> No_Value e
     | Undefined_Behaviour \<Rightarrow> Undefined_Behaviour)"

definition int_of_bool :: "bool \<Rightarrow> int_n_kind \<Rightarrow> int_num_value" where
  "int_of_bool b kind = \<lparr>num_value = (if b then 1 else 0), num_kind = kind\<rparr>"

text \<open>A view of the string from the number on; the pointer must stay within the string.\<close>

definition string_offset :: "string \<Rightarrow> u64 \<Rightarrow> comptime_value outcome" where
  "string_offset str num =
    (if unat num \<le> length str then Value (VString (drop (unat num) str)) else Undefined_Behaviour)"

definition evaluate ::
  "target_data \<Rightarrow> int_n_kind option \<Rightarrow> operation \<Rightarrow> comptime_value \<Rightarrow> comptime_value \<Rightarrow> comptime_value outcome" where
  "evaluate target expected op fEvl sEvl = (case (fEvl, sEvl) of
      (VBool a, VBool b) \<Rightarrow> Value (VBool (operate_bool op a b))
    | (VInt a, VBool b) \<Rightarrow> evaluate_ints target expected op a (int_of_bool b (num_kind a))
    | (VBool a, VInt b) \<Rightarrow> evaluate_ints target expected op (int_of_bool a (num_kind b)) b
    | (VInt a, VInt b) \<Rightarrow> evaluate_ints target expected op a b
    | (VString a, VString b) \<Rightarrow>
        (case operate_string op a b of
           Some answer \<Rightarrow> Value (VBool answer)
         | None \<Rightarrow> if op = Addition then Value (VString (a @ b))
                    else No_Value (Some ''unknown operation between strings''))
    | (VString a, VInt b) \<Rightarrow> string_offset a (num_value b)
    | (VInt a, VString b) \<Rightarrow> string_offset b (num_value a)
    | (VNull, s) \<Rightarrow>
        (case op of
           IsEqual \<Rightarrow> Value (VBool (s = VNull))
         | IsNotEqual \<Rightarrow> Value (VBool (s \<noteq> VNull))
         | _ \<Rightarrow> Value VNull)
    | (f, VNull) \<Rightarrow>
        (case op of
           IsEqual \<Rightarrow> Value (VBool False)
         | IsNotEqual \<Rightarrow> Value (VBool True)
         | _ \<Rightarrow> Value VNull)
    | _ \<Rightarrow> No_Value (Some ''Operation between values of unknown kind''))"

text \<open>Negation, bitwise not and logical not of an evaluated operand.\<close>

definition evaluate_negative :: "target_data \<Rightarrow> comptime_value \<Rightarrow> comptime_value outcome" where
  "evaluate_negative target v = (case v of
      VInt a \<Rightarrow> Value (VInt (pack_by_kind target (num_kind a) (- num_value a)))
    | _ \<Rightarrow> No_Value None)"

definition evaluate_bitwise_not :: "comptime_value \<Rightarrow> comptime_value outcome" where
  "evaluate_bitwise_not v = (case v of
      VInt a \<Rightarrow> Value (VInt \<lparr>num_value = NOT (num_value a), num_kind = num_kind a\<rparr>)
    | _ \<Rightarrow> No_Value (Some ''couldn't evaluate as value didn't return an integer value''))"

definition evaluate_not :: "comptime_value \<Rightarrow> comptime_value outcome" where
  "evaluate_not v = (case v of
      VBool b \<Rightarrow> Value (VBool (\<not> b))
    | _ \<Rightarrow> Value VNull)"

end
