(* ===== verification/Comptime_Correct.thy ===== *)
theory Comptime_Correct
  imports Comptime_Eval
begin

text \<open>
  What compile-time evaluation computes, on integers: an integer value stands for a number,
  and every operator computes the number that arithmetic gives, wrapped to the width of the
  kind of its result.
\<close>

subsection \<open>The number of a value\<close>

definition num_int :: "int_num_value \<Rightarrow> int" where
  "num_int v = (if is_unsigned (num_kind v) then uint (num_value v) else sint (num_value v))"

text \<open>
  The evaluator holds every number in a \<^verbatim>\<open>uint64_t\<close>: 64 bits are all that is kept of a kind,
  of the 128-bit kinds too.
\<close>

definition held_bits :: "target_data \<Rightarrow> int_n_kind \<Rightarrow> nat" where
  "held_bits t k = (if num_bits t k = 128 then 64 else num_bits t k)"

text \<open>
  The representative of a number in the range of a kind, as far as it is held: modulo
  \<open>2 ^ w\<close> for the width \<open>w\<close> of a kind of up to 64 bits, modulo \<open>2 ^ 64\<close> for a 128-bit kind.
\<close>

definition wrap_int :: "target_data \<Rightarrow> int_n_kind \<Rightarrow> int \<Rightarrow> int" where
  "wrap_int t k i = (let b = held_bits t k
     in if is_unsigned k then take_bit b i else signed_take_bit (b - 1) i)"

definition canonical :: "target_data \<Rightarrow> int_num_value \<Rightarrow> bool" where
  "canonical t v \<longleftrightarrow> pack_by_kind t (num_kind v) (num_value v) = v"

lemma num_bits_cases: "num_bits t k \<in> {8, 16, 32, 64, 128}"
  by (cases k) (auto simp: num_bits_def)

lemma pack_kind [simp]: "num_kind (pack_by_kind t k w) = k"
  by (simp add: pack_by_kind_def Let_def)

lemma sign_extend_word:
  fixes w :: u64
  assumes "0 < b" "b < 64"
  shows "(if (w AND mask b) AND 2 ^ (b - 1) \<noteq> 0 then w AND mask b OR NOT (mask b) else w AND mask b) =
    signed_take_bit (b - 1) w"
proof -
  have "(w AND mask b) AND 2 ^ (b - 1) \<noteq> 0 \<longleftrightarrow> bit w (b - 1)"
    using assms by (auto simp: and_exp_eq_0_iff_not_bit bit_and_iff bit_mask_iff)
  moreover have "signed_take_bit (b - 1) w =
      (if bit w (b - 1) then w AND mask b OR NOT (mask b) else w AND mask b)"
  proof (rule bit_word_eqI)
    fix i assume i: "i < LENGTH(64)"
    have "i < b \<Longrightarrow> b - 1 \<le> i \<Longrightarrow> i = b - 1" by simp
    then show "bit (signed_take_bit (b - 1) w) i =
        bit (if bit w (b - 1) then w AND mask b OR NOT (mask b) else w AND mask b) i"
      using assms i by (cases "i < b")
        (auto simp: bit_and_iff bit_or_iff bit_not_iff bit_mask_iff bit_signed_take_bit_iff min_def)
  qed
  ultimately show ?thesis by simp
qed

lemma pack_value:
  "num_value (pack_by_kind t k w) =
    (let b = num_bits t k
     in if b < 64 then if is_unsigned k then take_bit b w else signed_take_bit (b - 1) w else w)"
proof -
  have b: "0 < num_bits t k" using num_bits_cases[of t k] by auto
  have m: "2 ^ n - 1 = (mask n :: u64)" for n by (simp add: mask_eq_exp_minus_1)
  show ?thesis
    using sign_extend_word[OF b, of w]
    by (simp add: pack_by_kind_def Let_def m take_bit_eq_mask del: is_unsigned_simps split: if_splits)
qed

lemma value_of_num_int [simp]: "word_of_int (num_int v) = num_value v"
  by (simp add: num_int_def)

lemma num_int_pack: "num_int (pack_by_kind t k (word_of_int i)) = wrap_int t k i"
proof -
  let ?b = "num_bits t k"
  have b: "0 < ?b" "?b < 64 \<or> ?b = 64 \<or> ?b = 128" using num_bits_cases[of t k] by auto
  have u: "uint (take_bit n (word_of_int i :: u64)) = take_bit n i" if "n \<le> 64" for n
    using that by transfer (simp add: min_def)
  have s: "sint (signed_take_bit (n - 1) (word_of_int i :: u64)) = signed_take_bit (n - 1) i"
    if "0 < n" "n < 64" for n
    using that by transfer (auto simp: min_def signed_take_bit_take_bit)
  have "uint (word_of_int i :: u64) = take_bit 64 i" "sint (word_of_int i :: u64) = signed_take_bit 63 i"
    by (transfer; simp)+
  then show ?thesis using b u[of ?b] s[of ?b]
    by (auto simp: num_int_def pack_value wrap_int_def held_bits_def Let_def simp del: is_unsigned_simps)
qed

lemma wrap_int_range:
  "is_unsigned k \<Longrightarrow> 0 \<le> wrap_int t k i \<and> wrap_int t k i < 2 ^ held_bits t k"
  "\<not> is_unsigned k \<Longrightarrow> - (2 ^ (held_bits t k - 1)) \<le> wrap_int t k i \<and>
     wrap_int t k i < 2 ^ (held_bits t k - 1)"
  by (simp_all add: wrap_int_def Let_def signed_take_bit_int_greater_eq_minus_exp
      signed_take_bit_int_less_exp del: is_unsigned_simps)

lemma wrap_int_id:
  "is_unsigned k \<Longrightarrow> 0 \<le> i \<Longrightarrow> i < 2 ^ held_bits t k \<Longrightarrow> wrap_int t k i = i"
  "\<not> is_unsigned k \<Longrightarrow> - (2 ^ (held_bits t k - 1)) \<le> i \<Longrightarrow>
     i < 2 ^ (held_bits t k - 1) \<Longrightarrow> wrap_int t k i = i"
  by (simp_all add: wrap_int_def Let_def take_bit_int_eq_self signed_take_bit_int_eq_self
      del: is_unsigned_simps)

lemma pack_canonical: "canonical t (pack_by_kind t k w)"
proof -
  have "num_value (pack_by_kind t k (num_value (pack_by_kind t k w))) = num_value (pack_by_kind t k w)"
    using num_bits_cases[of t k] by (auto simp: pack_value Let_def)
  then show ?thesis by (simp add: canonical_def)
qed

subsection \<open>Arithmetic\<close>

text \<open>The kind of a result, and what an operator means on numbers.\<close>

definition result_kind :: "int_n_kind option \<Rightarrow> int_num_value \<Rightarrow> int_num_value \<Rightarrow> int_n_kind" where
  "result_kind expected a b =
    (case expected of Some k \<Rightarrow> k | None \<Rightarrow> determine_output (num_kind a) (num_kind b))"

text \<open>A result that is an integer of a kind, canonical, for a number wrapped to that kind.\<close>

definition computes :: "target_data \<Rightarrow> int_n_kind \<Rightarrow> int \<Rightarrow> comptime_value outcome \<Rightarrow> bool" where
  "computes t k i r \<longleftrightarrow>
     (\<exists>v. r = Value (VInt v) \<and> num_kind v = k \<and> canonical t v \<and> num_int v = wrap_int t k i)"

lemma evaluate_computes:
  "int_answer op a b = Value (word_of_int i) \<Longrightarrow> \<not> is_bool_output op \<Longrightarrow>
   computes t (result_kind e a b) i (evaluate t e op (VInt a) (VInt b))"
  by (simp add: evaluate_def evaluate_ints_def result_kind_def computes_def num_int_pack pack_canonical)

lemma int_answer_ring:
  "int_answer Addition a b = Value (word_of_int (num_int a + num_int b))"
  "int_answer Subtraction a b = Value (word_of_int (num_int a - num_int b))"
  "int_answer Multiplication a b = Value (word_of_int (num_int a * num_int b))"
  by (simp_all add: int_answer_def Let_def operate_u64_def
      flip: wi_hom_add wi_hom_sub wi_hom_mult del: is_unsigned_simps)

text \<open>
  C4. Compile-time addition, subtraction and multiplication are exact modulo the width of
  the result, where a 128-bit kind is held in 64 bits: whatever the kinds of the operands,
  the result has the kind the expression was given (or the joined kind of the operands), and
  its number is the sum, difference or product of the operands' numbers wrapped to the
  \<open>held_bits\<close> of that kind, which are its own width up to 64 bits and 64 bits for the 128-bit
  kinds (\<open>wide_sum_wraps\<close> below).
\<close>

theorem evaluate_arithmetic:
  "computes t (result_kind e a b) (num_int a + num_int b) (evaluate t e Addition (VInt a) (VInt b)) \<and>
   computes t (result_kind e a b) (num_int a - num_int b) (evaluate t e Subtraction (VInt a) (VInt b)) \<and>
   computes t (result_kind e a b) (num_int a * num_int b) (evaluate t e Multiplication (VInt a) (VInt b))"
  by (intro conjI evaluate_computes int_answer_ring) (simp_all add: is_bool_output_def)

text \<open>
  What that means for 128-bit kinds: the sum of the greatest number held and one is negative,
  and the evaluator reports nothing.
\<close>

theorem wide_sum_wraps:
  "evaluate t e Addition (VInt \<lparr>num_value = 2 ^ 63 - 1, num_kind = KInt128\<rparr>)
      (VInt \<lparr>num_value = 1, num_kind = KInt128\<rparr>) =
    evaluate t e Addition (VInt \<lparr>num_value = 2 ^ 63, num_kind = KInt128\<rparr>)
      (VInt \<lparr>num_value = 0, num_kind = KInt128\<rparr>) \<and>
   num_int \<lparr>num_value = 2 ^ 63 - 1, num_kind = KInt128\<rparr> = 2 ^ 63 - 1 \<and>
   num_int \<lparr>num_value = 2 ^ 63, num_kind = KInt128\<rparr> = - (2 ^ 63)"
  by (simp add: evaluate_def evaluate_ints_def int_answer_def operate_u64_def num_int_def is_bool_output_def split: option.split)

text \<open>Division of numbers of one signedness.\<close>

definition overflows :: "int_num_value \<Rightarrow> int_num_value \<Rightarrow> bool" where
  "overflows a b \<longleftrightarrow> \<not> is_unsigned (num_kind a) \<and> \<not> is_unsigned (num_kind b) \<and>
     num_int a = - (2 ^ 63) \<and> num_int b = -1"

lemma num_int_zero [simp]: "num_int b = 0 \<longleftrightarrow> num_value b = 0"
  by (metis num_int_def signed_0 signed_eq_0_iff uint_0_iff)

lemma nonneg_sdiv: "0 \<le> k \<Longrightarrow> 0 \<le> l \<Longrightarrow> k sdiv l = k div l \<and> k smod l = k mod l" for k l :: int
  by (cases "k = 0"; cases "l = 0") (auto simp: signed_divide_int_def signed_modulo_int_def)

lemma unsigned_sdiv:
  "uint (a :: u64) sdiv uint b = uint a div uint b" "uint a smod uint b = uint a mod uint b"
  by (simp_all add: nonneg_sdiv)

lemma int_answer_division:
  assumes "is_unsigned (num_kind a) = is_unsigned (num_kind b)" "num_value b \<noteq> 0" "\<not> overflows a b"
  shows "int_answer Division a b = Value (word_of_int (num_int a sdiv num_int b))"
    and "int_answer Modulus a b = Value (word_of_int (num_int a smod num_int b))"
  using assms
  by (simp_all add: int_answer_def Let_def operate_u64_def overflows_def num_int_def sdiv_defined_def
      unsigned_sdiv word_div_def word_mod_def del: is_unsigned_simps split: if_splits)

text \<open>
  Compile-time division truncates towards zero and the remainder takes the sign of the
  dividend, on operands that are both signed or both unsigned, with a divisor other than zero
  and no overflow.
\<close>

theorem evaluate_division:
  assumes "is_unsigned (num_kind a) = is_unsigned (num_kind b)" "num_int b \<noteq> 0" "\<not> overflows a b"
  shows "computes t (result_kind e a b) (num_int a sdiv num_int b) (evaluate t e Division (VInt a) (VInt b)) \<and>
    computes t (result_kind e a b) (num_int a smod num_int b) (evaluate t e Modulus (VInt a) (VInt b))"
  using assms by (intro conjI evaluate_computes int_answer_division) (simp_all add: is_bool_output_def)

theorem evaluate_division_witness:
  "let a = \<lparr>num_value = -5, num_kind = KI32\<rparr>; b = \<lparr>num_value = 3, num_kind = KI32\<rparr>;
       t = \<lparr>is64Bit = True, windows = False\<rparr>
   in num_int a sdiv num_int b = -1 \<and> num_int a smod num_int b = -2 \<and>
     computes t (result_kind None a b) (num_int a sdiv num_int b) (evaluate t None Division (VInt a) (VInt b)) \<and>
     computes t (result_kind None a b) (num_int a smod num_int b) (evaluate t None Modulus (VInt a) (VInt b))"
  using evaluate_division[of "\<lparr>num_value = -5, num_kind = KI32\<rparr>" "\<lparr>num_value = 3, num_kind = KI32\<rparr>"
      "\<lparr>is64Bit = True, windows = False\<rparr>" None]
  by (simp add: overflows_def num_int_def signed_divide_int_def signed_modulo_int_def)

lemma shift_defined_num_int: "shift_defined (num_value b) \<longleftrightarrow> 0 \<le> num_int b \<and> num_int b < 64"
proof -
  have "sint w = (if uint w < 2 ^ 63 then uint w else uint w - 2 ^ 64)" for w :: u64
  proof -
    have u: "0 \<le> uint w" "uint w < 2 ^ 64" using uint_lt2p[of w] by simp_all
    have "sint w = take_bit 64 (uint w + 2 ^ 63) - 2 ^ 63"
      by (simp add: sint_uint signed_take_bit_eq_take_bit_shift)
    moreover have "take_bit 64 (uint w + 2 ^ 63) =
        (if uint w < 2 ^ 63 then uint w + 2 ^ 63 else uint w - 2 ^ 63)"
    proof (cases "uint w < 2 ^ 63")
      case True
      with u show ?thesis by (simp add: take_bit_int_eq_self)
    next
      case False
      have "take_bit 64 ((uint w - 2 ^ 63) + 2 ^ 64) = uint w - 2 ^ 63"
        unfolding take_bit_eq_mod mod_add_self2 using u False by (intro mod_pos_pos_trivial) simp_all
      with False show ?thesis by (simp add: add.commute)
    qed
    ultimately show ?thesis by simp
  qed
  then show ?thesis using uint_lt2p[of "num_value b"]
    by (auto simp: shift_defined_def num_int_def nat_less_iff simp del: is_unsigned_simps
        simp flip: nat_uint_eq)
qed

text \<open>
  C40. Integer evaluation is undefined in exactly three situations, none of which the
  evaluator checks for: a division or remainder by zero, the signed division of the least
  64-bit number by minus one, and a shift by 64 or more (a negative count among them).
\<close>

theorem evaluate_undefined_iff:
  "evaluate t e op (VInt a) (VInt b) = Undefined_Behaviour \<longleftrightarrow>
     (op \<in> {Division, Modulus} \<and> (num_int b = 0 \<or> overflows a b)) \<or>
     (op \<in> {LeftShift, RightShift} \<and> (num_int b < 0 \<or> num_int b \<ge> 64))"
proof -
  have shift: "shift_defined (num_value b) \<longleftrightarrow> 0 \<le> num_int b \<and> num_int b < 64"
    by (rule shift_defined_num_int)
  have over: "\<not> is_unsigned (num_kind a) \<Longrightarrow> \<not> is_unsigned (num_kind b) \<Longrightarrow>
      sdiv_defined (num_value a) (num_value b) \<longleftrightarrow> num_int b \<noteq> 0 \<and> \<not> overflows a b"
    using num_int_zero[of b] by (auto simp: sdiv_defined_def overflows_def num_int_def simp del: is_unsigned_simps num_int_zero)
  have "evaluate t e op (VInt a) (VInt b) = Undefined_Behaviour \<longleftrightarrow>
      int_answer op a b = Undefined_Behaviour"
    by (simp add: evaluate_def evaluate_ints_def split: outcome.split)
  also have "\<dots> \<longleftrightarrow> (op \<in> {Division, Modulus} \<and> (num_int b = 0 \<or> overflows a b)) \<or>
     (op \<in> {LeftShift, RightShift} \<and> \<not> shift_defined (num_value b))"
    using over by (cases op) (auto simp: int_answer_def Let_def operate_u64_def overflows_def
        simp del: is_unsigned_simps)
  finally show ?thesis unfolding shift by auto
qed

text \<open>
  Compile-time comparison of integers of one signedness compares their numbers.
\<close>

theorem evaluate_comparison:
  assumes "is_unsigned (num_kind a) = is_unsigned (num_kind b)"
  shows "evaluate t e LessThan (VInt a) (VInt b) = Value (VBool (num_int a < num_int b)) \<and>
    evaluate t e LessThanOrEqual (VInt a) (VInt b) = Value (VBool (num_int a \<le> num_int b)) \<and>
    evaluate t e GreaterThan (VInt a) (VInt b) = Value (VBool (num_int a > num_int b)) \<and>
    evaluate t e GreaterThanOrEqual (VInt a) (VInt b) = Value (VBool (num_int a \<ge> num_int b)) \<and>
    evaluate t e IsEqual (VInt a) (VInt b) = Value (VBool (num_int a = num_int b)) \<and>
    evaluate t e IsNotEqual (VInt a) (VInt b) = Value (VBool (num_int a \<noteq> num_int b))"
proof -
  have eq: "num_value a = num_value b \<longleftrightarrow> num_int a = num_int b"
    using assms by (metis num_int_def value_of_num_int)
  show ?thesis using assms
    by (simp add: evaluate_def evaluate_ints_def int_answer_def Let_def operate_u64_def eq
      is_bool_output_def del: is_unsigned_simps)
      (auto simp: num_int_def word_less_def word_le_def simp del: is_unsigned_simps)
qed

theorem evaluate_comparison_witness:
  "let a = \<lparr>num_value = -1, num_kind = KI8\<rparr>; b = \<lparr>num_value = 2, num_kind = KLong\<rparr>;
       t = \<lparr>is64Bit = True, windows = False\<rparr>
   in evaluate t None LessThan (VInt a) (VInt b) = Value (VBool True)"
  using evaluate_comparison[of "\<lparr>num_value = -1, num_kind = KI8\<rparr>" "\<lparr>num_value = 2, num_kind = KLong\<rparr>"
      "\<lparr>is64Bit = True, windows = False\<rparr>" None]
  by (simp add: num_int_def)

subsection \<open>Canonical results\<close>

text \<open>
  Every integer that evaluation of a binary operator or a negation produces is canonical:
  its 64 bits are the zero or sign extension of its kind's bits, so its number lies in the
  range of its kind.
\<close>

theorem evaluate_canonical:
  assumes "evaluate t e op x y = Value (VInt v) \<or> evaluate_negative t x = Value (VInt v)"
  shows "canonical t v \<and> num_int v = wrap_int t (num_kind v) (num_int v)"
proof -
  have "canonical t v"
    using assms
    by (auto simp: evaluate_def evaluate_ints_def evaluate_negative_def pack_canonical string_offset_def
        split: comptime_value.splits outcome.splits option.splits if_splits operation.splits)
  moreover from this have "num_int v = wrap_int t (num_kind v) (num_int v)"
    using num_int_pack[of t "num_kind v" "num_int v"] by (simp add: canonical_def)
  ultimately show ?thesis by blast
qed

theorem evaluate_canonical_witness:
  "let t = \<lparr>is64Bit = True, windows = False\<rparr>; v = \<lparr>num_value = -56, num_kind = KI8\<rparr>
   in canonical t v \<and> num_int v = wrap_int t (num_kind v) (num_int v)"
proof -
  let ?t = "\<lparr>is64Bit = True, windows = False\<rparr>"
  have "evaluate ?t (Some KI8) Addition (VInt \<lparr>num_value = 100, num_kind = KI8\<rparr>)
      (VInt \<lparr>num_value = 100, num_kind = KI8\<rparr>) = Value (VInt \<lparr>num_value = -56, num_kind = KI8\<rparr>)"
    by (simp add: evaluate_def evaluate_ints_def int_answer_def operate_u64_def is_bool_output_def
        pack_by_kind_def num_bits_def Let_def)
  then show ?thesis unfolding Let_def by (intro evaluate_canonical disjI1)
qed

text \<open>
  Bitwise not does not keep its result canonical. The complement of an unsigned integer
  of less than 64 bits is not in the range of its kind, and comparing it with the same number
  in range says that they differ: \<open>~0\<close> of kind \<^verbatim>\<open>u8\<close> is not equal to \<open>255\<close>.
\<close>

theorem bitwise_not_not_canonical:
  assumes "is_unsigned (num_kind a)" "num_bits t (num_kind a) < 64" "canonical t a"
  shows "\<exists>v. evaluate_bitwise_not (VInt a) = Value (VInt v) \<and> \<not> canonical t v \<and>
    evaluate t e IsEqual (VInt v) (VInt (pack_by_kind t (num_kind v) (num_value v))) = Value (VBool False)"
proof -
  let ?n = "num_bits t (num_kind a)" and ?w = "num_value a"
  let ?v = "\<lparr>num_value = NOT ?w, num_kind = num_kind a\<rparr>"
  have "?w = take_bit ?n ?w"
    using assms pack_value[of t "num_kind a" ?w] by (simp add: canonical_def Let_def del: is_unsigned_simps)
  then have "bit ?w 63 = bit (take_bit ?n ?w) 63" by (rule arg_cong)
  then have "\<not> bit ?w 63" using assms(2) by (simp add: bit_take_bit_iff)
  have "NOT ?w \<noteq> take_bit ?n (NOT ?w)"
  proof
    assume "NOT ?w = take_bit ?n (NOT ?w)"
    then have "bit (NOT ?w) 63 = bit (take_bit ?n (NOT ?w)) 63" by (rule arg_cong)
    with \<open>\<not> bit ?w 63\<close> assms(2) show False by (simp add: bit_take_bit_iff bit_not_iff)
  qed
  then have ne: "num_value (pack_by_kind t (num_kind a) (NOT ?w)) \<noteq> NOT ?w"
    using assms(1,2) by (auto simp: pack_value Let_def simp del: is_unsigned_simps)
  then have "\<not> canonical t ?v" by (auto simp: canonical_def)
  moreover have "evaluate_bitwise_not (VInt a) = Value (VInt ?v)" by (simp add: evaluate_bitwise_not_def)
  moreover have "evaluate t e IsEqual (VInt ?v) (VInt (pack_by_kind t (num_kind ?v) (num_value ?v))) =
      Value (VBool False)"
    using ne by (auto simp: evaluate_def evaluate_ints_def int_answer_def operate_u64_def
        is_bool_output_def Let_def)
  ultimately show ?thesis by blast
qed

theorem bitwise_not_not_canonical_witness:
  "let t = \<lparr>is64Bit = True, windows = False\<rparr>
   in \<exists>v. evaluate_bitwise_not (VInt \<lparr>num_value = 0, num_kind = KU8\<rparr>) = Value (VInt v) \<and> \<not> canonical t v \<and>
    evaluate t None IsEqual (VInt v) (VInt (pack_by_kind t (num_kind v) (num_value v))) = Value (VBool False)"
  unfolding Let_def
  by (rule bitwise_not_not_canonical) (simp_all add: num_bits_def canonical_def pack_by_kind_def)

lemma kind_index_to_signed:
  "kind_index (to_signed k) = (if is_unsigned k then kind_index k - 10 else kind_index k)"
  "\<not> is_unsigned (to_signed k)" "is_unsigned k \<longleftrightarrow> 10 \<le> kind_index k"
  unfolding to_signed_negative by (cases k; simp)+

lemma determine_output_cases:
  "determine_output a b =
     (if is_unsigned a \<and> is_unsigned b then max a b else max (to_signed a) (to_signed b))"
proof -
  have keep: "\<not> is_unsigned k \<Longrightarrow> to_signed k = k" for k by (simp add: to_signed_def)
  show ?thesis
    by (auto simp: determine_output_def Let_def max_def less_eq_int_n_kind_def keep
        simp del: is_unsigned_simps dest!: le_antisym)
qed

lemma to_signed_max:
  "is_unsigned a \<Longrightarrow> is_unsigned b \<Longrightarrow> to_signed (max a b) = max (to_signed a) (to_signed b)"
  by (auto simp: max_def less_eq_int_n_kind_def kind_index_to_signed)

lemma is_unsigned_max:
  "is_unsigned a \<Longrightarrow> is_unsigned b \<Longrightarrow> is_unsigned (max a b)"
  "\<not> is_unsigned (max (to_signed a) (to_signed b))"
  "to_signed (to_signed a) = to_signed a"
  by (simp_all add: max_def kind_index_to_signed(2) to_signed_def[of "to_signed a"]
      del: is_unsigned_simps)

text \<open>
  The joined kind of two operands is the greater of their two enumerators, both made
  signed first when only one of them is unsigned; so it does not depend on the order of the
  operands or on grouping. The order is that of the enumerators and not of the widths:
  \<^verbatim>\<open>long\<close> with \<^verbatim>\<open>i8\<close> gives \<^verbatim>\<open>i8\<close>.
\<close>

theorem determine_output_max:
  "determine_output a b =
     (if is_unsigned a \<and> is_unsigned b then max a b else max (to_signed a) (to_signed b)) \<and>
   determine_output a b = determine_output b a \<and>
   determine_output (determine_output a b) c = determine_output a (determine_output b c) \<and>
   determine_output KLong KI8 = KI8"
proof (intro conjI)
  have keep: "to_signed (max (to_signed x) (to_signed y)) = max (to_signed x) (to_signed y)" for x y
    by (simp add: max_def is_unsigned_max)
  show "determine_output (determine_output a b) c = determine_output a (determine_output b c)"
    by (cases "is_unsigned a"; cases "is_unsigned b"; cases "is_unsigned c")
      (simp_all add: determine_output_cases is_unsigned_max to_signed_max keep max.assoc
        del: is_unsigned_simps)
  show "determine_output KLong KI8 = KI8" by (simp add: determine_output_def)
qed (simp_all add: determine_output_cases max.commute)

end
