(* ===== verification/Num_Parse_Correct.thy ===== *)
theory Num_Parse_Correct
  imports Num_Parse Comptime_Correct
begin

text \<open>
  What number literals mean: the value of the digits in the base of the prefix, with the type
  that the suffix or the size asks for, and what happens to it when it does not fit.
\<close>

subsection \<open>Literals\<close>

text \<open>
  The body of a literal: a base prefix and at least one digit, all of the base. \<open>ends_number\<close>
  says that what follows is not a further digit.
\<close>

definition literal :: "nat \<Rightarrow> string \<Rightarrow> string \<Rightarrow> bool" where
  "literal base pre ds \<longleftrightarrow> ds \<noteq> [] \<and> (\<forall>c\<in>set ds. digit_value c < base) \<and>
     (base = 10 \<and> pre = [] \<or>
      base = 16 \<and> pre \<in> {''0x'', ''0X''} \<or>
      base = 8 \<and> pre \<in> {''0o'', ''0O''} \<or>
      base = 2 \<and> pre \<in> {''0b'', ''0B''})"

definition ends_number :: "nat \<Rightarrow> string \<Rightarrow> bool" where
  "ends_number base rest \<longleftrightarrow> base \<le> digit_value (char_at rest 0) \<and>
     char_at rest 0 \<notin> {CHR ''x'', CHR ''X''}"

lemma literal_base: "literal base pre ds \<Longrightarrow> base \<in> {2, 8, 10, 16}"
  by (auto simp: literal_def)

lemma char_at_append:
  "char_at (xs @ ys) i = (if i < length xs then xs ! i else char_at ys (i - length xs))"
  by (auto simp: char_at_def nth_append)

lemma char_at_Cons: "char_at (c # s) i = (case i of 0 \<Rightarrow> c | Suc j \<Rightarrow> char_at s j)"
  by (auto simp: char_at_def split: nat.split)

lemma digit_not_special:
  "digit_value c < 36 \<Longrightarrow> \<not> is_space c \<and> c \<noteq> CHR ''-'' \<and> c \<noteq> CHR ''+'' \<and> c \<noteq> CHR ''.''"
  by (auto simp: digit_value_def is_space_def)

lemma digit_letters:
  "digit_value CHR ''x'' = 33" "digit_value CHR ''X'' = 33" "digit_value CHR ''u'' = 30"
  "digit_value CHR ''U'' = 30" "digit_value CHR ''i'' = 18" "digit_value CHR ''I'' = 18"
  "digit_value CHR ''l'' = 21" "digit_value CHR ''L'' = 21" "digit_value CHR ''o'' = 24"
  "digit_value CHR ''O'' = 24" "digit_value CHR ''b'' = 11" "digit_value CHR ''B'' = 11"
  "digit_value CHR ''f'' = 15" "digit_value CHR ''F'' = 15" "digit_value (CHR 0x00) = 36"
  "digit_value CHR ''.'' = 36"
  by (simp_all add: digit_value_def)

lemma takeWhile_digits:
  "\<forall>c\<in>set ds. digit_value c < base \<Longrightarrow> base \<le> digit_value (char_at rest 0) \<Longrightarrow>
   takeWhile (\<lambda>c. digit_value c < base) (ds @ rest) = ds"
  by (cases rest) (auto simp: takeWhile_append char_at_def)

lemma strto_subject_digits:
  assumes "base \<le> 16" "ds \<noteq> []" "\<forall>c\<in>set ds. digit_value c < base" "ends_number base rest"
  shows "strto_subject base (ds @ rest) = (False, digits_value base ds, length ds)"
proof -
  obtain d ds' where d: "ds = d # ds'" using assms(2) by (cases ds) auto
  then have special: "\<not> is_space d" "d \<noteq> CHR ''-''" "d \<noteq> CHR ''+''"
    using digit_not_special[of d] assms(1,3) by auto
  have x: "char_at (ds @ rest) 1 \<notin> {CHR ''x'', CHR ''X''}"
  proof (cases ds')
    case Nil
    then show ?thesis using assms(4) d by (auto simp: ends_number_def char_at_Cons)
  next
    case (Cons c cs)
    then have "digit_value c < base" using assms(3) d by simp
    then show ?thesis using Cons d assms(1) by (auto simp: char_at_Cons digit_letters)
  qed
  have "takeWhile (\<lambda>c. digit_value c < base) (ds @ rest) = ds"
    using assms(3,4) by (intro takeWhile_digits) (auto simp: ends_number_def)
  then show ?thesis using x special assms(2)
    by (auto simp: strto_subject_def Let_def d)
qed

lemma parse_base:
  assumes "literal base pre ds"
  shows "get_parse_num_base (pre @ ds @ rest) (length pre + length ds) = base"
    and "get_parse_num_prefix_size (pre @ ds @ rest) (length pre + length ds) base = length pre"
proof -
  have ds: "ds \<noteq> []" using assms by (simp add: literal_def)
  consider "base = 10" "pre = []" | p q where "base \<noteq> 10" "pre = [p, q]"
    using assms by (auto simp: literal_def)
  note cs = this
  have dec: "char_at (ds @ rest) 1 \<notin> {CHR ''x'', CHR ''X'', CHR ''b'', CHR ''B'', CHR ''o'', CHR ''O''}"
    if "length ds > 1" "base = 10"
  proof -
    have "digit_value (ds ! 1) < 10" using assms that by (auto simp: literal_def)
    then show ?thesis using that by (auto simp: char_at_append digit_letters)
  qed
  show "get_parse_num_base (pre @ ds @ rest) (length pre + length ds) = base"
    using cs
  proof cases
    case 1
    then show ?thesis using dec by (auto simp: get_parse_num_base_def)
  next
    case 2
    then show ?thesis using assms by (auto simp: get_parse_num_base_def char_at_Cons literal_def)
  qed
  show "get_parse_num_prefix_size (pre @ ds @ rest) (length pre + length ds) base = length pre"
    using cs
  proof cases
    case 1
    then show ?thesis by (simp add: get_parse_num_prefix_size_def)
  next
    case 2
    then show ?thesis using assms ds
      by (auto simp: get_parse_num_prefix_size_def char_at_Cons literal_def)
  qed
qed

lemma parse_num_literal:
  assumes "literal base pre ds" "ends_number base rest"
  defines "v \<equiv> digits_value base ds"
  shows "parse_num (pre @ ds @ rest) (length pre + length ds) strtoull =
      (if v \<ge> 2 ^ 64 then (-1, Some OutOfRange) else (of_nat v, None))"
    and "parse_num (pre @ ds @ rest) (length pre + length ds) strtoll =
      (if v \<ge> 2 ^ 63 then (of_nat (2 ^ 63 - 1), Some OutOfRange) else (of_nat v, None))"
proof -
  have ds: "ds \<noteq> []" "\<forall>c\<in>set ds. digit_value c < base" "base \<le> 16"
    using assms(1) literal_base[OF assms(1)] by (auto simp: literal_def)
  show "parse_num (pre @ ds @ rest) (length pre + length ds) strtoull =
      (if v \<ge> 2 ^ 64 then (-1, Some OutOfRange) else (of_nat v, None))"
    and "parse_num (pre @ ds @ rest) (length pre + length ds) strtoll =
      (if v \<ge> 2 ^ 63 then (of_nat (2 ^ 63 - 1), Some OutOfRange) else (of_nat v, None))"
    unfolding parse_num_def parse_base[OF assms(1)] Let_def v_def
    using ds strto_subject_digits[OF ds(3,1,2) assms(2)]
    by (simp_all add: strtoull_def strtoll_def)
qed

subsection \<open>Without a suffix\<close>

lemma literal_chars:
  assumes "literal base pre ds" "c \<in> set (pre @ ds)"
  shows "c \<notin> {CHR ''i'', CHR ''I'', CHR ''u'', CHR ''U'', CHR ''l'', CHR ''L'', CHR ''.'', CHR ''-''}"
proof -
  have "digit_value c < 16 \<or> c \<in> {CHR ''0'', CHR ''x'', CHR ''X'', CHR ''o'', CHR ''O'', CHR ''b'', CHR ''B''}"
    using assms literal_base[OF assms(1)] by (fastforce simp: literal_def)
  then show ?thesis by (auto simp: digit_letters digit_value_def)
qed

lemma number_suffix_none:
  assumes "CHR ''i'' \<notin> set text" "CHR ''u'' \<notin> set text"
  shows "number_suffix (text @ rest) (length text) = (False, length text, length text, 0)"
proof -
  have "char_at (text @ rest) j \<noteq> CHR ''i''" "char_at (text @ rest) j \<noteq> CHR ''u''" if "j < length text" for j
    using assms that nth_mem[OF that] by (auto simp: char_at_append simp del: nth_mem)
  then show ?thesis by (simp add: number_suffix_def Let_def)
qed

lemma last_char_at: "text \<noteq> [] \<Longrightarrow> char_at (text @ rest) (length text - 1) = last text"
  by (simp add: char_at_append last_conv_nth)

lemma convert_rest_literal:
  assumes "literal base pre ds" "ends_number base rest"
  defines "v \<equiv> digits_value base ds"
  shows "convert_rest strtof strtod (pre @ ds) (pre @ ds @ rest) i e =
    (if v \<ge> 2 ^ 64 then (IntNum (-1) KU64, or_error e (Some OutOfRange))
     else (allocate_number_value (of_nat v), or_error e None))"
proof -
  have ds: "ds \<noteq> []" "\<forall>c\<in>set ds. digit_value c < base" using assms(1) by (auto simp: literal_def)
  let ?t = "pre @ ds"
  have lc: "char_at (pre @ ds @ rest) (length ?t - 1) = last ds"
    using last_char_at[of ?t rest] ds by simp
  have "last ds \<in> set ds" using ds by simp
  then have special: "last ds \<notin> {CHR ''i'', CHR ''I'', CHR ''u'', CHR ''U'', CHR ''l'', CHR ''L''}"
    "CHR ''.'' \<notin> set ?t"
    using literal_chars[OF assms(1)] by fastforce+
  have f: "char_at (pre @ ds @ rest) 0 = CHR ''0'' \<and>
      (char_at (pre @ ds @ rest) 1 = CHR ''x'' \<or> char_at (pre @ ds @ rest) 1 = CHR ''X'')"
    if "last ds = CHR ''f'' \<or> last ds = CHR ''F''"
  proof -
    have "digit_value (last ds) < base" using ds by simp
    then have "15 < base" using that digit_letters(13,14) by metis
    then have "base = 16" using literal_base[OF assms(1)] by auto
    then show ?thesis using assms(1) by (auto simp: literal_def char_at_Cons)
  qed
  have alloc: "allocate_number_value (-1) = IntNum (-1) KU64"
    by (simp add: allocate_number_value_def unsigned_minus_1_eq_mask mask_eq_exp_minus_1)
  show ?thesis
    using special f parse_num_literal(1)[OF assms(1,2)]
    unfolding convert_rest_def Let_def lc by (auto simp: v_def alloc)
qed

text \<open>
  C37. An integer literal without a suffix, in any of the four bases, has the value of its
  digits, and the first of the types \<^verbatim>\<open>int\<close>, \<^verbatim>\<open>long\<close> and \<^verbatim>\<open>u64\<close> that can represent it; a value
  of \<open>2 ^ 64\<close> or more is reported as out of range.
\<close>

theorem plain_literal:
  assumes "literal base pre ds" "ends_number base rest"
  shows "convert_number_to_value strtof strtod (pre @ ds) rest =
    (let v = digits_value base ds
     in if v < 2 ^ 31 then (IntNum (of_nat v) KInt, None)
        else if v < 2 ^ 63 then (IntNum (of_nat v) KLong, None)
        else if v < 2 ^ 64 then (IntNum (of_nat v) KU64, None)
        else (IntNum (-1) KU64, Some OutOfRange))"
proof -
  have "CHR ''i'' \<notin> set (pre @ ds)" "CHR ''u'' \<notin> set (pre @ ds)"
    using literal_chars[OF assms(1)] by fastforce+
  from number_suffix_none[OF this, of rest]
  have "convert_number_to_value strtof strtod (pre @ ds) rest =
      convert_rest strtof strtod (pre @ ds) (pre @ ds @ rest) (length pre + length ds) None"
    by (simp add: convert_number_to_value_def)
  also note convert_rest_literal[OF assms]
  finally show ?thesis
    by (auto simp: allocate_number_value_def unat_of_nat or_error_def Let_def)
qed

theorem plain_literal_witness:
  "convert_number_to_value (\<lambda>s. ((), 0, False)) (\<lambda>s. ((), 0, False)) ''0xFFFFFFFF'' '';'' =
    (IntNum 4294967295 KLong, None)"
  using plain_literal[of 16 "''0x''" "''FFFFFFFF''" "'';''" "\<lambda>s. ((), 0, False)" "\<lambda>s. ((), 0, False)"]
  by (simp add: literal_def ends_number_def digits_value_def digit_value_def char_at_def Let_def)

subsection \<open>With a width suffix\<close>

text \<open>The suffixes of a width, and the kind each asks for.\<close>

definition width_suffixes :: "(string \<times> string \<times> bool \<times> nat) list" where
  "width_suffixes =
    [(''i8'', ''8'', False, 8), (''u8'', ''8'', True, 8), (''ui8'', ''8'', True, 8),
     (''i16'', ''16'', False, 16), (''u16'', ''16'', True, 16), (''ui16'', ''16'', True, 16),
     (''i32'', ''32'', False, 32), (''u32'', ''32'', True, 32), (''ui32'', ''32'', True, 32),
     (''i64'', ''64'', False, 64), (''u64'', ''64'', True, 64), (''ui64'', ''64'', True, 64),
     (''i128'', ''128'', False, 128), (''u128'', ''128'', True, 128), (''ui128'', ''128'', True, 128)]"

lemma char_at_body:
  "char_at (body @ s @ rest) (length body + k) = char_at (s @ rest) k"
  by (simp add: char_at_append)

lemma suffix_digit_letters: "is_suffix_digit c \<Longrightarrow> c \<noteq> CHR ''i'' \<and> c \<noteq> CHR ''u''"
  by (auto simp: is_suffix_digit_def)

lemma Suc_diff_numeral:
  "Suc (Suc (Suc n)) - 3 = n" "Suc (Suc (Suc (Suc n))) - 3 = Suc n" "Suc (Suc (Suc (Suc n))) - 4 = n"
  "Suc (Suc (Suc (Suc (Suc n)))) - 3 = Suc (Suc n)" "Suc (Suc (Suc (Suc (Suc n)))) - 4 = Suc n"
  "Suc (Suc (Suc (Suc (Suc n)))) - 5 = n" "Suc (Suc n) - 3 = n - 1" "Suc (Suc (Suc n)) - 4 = n - 1"
  "Suc (Suc (Suc (Suc n))) - 5 = n - 1"
  by simp_all

lemma number_suffix_one:
  shows "is_suffix_digit (char_at v (Suc n)) \<Longrightarrow> char_at v n = CHR ''u'' \<Longrightarrow> 1 \<le> n \<Longrightarrow>
      number_suffix v (Suc (Suc n)) = (True, n, Suc n, 1)"
    and "is_suffix_digit (char_at v (Suc n)) \<Longrightarrow> char_at v n = CHR ''i'' \<Longrightarrow> 1 \<le> n \<Longrightarrow> char_at v (n - 1) \<noteq> CHR ''u'' \<Longrightarrow>
      number_suffix v (Suc (Suc n)) = (False, n, Suc n, 1)"
    and "is_suffix_digit (char_at v (Suc (Suc n))) \<Longrightarrow> char_at v (Suc n) = CHR ''i'' \<Longrightarrow> char_at v n = CHR ''u'' \<Longrightarrow> 1 \<le> n \<Longrightarrow>
      number_suffix v (Suc (Suc (Suc n))) = (True, n, Suc (Suc n), 1)"
  by (auto simp: number_suffix_def Let_def Suc_diff_numeral dest: suffix_digit_letters)

lemma number_suffix_two:
  shows "is_suffix_digit (char_at v (Suc (Suc n))) \<Longrightarrow> is_suffix_digit (char_at v (Suc n)) \<Longrightarrow> char_at v n = CHR ''u'' \<Longrightarrow> 1 \<le> n \<Longrightarrow>
      number_suffix v (Suc (Suc (Suc n))) = (True, n, Suc n, 2)"
    and "is_suffix_digit (char_at v (Suc (Suc n))) \<Longrightarrow> is_suffix_digit (char_at v (Suc n)) \<Longrightarrow> char_at v n = CHR ''i'' \<Longrightarrow> 1 \<le> n \<Longrightarrow>
      char_at v (n - 1) \<noteq> CHR ''u'' \<Longrightarrow> number_suffix v (Suc (Suc (Suc n))) = (False, n, Suc n, 2)"
    and "is_suffix_digit (char_at v (Suc (Suc (Suc n)))) \<Longrightarrow> is_suffix_digit (char_at v (Suc (Suc n))) \<Longrightarrow> char_at v (Suc n) = CHR ''i'' \<Longrightarrow>
      char_at v n = CHR ''u'' \<Longrightarrow> 1 \<le> n \<Longrightarrow> number_suffix v (Suc (Suc (Suc (Suc n)))) = (True, n, Suc (Suc n), 2)"
  by (auto simp: number_suffix_def Let_def Suc_diff_numeral dest: suffix_digit_letters)

lemma number_suffix_three:
  shows "is_suffix_digit (char_at v (Suc (Suc (Suc n)))) \<Longrightarrow> is_suffix_digit (char_at v (Suc (Suc n))) \<Longrightarrow> is_suffix_digit (char_at v (Suc n)) \<Longrightarrow>
      char_at v n = CHR ''u'' \<Longrightarrow> 1 \<le> n \<Longrightarrow> number_suffix v (Suc (Suc (Suc (Suc n)))) = (True, n, Suc n, 3)"
    and "is_suffix_digit (char_at v (Suc (Suc (Suc n)))) \<Longrightarrow> is_suffix_digit (char_at v (Suc (Suc n))) \<Longrightarrow> is_suffix_digit (char_at v (Suc n)) \<Longrightarrow>
      char_at v n = CHR ''i'' \<Longrightarrow> 1 \<le> n \<Longrightarrow> char_at v (n - 1) \<noteq> CHR ''u'' \<Longrightarrow>
      number_suffix v (Suc (Suc (Suc (Suc n)))) = (False, n, Suc n, 3)"
    and "is_suffix_digit (char_at v (Suc (Suc (Suc (Suc n))))) \<Longrightarrow> is_suffix_digit (char_at v (Suc (Suc (Suc n)))) \<Longrightarrow> is_suffix_digit (char_at v (Suc (Suc n))) \<Longrightarrow>
      char_at v (Suc n) = CHR ''i'' \<Longrightarrow> char_at v n = CHR ''u'' \<Longrightarrow> 1 \<le> n \<Longrightarrow>
      number_suffix v (Suc (Suc (Suc (Suc (Suc n))))) = (True, n, Suc (Suc n), 3)"
  by (auto simp: number_suffix_def Let_def Suc_diff_numeral dest: suffix_digit_letters)

lemma last_not_suffix: "body \<noteq> [] \<Longrightarrow> char_at (body @ s) (length body - 1) = last body"
  by (simp add: char_at_append last_conv_nth)

lemma body_at:
  "char_at (body @ s) (length body) = char_at s 0" "char_at (body @ s) (length body + k) = char_at s k"
  "char_at (body @ s) (Suc (length body)) = char_at s 1"
  "char_at (body @ s) (Suc (Suc (length body))) = char_at s 2"
  "char_at (body @ s) (Suc (Suc (Suc (length body)))) = char_at s 3"
  "char_at (body @ s) (Suc (Suc (Suc (Suc (length body))))) = char_at s 4"
  by (simp_all add: char_at_append)

lemma suffix_digits: "is_suffix_digit CHR ''8''" "is_suffix_digit CHR ''1''" "is_suffix_digit CHR ''6''"
  "is_suffix_digit CHR ''3''" "is_suffix_digit CHR ''2''" "is_suffix_digit CHR ''4''"
  by (simp_all add: is_suffix_digit_def)

lemma number_suffix_found:
  assumes "(suf, w, unsgn, bits) \<in> set width_suffixes" "body \<noteq> []" "last body \<noteq> CHR ''u''"
  shows "number_suffix (body @ suf @ rest) (length body + length suf) =
    (unsgn, length body, length body + length suf - length w, length w)"
proof -
  have n: "1 \<le> length body" using assms(2) by (cases body) simp_all
  have before: "char_at (body @ s) (length body - 1) \<noteq> CHR ''u''" for s
    using assms(3) last_not_suffix[OF assms(2), of s] by simp
  show ?thesis
    using assms(1) n before unfolding width_suffixes_def
    by (auto simp: number_suffix_one number_suffix_two number_suffix_three body_at char_at_Cons
      suffix_digits numeral_2_eq_2 numeral_3_eq_3 eval_nat_numeral(3)[of "num.Bit0 num.One"])
qed

text \<open>The casts of a parsed number to the type of its width.\<close>

lemma cast_unsigned:
  fixes r :: u64
  shows "(ucast (ucast r :: 16 word) :: u64) = take_bit 16 r"
    and "(ucast (ucast r :: 32 word) :: u64) = take_bit 32 r"
  by (rule bit_word_eqI; auto simp: bit_unsigned_iff bit_take_bit_iff)+

lemma cast_signed:
  fixes r :: u64
  shows "(scast (ucast r :: 8 word) :: u64) = signed_take_bit 7 r"
    and "(scast (ucast r :: 16 word) :: u64) = signed_take_bit 15 r"
    and "(scast (ucast r :: 32 word) :: u64) = signed_take_bit 31 r"
  by (rule bit_word_eqI; auto simp: bit_unsigned_iff bit_signed_iff bit_signed_take_bit_iff min_def)+

lemma width_parsed:
  assumes "(suf, w, unsgn, bits) \<in> set width_suffixes" "ends_number 10 rest"
  shows "sint (ucast (fst (parse_num (w @ rest) (length w) strtoll)) :: 8 word) =
    (if bits = 128 then -128 else int bits)"
proof -
  have "literal 10 [] w"
    using assms(1) by (auto simp: literal_def width_suffixes_def digit_value_def)
  from parse_num_literal(2)[OF this assms(2)]
  have "fst (parse_num (w @ rest) (length w) strtoll) = of_nat (digits_value 10 w)"
    using assms(1) by (auto simp: width_suffixes_def digits_value_def digit_value_def)
  then show ?thesis
    using assms(1) by (auto simp: width_suffixes_def digits_value_def digit_value_def)
qed

text \<open>What a literal with a suffix comes to, by the function's main branches.\<close>

lemma convert_suffixed:
  assumes "(suf, w, unsgn, bits) \<in> set width_suffixes" "literal base pre ds" "ends_number 10 rest"
  shows "convert_number_to_value strtof strtod ((pre @ ds) @ suf) rest =
    (case sized_number (pre @ ds @ suf @ rest) (length pre + length ds) unsgn
            (if bits = 128 then -128 else int bits) of
       Inl result \<Rightarrow> result
     | Inr err \<Rightarrow> convert_rest strtof strtod ((pre @ ds) @ suf) (pre @ ds @ suf @ rest)
         (length pre + length ds) err)"
proof -
  let ?b = "pre @ ds"
  have ds: "ds \<noteq> []" using assms(2) by (simp add: literal_def)
  have "last ds \<in> set ?b" using ds by simp
  then have "last ?b \<noteq> CHR ''u''" using literal_chars[OF assms(2)] ds by fastforce
  from number_suffix_found[OF assms(1) _ this, of rest] ds
  have sfx: "number_suffix (pre @ ds @ suf @ rest) (length pre + length ds + length suf) =
      (unsgn, length pre + length ds, length pre + length ds + length suf - length w, length w)"
    by simp
  have "length w > 0 \<and> length w \<le> length suf \<and> drop (length suf - length w) suf = w"
    using assms(1) by (auto simp: width_suffixes_def)
  then have width: "drop (length pre + length ds + length suf - length w) (pre @ ds @ suf @ rest) = w @ rest"
    and pos: "length w > 0"
    by auto
  have "convert_number_to_value strtof strtod ((pre @ ds) @ suf) rest =
    (case number_suffix (pre @ ds @ suf @ rest) (length pre + length ds + length suf) of
      (is_unsgn, suffix_index, bit_width_index, bit_width_size) \<Rightarrow>
        if bit_width_size > 0 then
          case sized_number (pre @ ds @ suf @ rest) suffix_index is_unsgn
              (sint (ucast (fst (parse_num (drop bit_width_index (pre @ ds @ suf @ rest)) bit_width_size strtoll)) :: 8 word)) of
            Inl result \<Rightarrow> result
          | Inr err \<Rightarrow> convert_rest strtof strtod ((pre @ ds) @ suf) (pre @ ds @ suf @ rest) suffix_index err
        else convert_rest strtof strtod ((pre @ ds) @ suf) (pre @ ds @ suf @ rest) suffix_index None)"
    unfolding convert_number_to_value_def Let_def by (simp only: append_assoc length_append add.assoc)
  then show ?thesis unfolding sfx prod.case width width_parsed[OF assms(1,3)] using pos by simp
qed

lemma suffix_ends_number:
  assumes "(suf, w, unsgn, bits) \<in> set width_suffixes" "literal base pre ds"
  shows "ends_number base (suf @ rest)"
  using assms(1) literal_base[OF assms(2)]
  by (auto simp: width_suffixes_def ends_number_def char_at_Cons digit_letters)

text \<open>
  The first value that is out of range for a suffix: the narrow signed types are read with
  \<^verbatim>\<open>strtoll\<close>, the unsigned ones and \<^verbatim>\<open>i64\<close> with \<^verbatim>\<open>strtoull\<close>.
\<close>

definition literal_limit :: "bool \<Rightarrow> nat \<Rightarrow> nat" where
  "literal_limit unsgn bits = (if unsgn \<or> bits = 64 then 2 ^ 64 else 2 ^ 63)"

lemma signed_take_bit_small:
  assumes "v < 128"
  shows "signed_take_bit 7 (of_nat v :: u64) = take_bit 8 (of_nat v)"
proof -
  have v: "take_bit 7 (of_nat v :: u64) = of_nat v" "take_bit 8 (of_nat v :: u64) = of_nat v"
    using assms by (simp_all add: take_bit_eq_mod unsigned_of_nat take_bit_nat_def word_mod_def
        flip: of_nat_mod)
  have "\<not> bit (of_nat v :: u64) 7"
    by (subst v(1)[symmetric]) (simp add: bit_take_bit_iff)
  then show ?thesis using v by (simp add: signed_take_bit_def)
qed

text \<open>
  C12. A literal with a width suffix up to 64 bits has the type of the suffix and the value of
  its digits wrapped to that type, canonical in the sense of compile-time evaluation, so a
  literal that fits its type stands for its number; and it is reported out of range exactly
  from \<open>literal_limit\<close> on: from \<open>2 ^ 64\<close> for unsigned suffixes and \<^verbatim>\<open>i64\<close>, from \<open>2 ^ 63\<close> for \<^verbatim>\<open>i8\<close>,
  \<^verbatim>\<open>i16\<close> and \<^verbatim>\<open>i32\<close>. Excepted are \<^verbatim>\<open>u8\<close> literals from 128 on (\<open>u8_literal_sign_extended\<close>) and
  the 128-bit suffixes (\<open>width_128_unknown\<close>).
\<close>

theorem suffixed_literal:
  assumes "(suf, w, unsgn, bits) \<in> set width_suffixes" "literal base pre ds" "ends_number 10 rest"
    and "bits \<le> 64" "unsgn \<Longrightarrow> bits = 8 \<Longrightarrow> digits_value base ds < 128"
  shows "if digits_value base ds < literal_limit unsgn bits
    then \<exists>v. convert_number_to_value strtof strtod ((pre @ ds) @ suf) rest =
        (IntNum (num_value v) (num_kind v), None) \<and>
      num_kind v = getIntNType bits unsgn \<and> canonical t v \<and>
      num_int v = wrap_int t (getIntNType bits unsgn) (int (digits_value base ds))
    else snd (convert_number_to_value strtof strtod ((pre @ ds) @ suf) rest) = Some OutOfRange"
proof (cases "digits_value base ds < literal_limit unsgn bits")
  case True
  let ?k = "getIntNType bits unsgn" and ?w = "of_nat (digits_value base ds) :: u64"
  let ?v = "pack_by_kind t ?k ?w"
  note parse = parse_num_literal[OF assms(2) suffix_ends_number[OF assms(1,2)], of rest]
  have "num_value ?v = (if bits = 64 then ?w else if unsgn then take_bit bits ?w else signed_take_bit (bits - 1) ?w)"
    using assms(1,4) by (auto simp: width_suffixes_def pack_value getIntNType_def num_bits_def)
  then have "convert_number_to_value strtof strtod ((pre @ ds) @ suf) rest =
      (IntNum (num_value ?v) ?k, None)"
    using assms(1,4,5) True signed_take_bit_small[of "digits_value base ds"]
    unfolding convert_suffixed[OF assms(1,2,3)]
    by (auto simp: sized_number_def Let_def parse cast_unsigned cast_signed width_suffixes_def
        getIntNType_def literal_limit_def)
  moreover have "num_int ?v = wrap_int t ?k (int (digits_value base ds))"
    using num_int_pack[of t ?k "int (digits_value base ds)"] by simp
  ultimately show ?thesis using pack_canonical[of t ?k ?w] True
    by (simp only: if_True) (intro exI[of _ ?v], simp only: pack_kind simp_thms)
next
  case False
  note parse = parse_num_literal[OF assms(2) suffix_ends_number[OF assms(1,2)], of rest]
  from False show ?thesis using assms(1,4)
    unfolding convert_suffixed[OF assms(1,2,3)]
    by (auto simp: sized_number_def Let_def parse width_suffixes_def literal_limit_def)
qed

theorem suffixed_literal_witness:
  "(\<exists>v. convert_number_to_value (\<lambda>s. ((), 0, False)) (\<lambda>s. ((), 0, False)) ((''0x'' @ ''1F0'') @ ''ui16'') '';'' =
      (IntNum (num_value v) (num_kind v), None) \<and>
    num_kind v = getIntNType 16 True \<and> canonical \<lparr>is64Bit = True, windows = False\<rparr> v \<and>
    num_int v = wrap_int \<lparr>is64Bit = True, windows = False\<rparr> (getIntNType 16 True) (int (digits_value 16 ''1F0'')))"
  using suffixed_literal[of "''ui16''" "''16''" True 16 16 "''0x''" "''1F0''" "'';''"
      "\<lambda>s. ((), 0, False)" "\<lambda>s. ((), 0, False)" "\<lparr>is64Bit = True, windows = False\<rparr>"]
  by (simp add: width_suffixes_def literal_def ends_number_def digits_value_def digit_value_def char_at_def
      literal_limit_def)

lemma signed_byte:
  assumes "128 \<le> v" "v < 256"
  shows "signed_take_bit 7 (of_nat v :: u64) = of_int (int v - 256)"
proof -
  have stb: "signed_take_bit 7 (word_of_int i :: u64) = word_of_int (signed_take_bit 7 i)" for i
    by transfer (simp add: signed_take_bit_take_bit min_def)
  have "signed_take_bit 7 (int v) = int v - 256"
  proof -
    have "take_bit 8 ((int v - 128) + 256) = int v - 128"
      using assms mod_add_self2[of "int v - 128" 256] by (simp add: take_bit_eq_mod)
    then show ?thesis by (simp add: signed_take_bit_eq_take_bit_shift add.commute)
  qed
  then show ?thesis using stb[of "int v"] by simp
qed

lemma uint_negative: "- (2 ^ 63) \<le> i \<Longrightarrow> i < 0 \<Longrightarrow> uint (of_int i :: u64) = i + 2 ^ 64"
proof -
  assume i: "- (2 ^ 63) \<le> i" "i < 0"
  have "uint (of_int i :: u64) = (i + 2 ^ 64) mod 2 ^ 64" by (simp add: uint_word_of_int)
  also have "\<dots> = i + 2 ^ 64" using i by (intro mod_pos_pos_trivial) simp_all
  finally show ?thesis .
qed

text \<open>
  The suffix \<^verbatim>\<open>u8\<close> casts through a signed character: a literal from 128 to 255 gets all
  upper bits set, is not canonical, and stands for \<open>2 ^ 64 - 256\<close> more than its digits. Halving
  it at compile time shows: \<open>200u8 / 2u8\<close> is 228.
\<close>

theorem u8_literal_sign_extended:
  assumes "literal base pre ds" "ends_number 10 rest" "suf \<in> {''u8'', ''ui8''}"
    and "128 \<le> digits_value base ds" "digits_value base ds < 256"
  shows "convert_number_to_value strtof strtod ((pre @ ds) @ suf) rest =
      (IntNum (of_int (int (digits_value base ds) - 256)) KU8, None) \<and>
    \<not> canonical t \<lparr>num_value = of_int (int (digits_value base ds) - 256), num_kind = KU8\<rparr> \<and>
    num_int \<lparr>num_value = of_int (int (digits_value base ds) - 256), num_kind = KU8\<rparr> =
      int (digits_value base ds) + 2 ^ 64 - 256 \<and>
    evaluate t (Some KU8) Division (VInt \<lparr>num_value = of_int (200 - 256), num_kind = KU8\<rparr>)
      (VInt \<lparr>num_value = 2, num_kind = KU8\<rparr>) = Value (VInt \<lparr>num_value = 228, num_kind = KU8\<rparr>)"
proof -
  let ?v = "digits_value base ds" let ?w = "of_int (int ?v - 256) :: u64"
  obtain w where suf: "(suf, w, True, 8) \<in> set width_suffixes"
    using assms(3) by (auto simp: width_suffixes_def)
  note parse = parse_num_literal[OF assms(1) suffix_ends_number[OF suf assms(1)], of rest]
  have "convert_number_to_value strtof strtod ((pre @ ds) @ suf) rest = (IntNum ?w KU8, None)"
    using assms(5) signed_byte[OF assms(4,5)] unfolding convert_suffixed[OF suf assms(1,2)]
    by (simp add: sized_number_def Let_def parse cast_signed)
  moreover have u: "uint ?w = int ?v + 2 ^ 64 - 256"
    using uint_negative[of "int ?v - 256"] assms(4,5) by simp
  moreover have "\<not> canonical t \<lparr>num_value = ?w, num_kind = KU8\<rparr>"
  proof
    assume "canonical t \<lparr>num_value = ?w, num_kind = KU8\<rparr>"
    then have "?w = take_bit 8 ?w"
      using pack_value[of t KU8 ?w] by (simp add: canonical_def num_bits_def)
    then have "uint ?w = take_bit 8 (uint ?w)" by (metis unsigned_take_bit_eq)
    then have "uint ?w < 256" using take_bit_int_less_exp[of 8 "uint ?w"] by simp
    with u show False by simp
  qed
  moreover have "evaluate t (Some KU8) Division (VInt \<lparr>num_value = of_int (200 - 256), num_kind = KU8\<rparr>)
      (VInt \<lparr>num_value = 2, num_kind = KU8\<rparr>) = Value (VInt \<lparr>num_value = 228, num_kind = KU8\<rparr>)"
    by (simp add: evaluate_def evaluate_ints_def int_answer_def operate_u64_def is_bool_output_def
        pack_by_kind_def num_bits_def Let_def)
  ultimately show ?thesis by (simp add: num_int_def)
qed

theorem u8_literal_sign_extended_witness:
  "convert_number_to_value (\<lambda>s. ((), 0, False)) (\<lambda>s. ((), 0, False)) (([] @ ''200'') @ ''u8'') '';'' =
      (IntNum (of_int (200 - 256)) KU8, None)"
  using u8_literal_sign_extended[of 10 "[]" "''200''" "'';''" "''u8''" "\<lambda>s. ((), 0, False)" "\<lambda>s. ((), 0, False)"]
  by (simp add: literal_def ends_number_def digits_value_def digit_value_def char_at_def)

text \<open>
  The 128-bit suffixes are never accepted: the width is compared as an 8-bit signed
  number, which 128 is not, so every literal with such a suffix is reported to have an
  unknown bit width.
\<close>

theorem width_128_unknown:
  assumes "literal base pre ds" "ends_number 10 rest" "suf \<in> {''i128'', ''u128'', ''ui128''}"
  shows "snd (convert_number_to_value strtof strtod ((pre @ ds) @ suf) rest) = Some UnknownBitWidth"
proof -
  obtain unsgn where suf: "(suf, ''128'', unsgn, 128) \<in> set width_suffixes"
    using assms(3) by (auto simp: width_suffixes_def)
  have "char_at (pre @ ds @ suf @ rest) (length pre + length ds + length suf - 1) = CHR ''8''"
    using assms(3) by (auto simp: char_at_append)
  then show ?thesis unfolding convert_suffixed[OF suf assms(1,2)]
    by (simp add: sized_number_def convert_rest_def Let_def or_error_def add.assoc split: prod.split)
qed

theorem width_128_unknown_witness:
  "snd (convert_number_to_value (\<lambda>s. ((), 0, False)) (\<lambda>s. ((), 0, False)) (([] @ ''5'') @ ''i128'') '';'') =
    Some UnknownBitWidth"
  by (rule width_128_unknown[where base = 10])
    (simp_all add: literal_def ends_number_def digit_value_def char_at_def)

end
