(* ===== verification/Interpret_Scope.thy ===== *)
theory Interpret_Scope
  imports Scoped_Env
begin

text \<open>
  The scopes of the compile-time interpreter: \<^verbatim>\<open>InterpretScope\<close> of \<^verbatim>\<open>ast/base/InterpretScope.h\<close>
  and \<^verbatim>\<open>.cpp\<close>, as far as names and values go. A scope is its map from names to values, where
  a value may be a null pointer, and its parent.
\<close>

datatype 'v interpret_scope =
  InterpretScope (scope_values: "string \<Rightarrow> 'v option option") (parent: "'v interpret_scope option")

definition new_scope :: "'v interpret_scope option \<Rightarrow> 'v interpret_scope" where
  "new_scope par = InterpretScope (\<lambda>name. None) par"

definition declare_value :: "string \<Rightarrow> 'v option \<Rightarrow> 'v interpret_scope \<Rightarrow> 'v interpret_scope" where
  "declare_value name val s = InterpretScope ((scope_values s)(name := Some val)) (parent s)"

fun find_value :: "string \<Rightarrow> 'v interpret_scope \<Rightarrow> 'v option" where
  "find_value name (InterpretScope vs par) =
    (case vs name of
       None \<Rightarrow> (case par of None \<Rightarrow> None | Some p \<Rightarrow> find_value name p)
     | Some val \<Rightarrow> val)"

text \<open>
  \<^verbatim>\<open>find_value_iterator\<close> gives an iterator and the scope it points into: the number of
  parents to go up, or \<open>None\<close> for the end iterator of the outermost scope.
\<close>

fun find_value_iterator :: "string \<Rightarrow> 'v interpret_scope \<Rightarrow> nat option" where
  "find_value_iterator name (InterpretScope vs par) =
    (case vs name of
       None \<Rightarrow> (case par of None \<Rightarrow> None | Some p \<Rightarrow> map_option Suc (find_value_iterator name p))
     | Some val \<Rightarrow> Some 0)"

text \<open>\<^verbatim>\<open>values.erase\<close> in the scope that many parents up.\<close>

fun erase_at :: "nat \<Rightarrow> string \<Rightarrow> 'v interpret_scope \<Rightarrow> 'v interpret_scope" where
  "erase_at 0 name (InterpretScope vs par) = InterpretScope (vs(name := None)) par"
| "erase_at (Suc n) name (InterpretScope vs par) = InterpretScope vs (map_option (erase_at n name) par)"

text \<open>The flag says that an error was printed.\<close>

definition erase_value :: "string \<Rightarrow> 'v interpret_scope \<Rightarrow> bool \<times> 'v interpret_scope" where
  "erase_value name s =
    (case find_value_iterator name s of
       None \<Rightarrow> (True, s)
     | Some n \<Rightarrow> (False, erase_at n name s))"

subsection \<open>The scopes are a scoped environment\<close>

fun visible_values :: "'v interpret_scope \<Rightarrow> (string \<Rightarrow> 'v option) list" where
  "visible_values (InterpretScope vs par) =
     (\<lambda>name. find_value name (InterpretScope vs par)) #
     (case par of None \<Rightarrow> [] | Some p \<Rightarrow> visible_values p)"

lemma visible_values_hd: "visible_values s = (\<lambda>name. find_value name s) # tl (visible_values s)"
  by (cases s) simp

lemma declare_visible:
  "visible_values (declare_value k (Some n) s) =
    (\<lambda>k'. if k' = k then Some n else hd (visible_values s) k') # tl (visible_values s)"
  by (cases s) (auto simp: declare_value_def split: option.split)

definition leave_values :: "'v interpret_scope \<Rightarrow> 'v interpret_scope" where
  "leave_values s = (case parent s of None \<Rightarrow> s | Some p \<Rightarrow> p)"

interpretation intscope: scoped_env "\<lambda>s. True" visible_values "new_scope None"
  "\<lambda>k n. declare_value k (Some n)" "\<lambda>s k. find_value k s" "\<lambda>s. new_scope (Some s)" leave_values
proof
  show "length (visible_values s) > 1 \<Longrightarrow> visible_values (leave_values s) = tl (visible_values s)" for s :: "'a interpret_scope"
    by (cases s) (auto simp: leave_values_def split: option.splits)
  show "visible_values (new_scope (Some s)) = hd (visible_values s) # visible_values s" for s :: "'a interpret_scope"
    using visible_values_hd[of s] by (simp add: new_scope_def) (metis list.sel(1))
  show "find_value k s = hd (visible_values s) k" for k and s :: "'a interpret_scope"
    by (subst visible_values_hd) simp
  show "visible_values s \<noteq> []" for s :: "'a interpret_scope" by (subst visible_values_hd) simp
qed (simp_all add: new_scope_def declare_visible)

subsection \<open>Properties\<close>

text \<open>
  The interpreter looks names up by static scoping: after any program of declarations and
  nested blocks, each run in a scope of its own, a name has the value of its last declaration
  outside the blocks that have ended.
\<close>

theorem interpreter_scoping:
  "find_value name (run_decls (\<lambda>k n. declare_value k (Some n)) (\<lambda>s. new_scope (Some s)) leave_values ds
     (new_scope None)) = static_env ds (\<lambda>k. None) name"
  by (rule intscope.lookup_run)

lemma erase_find:
  "find_value_iterator name s = Some n \<Longrightarrow> name' \<noteq> name \<Longrightarrow>
   find_value name' (erase_at n name s) = find_value name' s"
proof (induction n arbitrary: s)
  case 0
  then show ?case by (cases s) simp
next
  case (Suc n)
  then show ?case by (cases s) (auto split: option.splits)
qed

lemma erase_declared:
  "fst (erase_value name (declare_value name val s)) = False \<and>
   find_value name' (snd (erase_value name (declare_value name val s))) =
     (if name' = name then (case parent s of None \<Rightarrow> None | Some p \<Rightarrow> find_value name p)
      else find_value name' s)"
  by (cases s) (auto simp: declare_value_def erase_value_def split: option.split)

text \<open>
  Erasing a name removes its innermost binding: in the scope that declared it the name
  then means what it means in the parent, also when the scope had declared it before; every
  other name keeps its value; and the error message is printed when no scope binds the name.
\<close>

theorem erase_value_uncovers:
  "find_value name (snd (erase_value name (declare_value name val s))) =
     (case parent s of None \<Rightarrow> None | Some p \<Rightarrow> find_value name p) \<and>
   find_value name' (snd (erase_value name s)) =
     (if name' = name then find_value name (snd (erase_value name s)) else find_value name' s) \<and>
   fst (erase_value name s) = (find_value_iterator name s = None)"
proof (intro conjI)
  show "find_value name' (snd (erase_value name s)) =
     (if name' = name then find_value name (snd (erase_value name s)) else find_value name' s)"
    using erase_find[of name s _ name'] by (auto simp: erase_value_def split: option.split)
qed (use erase_declared[of name val s name] in simp, simp add: erase_value_def split: option.split)

end
