(* ===== verification/Interpret_Core.thy ===== *)
theory Interpret_Core
  imports Interpret_Scope Comptime_Eval "HOL-Library.Monad_Syntax"
begin

text \<open>
  The compile-time interpreter: \<^verbatim>\<open>compiler/Interpreter/Core.cpp\<close>, which runs the body of a
  compile-time function on the syntax tree. The values are those of the compile-time
  operators (integers, booleans, strings, null); structs, arrays, pointers and calls inside
  an expression are left out, and with them the destructors that the end of a scope runs.

  A statement that jumps only raises flags: \<^verbatim>\<open>stoppedInterpretOnce\<close> of a \<^verbatim>\<open>Scope\<close>,
  \<^verbatim>\<open>stoppedInterpretation\<close> of a loop, both kept in the tree, and \<^verbatim>\<open>stopInterpretation\<close> of an
  \<^verbatim>\<open>InterpretScope\<close>; the loops over statements and the loop statements test and lower them.
  A node of the tree is known by its position: the indices to take, the last one first, to
  reach it from the body of the function.

  A run gives \<open>None\<close> when it has no defined result: it does not end, the code dereferences
  a null pointer or leaves the operation undefined, or it needs a value that is left out.
\<close>

subsection \<open>Expressions\<close>

text \<open>
  The booleans of \<open>IncDecValue\<close> are \<^verbatim>\<open>increment\<close> and \<^verbatim>\<open>post\<close>. An identifier comes with the kind of its type, if that is an integer type, and so does a
  binary expression: it decides the kind of the result.
\<close>

datatype expr =
    Literal comptime_value
  | Identifier string "int_n_kind option"
  | Expression operation expr expr "int_n_kind option"
  | NegativeValue expr
  | BitwiseNotValue expr
  | NotValue expr
  | IncDecValue bool bool string "int_n_kind option"

datatype interpret_error =
    Identifier_Not_Found string
  | For_In_Not_Evaluated
  | For_In_Not_Supported
  | Switch_Not_Evaluated
  | Evaluation_Error string

text \<open>The chain of scopes, the break value of the global scope, and the errors printed.\<close>

record world =
  scopes :: "comptime_value interpret_scope"
  loop_break_value :: "comptime_value option"
  errors :: "interpret_error list"

definition report_error :: "interpret_error \<Rightarrow> world \<Rightarrow> world" where
  "report_error e w = w\<lparr>errors := errors w @ [e]\<rparr>"

text \<open>A null pointer is the value \<open>None\<close>.\<close>

type_synonym 'a evaluation = "world \<Rightarrow> ('a \<times> world) option"

definition returns :: "comptime_value outcome \<Rightarrow> comptime_value option evaluation" where
  "returns r w = (case r of
      Value v \<Rightarrow> Some (Some v, w)
    | No_Value None \<Rightarrow> Some (None, w)
    | No_Value (Some message) \<Rightarrow> Some (None, report_error (Evaluation_Error message) w)
    | Undefined_Behaviour \<Rightarrow> None)"

text \<open>Writing through the iterator of the scope that many parents up.\<close>

fun put_at :: "nat \<Rightarrow> string \<Rightarrow> 'v option \<Rightarrow> 'v interpret_scope \<Rightarrow> 'v interpret_scope" where
  "put_at 0 name val (InterpretScope vs par) = InterpretScope (vs(name := Some val)) par"
| "put_at (Suc n) name val (InterpretScope vs par) = InterpretScope vs (map_option (put_at n name val) par)"

definition put_value :: "nat \<Rightarrow> string \<Rightarrow> comptime_value option \<Rightarrow> world \<Rightarrow> world" where
  "put_value n name val w = w\<lparr>scopes := put_at n name val (scopes w)\<rparr>"

text \<open>\<^verbatim>\<open>VariableIdentifier::set_value\<close>; \<open>raw\<close> evaluates the new value.\<close>

definition set_value ::
  "target_data \<Rightarrow> string \<Rightarrow> int_n_kind option \<Rightarrow> comptime_value option evaluation \<Rightarrow> operation \<Rightarrow> world \<Rightarrow> world option" where
  "set_value t name kind raw op w =
    (case find_value_iterator name (scopes w) of
       None \<Rightarrow> Some (report_error (Identifier_Not_Found name) w)
     | Some n \<Rightarrow>
         raw w \<bind> (\<lambda>(evalNewValue, w). case evalNewValue of
             None \<Rightarrow> None
           | Some newValue \<Rightarrow>
               if op \<noteq> Assignment then
                 (case find_value name (scopes w) of
                    None \<Rightarrow> None
                  | Some prevValue \<Rightarrow>
                      returns (evaluate t kind op prevValue newValue) w \<bind>
                        (\<lambda>(nextValue, w). Some (put_value n name nextValue w)))
               else Some (put_value n name (Some newValue) w)))"

text \<open>The identifier itself, when no scope has a value for it, is left out.\<close>

definition identifier_value :: "string \<Rightarrow> comptime_value option evaluation" where
  "identifier_value name w = (case find_value name (scopes w) of None \<Rightarrow> None | Some v \<Rightarrow> Some (Some v, w))"

definition short_circuits :: "operation \<Rightarrow> comptime_value \<Rightarrow> bool" where
  "short_circuits op v \<longleftrightarrow> op = LogicalAND \<and> v = VBool False \<or> op = LogicalOR \<and> v = VBool True"

fun evaluated_value :: "target_data \<Rightarrow> expr \<Rightarrow> comptime_value option evaluation" where
  "evaluated_value t (Literal v) w = Some (Some v, w)"
| "evaluated_value t (Identifier name kind) w = identifier_value name w"
| "evaluated_value t (Expression op first second kind) w =
     evaluated_value t first w \<bind> (\<lambda>(fEvl, w). case fEvl of
         None \<Rightarrow> Some (None, w)
       | Some f \<Rightarrow>
           if short_circuits op f then Some (Some f, w)
           else evaluated_value t second w \<bind> (\<lambda>(sEvl, w). case sEvl of
               None \<Rightarrow> Some (None, w)
             | Some s \<Rightarrow> returns (evaluate t kind op f s) w))"
| "evaluated_value t (NegativeValue e) w =
     evaluated_value t e w \<bind> (\<lambda>(v, w). case v of None \<Rightarrow> Some (None, w) | Some v \<Rightarrow> returns (evaluate_negative t v) w)"
| "evaluated_value t (BitwiseNotValue e) w =
     evaluated_value t e w \<bind> (\<lambda>(v, w). case v of None \<Rightarrow> None | Some v \<Rightarrow> returns (evaluate_bitwise_not v) w)"
| "evaluated_value t (NotValue e) w =
     evaluated_value t e w \<bind> (\<lambda>(v, w). case v of None \<Rightarrow> Some (None, w) | Some v \<Rightarrow> returns (evaluate_not v) w)"
| "evaluated_value t (IncDecValue inc pst name kind) w =
     identifier_value name w \<bind> (\<lambda>(oldVal, w).
       set_value t name kind (\<lambda>w. Some (Some (VInt \<lparr>num_value = 1, num_kind = KShort\<rparr>), w))
         (if inc then Addition else Subtraction) w \<bind> (\<lambda>w.
           if pst then Some (oldVal, w) else identifier_value name w))"

text \<open>\<^verbatim>\<open>get_the_bool\<close> reads the value as a boolean, whatever it is.\<close>

definition evaluated_bool :: "target_data \<Rightarrow> expr \<Rightarrow> bool evaluation" where
  "evaluated_bool t e w = evaluated_value t e w \<bind> (\<lambda>(v, w). case v of
      None \<Rightarrow> Some (False, w)
    | Some (VBool b) \<Rightarrow> Some (b, w)
    | _ \<Rightarrow> None)"

subsection \<open>Statements that do not jump\<close>

datatype decl_type = DeclIntN int_n_kind | DeclBool

definition declare_in :: "string \<Rightarrow> comptime_value option \<Rightarrow> world \<Rightarrow> world" where
  "declare_in name v w = w\<lparr>scopes := declare_value name v (scopes w)\<rparr>"

text \<open>An integer gets the kind of the declared type; its bits stay.\<close>

definition coerce_initializer :: "decl_type option \<Rightarrow> comptime_value option \<Rightarrow> comptime_value option" where
  "coerce_initializer type initializer = (case (type, initializer) of
      (Some (DeclIntN k), Some (VInt n)) \<Rightarrow> Some (VInt \<lparr>num_value = num_value n, num_kind = k\<rparr>)
    | _ \<Rightarrow> initializer)"

definition var_init :: "target_data \<Rightarrow> string \<Rightarrow> decl_type option \<Rightarrow> expr option \<Rightarrow> world \<Rightarrow> world option" where
  "var_init t name type init w = (case init of
      Some e \<Rightarrow> evaluated_value t e w \<bind> (\<lambda>(v, w). Some (declare_in name (coerce_initializer type v) w))
    | None \<Rightarrow> Some (case type of
          Some (DeclIntN k) \<Rightarrow> declare_in name (Some (VInt \<lparr>num_value = 0, num_kind = k\<rparr>)) w
        | Some DeclBool \<Rightarrow> declare_in name (Some (VBool False)) w
        | None \<Rightarrow> w))"

text \<open>
  After a plain assignment the right side is evaluated a second time, to find a variable
  that was moved from.
\<close>

definition assign :: "target_data \<Rightarrow> string \<Rightarrow> int_n_kind option \<Rightarrow> operation \<Rightarrow> expr \<Rightarrow> world \<Rightarrow> world option" where
  "assign t name kind op e w =
    set_value t name kind (evaluated_value t e) op w \<bind> (\<lambda>w.
      if op = Assignment then evaluated_value t e w \<bind> (\<lambda>(rhsVal, w). Some w) else Some w)"

subsection \<open>Choosing a block\<close>

text \<open>The blocks of an if statement are counted: the body, the else-if bodies, the else body.\<close>

fun else_if_block :: "target_data \<Rightarrow> nat \<Rightarrow> (expr \<times> 'b) list \<Rightarrow> 'b option \<Rightarrow> nat option evaluation" where
  "else_if_block t k [] elseBody w = Some (if elseBody = None then None else Some k, w)"
| "else_if_block t k (elseIf # elseIfs) elseBody w =
     evaluated_bool t (fst elseIf) w \<bind> (\<lambda>(b, w).
       if b then Some (Some k, w) else else_if_block t (Suc k) elseIfs elseBody w)"

definition eval_body_for_if :: "target_data \<Rightarrow> expr \<Rightarrow> (expr \<times> 'b) list \<Rightarrow> 'b option \<Rightarrow> nat option evaluation" where
  "eval_body_for_if t condition elseIfs elseBody w =
    evaluated_bool t condition w \<bind> (\<lambda>(b, w).
      if b then Some (Some 0, w) else else_if_block t 1 elseIfs elseBody w)"

definition if_blocks :: "'b \<Rightarrow> (expr \<times> 'b) list \<Rightarrow> 'b option \<Rightarrow> 'b list" where
  "if_blocks ifBody elseIfs elseBody =
    ifBody # map snd elseIfs @ (case elseBody of None \<Rightarrow> [] | Some b \<Rightarrow> [b])"

text \<open>
  A case of a switch holds its value, or none for the default case, and the index of its
  block. The scan goes over the cases once for each block.
\<close>

fun scan_cases ::
  "target_data \<Rightarrow> comptime_value \<Rightarrow> nat \<Rightarrow> (expr option \<times> nat) list \<Rightarrow> bool evaluation" where
  "scan_cases t cond i [] w = Some (False, w)"
| "scan_cases t cond i ((None, j) # cases) w = scan_cases t cond i cases w"
| "scan_cases t cond i ((Some e, j) # cases) w =
     (if j \<noteq> i then scan_cases t cond i cases w
      else evaluated_value t e w \<bind> (\<lambda>(eval_first, w). case eval_first of
          None \<Rightarrow> None
        | Some v \<Rightarrow> returns (evaluate t None IsEqual v cond) w \<bind> (\<lambda>(isEqual, w).
            if isEqual = Some (VBool True) then Some (True, w) else scan_cases t cond i cases w)))"

fun scan_scopes ::
  "target_data \<Rightarrow> comptime_value \<Rightarrow> (expr option \<times> nat) list \<Rightarrow> nat list \<Rightarrow> nat option evaluation" where
  "scan_scopes t cond cases [] w = Some (None, w)"
| "scan_scopes t cond cases (i # is) w = scan_cases t cond i cases w \<bind> (\<lambda>(found, w).
     if found then Some (Some i, w) else scan_scopes t cond cases is w)"

definition eval_switch_block ::
  "target_data \<Rightarrow> expr \<Rightarrow> (expr option \<times> nat) list \<Rightarrow> nat \<Rightarrow> nat option \<Rightarrow> nat option evaluation" where
  "eval_switch_block t expression cases block_count defScope w =
    evaluated_value t expression w \<bind> (\<lambda>(cond, w). case cond of
        None \<Rightarrow> Some (None, report_error Switch_Not_Evaluated w)
      | Some c \<Rightarrow> scan_scopes t c cases [0..<block_count] w \<bind> (\<lambda>(block, w).
          Some (case block of Some i \<Rightarrow> Some i | None \<Rightarrow> defScope, w)))"

subsection \<open>Statements\<close>

datatype ast_stmt =
    AssignStmt string "int_n_kind option" operation expr
  | VarInitStmt string "decl_type option" "expr option"
  | BreakStmt "expr option"
  | ContinueStmt
  | ReturnStmt "expr option"
  | ValueWrapper expr
  | IfStmt expr "ast_stmt list" "(expr \<times> ast_stmt list) list" "ast_stmt list option"
  | SwitchStmt expr "(expr option \<times> nat) list" "ast_stmt list list" "nat option"
  | WhileLoop expr "ast_stmt list"
  | DoWhileLoop "ast_stmt list" expr
  | ForLoop ast_stmt expr ast_stmt "ast_stmt list"
  | LoopBlock "ast_stmt list"
  | ForInLoop string "(string \<times> int_n_kind) option" expr "ast_stmt list"
  | BlockScope "ast_stmt list"
  | UnsafeBlock "ast_stmt list"

type_synonym position = "nat list"

text \<open>
  \<open>stops\<close> holds \<^verbatim>\<open>stopInterpretation\<close> of the open scopes of the running function, the
  innermost first, and \<open>returned\<close> the return value of its outermost scope.
\<close>

record interpreter =
  world :: world
  stops :: "bool list"
  returned :: "comptime_value option"
  stopped_once :: "position set"
  stopped_loops :: "position set"

definition in_world :: "'a evaluation \<Rightarrow> interpreter \<Rightarrow> ('a \<times> interpreter) option" where
  "in_world ev s = map_option (\<lambda>(a, w). (a, s\<lparr>world := w\<rparr>)) (ev (world s))"

definition update_world :: "(world \<Rightarrow> world option) \<Rightarrow> interpreter \<Rightarrow> interpreter option" where
  "update_world f s = map_option (\<lambda>w. s\<lparr>world := w\<rparr>) (f (world s))"

text \<open>An \<^verbatim>\<open>InterpretScope\<close> made on the stack and its end.\<close>

definition open_scope :: "world \<Rightarrow> world" where
  "open_scope w = w\<lparr>scopes := new_scope (Some (scopes w))\<rparr>"

definition close_scope :: "world \<Rightarrow> world" where
  "close_scope w = w\<lparr>scopes := leave_values (scopes w)\<rparr>"

definition push_scope :: "interpreter \<Rightarrow> interpreter" where
  "push_scope s = s\<lparr>world := open_scope (world s), stops := False # stops s\<rparr>"

definition pop_scope :: "interpreter \<Rightarrow> interpreter" where
  "pop_scope s = s\<lparr>world := close_scope (world s), stops := tl (stops s)\<rparr>"

text \<open>
  The ancestors of a node, the parent first. What is not a loop is passed over. A loop at
  position \<open>p\<close> has its body at \<open>0 # p\<close>.
\<close>

datatype ancestor = Loop_Above position | Other_Above

fun get_loop_node_above :: "ancestor list \<Rightarrow> position option" where
  "get_loop_node_above [] = None"
| "get_loop_node_above (Loop_Above p # ancs) = Some p"
| "get_loop_node_above (Other_Above # ancs) = get_loop_node_above ancs"

fun stop_interpretation_above :: "ancestor list \<Rightarrow> interpreter \<Rightarrow> interpreter" where
  "stop_interpretation_above [] s = s"
| "stop_interpretation_above (Loop_Above p # ancs) s =
     stop_interpretation_above ancs (s\<lparr>stopped_loops := insert p (stopped_loops s)\<rparr>)"
| "stop_interpretation_above (Other_Above # ancs) s = stop_interpretation_above ancs s"

definition stop_interpretation_above_once :: "ancestor list \<Rightarrow> interpreter \<Rightarrow> interpreter" where
  "stop_interpretation_above_once ancs s = (case get_loop_node_above ancs of
      None \<Rightarrow> s
    | Some p \<Rightarrow> s\<lparr>stopped_once := insert (0 # p) (stopped_once s), stopped_loops := insert p (stopped_loops s)\<rparr>)"

definition skip_interpretation_above_once :: "ancestor list \<Rightarrow> interpreter \<Rightarrow> interpreter" where
  "skip_interpretation_above_once ancs s = (case get_loop_node_above ancs of
      None \<Rightarrow> s
    | Some p \<Rightarrow> s\<lparr>stopped_once := insert (0 # p) (stopped_once s)\<rparr>)"

text \<open>\<^verbatim>\<open>FunctionDeclaration::set_return\<close>; the body of the function is at the position \<open>[]\<close>.\<close>

definition set_return :: "target_data \<Rightarrow> expr option \<Rightarrow> interpreter \<Rightarrow> interpreter option" where
  "set_return t value s =
    (case value of
       None \<Rightarrow> Some s
     | Some e \<Rightarrow> in_world (evaluated_value t e) s \<bind> (\<lambda>(evaluated, s). Some (s\<lparr>returned := evaluated\<rparr>))) \<bind>
    (\<lambda>s. Some (s\<lparr>stopped_once := insert [] (stopped_once s), stops := map (\<lambda>b. True) (stops s)\<rparr>))"

definition interpret_break :: "target_data \<Rightarrow> ancestor list \<Rightarrow> expr option \<Rightarrow> interpreter \<Rightarrow> interpreter option" where
  "interpret_break t ancs value s =
    (case value of
       None \<Rightarrow> Some s
     | Some e \<Rightarrow> in_world (evaluated_value t e) s \<bind>
         (\<lambda>(v, s). Some (s\<lparr>world := (world s)\<lparr>loop_break_value := v\<rparr>\<rparr>))) \<bind>
    (\<lambda>s. Some (stop_interpretation_above_once ancs s))"

text \<open>The loops: a step gives the state and whether to go on.\<close>

partial_function (option) run_loop :: "('s \<Rightarrow> ('s \<times> bool) option) \<Rightarrow> 's \<Rightarrow> 's option" where
  "run_loop step s = step s \<bind> (\<lambda>r. if snd r then run_loop step (fst r) else Some (fst r))"

declare run_loop.simps [code]

fun each_char :: "(nat \<Rightarrow> char \<Rightarrow> 's \<Rightarrow> ('s \<times> bool) option) \<Rightarrow> nat \<Rightarrow> string \<Rightarrow> 's \<Rightarrow> 's option" where
  "each_char step i [] s = Some s"
| "each_char step i (c # str) s = step i c s \<bind> (\<lambda>r. if snd r then each_char step (Suc i) str (fst r) else Some (fst r))"

text \<open>The test of \<^verbatim>\<open>stoppedInterpretation\<close> that ends a loop, and lowers the flag.\<close>

definition loop_stopped :: "position \<Rightarrow> interpreter \<Rightarrow> interpreter \<times> bool" where
  "loop_stopped p s = (s\<lparr>stopped_loops := stopped_loops s - {p}\<rparr>, p \<in> stopped_loops s)"

text \<open>The body of an iteration runs in a scope of its own.\<close>

definition iteration :: "(interpreter \<Rightarrow> interpreter option) \<Rightarrow> position \<Rightarrow> interpreter \<Rightarrow> (interpreter \<times> bool) option" where
  "iteration body p s = body (push_scope s) \<bind> (\<lambda>s. Some (loop_stopped p (pop_scope s)))"

definition unless_stopped ::
  "(interpreter \<Rightarrow> (interpreter \<times> bool) option) \<Rightarrow> (interpreter \<times> bool) option \<Rightarrow> (interpreter \<times> bool) option" where
  "unless_stopped next r = r \<bind> (\<lambda>(s, stopped). if stopped then Some (s, False) else next s)"

definition while_step ::
  "bool evaluation \<Rightarrow> (interpreter \<Rightarrow> interpreter option) \<Rightarrow> (interpreter \<Rightarrow> interpreter option) \<Rightarrow> position \<Rightarrow>
   interpreter \<Rightarrow> (interpreter \<times> bool) option" where
  "while_step condition body increment p s =
    in_world condition s \<bind> (\<lambda>(c, s).
      if \<not> c then Some (s, False)
      else unless_stopped (\<lambda>s. increment s \<bind> (\<lambda>s. Some (s, True))) (iteration body p s))"

definition do_while_step ::
  "(interpreter \<Rightarrow> interpreter option) \<Rightarrow> bool evaluation \<Rightarrow> position \<Rightarrow> interpreter \<Rightarrow> (interpreter \<times> bool) option" where
  "do_while_step body condition p s =
    unless_stopped (\<lambda>s. in_world condition s \<bind> (\<lambda>(c, s). Some (s, c))) (iteration body p s)"

text \<open>One character of a string, with the index when it is asked for.\<close>

definition declare_char :: "string \<Rightarrow> (string \<times> int_n_kind) option \<Rightarrow> nat \<Rightarrow> char \<Rightarrow> world \<Rightarrow> world" where
  "declare_char var index i c w =
    (let w = declare_in var (Some (VInt \<lparr>num_value = of_char c, num_kind = KChar\<rparr>)) w
     in case index of
          None \<Rightarrow> w
        | Some (name, kind) \<Rightarrow> declare_in name (Some (VInt \<lparr>num_value = of_nat i, num_kind = kind\<rparr>)) w)"

definition char_step ::
  "string \<Rightarrow> (string \<times> int_n_kind) option \<Rightarrow> (interpreter \<Rightarrow> interpreter option) \<Rightarrow> position \<Rightarrow>
   nat \<Rightarrow> char \<Rightarrow> interpreter \<Rightarrow> (interpreter \<times> bool) option" where
  "char_step var index body p i c s =
    unless_stopped (\<lambda>s. Some (s, True))
      (iteration (\<lambda>s. body (s\<lparr>world := declare_char var index i c (world s)\<rparr>)) p s)"

definition in_scope :: "(interpreter \<Rightarrow> interpreter option) \<Rightarrow> interpreter \<Rightarrow> interpreter option" where
  "in_scope f s = f (push_scope s) \<bind> (\<lambda>s. Some (pop_scope s))"

lemma if_blocks_size:
  "2 * size_list (size_list size) (if_blocks b elseIfs elseBody) \<le>
     Suc (Suc (2 * size_list size b + 2 * size_list (size_prod (\<lambda>e. 0) (size_list size)) elseIfs +
       2 * size_option (size_list size) elseBody))"
proof -
  have "size_list (size_list size) (map snd elseIfs @ bs) \<le>
      size_list (size_prod (\<lambda>e. 0) (size_list size)) elseIfs + size_list (size_list size) bs" for bs
    by (induction elseIfs) auto
  from this[of "case elseBody of None \<Rightarrow> [] | Some b \<Rightarrow> [b]"] show ?thesis
    by (simp add: if_blocks_def split: option.splits)
qed

text \<open>
  \<open>interpret_nodes\<close> runs the nodes of the scope at \<open>q\<close> from the \<open>i\<close>th on; \<open>flag\<close> is the
  position of the scope whose flag stops it, none in a \<^verbatim>\<open>BlockScope\<close>. \<open>interpret_block\<close> runs
  the block with index \<open>k\<close> of the statement at \<open>p\<close>.
\<close>

function interpret_stmt :: "target_data \<Rightarrow> position \<Rightarrow> ancestor list \<Rightarrow> ast_stmt \<Rightarrow> interpreter \<Rightarrow> interpreter option"
and interpret_nodes :: "target_data \<Rightarrow> position option \<Rightarrow> position \<Rightarrow> ancestor list \<Rightarrow> nat \<Rightarrow>
  ast_stmt list \<Rightarrow> interpreter \<Rightarrow> interpreter option"
and interpret_block :: "target_data \<Rightarrow> position \<Rightarrow> ancestor list \<Rightarrow> nat \<Rightarrow> nat \<Rightarrow>
  ast_stmt list list \<Rightarrow> interpreter \<Rightarrow> interpreter option" where
  "interpret_stmt t p ancs (AssignStmt name kind op e) s = update_world (assign t name kind op e) s"
| "interpret_stmt t p ancs (VarInitStmt name type init) s = update_world (var_init t name type init) s"
| "interpret_stmt t p ancs (BreakStmt value) s = interpret_break t ancs value s"
| "interpret_stmt t p ancs ContinueStmt s = Some (skip_interpretation_above_once ancs s)"
| "interpret_stmt t p ancs (ReturnStmt value) s =
     set_return t value s \<bind> (\<lambda>s. Some (stop_interpretation_above ancs s))"
| "interpret_stmt t p ancs (ValueWrapper e) s =
     in_world (evaluated_value t e) s \<bind> (\<lambda>(v, s). Some s)"
| "interpret_stmt t p ancs (IfStmt condition ifBody elseIfs elseBody) s =
     in_world (eval_body_for_if t condition elseIfs elseBody) s \<bind> (\<lambda>(block, s). case block of
         None \<Rightarrow> Some s
       | Some k \<Rightarrow> in_scope
           (interpret_block t p (Other_Above # ancs) 0 k (if_blocks ifBody elseIfs elseBody)) s)"
| "interpret_stmt t p ancs (SwitchStmt expression cases blocks defScope) s =
     in_world (eval_switch_block t expression cases (length blocks) defScope) s \<bind> (\<lambda>(block, s). case block of
         None \<Rightarrow> Some s
       | Some k \<Rightarrow> in_scope (\<lambda>s. in_world (evaluated_value t expression) s \<bind> (\<lambda>(cond, s).
           interpret_block t p (Other_Above # ancs) 0 k blocks s)) s)"
| "interpret_stmt t p ancs (WhileLoop condition body) s =
     in_scope (run_loop (while_step (evaluated_bool t condition)
       (interpret_nodes t (Some (0 # p)) (0 # p) (Loop_Above p # ancs) 0 body) Some p)) s"
| "interpret_stmt t p ancs (DoWhileLoop body condition) s =
     in_scope (run_loop (do_while_step
       (interpret_nodes t (Some (0 # p)) (0 # p) (Loop_Above p # ancs) 0 body)
       (evaluated_bool t condition) p)) s"
| "interpret_stmt t p ancs (ForLoop initializer condition increment body) s =
     in_scope (\<lambda>s. interpret_stmt t (1 # p) (Loop_Above p # ancs) initializer s \<bind>
       run_loop (while_step (evaluated_bool t condition)
         (interpret_nodes t (Some (0 # p)) (0 # p) (Loop_Above p # ancs) 0 body)
         (interpret_stmt t (2 # p) (Loop_Above p # ancs) increment) p)) s"
| "interpret_stmt t p ancs (LoopBlock body) s =
     in_scope (run_loop (while_step (\<lambda>w. Some (True, w))
       (interpret_nodes t (Some (0 # p)) (0 # p) (Loop_Above p # ancs) 0 body) Some p)) s"
| "interpret_stmt t p ancs (ForInLoop var index e body) s =
     in_world (evaluated_value t e) s \<bind> (\<lambda>(evalExpr, s). case evalExpr of
         None \<Rightarrow> Some (s\<lparr>world := report_error For_In_Not_Evaluated (world s)\<rparr>)
       | Some (VString str) \<Rightarrow> each_char (char_step var index
           (interpret_nodes t (Some (0 # p)) (0 # p) (Loop_Above p # ancs) 0 body) p) 0 str s
       | Some _ \<Rightarrow> Some (s\<lparr>world := report_error For_In_Not_Supported (world s)\<rparr>))"
| "interpret_stmt t p ancs (BlockScope body) s =
     in_scope (interpret_nodes t None (0 # p) (Other_Above # ancs) 0 body) s"
| "interpret_stmt t p ancs (UnsafeBlock body) s =
     interpret_nodes t (Some (0 # p)) (0 # p) (Other_Above # ancs) 0 body s"
| "interpret_nodes t flag q ancs i [] s = Some s"
| "interpret_nodes t flag q ancs i (n # ns) s =
     interpret_stmt t (i # q) ancs n s \<bind> (\<lambda>s.
       if flag \<in> Some ` stopped_once s \<or> hd (stops s) then
         Some (s\<lparr>stopped_once := stopped_once s - set_option flag\<rparr>)
       else interpret_nodes t flag q ancs (Suc i) ns s)"
| "interpret_block t p ancs j k [] s = Some s"
| "interpret_block t p ancs j 0 (b # bs) s = interpret_nodes t (Some (j # p)) (j # p) ancs 0 b s"
| "interpret_block t p ancs j (Suc k) (b # bs) s = interpret_block t p ancs (Suc j) k bs s"
  by pat_completeness auto
termination
  by (relation "measure (\<lambda>x. case x of Inl (t, p, ancs, n, s) \<Rightarrow> 2 * size n + 1
      | Inr (Inl (t, flag, q, ancs, i, ns, s)) \<Rightarrow> 2 * size_list size ns
      | Inr (Inr (t, p, ancs, j, k, bs, s)) \<Rightarrow> 2 * size_list (size_list size) bs)")
    (auto simp: less_Suc_eq_le intro: if_blocks_size)

text \<open>
  \<^verbatim>\<open>FunctionDeclaration::call\<close> with arguments that are evaluated already: the function's scope
  below the global one holds the parameters, and the body runs in a scope of its own. The
  chain of scopes in \<open>s\<close> is the global scope.
\<close>

definition declare_params :: "(string \<times> comptime_value option) list \<Rightarrow> world \<Rightarrow> world" where
  "declare_params params w = fold (\<lambda>(name, val). declare_in name val) params w"

definition call_function ::
  "target_data \<Rightarrow> ast_stmt list \<Rightarrow> (string \<times> comptime_value option) list \<Rightarrow> interpreter \<Rightarrow>
   (comptime_value option \<times> interpreter) option" where
  "call_function t body params s =
    in_scope (interpret_nodes t (Some []) [] [] 0 body)
      (s\<lparr>world := declare_params params (open_scope (world s)), stops := [False], returned := None\<rparr>)
    \<bind> (\<lambda>fn. Some (returned fn, fn\<lparr>world := close_scope (world fn), stops := stops s, returned := returned s\<rparr>))"

end
