(* ===== verification/Interpret_Run.thy ===== *)
theory Interpret_Run
  imports Interpret_Core
begin

text \<open>
  What the flags of the interpreter stand for: a semantics of the statements in which each
  one completes, breaks, continues or returns, and the code around it says what follows.
  \<open>interpret_run\<close> relates the two.
\<close>

datatype completion = Completes | Breaks | Continues | Returns "comptime_value option"

type_synonym run = "world \<Rightarrow> (completion \<times> world) option"

definition in_block :: "run \<Rightarrow> run" where
  "in_block f w = f (open_scope w) \<bind> (\<lambda>(c, w). Some (c, close_scope w))"

text \<open>The outcome of an iteration: a loop ends, is left by a return, or goes on.\<close>

definition after_iteration ::
  "(world \<Rightarrow> ((completion \<times> world) \<times> bool) option) \<Rightarrow> completion \<times> world \<Rightarrow> ((completion \<times> world) \<times> bool) option" where
  "after_iteration next cw = (case fst cw of
      Breaks \<Rightarrow> Some ((Completes, snd cw), False)
    | Returns v \<Rightarrow> Some ((Returns v, snd cw), False)
    | _ \<Rightarrow> next (snd cw))"

definition run_while :: "bool evaluation \<Rightarrow> run \<Rightarrow> (world \<Rightarrow> world option) \<Rightarrow>
    completion \<times> world \<Rightarrow> ((completion \<times> world) \<times> bool) option" where
  "run_while condition body increment cw =
    condition (snd cw) \<bind> (\<lambda>(b, w).
      if \<not> b then Some ((Completes, w), False)
      else in_block body w \<bind>
        after_iteration (\<lambda>w. increment w \<bind> (\<lambda>w. Some ((Completes, w), True))))"

definition run_do_while :: "run \<Rightarrow> bool evaluation \<Rightarrow>
    completion \<times> world \<Rightarrow> ((completion \<times> world) \<times> bool) option" where
  "run_do_while body condition cw =
    in_block body (snd cw) \<bind>
      after_iteration (\<lambda>w. condition w \<bind> (\<lambda>(b, w). Some ((Completes, w), b)))"

definition run_char :: "string \<Rightarrow> (string \<times> int_n_kind) option \<Rightarrow> run \<Rightarrow> nat \<Rightarrow> char \<Rightarrow>
    completion \<times> world \<Rightarrow> ((completion \<times> world) \<times> bool) option" where
  "run_char var index body i c cw =
    in_block (\<lambda>w. body (declare_char var index i c w)) (snd cw) \<bind>
      after_iteration (\<lambda>w. Some ((Completes, w), True))"

definition completed :: "world option \<Rightarrow> (completion \<times> world) option" where
  "completed r = map_option (Pair Completes) r"

definition run_return :: "target_data \<Rightarrow> expr option \<Rightarrow> run" where
  "run_return t value w = (case value of
      None \<Rightarrow> Some (Returns None, w)
    | Some e \<Rightarrow> evaluated_value t e w \<bind> (\<lambda>(v, w). Some (Returns v, w)))"

definition run_break :: "target_data \<Rightarrow> expr option \<Rightarrow> run" where
  "run_break t value w = (case value of
      None \<Rightarrow> Some (Breaks, w)
    | Some e \<Rightarrow> evaluated_value t e w \<bind> (\<lambda>(v, w). Some (Breaks, w\<lparr>loop_break_value := v\<rparr>)))"

function run :: "target_data \<Rightarrow> ast_stmt \<Rightarrow> run"
and run_nodes :: "target_data \<Rightarrow> ast_stmt list \<Rightarrow> run"
and run_block :: "target_data \<Rightarrow> nat \<Rightarrow> ast_stmt list list \<Rightarrow> run" where
  "run t (AssignStmt name kind op e) w = completed (assign t name kind op e w)"
| "run t (VarInitStmt name type init) w = completed (var_init t name type init w)"
| "run t (BreakStmt value) w = run_break t value w"
| "run t ContinueStmt w = Some (Continues, w)"
| "run t (ReturnStmt value) w = run_return t value w"
| "run t (ValueWrapper e) w = evaluated_value t e w \<bind> (\<lambda>(v, w). Some (Completes, w))"
| "run t (IfStmt condition ifBody elseIfs elseBody) w =
     eval_body_for_if t condition elseIfs elseBody w \<bind> (\<lambda>(block, w). case block of
         None \<Rightarrow> Some (Completes, w)
       | Some k \<Rightarrow> in_block (run_block t k (if_blocks ifBody elseIfs elseBody)) w)"
| "run t (SwitchStmt expression cases blocks defScope) w =
     eval_switch_block t expression cases (length blocks) defScope w \<bind> (\<lambda>(block, w). case block of
         None \<Rightarrow> Some (Completes, w)
       | Some k \<Rightarrow> in_block (\<lambda>w. evaluated_value t expression w \<bind> (\<lambda>(cond, w). run_block t k blocks w)) w)"
| "run t (WhileLoop condition body) w =
     in_block (\<lambda>w. run_loop (run_while (evaluated_bool t condition) (run_nodes t body) Some) (Completes, w)) w"
| "run t (DoWhileLoop body condition) w =
     in_block (\<lambda>w. run_loop (run_do_while (run_nodes t body) (evaluated_bool t condition)) (Completes, w)) w"
| "run t (ForLoop initializer condition increment body) w =
     in_block (\<lambda>w. run t initializer w \<bind>
       (\<lambda>(c, w). run_loop (run_while (evaluated_bool t condition) (run_nodes t body)
         (\<lambda>w. map_option snd (run t increment w))) (Completes, w))) w"
| "run t (LoopBlock body) w =
     in_block (\<lambda>w. run_loop (run_while (\<lambda>w. Some (True, w)) (run_nodes t body) Some) (Completes, w)) w"
| "run t (ForInLoop var index e body) w =
     evaluated_value t e w \<bind> (\<lambda>(evalExpr, w). case evalExpr of
         None \<Rightarrow> Some (Completes, report_error For_In_Not_Evaluated w)
       | Some (VString str) \<Rightarrow> each_char (run_char var index (run_nodes t body)) 0 str (Completes, w)
       | Some _ \<Rightarrow> Some (Completes, report_error For_In_Not_Supported w))"
| "run t (BlockScope body) w = in_block (run_nodes t body) w"
| "run t (UnsafeBlock body) w = run_nodes t body w"
| "run_nodes t [] w = Some (Completes, w)"
| "run_nodes t (n # ns) w = run t n w \<bind> (\<lambda>(c, w). if c = Completes then run_nodes t ns w else Some (c, w))"
| "run_block t k [] w = Some (Completes, w)"
| "run_block t 0 (b # bs) w = run_nodes t b w"
| "run_block t (Suc k) (b # bs) w = run_block t k bs w"
  by pat_completeness auto
termination
  by (relation "measure (\<lambda>x. case x of Inl (t, n, w) \<Rightarrow> 2 * size n + 1
      | Inr (Inl (t, ns, w)) \<Rightarrow> 2 * size_list size ns
      | Inr (Inr (t, k, bs, w)) \<Rightarrow> 2 * size_list (size_list size) bs)")
    (auto simp: less_Suc_eq_le intro: if_blocks_size)

subsection \<open>Jumps\<close>

text \<open>A statement that a break or a continue may leave.\<close>

fun escapes :: "ast_stmt \<Rightarrow> bool" where
  "escapes (BreakStmt value) = True"
| "escapes ContinueStmt = True"
| "escapes (IfStmt condition ifBody elseIfs elseBody) =
     (list_ex escapes ifBody \<or> list_ex (\<lambda>(e, b). list_ex escapes b) elseIfs \<or>
      (case elseBody of None \<Rightarrow> False | Some b \<Rightarrow> list_ex escapes b))"
| "escapes (SwitchStmt expression cases blocks defScope) = list_ex (list_ex escapes) blocks"
| "escapes (BlockScope body) = list_ex escapes body"
| "escapes (UnsafeBlock body) = list_ex escapes body"
| "escapes _ = False"

definition all_but_last :: "('a \<Rightarrow> bool) \<Rightarrow> 'a list \<Rightarrow> bool" where
  "all_but_last P xs = list_all P (butlast xs)"

text \<open>
  The bodies in which the flags work as jumps: in a block that is not the body of a loop, a
  break or a continue leaves the last statement only. The initializer and the increment of a
  for loop do not jump.
\<close>

definition is_simple :: "ast_stmt \<Rightarrow> bool" where
  "is_simple n = (case n of AssignStmt _ _ _ _ \<Rightarrow> True | VarInitStmt _ _ _ \<Rightarrow> True | ValueWrapper _ \<Rightarrow> True | _ \<Rightarrow> False)"

definition tail_jumps :: "ast_stmt list \<Rightarrow> bool" where
  "tail_jumps ns = all_but_last (\<lambda>n. \<not> escapes n) ns"

fun jumps_ok :: "ast_stmt \<Rightarrow> bool" where
  "jumps_ok (IfStmt condition ifBody elseIfs elseBody) =
     (tail_jumps ifBody \<and> list_all jumps_ok ifBody \<and>
      list_all (\<lambda>(e, b). tail_jumps b \<and> list_all jumps_ok b) elseIfs \<and>
      (case elseBody of None \<Rightarrow> True | Some b \<Rightarrow> tail_jumps b \<and> list_all jumps_ok b))"
| "jumps_ok (SwitchStmt expression cases blocks defScope) =
     list_all (\<lambda>b. tail_jumps b \<and> list_all jumps_ok b) blocks"
| "jumps_ok (WhileLoop condition body) = list_all jumps_ok body"
| "jumps_ok (DoWhileLoop body condition) = list_all jumps_ok body"
| "jumps_ok (ForLoop initializer condition increment body) =
     (is_simple initializer \<and> is_simple increment \<and> list_all jumps_ok body)"
| "jumps_ok (LoopBlock body) = list_all jumps_ok body"
| "jumps_ok (ForInLoop var index e body) = list_all jumps_ok body"
| "jumps_ok (BlockScope body) = (tail_jumps body \<and> list_all jumps_ok body)"
| "jumps_ok (UnsafeBlock body) = (tail_jumps body \<and> list_all jumps_ok body)"
| "jumps_ok _ = True"

definition body_ok :: "ast_stmt list \<Rightarrow> bool" where
  "body_ok body \<longleftrightarrow> list_all jumps_ok body \<and> list_all (\<lambda>n. \<not> escapes n) body"

text \<open>The interpreter between statements, and after a completion.\<close>

definition resting :: "nat \<Rightarrow> world \<Rightarrow> interpreter" where
  "resting k w = \<lparr>world = w, stops = replicate k False, returned = None,
     stopped_once = {}, stopped_loops = {}\<rparr>"

fun after :: "ancestor list \<Rightarrow> nat \<Rightarrow> completion \<times> world \<Rightarrow> interpreter" where
  "after ancs k (Completes, w) = resting k w"
| "after ancs k (Breaks, w) = stop_interpretation_above_once ancs (resting k w)"
| "after ancs k (Continues, w) = skip_interpretation_above_once ancs (resting k w)"
| "after ancs k (Returns v, w) = stop_interpretation_above ancs
     ((resting k w)\<lparr>returned := v, stopped_once := {[]}, stops := replicate k True\<rparr>)"

definition lower :: "position option \<Rightarrow> interpreter \<Rightarrow> interpreter" where
  "lower flag s = s\<lparr>stopped_once := stopped_once s - set_option flag\<rparr>"

fun loops_above :: "ancestor list \<Rightarrow> position set" where
  "loops_above [] = {}"
| "loops_above (Loop_Above p # ancs) = insert p (loops_above ancs)"
| "loops_above (Other_Above # ancs) = loops_above ancs"

definition below :: "position \<Rightarrow> ancestor list \<Rightarrow> bool" where
  "below p ancs \<longleftrightarrow> (\<forall>r\<in>loops_above ancs. length r < length p)"

subsection \<open>Loops\<close>

lemma run_loop_forward:
  assumes sim: "\<And>x. I x \<Longrightarrow> step2 (g x) = map_option (map_prod g id) (step1 x)"
    and inv: "\<And>x y. I x \<Longrightarrow> step1 x = Some (y, True) \<Longrightarrow> I y"
    and ret: "run_loop step1 x = Some y"
  shows "I x \<longrightarrow> run_loop step2 (g x) = Some (g y)"
proof -
  have "step1 = step1 \<longrightarrow> I x \<longrightarrow> run_loop step2 (g x) = Some (g y)"
  proof (rule run_loop.raw_induct[where P = "\<lambda>s x y. s = step1 \<longrightarrow> I x \<longrightarrow> run_loop step2 (g x) = Some (g y)",
        OF _ ret], intro impI)
    fix f step x y
    assume IH: "\<And>step x y. f step x = Some y \<Longrightarrow> step = step1 \<longrightarrow> I x \<longrightarrow> run_loop step2 (g x) = Some (g y)"
      and f: "step x \<bind> (\<lambda>r. if snd r then f step (fst r) else Some (fst r)) = Some y"
      and "step = step1" and I: "I x"
    then obtain r where r: "step1 x = Some r" "(if snd r then f step1 (fst r) else Some (fst r)) = Some y"
      by (auto simp: bind_eq_Some_conv)
    with IH[of step1 "fst r" y] inv[OF I, of "fst r"] I
    show "run_loop step2 (g x) = Some (g y)"
      by (subst run_loop.simps) (cases r, auto simp: sim split: if_splits)
  qed
  then show ?thesis by simp
qed

lemma run_loop_backward:
  assumes sim: "\<And>x. I x \<Longrightarrow> step2 (g x) = map_option (map_prod g id) (step1 x)"
    and inv: "\<And>x y. I x \<Longrightarrow> step1 x = Some (y, True) \<Longrightarrow> I y"
    and ret: "run_loop step2 x2 = Some y2"
  shows "\<forall>x. x2 = g x \<longrightarrow> I x \<longrightarrow> run_loop step1 x \<noteq> None"
proof -
  have "step2 = step2 \<longrightarrow> (\<forall>x. x2 = g x \<longrightarrow> I x \<longrightarrow> run_loop step1 x \<noteq> None)"
  proof (rule run_loop.raw_induct[where P = "\<lambda>s x2 y. s = step2 \<longrightarrow> (\<forall>x. x2 = g x \<longrightarrow> I x \<longrightarrow> run_loop step1 x \<noteq> None)",
        OF _ ret], intro impI allI)
    fix f step x2 y x
    assume IH: "\<And>step x y. f step x = Some y \<Longrightarrow> step = step2 \<longrightarrow> (\<forall>z. x = g z \<longrightarrow> I z \<longrightarrow> run_loop step1 z \<noteq> None)"
      and f: "step x2 \<bind> (\<lambda>r. if snd r then f step (fst r) else Some (fst r)) = Some y"
      and "step = step2" "x2 = g x" and I: "I x"
    then obtain r where r: "step2 (g x) = Some r" "(if snd r then f step2 (fst r) else Some (fst r)) = Some y"
      by (auto simp: bind_eq_Some_conv)
    then obtain z where z: "step1 x = Some z" "r = map_prod g id z" using sim[OF I] by auto
    show "run_loop step1 x \<noteq> None"
    proof (cases "snd z")
      case True
      with z r have "f step2 (g (fst z)) = Some y" by (cases z) auto
      moreover have "I (fst z)" using True z inv[OF I, of "fst z"] by (cases z) auto
      ultimately have "run_loop step1 (fst z) \<noteq> None" using IH by blast
      with z True show ?thesis by (subst run_loop.simps) simp
    next
      case False
      with z show ?thesis by (subst run_loop.simps) simp
    qed
  qed
  then show ?thesis by simp
qed

lemma run_loop_sim:
  assumes sim: "\<And>x. I x \<Longrightarrow> step2 (g x) = map_option (map_prod g id) (step1 x)"
    and inv: "\<And>x y. I x \<Longrightarrow> step1 x = Some (y, True) \<Longrightarrow> I y" and I: "I x"
  shows "run_loop step2 (g x) = map_option g (run_loop step1 x)"
proof (cases "run_loop step1 x")
  case None
  have "run_loop step2 (g x) \<noteq> Some y2" for y2
  proof
    assume "run_loop step2 (g x) = Some y2"
    with sim inv have "\<forall>z. g x = g z \<longrightarrow> I z \<longrightarrow> run_loop step1 z \<noteq> None" by (rule run_loop_backward)
    with None I show False by blast
  qed
  with None show ?thesis by (cases "run_loop step2 (g x)") auto
next
  case (Some y)
  with sim inv have "I x \<longrightarrow> run_loop step2 (g x) = Some (g y)" by (rule run_loop_forward)
  with Some I show ?thesis by simp
qed

lemma each_char_sim:
  assumes "\<And>i c x. I x \<Longrightarrow> step2 i c (g x) = map_option (map_prod g id) (step1 i c x)"
    and "\<And>i c x y. I x \<Longrightarrow> step1 i c x = Some (y, True) \<Longrightarrow> I y"
  shows "I x \<Longrightarrow> each_char step2 i str (g x) = map_option g (each_char step1 i str x)"
proof (induction str arbitrary: i x)
  case (Cons c str)
  show ?case
  proof (cases "step1 i c x")
    case (Some z)
    then show ?thesis
      using Cons.IH[of "fst z" "Suc i"] assms(2)[OF Cons.prems, of i c "fst z"] Cons.prems
      by (cases z) (auto simp: assms(1))
  qed (simp add: assms(1) Cons.prems)
qed simp

lemma run_loop_result:
  assumes final: "\<And>x y. stp x = Some (y, False) \<Longrightarrow> Q y" and ret: "run_loop stp x = Some y"
  shows "Q y"
proof -
  have "stp = stp \<longrightarrow> Q y"
  proof (rule run_loop.raw_induct[where P = "\<lambda>s x y. s = stp \<longrightarrow> Q y", OF _ ret], intro impI)
    fix f step x y
    assume "\<And>step x y. f step x = Some y \<Longrightarrow> step = stp \<longrightarrow> Q y"
      and "step x \<bind> (\<lambda>r. if snd r then f step (fst r) else Some (fst r)) = Some y" and "step = stp"
    then show "Q y" using final[of x y] by (auto simp: bind_eq_Some_conv split: if_splits)
  qed
  then show ?thesis by simp
qed

lemma each_char_result:
  assumes "\<And>i c x y b. stp i c x = Some (y, b) \<Longrightarrow> Q y"
  shows "each_char stp i str x = Some y \<Longrightarrow> Q x \<Longrightarrow> Q y"
  by (induction str arbitrary: i x) (auto simp: bind_eq_Some_conv dest: assms split: if_splits)

subsection \<open>The flags of a completion\<close>

lemma stop_interpretation_above_eq:
  "stop_interpretation_above ancs s = s\<lparr>stopped_loops := loops_above ancs \<union> stopped_loops s\<rparr>"
  by (induction ancs s rule: stop_interpretation_above.induct) auto

lemma loop_node_above: "get_loop_node_above ancs = Some p \<Longrightarrow> p \<in> loops_above ancs"
  by (induction ancs rule: loops_above.induct) auto

lemmas flags = stop_interpretation_above_eq stop_interpretation_above_once_def
  skip_interpretation_above_once_def resting_def

lemma after_Other [simp]: "after (Other_Above # ancs) k = after ancs k"
proof
  show "after (Other_Above # ancs) k cw = after ancs k cw" for cw
    by (cases cw; cases "fst cw") (auto simp: flags)
qed

lemma loops_Other [simp]: "below p (Other_Above # ancs) = below p ancs"
  by (simp add: below_def)

lemma in_world_resting:
  "in_world ev (resting k w) = map_option (\<lambda>(a, w). (a, resting k w)) (ev w)"
  by (auto simp: in_world_def resting_def)

lemma update_world_resting:
  "update_world f (resting k w) = map_option (after ancs k) (completed (f w))"
  by (cases "f w") (auto simp: update_world_def resting_def completed_def)

lemma push_resting [simp]: "push_scope (resting k w) = resting (Suc k) (open_scope w)"
  by (simp add: push_scope_def resting_def)

lemma pop_after [simp]: "pop_scope (after ancs (Suc k) (c, w)) = after ancs k (c, close_scope w)"
  by (cases c) (auto simp: pop_scope_def flags split: option.split)

lemma resting_world [simp]: "(resting k w)\<lparr>world := w'\<rparr> = resting k w'" "world (resting k w) = w"
  by (simp_all add: resting_def)

lemma in_scope_block:
  assumes "f (resting (Suc k) (open_scope w)) = map_option (after ancs (Suc k)) (r (open_scope w))"
  shows "in_scope f (resting k w) = map_option (after ancs k) (in_block r w)"
  using assms by (cases "r (open_scope w)") (auto simp: in_scope_def in_block_def)

text \<open>A scope that is not the body of a loop keeps the flags of what is around it.\<close>

lemma lower_inner:
  assumes "below p ancs" "flag = None \<or> flag = Some (j # p)"
  shows "lower flag (after ancs k cw) = after ancs k cw"
proof -
  have "j # p \<noteq> 0 # r" if "get_loop_node_above ancs = Some r" for r
    using loop_node_above[OF that] assms(1) by (auto simp: below_def)
  with assms(2) show ?thesis
    by (cases cw; cases "fst cw") (auto simp: lower_def flags split: option.split)
qed

lemma iteration_after:
  assumes body: "body (resting (Suc k) (open_scope w)) =
      map_option (\<lambda>cw. lower (Some (0 # p)) (after (Loop_Above p # ancs) (Suc k) cw)) (b (open_scope w))"
    and p: "p \<notin> loops_above ancs"
    and next_ok: "\<And>w. nxt (resting k w) = map_option (map_prod (after ancs k) id) (rnext w)"
  shows "unless_stopped nxt (iteration body p (resting k w)) =
    map_option (map_prod (after ancs k) id) (in_block b w \<bind> after_iteration rnext)"
proof (cases "b (open_scope w)")
  case None
  with body show ?thesis by (simp add: unless_stopped_def iteration_def in_block_def)
next
  case (Some cw)
  obtain c w1 where cw: "cw = (c, w1)" by (cases cw)
  have "loop_stopped p (pop_scope (lower (Some (0 # p)) (after (Loop_Above p # ancs) (Suc k) (c, w1)))) =
      (case c of
         Returns v \<Rightarrow> (after ancs k (Returns v, close_scope w1), True)
       | _ \<Rightarrow> (resting k (close_scope w1), c = Breaks))"
    using p by (cases c) (auto simp: lower_def flags pop_scope_def loop_stopped_def)
  with Some cw body show ?thesis
    by (cases c) (simp_all add: unless_stopped_def iteration_def in_block_def after_iteration_def next_ok)
qed

abbreviation at_rest :: "completion \<times> world \<Rightarrow> bool" where
  "at_rest cw \<equiv> fst cw = Completes"

lemma after_at_rest: "at_rest cw \<Longrightarrow> after ancs k cw = resting k (snd cw)"
  by (cases cw) auto

lemma after_iteration_again:
  assumes "after_iteration next cw = Some (y, True)"
    and "\<And>w y. next w = Some (y, True) \<Longrightarrow> at_rest y"
  shows "at_rest y"
  using assms by (auto simp: after_iteration_def split: completion.splits)

lemma while_loop_after:
  assumes body: "\<And>w. body (resting (Suc k) w) =
      map_option (\<lambda>cw. lower (Some (0 # p)) (after (Loop_Above p # ancs) (Suc k) cw)) (b w)"
    and p: "p \<notin> loops_above ancs"
    and increment: "\<And>w. increment (resting k w) = map_option (resting k) (inc w)"
  shows "run_loop (while_step condition body increment p) (resting k w) =
    map_option (after ancs k) (run_loop (run_while condition b inc) (Completes, w))"
proof -
  have "run_loop (while_step condition body increment p) (after ancs k (Completes, w)) =
    map_option (after ancs k) (run_loop (run_while condition b inc) (Completes, w))"
  proof (rule run_loop_sim[where I = at_rest])
    fix x assume x: "at_rest x"
    have next_ok: "(increment (resting k w) \<bind> (\<lambda>s. Some (s, True))) =
        map_option (map_prod (after ancs k) id) (inc w \<bind> (\<lambda>w. Some ((Completes, w), True)))" for w
      by (cases "inc w") (auto simp: increment)
    have iter: "unless_stopped (\<lambda>s. increment s \<bind> (\<lambda>s. Some (s, True))) (iteration body p (resting k w)) =
        map_option (map_prod (after ancs k) id) (in_block b w \<bind>
          after_iteration (\<lambda>w. inc w \<bind> (\<lambda>w. Some ((Completes, w), True))))" for w
      by (rule iteration_after) (simp_all only: body p next_ok not_False_eq_True)
    show "while_step condition body increment p (after ancs k x) =
        map_option (map_prod (after ancs k) id) (run_while condition b inc x)"
      by (cases "condition (snd x)")
        (auto simp: while_step_def run_while_def after_at_rest[OF x] in_world_resting iter)
  next
    fix x y assume "run_while condition b inc x = Some (y, True)"
    then show "at_rest y"
      by (auto simp: run_while_def bind_eq_Some_conv split: if_splits elim!: after_iteration_again)
  qed simp
  then show ?thesis by simp
qed

lemma do_while_loop_after:
  assumes body: "\<And>w. body (resting (Suc k) w) =
      map_option (\<lambda>cw. lower (Some (0 # p)) (after (Loop_Above p # ancs) (Suc k) cw)) (b w)"
    and p: "p \<notin> loops_above ancs"
  shows "run_loop (do_while_step body condition p) (resting k w) =
    map_option (after ancs k) (run_loop (run_do_while b condition) (Completes, w))"
proof -
  have "run_loop (do_while_step body condition p) (after ancs k (Completes, w)) =
    map_option (after ancs k) (run_loop (run_do_while b condition) (Completes, w))"
  proof (rule run_loop_sim[where I = at_rest])
    fix x assume x: "at_rest x"
    have next_ok: "(in_world condition (resting k w) \<bind> (\<lambda>(c, s). Some (s, c))) =
        map_option (map_prod (after ancs k) id) (condition w \<bind> (\<lambda>(b, w). Some ((Completes, w), b)))" for w
      by (cases "condition w") (auto simp: in_world_resting)
    have iter: "unless_stopped (\<lambda>s. in_world condition s \<bind> (\<lambda>(c, s). Some (s, c))) (iteration body p (resting k w)) =
        map_option (map_prod (after ancs k) id) (in_block b w \<bind>
          after_iteration (\<lambda>w. condition w \<bind> (\<lambda>(b, w). Some ((Completes, w), b))))" for w
      by (rule iteration_after) (simp_all only: body p next_ok not_False_eq_True)
    show "do_while_step body condition p (after ancs k x) =
        map_option (map_prod (after ancs k) id) (run_do_while b condition x)"
      by (simp add: do_while_step_def run_do_while_def after_at_rest[OF x] iter)
  next
    fix x y assume "run_do_while b condition x = Some (y, True)"
    then show "at_rest y"
      by (auto simp: run_do_while_def bind_eq_Some_conv elim!: after_iteration_again)
  qed simp
  then show ?thesis by simp
qed

lemma char_loop_after:
  assumes body: "\<And>w. body (resting (Suc k) w) =
      map_option (\<lambda>cw. lower (Some (0 # p)) (after (Loop_Above p # ancs) (Suc k) cw)) (b w)"
    and p: "p \<notin> loops_above ancs"
  shows "each_char (char_step var index body p) i str (resting k w) =
    map_option (after ancs k) (each_char (run_char var index b) i str (Completes, w))"
proof -
  have "each_char (char_step var index body p) i str (after ancs k (Completes, w)) =
    map_option (after ancs k) (each_char (run_char var index b) i str (Completes, w))"
  proof (rule each_char_sim[where I = at_rest])
    fix i c x assume x: "at_rest x"
    show "char_step var index body p i c (after ancs k x) =
        map_option (map_prod (after ancs k) id) (run_char var index b i c x)"
      unfolding char_step_def run_char_def after_at_rest[OF x]
      by (rule iteration_after) (simp_all add: body p)
  next
    fix i c x y assume "run_char var index b i c x = Some (y, True)"
    then show "at_rest y"
      by (auto simp: run_char_def bind_eq_Some_conv elim!: after_iteration_again)
  qed simp
  then show ?thesis by simp
qed

subsection \<open>What a jump leaves\<close>

abbreviation jumps :: "completion \<times> world \<Rightarrow> bool" where
  "jumps cw \<equiv> fst cw = Breaks \<or> fst cw = Continues"

lemma after_iteration_no_jump:
  "after_iteration next cw = Some (y, b) \<Longrightarrow> (\<And>w y b. next w = Some (y, b) \<Longrightarrow> \<not> jumps y) \<Longrightarrow> \<not> jumps y"
  by (auto simp: after_iteration_def split: completion.splits)

lemma run_while_no_jump: "run_loop (run_while condition b inc) x = Some y \<Longrightarrow> \<not> jumps y"
  by (rule run_loop_result[where stp = "run_while condition b inc"])
    (auto simp: run_while_def bind_eq_Some_conv split: if_splits dest!: after_iteration_no_jump)

lemma run_do_while_no_jump: "run_loop (run_do_while b condition) x = Some y \<Longrightarrow> \<not> jumps y"
  by (rule run_loop_result[where stp = "run_do_while b condition"])
    (auto simp: run_do_while_def bind_eq_Some_conv dest!: after_iteration_no_jump)

lemma run_char_no_jump: "each_char (run_char var index b) i str (Completes, w) = Some y \<Longrightarrow> \<not> jumps y"
  by (erule each_char_result[rotated])
    (auto simp: run_char_def bind_eq_Some_conv dest!: after_iteration_no_jump)

lemma in_block_no_jump:
  "in_block f w = Some y \<Longrightarrow> (\<And>w z. f w = Some z \<Longrightarrow> \<not> jumps z) \<Longrightarrow> \<not> jumps y"
  by (fastforce simp: in_block_def bind_eq_Some_conv)

lemma escapes_if_blocks:
  "escapes (IfStmt condition ifBody elseIfs elseBody) =
    list_ex (list_ex escapes) (if_blocks ifBody elseIfs elseBody)"
proof -
  have "list_ex (\<lambda>(e, b). list_ex escapes b) elseIfs = list_ex (list_ex escapes) (map snd elseIfs)"
    by (induction elseIfs) auto
  then show ?thesis by (auto simp: if_blocks_def split: option.split)
qed

lemma jump_escapes:
  "run t n w = Some y \<Longrightarrow> jumps y \<Longrightarrow> escapes n"
  "run_nodes t ns w = Some y \<Longrightarrow> jumps y \<Longrightarrow> list_ex escapes ns"
  "run_block t k bs w = Some y \<Longrightarrow> jumps y \<Longrightarrow> list_ex (list_ex escapes) bs"
proof (induction t n w and t ns w and t k bs w arbitrary: y and y and y rule: run_run_nodes_run_block.induct)
  case (7 t condition ifBody elseIfs elseBody w)
  then show ?case
    by (auto simp: bind_eq_Some_conv in_block_def escapes_if_blocks simp del: escapes.simps split: option.splits)
next
  case (8 t expression cases blocks defScope w)
  then show ?case
    by (auto simp: bind_eq_Some_conv in_block_def split: option.splits)
next
  case (9 t condition body w)
  then show ?case
    by (auto dest!: in_block_no_jump run_while_no_jump)
next
  case (10 t body condition w)
  then show ?case by (auto dest!: in_block_no_jump run_do_while_no_jump)
next
  case (11 t initializer condition increment body w)
  then show ?case
    by (auto simp: bind_eq_Some_conv dest!: in_block_no_jump run_while_no_jump)
next
  case (12 t body w)
  then show ?case by (auto dest!: in_block_no_jump run_while_no_jump)
next
  case (13 t var index e body w)
  then obtain v w1 where "evaluated_value t e w = Some (v, w1)" by (cases "evaluated_value t e w") auto
  with "13.prems" show ?case by (cases v; cases "the v") (auto dest!: run_char_no_jump)
next
  case (17 t n ns w)
  from "17.prems" obtain c w1 where n: "run t n w = Some (c, w1)" by (auto simp: bind_eq_Some_conv)
  show ?case
  proof (cases "c = Completes")
    case True
    with 17 n show ?thesis by simp
  next
    case False
    with "17.prems" n "17.IH"(1)[of "(c, w1)"] show ?thesis by simp
  qed
qed (auto simp: completed_def run_break_def run_return_def in_block_def bind_eq_Some_conv
    split: option.splits if_splits)

subsection \<open>The interpreter follows the completions\<close>

lemma simple_statement:
  "is_simple n \<Longrightarrow> interpret_stmt t p ancs n (resting k w) = map_option (resting k) (map_option snd (run t n w))"
  by (cases n) (auto simp: is_simple_def update_world_def in_world_resting resting_def completed_def
      in_world_def option.map_comp comp_def split: option.split prod.splits bind_split)

lemma not_above: "below p ancs \<Longrightarrow> p \<notin> loops_above ancs"
  by (auto simp: below_def)

lemma loop_below: "below p ancs \<Longrightarrow> below (0 # p) (Loop_Above p # ancs)"
  by (auto simp: below_def less_Suc_eq)

lemma node_below: "below q ancs \<Longrightarrow> below (i # q) ancs"
  by (auto simp: below_def less_Suc_eq)

definition catches :: "position option \<Rightarrow> ancestor list \<Rightarrow> bool" where
  "catches flag ancs \<longleftrightarrow> (case get_loop_node_above ancs of None \<Rightarrow> False | Some p \<Rightarrow> flag = Some (0 # p))"

definition list_ok :: "position option \<Rightarrow> ancestor list \<Rightarrow> ast_stmt list \<Rightarrow> bool" where
  "list_ok flag ancs ns \<longleftrightarrow> list_all jumps_ok ns \<and> (catches flag ancs \<or> tail_jumps ns)"

lemma list_ok_Cons:
  "list_ok flag ancs (n # ns) \<Longrightarrow> jumps_ok n \<and> list_ok flag ancs ns \<and> (catches flag ancs \<or> ns = [] \<or> \<not> escapes n)"
  by (cases "ns = []") (auto simp: list_ok_def tail_jumps_def all_but_last_def)

text \<open>A pending jump stops the list where it is caught, or was at its end.\<close>

lemma jump_in_list:
  assumes "jumps (c, w)" "catches flag ancs \<or> ns = []"
  shows "(if flag \<in> Some ` stopped_once (after ancs (Suc k) (c, w)) \<or> hd (stops (after ancs (Suc k) (c, w))) then
        Some (lower flag (after ancs (Suc k) (c, w)))
      else interpret_nodes t flag q ancs i ns (after ancs (Suc k) (c, w))) =
    Some (lower flag (after ancs (Suc k) (c, w)))"
  using assms by (cases c) (auto simp: catches_def flags lower_def split: option.splits)

lemma return_in_list:
  "hd (stops (after ancs (Suc k) (Returns v, w)))"
  by (simp add: flags)

lemma interpret_nodes_Cons:
  assumes "interpret_stmt t (i # q) ancs n (resting (Suc k) w) = map_option (after ancs (Suc k)) (run t n w)"
    and "\<And>w1. run t n w = Some (Completes, w1) \<Longrightarrow> interpret_nodes t flag q ancs (Suc i) ns (resting (Suc k) w1) =
      map_option (\<lambda>cw. lower flag (after ancs (Suc k) cw)) (run_nodes t ns w1)"
    and "list_ok flag ancs (n # ns)"
  shows "interpret_nodes t flag q ancs i (n # ns) (resting (Suc k) w) =
    map_option (\<lambda>cw. lower flag (after ancs (Suc k) cw)) (run_nodes t (n # ns) w)"
proof (cases "run t n w")
  case None
  with assms(1) show ?thesis by simp
next
  case (Some y)
  obtain c w1 where y: "y = (c, w1)" by (cases y)
  show ?thesis
  proof (cases "jumps y")
    case True
    with Some have "escapes n" by (rule jump_escapes(1))
    with list_ok_Cons[OF assms(3)] have "catches flag ancs \<or> ns = []" by blast
    with True Some y assms(1) jump_in_list[of c w1 flag ancs ns k t q "Suc i"]
    show ?thesis by (auto simp: lower_def)
  next
    case False
    with Some y assms(1,2) return_in_list[of ancs k _ w1] show ?thesis
      by (cases c) (auto simp: resting_def lower_def)
  qed
qed

abbreviation block_ok :: "ast_stmt list \<Rightarrow> bool" where
  "block_ok b \<equiv> tail_jumps b \<and> list_all jumps_ok b"

lemma jumps_ok_blocks:
  "jumps_ok (IfStmt condition ifBody elseIfs elseBody) =
    list_all block_ok (if_blocks ifBody elseIfs elseBody)"
proof -
  have "list_all (\<lambda>(e, b). block_ok b) elseIfs = list_all block_ok (map snd elseIfs)"
    by (induction elseIfs) auto
  then show ?thesis by (auto simp: if_blocks_def split: option.split)
qed

lemma loop_list_ok: "list_all jumps_ok body \<Longrightarrow> list_ok (Some (0 # p)) (Loop_Above p # ancs) body"
  by (simp add: list_ok_def catches_def)

lemma block_list_ok: "block_ok b \<Longrightarrow> list_ok flag ancs b"
  by (simp add: list_ok_def)

lemma interpret_break_after:
  "interpret_break t ancs value (resting k w) = map_option (after ancs k) (run_break t value w)"
  by (auto simp: interpret_break_def run_break_def in_world_resting split: option.split bind_split)

lemma set_return_after:
  "set_return t value (resting k w) \<bind> (\<lambda>s. Some (stop_interpretation_above ancs s)) =
    map_option (after ancs k) (run_return t value w)"
  by (cases "value"; cases "evaluated_value t (the value) w")
    (auto simp: set_return_def run_return_def in_world_resting stop_interpretation_above_eq,
     simp_all add: resting_def map_replicate_const)

lemma interpret_after:
  "s = resting (Suc k) w \<Longrightarrow> jumps_ok n \<Longrightarrow> below p ancs \<Longrightarrow>
     interpret_stmt t p ancs n s = map_option (after ancs (Suc k)) (run t n w)"
  "s = resting (Suc k) w \<Longrightarrow> list_ok flag ancs ns \<Longrightarrow> below q ancs \<Longrightarrow>
     interpret_nodes t flag q ancs i ns s =
       map_option (\<lambda>cw. lower flag (after ancs (Suc k) cw)) (run_nodes t ns w)"
  "s = resting (Suc k) w \<Longrightarrow> list_all block_ok bs \<Longrightarrow> below p ancs \<Longrightarrow>
     interpret_block t p ancs j m bs s = map_option (after ancs (Suc k)) (run_block t m bs w)"
proof (induction t p ancs n s and t flag q ancs i ns s and t p ancs j m bs s arbitrary: k w and k w and k w
    rule: interpret_stmt_interpret_nodes_interpret_block.induct)
  case (1 t p ancs name kind op e s)
  then show ?case by (simp add: update_world_resting)
next
  case (2 t p ancs name type init s)
  then show ?case by (simp add: update_world_resting)
next
  case (3 t p ancs v s)
  then show ?case by (simp add: interpret_break_after)
next
  case (4 t p ancs s)
  then show ?case by simp
next
  case (5 t p ancs v s)
  then show ?case by (simp add: set_return_after)
next
  case (6 t p ancs e s)
  then show ?case by (simp add: in_world_resting split: bind_split)
next
  case (7 t p ancs condition ifBody elseIfs elseBody s)
  show ?case
  proof (cases "eval_body_for_if t condition elseIfs elseBody w")
    case (Some r)
    obtain block w1 where r: "r = (block, w1)" by (cases r)
    have "in_scope (interpret_block t p (Other_Above # ancs) 0 m (if_blocks ifBody elseIfs elseBody))
        (resting (Suc k) w1) =
      map_option (after ancs (Suc k)) (in_block (run_block t m (if_blocks ifBody elseIfs elseBody)) w1)"
      if "block = Some m" for m
      using 7 Some r that by (intro in_scope_block)
        (simp add: in_world_resting jumps_ok_blocks del: jumps_ok.simps)
    with Some r 7(2) show ?thesis by (simp add: in_world_resting split: option.split)
  qed (simp add: 7 in_world_resting)
next
  case (8 t p ancs expression cases blocks defScope s)
  show ?case
  proof (cases "eval_switch_block t expression cases (length blocks) defScope w")
    case (Some r)
    obtain block w1 where r: "r = (block, w1)" by (cases r)
    have "in_scope (\<lambda>s. in_world (evaluated_value t expression) s \<bind> (\<lambda>(cond, s).
          interpret_block t p (Other_Above # ancs) 0 m blocks s)) (resting (Suc k) w1) =
      map_option (after ancs (Suc k)) (in_block (\<lambda>w. evaluated_value t expression w \<bind>
        (\<lambda>(cond, w). run_block t m blocks w)) w1)"
      if "block = Some m" for m
    proof (rule in_scope_block)
      have block: "interpret_block t p (Other_Above # ancs) 0 m blocks (resting (Suc (Suc k)) w2) =
          map_option (after (Other_Above # ancs) (Suc (Suc k))) (run_block t m blocks w2)"
        if "evaluated_value t expression (open_scope w1) = Some (v, w2)" for v w2
        by (rule 8(1)[of "(Some m, resting (Suc k) w1)" "Some m" "resting (Suc k) w1" m
              "resting (Suc (Suc k)) (open_scope w1)" "(v, resting (Suc (Suc k)) w2)" v
              "resting (Suc (Suc k)) w2" "Suc k" w2])
          (use 8(2-4) Some r \<open>block = Some m\<close> that in \<open>simp_all add: in_world_resting\<close>)
      then show "in_world (evaluated_value t expression) (resting (Suc (Suc k)) (open_scope w1)) \<bind>
          (\<lambda>(cond, s). interpret_block t p (Other_Above # ancs) 0 m blocks s) =
        map_option (after ancs (Suc (Suc k))) (evaluated_value t expression (open_scope w1) \<bind>
          (\<lambda>(cond, w). run_block t m blocks w))"
        by (auto simp: in_world_resting split: bind_split)
    qed
    with Some r 8(2) show ?thesis by (simp add: in_world_resting split: option.split)
  qed (simp add: 8 in_world_resting)
next
  case (9 t p ancs condition body s)
  from 9 show ?case
    by (auto intro!: in_scope_block while_loop_after simp: loop_list_ok loop_below not_above)
next
  case (10 t p ancs body condition s)
  from 10 show ?case
    by (auto intro!: in_scope_block do_while_loop_after simp: loop_list_ok loop_below not_above)
next
  case (11 t p ancs initializer condition increment body s)
  then have simple: "is_simple initializer" "is_simple increment" by simp_all
  show ?case
    unfolding interpret_stmt.simps run.simps 11(4)
  proof (rule in_scope_block, cases "run t initializer (open_scope w)")
    case (Some y)
    then have init: "interpret_stmt t (1 # p) (Loop_Above p # ancs) initializer
        (resting (Suc (Suc k)) (open_scope w)) = Some (resting (Suc (Suc k)) (snd y))"
      by (simp add: simple_statement[OF simple(1)])
    have "run_loop (while_step (evaluated_bool t condition)
        (interpret_nodes t (Some (0 # p)) (0 # p) (Loop_Above p # ancs) 0 body)
        (interpret_stmt t (2 # p) (Loop_Above p # ancs) increment) p) (resting (Suc (Suc k)) w) =
      map_option (after ancs (Suc (Suc k))) (run_loop (run_while (evaluated_bool t condition) (run_nodes t body)
        (\<lambda>w. map_option snd (run t increment w))) (Completes, w))" for w
      using 11(5,6) by (intro while_loop_after 11(2)[OF init refl])
        (simp_all add: loop_list_ok loop_below not_above simple_statement[OF simple(2)])
    with Some init show "interpret_stmt t (1 # p) (Loop_Above p # ancs) initializer
        (resting (Suc (Suc k)) (open_scope w)) \<bind> run_loop (while_step (evaluated_bool t condition)
          (interpret_nodes t (Some (0 # p)) (0 # p) (Loop_Above p # ancs) 0 body)
          (interpret_stmt t (2 # p) (Loop_Above p # ancs) increment) p) =
      map_option (after ancs (Suc (Suc k))) (run t initializer (open_scope w) \<bind>
        (\<lambda>(c, w). run_loop (run_while (evaluated_bool t condition) (run_nodes t body)
          (\<lambda>w. map_option snd (run t increment w))) (Completes, w)))"
      by (cases y) simp
  qed (simp add: simple_statement[OF simple(1)])
next
  case (12 t p ancs body s)
  from 12 show ?case
    by (auto intro!: in_scope_block while_loop_after simp: loop_list_ok loop_below not_above)
next
  case (13 t p ancs var index e body s)
  show ?case
  proof (cases "evaluated_value t e w")
    case (Some r)
    obtain v w1 where r: "r = (v, w1)" by (cases r)
    have "each_char (char_step var index
          (interpret_nodes t (Some (0 # p)) (0 # p) (Loop_Above p # ancs) 0 body) p) 0 str (resting (Suc k) w1) =
        map_option (after ancs (Suc k)) (each_char (run_char var index (run_nodes t body)) 0 str (Completes, w1))"
      if "v = Some (VString str)" for str
      using 13 Some r that
      by (intro char_loop_after) (simp_all add: in_world_resting loop_list_ok loop_below not_above)
    with Some r 13(2) show ?thesis
      by (simp add: in_world_resting split: option.split comptime_value.split)
  qed (simp add: 13 in_world_resting)
next
  case (14 t p ancs body s)
  then show ?case
    by (auto intro!: in_scope_block simp: block_list_ok node_below lower_inner)
next
  case (15 t p ancs body s)
  then show ?case
    by (auto simp: block_list_ok node_below lower_inner option.map_comp comp_def)
next
  case (16 t flag q ancs i s)
  then show ?case by (simp add: lower_def resting_def)
next
  case (17 t flag q ancs i n ns s)
  have n: "interpret_stmt t (i # q) ancs n (resting (Suc k) w) = map_option (after ancs (Suc k)) (run t n w)"
    using 17 by (auto simp: node_below dest: list_ok_Cons)
  show ?case
    unfolding 17(3)
  proof (rule interpret_nodes_Cons[OF n _ 17(4)])
    fix w1 assume "run t n w = Some (Completes, w1)"
    with n have "interpret_stmt t (i # q) ancs n s = Some (resting (Suc k) w1)" by (simp add: 17(3))
    moreover have "\<not> (flag \<in> Some ` stopped_once (resting (Suc k) w1) \<or> hd (stops (resting (Suc k) w1)))"
      by (simp add: resting_def)
    ultimately show "interpret_nodes t flag q ancs (Suc i) ns (resting (Suc k) w1) =
        map_option (\<lambda>cw. lower flag (after ancs (Suc k) cw)) (run_nodes t ns w1)"
      using 17(2)[of "resting (Suc k) w1" k w1] 17(4,5) list_ok_Cons by blast
  qed
next
  case (18 t p ancs j k s)
  then show ?case by simp
next
  case (19 t p ancs j b bs s)
  then show ?case
    by (auto simp: block_list_ok node_below lower_inner)
next
  case (20 t p ancs j k b bs s)
  then show ?case by simp
qed

subsection \<open>A call\<close>

definition run_function ::
  "target_data \<Rightarrow> ast_stmt list \<Rightarrow> (string \<times> comptime_value option) list \<Rightarrow> world \<Rightarrow>
   (comptime_value option \<times> world) option" where
  "run_function t body params w =
    in_block (run_nodes t body) (declare_params params (open_scope w)) \<bind>
      (\<lambda>(c, w). Some (case c of Returns v \<Rightarrow> v | _ \<Rightarrow> None, close_scope w))"

lemma body_list_ok: "body_ok body \<Longrightarrow> list_ok flag ancs body"
proof -
  have "list_all P xs \<Longrightarrow> list_all P (butlast xs)" for P :: "ast_stmt \<Rightarrow> bool" and xs
    by (auto simp: list_all_iff dest: in_set_butlastD)
  then show "body_ok body \<Longrightarrow> list_ok flag ancs body"
    by (simp add: body_ok_def list_ok_def tail_jumps_def all_but_last_def)
qed

lemma body_ok_no_jump: "body_ok body \<Longrightarrow> run_nodes t body w = Some cw \<Longrightarrow> \<not> jumps cw"
  using jump_escapes(2)[of t body w cw] by (auto simp: body_ok_def list_all_iff list_ex_iff)

lemma call_after_run:
  assumes "body_ok body"
  shows "call_function t body params (resting k w) =
    map_option (\<lambda>(v, w). (v, resting k w)) (run_function t body params w)"
proof -
  let ?w = "open_scope (declare_params params (open_scope w))"
  have start: "(resting k w)\<lparr>world := declare_params params (open_scope w), stops := [False], returned := None\<rparr> =
      resting 1 (declare_params params (open_scope w))"
    by (simp add: resting_def)
  have nodes: "interpret_nodes t (Some []) [] [] 0 body (resting (Suc (Suc 0)) ?w) =
      map_option (\<lambda>cw. lower (Some []) (after [] (Suc (Suc 0)) cw)) (run_nodes t body ?w)"
    using assms by (intro interpret_after(2)) (simp_all add: body_list_ok below_def)
  show ?thesis
  proof (cases "run_nodes t body ?w")
    case None
    with nodes start show ?thesis
      by (simp add: call_function_def run_function_def in_scope_def in_block_def)
  next
    case (Some cw)
    moreover obtain c w1 where "cw = (c, w1)" by (cases cw)
    moreover have "\<not> jumps cw" using assms Some by (rule body_ok_no_jump)
    ultimately show ?thesis using nodes start
      by (cases c) (simp_all add: call_function_def run_function_def in_scope_def in_block_def
          lower_def flags pop_scope_def push_scope_def)
  qed
qed

end
