(* ===== verification/Interpret_Correct.thy ===== *)
theory Interpret_Correct
  imports Interpret_Run Comptime_Correct
begin

text \<open>
  The compile-time interpreter runs a function the way its jumps say, as long as they leave
  blocks at the end; what it does otherwise; the names it leaves behind; and a loop computed.
\<close>

subsection \<open>Names\<close>

text \<open>The names that each scope of the chain declares, the innermost scope first.\<close>

fun scope_names :: "'v interpret_scope \<Rightarrow> string set list" where
  "scope_names (InterpretScope vs par) = dom vs # (case par of None \<Rightarrow> [] | Some p \<Rightarrow> scope_names p)"

abbreviation names :: "world \<Rightarrow> string set list" where
  "names w \<equiv> scope_names (scopes w)"

lemma report_names [simp]: "scopes (report_error e w) = scopes w"
  by (simp add: report_error_def)

lemma returns_names: "returns r w = Some (v, w') \<Longrightarrow> scopes w' = scopes w"
  by (auto simp: returns_def split: outcome.splits option.splits)

fun declaring_scope :: "string \<Rightarrow> string set list \<Rightarrow> nat option" where
  "declaring_scope name [] = None"
| "declaring_scope name (d # ds) = (if name \<in> d then Some 0 else map_option Suc (declaring_scope name ds))"

lemma iterator_names: "find_value_iterator name s = declaring_scope name (scope_names s)"
  by (induction name s rule: find_value_iterator.induct) (auto split: option.split)

lemma put_at_names: "declaring_scope name (scope_names s) = Some n \<Longrightarrow> scope_names (put_at n name val s) = scope_names s"
proof (induction n arbitrary: s)
  case 0
  then show ?case by (cases s) (auto split: if_splits)
next
  case (Suc n)
  then show ?case by (cases s) (auto split: if_splits option.splits)
qed

lemma set_value_names:
  assumes "set_value t name kind raw op w = Some w'" "\<And>v w2. raw w = Some (v, w2) \<Longrightarrow> names w2 = names w"
  shows "names w' = names w"
proof (cases "declaring_scope name (names w)")
  case None
  with assms(1) show ?thesis by (auto simp: set_value_def iterator_names)
next
  case (Some n)
  with assms(1) obtain v w2 where raw: "raw w = Some (Some v, w2)"
    by (auto simp: set_value_def iterator_names bind_eq_Some_conv split: option.splits)
  have put: "names (put_value n name x w3) = names w2" if "scopes w3 = scopes w2" for x w3
    using Some assms(2)[OF raw] that by (simp add: put_value_def put_at_names)
  show ?thesis
    using assms(1) Some raw assms(2)[OF raw] put
    by (auto simp: set_value_def iterator_names bind_eq_Some_conv dest!: returns_names
        split: if_splits option.splits)
qed

lemma identifier_names: "identifier_value name w = Some (v, w') \<Longrightarrow> w' = w"
  by (auto simp: identifier_value_def split: option.splits)

lemma evaluated_names: "evaluated_value t e w = Some (v, w') \<Longrightarrow> names w' = names w"
proof (induction t e w arbitrary: v w' rule: evaluated_value.induct)
  case (3 t op first second kind w)
  then obtain f w1 where f: "evaluated_value t first w = Some (f, w1)" by (auto simp: bind_eq_Some_conv)
  with 3 show ?case
    by (auto simp: bind_eq_Some_conv dest!: returns_names split: option.splits if_splits)
next
  case (7 t inc pst name kind w)
  then show ?case
    by (auto simp: bind_eq_Some_conv dest!: identifier_names set_value_names split: if_splits)
qed (auto simp: bind_eq_Some_conv dest!: identifier_names returns_names split: option.splits)

lemma bool_names: "evaluated_bool t e w = Some (b, w') \<Longrightarrow> names w' = names w"
proof -
  assume b: "evaluated_bool t e w = Some (b, w')"
  then obtain v w1 where "evaluated_value t e w = Some (v, w1)" by (auto simp: evaluated_bool_def bind_eq_Some_conv)
  with b show ?thesis by (cases v; cases "the v") (auto simp: evaluated_bool_def dest: evaluated_names)
qed

lemma else_if_names: "else_if_block t k elseIfs elseBody w = Some (block, w') \<Longrightarrow> names w' = names w"
proof (induction elseIfs arbitrary: k w)
  case (Cons elseIf elseIfs)
  then obtain b w1 where "evaluated_bool t (fst elseIf) w = Some (b, w1)" by (auto simp: bind_eq_Some_conv)
  with Cons show ?case by (auto dest: bool_names split: if_splits)
qed auto

lemma if_names: "eval_body_for_if t condition elseIfs elseBody w = Some (block, w') \<Longrightarrow> names w' = names w"
  by (auto simp: eval_body_for_if_def bind_eq_Some_conv dest!: else_if_names bool_names split: if_splits)

lemma scan_cases_names: "scan_cases t cond i cases w = Some (b, w') \<Longrightarrow> names w' = names w"
proof (induction t cond i cases w rule: scan_cases.induct)
  case (3 t cond i e j cases w)
  show ?case
  proof (cases "j = i")
    case True
    with 3(3) obtain v w1 isEqual w2 where ev: "evaluated_value t e w = Some (Some v, w1)"
        "returns (evaluate t None IsEqual v cond) w1 = Some (isEqual, w2)"
      by (auto simp: bind_eq_Some_conv split: option.splits)
    moreover have "names w1 = names w" "scopes w2 = scopes w1"
      using ev by (auto dest: evaluated_names returns_names)
    ultimately show ?thesis using True 3 by (auto split: if_splits)
  next
    case False
    with 3 show ?thesis by simp
  qed
qed auto

lemma scan_scopes_names: "scan_scopes t cond cases is w = Some (block, w') \<Longrightarrow> names w' = names w"
proof (induction "is" arbitrary: w)
  case (Cons i "is")
  then obtain b w1 where "scan_cases t cond i cases w = Some (b, w1)" by (auto simp: bind_eq_Some_conv)
  with Cons show ?case by (auto dest: scan_cases_names split: if_splits)
qed auto

lemma switch_names:
  "eval_switch_block t expression cases block_count defScope w = Some (block, w') \<Longrightarrow> names w' = names w"
  by (auto simp: eval_switch_block_def bind_eq_Some_conv dest!: scan_scopes_names evaluated_names
      split: option.splits)

lemma assign_names: "assign t name kind op e w = Some w' \<Longrightarrow> names w' = names w"
  by (auto simp: assign_def bind_eq_Some_conv dest!: evaluated_names set_value_names split: if_splits)

lemma scope_names_hd: "scope_names s \<noteq> []"
  by (cases s) simp

lemma declare_names: "tl (scope_names (declare_value name v s)) = tl (scope_names s)"
  by (cases s) (simp add: declare_value_def)

lemma var_init_names: "var_init t name type init w = Some w' \<Longrightarrow> tl (names w') = tl (names w)"
  by (auto simp: var_init_def declare_in_def bind_eq_Some_conv declare_names dest!: evaluated_names
      split: option.splits decl_type.splits)

lemma open_names [simp]: "names (open_scope w) = {} # names w"
  by (simp add: open_scope_def new_scope_def)

lemma close_names: "tl (names w) \<noteq> [] \<Longrightarrow> names (close_scope w) = tl (names w)"
  by (cases "scopes w") (auto simp: close_scope_def leave_values_def split: option.splits)

lemma in_block_names:
  assumes "in_block f w = Some cw" "\<And>cw. f (open_scope w) = Some cw \<Longrightarrow> tl (names (snd cw)) = names w"
  shows "names (snd cw) = names w"
  using assms scope_names_hd[of "scopes w"]
  by (fastforce simp: in_block_def bind_eq_Some_conv close_names)

lemma run_loop_invariant:
  assumes step: "\<And>x y b. P x \<Longrightarrow> stp x = Some (y, b) \<Longrightarrow> P y" and ret: "run_loop stp x = Some y"
  shows "P x \<Longrightarrow> P y"
proof -
  have "stp = stp \<longrightarrow> P x \<longrightarrow> P y"
  proof (rule run_loop.raw_induct[where P = "\<lambda>s x y. s = stp \<longrightarrow> P x \<longrightarrow> P y", OF _ ret], intro impI)
    fix f s x y
    assume "\<And>s x y. f s x = Some y \<Longrightarrow> s = stp \<longrightarrow> P x \<longrightarrow> P y"
      and "s x \<bind> (\<lambda>r. if snd r then f s (fst r) else Some (fst r)) = Some y" and "s = stp" "P x"
    then show "P y" using step[of x] by (auto simp: bind_eq_Some_conv split: if_splits)
  qed
  then show "P x \<Longrightarrow> P y" by simp
qed

lemma each_char_invariant:
  assumes "\<And>i c x y b. P x \<Longrightarrow> stp i c x = Some (y, b) \<Longrightarrow> P y"
  shows "each_char stp i str x = Some y \<Longrightarrow> P x \<Longrightarrow> P y"
  by (induction str arbitrary: i x) (auto simp: bind_eq_Some_conv dest: assms split: if_splits)

lemma after_iteration_keeps:
  assumes "after_iteration next cw = Some (y, b)" "P (snd cw)"
    and "\<And>w y b. P w \<Longrightarrow> next w = Some (y, b) \<Longrightarrow> P (snd y)"
  shows "P (snd y)"
  using assms by (auto simp: after_iteration_def split: completion.splits)

text \<open>The statements that declare a name in the scope they run in.\<close>

fun declares_name :: "ast_stmt \<Rightarrow> bool" where
  "declares_name (VarInitStmt name type init) = True"
| "declares_name (UnsafeBlock body) = list_ex declares_name body"
| "declares_name _ = False"

lemma while_names:
  assumes body: "\<And>w cw. b w = Some cw \<Longrightarrow> tl (names (snd cw)) = tl (names w)"
    and cond: "\<And>w b' w'. condition w = Some (b', w') \<Longrightarrow> names w' = names w"
    and inc: "\<And>w w'. inc w = Some w' \<Longrightarrow> tl (names w') = tl (names w)"
    and run: "run_loop (run_while condition b inc) (c, w) = Some cw"
  shows "tl (names (snd cw)) = tl (names w)"
proof -
  have block: "names (snd y) = names w" if "in_block b w = Some y" for w y
    using that by (rule in_block_names) (auto dest: body)
  have "(\<lambda>cw. tl (names (snd cw)) = tl (names w)) cw"
  proof (rule run_loop_invariant[OF _ run])
    fix x y r
    assume x: "tl (names (snd x)) = tl (names w)" and step: "run_while condition b inc x = Some (y, r)"
    then obtain b' w1 where c: "condition (snd x) = Some (b', w1)" by (auto simp: run_while_def bind_eq_Some_conv)
    show "tl (names (snd y)) = tl (names w)"
    proof (cases b')
      case True
      with step c obtain z where z: "in_block b w1 = Some z"
          "after_iteration (\<lambda>w. inc w \<bind> (\<lambda>w. Some ((Completes, w), True))) z = Some (y, r)"
        by (auto simp: run_while_def bind_eq_Some_conv)
      have "tl (names (snd z)) = tl (names w)" using x cond[OF c] block[OF z(1)] by simp
      with z(2) show ?thesis
        by (rule after_iteration_keeps[where P = "\<lambda>v. tl (names v) = tl (names w)"])
          (auto simp: bind_eq_Some_conv dest!: inc)
    next
      case False
      with step c x cond[OF c] show ?thesis by (auto simp: run_while_def)
    qed
  qed simp
  then show ?thesis .
qed

lemma do_while_names:
  assumes body: "\<And>w cw. b w = Some cw \<Longrightarrow> tl (names (snd cw)) = tl (names w)"
    and cond: "\<And>w b' w'. condition w = Some (b', w') \<Longrightarrow> names w' = names w"
    and run: "run_loop (run_do_while b condition) (c, w) = Some cw"
  shows "tl (names (snd cw)) = tl (names w)"
proof -
  have block: "names (snd y) = names w" if "in_block b w = Some y" for w y
    using that by (rule in_block_names) (auto dest: body)
  have "(\<lambda>cw. tl (names (snd cw)) = tl (names w)) cw"
  proof (rule run_loop_invariant[OF _ run])
    fix x y r
    assume x: "tl (names (snd x)) = tl (names w)" and step: "run_do_while b condition x = Some (y, r)"
    then obtain z where z: "in_block b (snd x) = Some z"
        "after_iteration (\<lambda>w. condition w \<bind> (\<lambda>(b, w). Some ((Completes, w), b))) z = Some (y, r)"
      by (auto simp: run_do_while_def bind_eq_Some_conv)
    have "tl (names (snd z)) = tl (names w)" using x block[OF z(1)] by simp
    with z(2) show "tl (names (snd y)) = tl (names w)"
      by (rule after_iteration_keeps[where P = "\<lambda>v. tl (names v) = tl (names w)"])
        (auto simp: bind_eq_Some_conv dest!: cond)
  qed simp
  then show ?thesis .
qed

lemma char_names:
  assumes body: "\<And>w cw. b w = Some cw \<Longrightarrow> tl (names (snd cw)) = tl (names w)"
    and run: "each_char (run_char var index b) i str (c, w) = Some cw"
  shows "names (snd cw) = names w"
proof -
  have decl: "tl (names (declare_char var index i c w)) = tl (names w)" for i c w
    by (simp add: declare_char_def Let_def declare_in_def declare_names split: option.split prod.split)
  have block: "names (snd y) = names w" if "in_block (\<lambda>w. b (declare_char var index i c w)) w = Some y" for i c w y
    using that by (rule in_block_names) (auto dest!: body simp: decl)
  have "(\<lambda>cw. names (snd cw) = names w) cw"
  proof (rule each_char_invariant[OF _ run])
    fix i c x y r
    assume x: "names (snd x) = names w" and step: "run_char var index b i c x = Some (y, r)"
    then obtain z where z: "in_block (\<lambda>w. b (declare_char var index i c w)) (snd x) = Some z"
        "after_iteration (\<lambda>w. Some ((Completes, w), True)) z = Some (y, r)"
      by (auto simp: run_char_def bind_eq_Some_conv)
    have "names (snd z) = names w" using x block[OF z(1)] by simp
    with z(2) show "names (snd y) = names w"
      by (rule after_iteration_keeps[where P = "\<lambda>v. names v = names w"]) auto
  qed simp
  then show ?thesis .
qed

lemma run_names:
  "run t n w = Some cw \<Longrightarrow>
     tl (names (snd cw)) = tl (names w) \<and> (declares_name n \<or> names (snd cw) = names w)"
  "run_nodes t ns w = Some cw \<Longrightarrow>
     tl (names (snd cw)) = tl (names w) \<and> (list_ex declares_name ns \<or> names (snd cw) = names w)"
  "run_block t k bs w = Some cw \<Longrightarrow> tl (names (snd cw)) = tl (names w)"
proof (induction t n w and t ns w and t k bs w arbitrary: cw and cw and cw rule: run_run_nodes_run_block.induct)
  case (7 t condition ifBody elseIfs elseBody w)
  then obtain block w1 where b: "eval_body_for_if t condition elseIfs elseBody w = Some (block, w1)"
    by (auto simp: bind_eq_Some_conv)
  have "names (snd cw) = names w1" if "block = Some k" for k
    by (rule in_block_names) (use 7 b that in auto)
  with 7 b if_names[OF b] show ?case by (cases block) auto
next
  case (8 t expression cases blocks defScope w)
  then obtain block w1 where b: "eval_switch_block t expression cases (length blocks) defScope w = Some (block, w1)"
    by (auto simp: bind_eq_Some_conv)
  have "names (snd cw) = names w1" if "block = Some k" for k
  proof (rule in_block_names)
    show "in_block (\<lambda>w. evaluated_value t expression w \<bind> (\<lambda>(cond, w). run_block t k blocks w)) w1 = Some cw"
      using 8(2) b that by simp
    fix z assume "evaluated_value t expression (open_scope w1) \<bind> (\<lambda>(cond, w). run_block t k blocks w) = Some z"
    then obtain v w2 where e: "evaluated_value t expression (open_scope w1) = Some (v, w2)"
        "run_block t k blocks w2 = Some z"
      by (auto simp: bind_eq_Some_conv)
    have "tl (names (snd z)) = tl (names w2)"
      by (rule 8(1)[of "(block, w1)" block w1 k "open_scope w1" "(v, w2)" v w2]) (use b that e in simp_all)
    then show "tl (names (snd z)) = names w1" using evaluated_names[OF e(1)] by simp
  qed
  with 8 b switch_names[OF b] show ?case by (cases block) auto
next
  case (9 t condition body w)
  have "names (snd cw) = names w"
    using 9(2) unfolding run.simps
    by (rule in_block_names) (use 9(1) in \<open>auto dest!: while_names[rotated 3] bool_names\<close>)
  then show ?case by simp
next
  case (10 t body condition w)
  have "names (snd cw) = names w"
    using 10(2) unfolding run.simps
    by (rule in_block_names) (use 10(1) in \<open>auto dest!: do_while_names[rotated 2] bool_names\<close>)
  then show ?case by simp
next
  case (11 t initializer condition increment body w)
  have "names (snd cw) = names w"
  proof (rule in_block_names[OF 11(4)[unfolded run.simps]])
    fix z assume z: "run t initializer (open_scope w) \<bind> (\<lambda>(c, w). run_loop (run_while
        (evaluated_bool t condition) (run_nodes t body) (\<lambda>w. map_option snd (run t increment w))) (Completes, w)) = Some z"
    then obtain c1 w1 where y: "run t initializer (open_scope w) = Some (c1, w1)" by (auto simp: bind_eq_Some_conv)
    then have init: "tl (names w1) = names w" using 11(1) by fastforce
    have "tl (names (snd z)) = tl (names w1)"
    proof (rule while_names[where b = "run_nodes t body" and inc = "\<lambda>w. map_option snd (run t increment w)"])
      show "run_loop (run_while (evaluated_bool t condition) (run_nodes t body)
          (\<lambda>w. map_option snd (run t increment w))) (Completes, w1) = Some z"
        using z y by simp
      show "tl (names (snd cw)) = tl (names w)" if "run_nodes t body w = Some cw" for w cw
        using 11(2)[OF y refl that] by blast
      show "tl (names w') = tl (names w)" if "map_option snd (run t increment w) = Some w'" for w w'
        using 11(3)[OF y refl] that by auto
    qed (rule bool_names)
    with init show "tl (names (snd z)) = names w" by simp
  qed
  then show ?case by simp
next
  case (12 t body w)
  have "names (snd cw) = names w"
    using 12(2) unfolding run.simps
    by (rule in_block_names) (use 12(1) in \<open>auto dest!: while_names[rotated 3]\<close>)
  then show ?case by simp
next
  case (13 t var index e body w)
  then obtain v w1 where e: "evaluated_value t e w = Some (v, w1)" by (auto simp: bind_eq_Some_conv)
  have "names (snd cw) = names w1" if "v = Some (VString str)" for str
    by (rule char_names[where b = "run_nodes t body"]) (use 13 e that in auto)
  with 13(2) e evaluated_names[OF e] show ?case by (cases v; cases "the v") auto
next
  case (14 t body w)
  have "names (snd cw) = names w"
    using 14(2) unfolding run.simps by (rule in_block_names) (use 14(1) in auto)
  then show ?case by simp
qed (auto simp: completed_def run_break_def run_return_def bind_eq_Some_conv
    dest!: assign_names var_init_names evaluated_names split: option.splits if_splits)

subsection \<open>Programs\<close>

abbreviation number :: "int_n_kind \<Rightarrow> u64 \<Rightarrow> comptime_value" where
  "number k n \<equiv> VInt \<lparr>num_value = n, num_kind = k\<rparr>"

definition empty_world :: world where
  "empty_world = \<lparr>scopes = new_scope None, loop_break_value = None, errors = []\<rparr>"

definition linux64 :: target_data where
  "linux64 = \<lparr>is64Bit = True, windows = False\<rparr>"

text \<open>
  \<^verbatim>\<open>var s = 0; for(var i = 0; i < n; i += 1) { s += i } return s\<close>, on \<^verbatim>\<open>u64\<close>.
\<close>

definition sum_body :: "ast_stmt list" where
  "sum_body =
    [VarInitStmt ''s'' (Some (DeclIntN KU64)) (Some (Literal (number KU64 0))),
     ForLoop (VarInitStmt ''i'' (Some (DeclIntN KU64)) (Some (Literal (number KU64 0))))
       (Expression LessThan (Identifier ''i'' (Some KU64)) (Identifier ''n'' (Some KU64)) None)
       (AssignStmt ''i'' (Some KU64) Addition (Literal (number KU64 1)))
       [AssignStmt ''s'' (Some KU64) Addition (Identifier ''i'' (Some KU64))],
     ReturnStmt (Some (Identifier ''s'' (Some KU64)))]"

text \<open>A search with nested loops, a continue, a break and a return inside.\<close>

definition search_body :: "ast_stmt list" where
  "search_body =
    [VarInitStmt ''x'' None (Some (Literal (number KU64 0))),
     WhileLoop (Literal (VBool True))
       [AssignStmt ''x'' (Some KU64) Addition (Literal (number KU64 1)),
        IfStmt (Expression LessThan (Identifier ''x'' (Some KU64)) (Literal (number KU64 3)) None)
          [ContinueStmt] [] None,
        LoopBlock [IfStmt (Expression IsEqual (Identifier ''x'' (Some KU64)) (Literal (number KU64 4)) None)
          [BlockScope [ReturnStmt (Some (Identifier ''x'' (Some KU64)))],
           AssignStmt ''x'' (Some KU64) Assignment (Literal (number KU64 9))] []
          (Some [BreakStmt None])],
        ValueWrapper (Identifier ''x'' (Some KU64))]]"

text \<open>A break two blocks deep, with a statement behind the inner block.\<close>

definition deep_break_body :: "ast_stmt list" where
  "deep_break_body =
    [VarInitStmt ''x'' None (Some (Literal (number KU64 0))),
     WhileLoop (Literal (VBool True))
       [IfStmt (Literal (VBool True))
          [IfStmt (Literal (VBool True)) [BreakStmt None] [] None,
           AssignStmt ''x'' (Some KU64) Assignment (Literal (number KU64 5))] [] None],
     ReturnStmt (Some (Identifier ''x'' (Some KU64)))]"

subsection \<open>The sum of the numbers below a bound\<close>

lemma evaluate_u64:
  "evaluate t None LessThan (number KU64 a) (number KU64 b) = Value (VBool (a < b))"
  "evaluate t (Some KU64) Addition (number KU64 a) (number KU64 b) = Value (number KU64 (a + b))"
  by (simp_all add: evaluate_def evaluate_ints_def int_answer_def Let_def operate_u64_def is_bool_output_def
      pack_by_kind_def num_bits_def)

lemma pack_u64: "pack_by_kind t KU64 a = \<lparr>num_value = a, num_kind = KU64\<rparr>"
  by (simp add: pack_by_kind_def num_bits_def)

definition sum_world :: "world \<Rightarrow> u64 \<Rightarrow> u64 \<Rightarrow> u64 \<Rightarrow> world" where
  "sum_world w n s i = w\<lparr>scopes := InterpretScope [''i'' \<mapsto> Some (number KU64 i)]
     (Some (InterpretScope [''s'' \<mapsto> Some (number KU64 s)]
       (Some (InterpretScope [''n'' \<mapsto> Some (number KU64 n)] (Some (scopes w))))))\<rparr>"

lemmas sum_start_defs = completed_def var_init_def coerce_initializer_def declare_in_def declare_value_def
  open_scope_def close_scope_def new_scope_def leave_values_def sum_world_def

abbreviation sum_condition :: "target_data \<Rightarrow> bool evaluation" where
  "sum_condition t \<equiv> evaluated_bool t
     (Expression LessThan (Identifier ''i'' (Some KU64)) (Identifier ''n'' (Some KU64)) None)"

abbreviation sum_increment :: "target_data \<Rightarrow> world \<Rightarrow> world option" where
  "sum_increment t \<equiv> \<lambda>w. map_option snd (run t (AssignStmt ''i'' (Some KU64) Addition (Literal (number KU64 1))) w)"

abbreviation sum_block :: "target_data \<Rightarrow> run" where
  "sum_block t \<equiv> run_nodes t [AssignStmt ''s'' (Some KU64) Addition (Identifier ''i'' (Some KU64))]"

lemma sum_condition_world: "sum_condition t (sum_world w n s i) = Some (i < n, sum_world w n s i)"
  by (simp add: evaluated_bool_def identifier_value_def sum_world_def short_circuits_def evaluate_u64 returns_def)

lemma sum_block_world: "in_block (sum_block t) (sum_world w n s i) = Some (Completes, sum_world w n (s + i) i)"
  by (simp add: in_block_def open_scope_def new_scope_def sum_world_def assign_def set_value_def
      identifier_value_def evaluate_u64 returns_def put_value_def completed_def close_scope_def leave_values_def)

lemma sum_increment_world: "sum_increment t (sum_world w n s i) = Some (sum_world w n s (i + 1))"
  by (simp add: sum_world_def assign_def set_value_def evaluate_u64 returns_def put_value_def completed_def)

lemma sum_loop:
  "i \<le> n \<Longrightarrow> run_loop (run_while (sum_condition t) (sum_block t) (sum_increment t)) (Completes, sum_world w n s i) =
    Some (Completes, sum_world w n (s + of_nat (\<Sum>{unat i..<unat n})) n)"
proof (induction "unat n - unat i" arbitrary: i s)
  case 0
  then have "i = n" by (simp add: word_le_nat_alt word_unat_eq_iff)
  then show ?case
    by (subst run_loop.simps) (simp add: run_while_def sum_condition_world)
next
  case (Suc m)
  then have less: "i < n" "unat i < unat n" by (auto simp: word_less_nat_alt)
  then have next_i: "unat (i + 1) = Suc (unat i)"
  proof -
    have "unat n < 2 ^ LENGTH(64)" by (rule unsigned_less)
    with less show ?thesis by (simp add: unat_word_ariths)
  qed
  with less have "i + 1 \<le> n" "m = unat n - unat (i + 1)" using Suc(2) by (auto simp: word_le_nat_alt)
  note IH = Suc(1)[OF this(2,1), of "s + i"]
  have sum: "\<Sum>{unat i..<unat n} = unat i + \<Sum>{unat (i + 1)..<unat n}"
    using less next_i by (simp add: sum.atLeast_Suc_lessThan)
  show ?case
    by (subst run_loop.simps)
      (simp add: run_while_def sum_condition_world less after_iteration_def sum_block_world
        sum_increment_world IH sum add.assoc del: run.simps run_nodes.simps)
qed

subsection \<open>Properties\<close>

text \<open>
  C5. The interpreter runs a function body the way its statements say, wherever no break and
  no continue has a statement behind it in a block that is not a loop's: the flags it raises
  in the tree and in its scopes have the effect of leaving blocks, loops and the function at
  the right places, a return from any depth. It returns exactly when the semantics of
  completions does, with the same value and world, and leaves no flag raised, so that the
  same tree can run again.
\<close>

theorem interpreter_runs_function:
  assumes "body_ok body"
  shows "call_function t body params (resting k w) =
    map_option (\<lambda>(v, w). (v, resting k w)) (run_function t body params w)"
  using assms by (rule call_after_run)

theorem interpreter_runs_function_witness:
  "body_ok search_body \<and>
   map_option fst (call_function linux64 search_body [] (resting 0 empty_world)) = Some (Some (number KU64 4)) \<and>
   map_option fst (call_function linux64 search_body [] (resting 0 empty_world)) =
     map_option fst (map_option (\<lambda>(v, w). (v, resting 0 w)) (run_function linux64 search_body [] empty_world))"
proof (intro conjI)
  show ok: "body_ok search_body" by code_simp
  show "map_option fst (call_function linux64 search_body [] (resting 0 empty_world)) =
     map_option fst (map_option (\<lambda>(v, w). (v, resting 0 w)) (run_function linux64 search_body [] empty_world))"
    by (subst interpreter_runs_function[OF ok]) (rule refl)
  show "map_option fst (call_function linux64 search_body [] (resting 0 empty_world)) = Some (Some (number KU64 4))"
    by code_simp
qed

text \<open>
  A break or a continue in a nested block does not end the block around it: the rest of
  that block runs before the loop is left.
\<close>

theorem deep_break_runs_on:
  "map_option fst (call_function linux64 deep_break_body [] (resting 0 empty_world)) = Some (Some (number KU64 5)) \<and>
   map_option fst (run_function linux64 deep_break_body [] empty_world) = Some (Some (number KU64 0))"
  by (rule conjI; code_simp)

text \<open>
  Running statements leaves every enclosing scope with the names it had: only a variable
  declaration, or an unsafe block with one, adds a name, and to the innermost scope only.
\<close>

theorem statements_keep_names:
  "run t n w = Some (c, w') \<Longrightarrow>
     tl (names w') = tl (names w) \<and> (declares_name n \<or> names w' = names w)"
  by (drule run_names(1)) simp

theorem statements_keep_names_witness:
  "let n = BlockScope [VarInitStmt ''x'' None (Some (Literal VNull))]
   in run linux64 n empty_world = Some (Completes, empty_world) \<and>
     tl (names empty_world) = tl (names empty_world) \<and> (declares_name n \<or> names empty_world = names empty_world)"
proof -
  have "run linux64 (BlockScope [VarInitStmt ''x'' None (Some (Literal VNull))]) empty_world = Some (Completes, empty_world)"
    by (simp add: in_block_def open_scope_def close_scope_def empty_world_def completed_def var_init_def
        coerce_initializer_def declare_in_def declare_value_def new_scope_def leave_values_def)
  with statements_keep_names[OF this] show ?thesis by simp
qed

text \<open>
  C22. A counting loop ends and computes: for every bound \<open>n\<close> the interpreted function returns
  the sum of the numbers below \<open>n\<close>, modulo \<open>2 ^ 64\<close>, and leaves the world and the tree as
  they were.
\<close>

theorem sum_function_returns:
  "call_function t sum_body [(''n'', Some (number KU64 n))] (resting k w) =
     Some (Some (number KU64 (of_nat (\<Sum>{0..<unat n}))), resting k w)"
proof -
  have ok: "body_ok sum_body" by code_simp
  let ?w = "open_scope (declare_params [(''n'', Some (number KU64 n))] (open_scope w))"
  have "run t (VarInitStmt ''s'' (Some (DeclIntN KU64)) (Some (Literal (number KU64 0)))) ?w =
      Some (Completes, close_scope (sum_world w n 0 i))" for i
    by (simp add: declare_params_def sum_start_defs)
  moreover have "run t (ForLoop (VarInitStmt ''i'' (Some (DeclIntN KU64)) (Some (Literal (number KU64 0))))
      (Expression LessThan (Identifier ''i'' (Some KU64)) (Identifier ''n'' (Some KU64)) None)
      (AssignStmt ''i'' (Some KU64) Addition (Literal (number KU64 1)))
      [AssignStmt ''s'' (Some KU64) Addition (Identifier ''i'' (Some KU64))])
      (close_scope (sum_world w n 0 0)) =
    Some (Completes, close_scope (sum_world w n (of_nat (\<Sum>{0..<unat n})) n))"
  proof -
    have "run t (VarInitStmt ''i'' (Some (DeclIntN KU64)) (Some (Literal (number KU64 0))))
        (open_scope (close_scope (sum_world w n 0 0))) = Some (Completes, sum_world w n 0 0)"
      by (simp add: sum_start_defs)
    with sum_loop[of 0 n t w 0] show ?thesis by (simp add: in_block_def del: run.simps(1,2))
  qed
  ultimately have "run_nodes t sum_body ?w =
      Some (Returns (Some (number KU64 (of_nat (\<Sum>{0..<unat n})))),
        close_scope (sum_world w n (of_nat (\<Sum>{0..<unat n})) n))"
    by (simp add: sum_body_def run_return_def identifier_value_def close_scope_def leave_values_def
        sum_world_def del: run.simps(1,2,11))
  then show ?thesis
    by (subst interpreter_runs_function[OF ok])
      (simp add: run_function_def in_block_def sum_world_def close_scope_def leave_values_def)
qed

text \<open>
  An assignment evaluates its right side twice: after \<open>x = i++\<close> the variable \<open>x\<close> has the
  value that \<open>i\<close> had, and \<open>i\<close> is incremented two times.
\<close>

theorem assignment_evaluates_twice:
  assumes "scopes w = InterpretScope vs par" "vs x \<noteq> None"
    and "vs i = Some (Some (VInt n))" "x \<noteq> i"
  shows "assign t x kind Assignment (IncDecValue True True i (Some (num_kind n))) w =
    Some (w\<lparr>scopes := InterpretScope (vs(x \<mapsto> Some (VInt n),
      i \<mapsto> Some (VInt (pack_by_kind t (num_kind n)
        (num_value (pack_by_kind t (num_kind n) (num_value n + 1)) + 1))))) par\<rparr>)"
proof -
  have add: "evaluate t (Some k) Addition (VInt m) (VInt \<lparr>num_value = 1, num_kind = KShort\<rparr>) =
      Value (VInt (pack_by_kind t k (num_value m + 1)))" for k m
    by (simp add: evaluate_def evaluate_ints_def int_answer_def Let_def operate_u64_def is_bool_output_def)
  from assms show ?thesis
    by (auto simp: assign_def set_value_def identifier_value_def put_value_def returns_def add
        fun_upd_twist split: option.split)
qed

theorem assignment_evaluates_twice_witness:
  "let w = empty_world\<lparr>scopes := InterpretScope [''x'' \<mapsto> None, ''i'' \<mapsto> Some (number KU64 7)] None\<rparr>
   in assign linux64 ''x'' None Assignment (IncDecValue True True ''i'' (Some KU64)) w =
     Some (w\<lparr>scopes := InterpretScope [''x'' \<mapsto> Some (number KU64 7), ''i'' \<mapsto> Some (number KU64 9)] None\<rparr>)"
proof -
  let ?vs = "[''x'' \<mapsto> None, ''i'' \<mapsto> Some (number KU64 7)]"
  show ?thesis
    using assignment_evaluates_twice[of "empty_world\<lparr>scopes := InterpretScope ?vs None\<rparr>" ?vs None "''x''" "''i''"
        "\<lparr>num_value = 7, num_kind = KU64\<rparr>" linux64 None]
    by (simp add: pack_u64 fun_upd_twist)
qed

end
