(* ===== verification/Cmd_Options.thy ===== *)
theory Cmd_Options
  imports Main "HOL-Library.AList"
begin

text \<open>
  Command-line options: \<^verbatim>\<open>utils/CmdUtils.h\<close>. The options live in an array; the map from names
  holds references to them, so the long and the short name of an option reach one object:
  here an index into the list of options. The union of a single value and a list of values is
  both fields, of which the option's type says which one counts. \<^verbatim>\<open>argv\<close> is a list of strings.
\<close>

datatype cmd_option_type = NoValue | SingleValue | MultiValued | SubCommand

record cmd_option =
  large_opt :: string
  small_opt :: string
  opt_type :: cmd_option_type
  user_used_large_opt :: bool
  is_initialized :: bool
  single_value :: "string option"
  multi_values :: "string list"

record cmd_options =
  opt_store :: "cmd_option list"
  opt_data :: "string \<Rightarrow> nat option"
  arguments :: "string list"
  options :: "(string \<times> string) list"

subsection \<open>One option\<close>

definition new_option :: "string \<Rightarrow> string \<Rightarrow> cmd_option_type \<Rightarrow> cmd_option" where
  "new_option large small ty =
     \<lparr>large_opt = large, small_opt = small, opt_type = ty, user_used_large_opt = False,
      is_initialized = False, single_value = None, multi_values = []\<rparr>"

definition initialize :: "cmd_option \<Rightarrow> cmd_option" where
  "initialize d =
    (if is_initialized d then d
     else (case opt_type d of
             NoValue \<Rightarrow> d\<lparr>single_value := None\<rparr>
           | SingleValue \<Rightarrow> d\<lparr>single_value := None\<rparr>
           | MultiValued \<Rightarrow> d\<lparr>multi_values := []\<rparr>
           | SubCommand \<Rightarrow> d\<lparr>multi_values := []\<rparr>)\<lparr>is_initialized := True\<rparr>)"

text \<open>
  \<^verbatim>\<open>put_subcommand\<close> with the arguments after the command's name; it gives the arguments that
  are left to parse, all or none.
\<close>

definition put_subcommand :: "string list \<Rightarrow> cmd_option \<Rightarrow> bool \<times> string list \<times> cmd_option" where
  "put_subcommand rest d =
    (if opt_type d = SubCommand then
       (True, [], (initialize d)\<lparr>multi_values := multi_values (initialize d) @ rest\<rparr>)
     else (False, rest, d))"

definition put_value :: "string \<Rightarrow> bool \<Rightarrow> cmd_option \<Rightarrow> cmd_option" where
  "put_value val is_large d =
    (let d = initialize d
     in case opt_type d of
          NoValue \<Rightarrow> d\<lparr>user_used_large_opt := is_large, single_value := Some val\<rparr>
        | SingleValue \<Rightarrow> d\<lparr>user_used_large_opt := is_large, single_value := Some val\<rparr>
        | MultiValued \<Rightarrow> d\<lparr>multi_values := multi_values d @ [val]\<rparr>
        | SubCommand \<Rightarrow> d\<lparr>multi_values := multi_values d @ [val]\<rparr>)"

definition get_multi_opt_values :: "cmd_option \<Rightarrow> string list" where
  "get_multi_opt_values d = (if \<not> is_initialized d then [] else multi_values d)"

subsection \<open>The registered options\<close>

definition new_cmd_options :: cmd_options where
  "new_cmd_options = \<lparr>opt_store = [], opt_data = (\<lambda>k. None), arguments = [], options = []\<rparr>"

text \<open>\<^verbatim>\<open>emplace\<close> keeps an entry that is there.\<close>

definition emplace :: "string \<Rightarrow> nat \<Rightarrow> (string \<Rightarrow> nat option) \<Rightarrow> (string \<Rightarrow> nat option)" where
  "emplace k i m = (if m k = None then m(k \<mapsto> i) else m)"

fun register_names :: "nat \<Rightarrow> cmd_option list \<Rightarrow> (string \<Rightarrow> nat option) \<Rightarrow> (string \<Rightarrow> nat option)" where
  "register_names i [] m = m"
| "register_names i (d # ds) m =
     (let m = (if large_opt d \<noteq> [] then emplace (large_opt d) i m else m);
          m = (if small_opt d \<noteq> [] then emplace (small_opt d) i m else m)
      in register_names (Suc i) ds m)"

definition register_options :: "cmd_option list \<Rightarrow> cmd_options \<Rightarrow> cmd_options" where
  "register_options ds st =
     st\<lparr>opt_store := opt_store st @ ds,
        opt_data := register_names (length (opt_store st)) ds (opt_data st)\<rparr>"

definition opt_val_ptr :: "string \<Rightarrow> string \<Rightarrow> cmd_options \<Rightarrow> nat option" where
  "opt_val_ptr opt small st =
    (if opt \<noteq> [] \<and> opt_data st opt \<noteq> None then opt_data st opt
     else if small \<noteq> [] \<and> opt_data st small \<noteq> None then opt_data st small
     else None)"

text \<open>The value behind \<^verbatim>\<open>single_opt_val_ptr\<close>; \<open>None\<close> is the null pointer.\<close>

definition single_opt_val :: "string \<Rightarrow> string \<Rightarrow> cmd_options \<Rightarrow> string option option" where
  "single_opt_val opt small st =
     map_option (\<lambda>i. single_value (initialize (opt_store st ! i))) (opt_val_ptr opt small st)"

definition has_value :: "string \<Rightarrow> string \<Rightarrow> cmd_options \<Rightarrow> bool option" where
  "has_value opt small st = map_option (\<lambda>v. v \<noteq> None) (single_opt_val opt small st)"

definition update_option :: "nat \<Rightarrow> (cmd_option \<Rightarrow> cmd_option) \<Rightarrow> cmd_options \<Rightarrow> cmd_options" where
  "update_option i f st = st\<lparr>opt_store := (opt_store st)[i := f (opt_store st ! i)]\<rparr>"

definition put_option :: "string \<Rightarrow> bool \<Rightarrow> string \<Rightarrow> cmd_options \<Rightarrow> cmd_options" where
  "put_option opt is_large val st =
    (case opt_data st opt of
       Some i \<Rightarrow> update_option i (put_value val is_large) st
     | None \<Rightarrow> st\<lparr>options := AList.update opt val (options st)\<rparr>)"

subsection \<open>Parsing\<close>

definition defOptValue :: string where
  "defOptValue = ''true''"

definition dash_in_front :: "string \<Rightarrow> bool" where
  "dash_in_front arg \<longleftrightarrow> arg \<noteq> [] \<and> hd arg = CHR ''-''"

definition is_type :: "string \<Rightarrow> cmd_option_type \<Rightarrow> cmd_options \<Rightarrow> bool" where
  "is_type key ty st \<longleftrightarrow>
     (case opt_data st key of Some i \<Rightarrow> opt_type (opt_store st ! i) = ty | None \<Rightarrow> False)"

text \<open>A registered option that comes without a dash: a sub command, or nothing happens.\<close>

definition enter_subcommand :: "nat \<Rightarrow> string list \<Rightarrow> cmd_options \<Rightarrow> string list \<times> cmd_options" where
  "enter_subcommand i rest st =
    (case put_subcommand rest (opt_store st ! i) of
       (ok, rest', d) \<Rightarrow> (rest', update_option i (\<lambda>_. d) st))"

text \<open>
  One turn of the loop, for the argument at its index and the ones after it: the pending
  option with whether it was long, and the state.
\<close>

definition parse_step ::
  "string \<Rightarrow> string list \<Rightarrow> string \<times> bool \<times> cmd_options \<Rightarrow> string list \<times> string \<times> bool \<times> cmd_options" where
  "parse_step user_arg rest cur = (case cur of (opt, is_large, st) \<Rightarrow>
    if dash_in_front user_arg \<and> \<not> length user_arg > 1 then (rest, opt, is_large, st)
    else if length user_arg > 1 then
      if dash_in_front user_arg then
        let is_large_opt = (user_arg ! 1 = CHR ''-'');
            option_key = drop (if is_large_opt then 2 else 1) user_arg;
            st' = (if opt \<noteq> [] then put_option opt is_large defOptValue st else st)
        in if is_type option_key NoValue st'
           then (rest, [], is_large, put_option option_key is_large_opt defOptValue st')
           else (rest, option_key, is_large_opt, st')
      else if opt = [] then
        (case opt_data st user_arg of
           Some i \<Rightarrow> (case enter_subcommand i rest st of (rest', st') \<Rightarrow> (rest', opt, is_large, st'))
         | None \<Rightarrow> (rest, opt, is_large, st\<lparr>arguments := arguments st @ [user_arg]\<rparr>))
      else (rest, [], False, put_option opt is_large user_arg st)
    else if opt = [] then
      (case opt_data st user_arg of
         Some i \<Rightarrow> (case enter_subcommand i rest st of (rest', st') \<Rightarrow> (rest', opt, is_large, st'))
       | None \<Rightarrow> (rest, opt, is_large, st))
    else (rest, [], is_large, put_option opt is_large user_arg st))"

lemma enter_subcommand_rest: "fst (enter_subcommand i rest st) \<in> {rest, []}"
  by (auto simp: enter_subcommand_def put_subcommand_def)

lemma parse_step_shorter: "length (fst (parse_step arg rest cur)) \<le> length rest"
  using enter_subcommand_rest
  by (auto simp: parse_step_def Let_def split: prod.splits option.splits)
    (metis empty_iff fst_conv insert_iff le_refl list.size(3) zero_le)+

function parse_loop :: "string list \<Rightarrow> string \<times> bool \<times> cmd_options \<Rightarrow> string \<times> bool \<times> cmd_options" where
  "parse_loop [] cur = cur"
| "parse_loop (arg # rest) cur =
     (case parse_step arg rest cur of (rest', cur') \<Rightarrow> parse_loop rest' cur')"
  by pat_completeness auto
termination
proof (relation "measure (\<lambda>(args, cur). length args)", goal_cases)
  case (2 arg rest cur x y)
  then have "x = fst (parse_step arg rest cur)" by (metis fst_conv)
  then show ?case using parse_step_shorter[of arg rest cur] by simp
qed simp

definition parse_cmd_options :: "string list \<Rightarrow> nat \<Rightarrow> cmd_options \<Rightarrow> cmd_options" where
  "parse_cmd_options argv skip st =
    (case parse_loop (drop skip argv) ([], False, st) of (opt, is_large, st') \<Rightarrow>
       if opt \<noteq> [] then put_option opt is_large defOptValue st' else st')"

end
