(* ===== verification/Cmd_Correct.thy ===== *)
theory Cmd_Correct
  imports Cmd_Options
begin

text \<open>
  What the command-line parser does with a command line written from a list of settings,
  flags and arguments, and how the names of an option lead to its value.
\<close>

subsection \<open>Command lines\<close>

text \<open>
  What a user writes: a registered flag, an option with a value, an option without one, an
  argument, or a dash on its own.
\<close>

datatype cmd_item =
    Flag bool string
  | Setting bool string string
  | Bare bool string
  | Arg string
  | Dash

definition dashes :: "bool \<Rightarrow> string" where
  "dashes long = (if long then ''--'' else ''-'')"

fun render :: "cmd_item \<Rightarrow> string list" where
  "render (Flag long key) = [dashes long @ key]"
| "render (Setting long key val) = [dashes long @ key, val]"
| "render (Bare long key) = [dashes long @ key]"
| "render (Arg a) = [a]"
| "render Dash = [''-'']"

text \<open>
  What the items mean, without the parser and its operations: the option names with the values
  they are given, the arguments that are collected, and what a registered option is after it
  was given values. An argument of a single character is lost, and so is one that is the name of
  an option.
\<close>

fun assigned :: "cmd_item \<Rightarrow> (string \<times> bool \<times> string) list" where
  "assigned (Flag long key) = [(key, long, ''true'')]"
| "assigned (Setting long key val) = [(key, long, val)]"
| "assigned (Bare long key) = [(key, long, ''true'')]"
| "assigned x = []"

fun collected :: "(string \<Rightarrow> nat option) \<Rightarrow> cmd_item \<Rightarrow> string list" where
  "collected data (Arg a) = (if length a > 1 \<and> data a = None then [a] else [])"
| "collected data x = []"

definition given_to :: "(string \<Rightarrow> nat option) \<Rightarrow> nat \<Rightarrow> cmd_item list \<Rightarrow> (bool \<times> string) list" where
  "given_to data i items = map snd (filter (\<lambda>(key, _). data key = Some i) (concat (map assigned items)))"

definition unregistered :: "(string \<Rightarrow> nat option) \<Rightarrow> cmd_item list \<Rightarrow> (string \<times> string) list" where
  "unregistered data items =
     map (\<lambda>(key, _, val). (key, val)) (filter (\<lambda>(key, _). data key = None) (concat (map assigned items)))"

definition option_after :: "(bool \<times> string) list \<Rightarrow> cmd_option \<Rightarrow> cmd_option" where
  "option_after vs d =
    (if vs = [] then d
     else if opt_type d \<in> {NoValue, SingleValue} then
       d\<lparr>is_initialized := True, user_used_large_opt := fst (last vs), single_value := Some (snd (last vs))\<rparr>
     else
       d\<lparr>is_initialized := True,
         multi_values := (if is_initialized d then multi_values d else []) @ map snd vs\<rparr>)"

text \<open>
  Lines that say what they mean: names are not empty and a short one does not begin with a dash,
  a value does not begin with a dash (it would be an option), flags are the options that take no
  value, and an argument is not the name of a sub command.
\<close>

definition key_ok :: "bool \<Rightarrow> string \<Rightarrow> bool" where
  "key_ok long key \<longleftrightarrow> key \<noteq> [] \<and> (long \<or> hd key \<noteq> CHR ''-'')"

fun item_ok :: "cmd_options \<Rightarrow> cmd_item \<Rightarrow> bool" where
  "item_ok st (Flag long key) \<longleftrightarrow> key_ok long key \<and> is_type key NoValue st"
| "item_ok st (Setting long key val) \<longleftrightarrow>
     key_ok long key \<and> \<not> is_type key NoValue st \<and> \<not> dash_in_front val"
| "item_ok st (Bare long key) \<longleftrightarrow> key_ok long key \<and> \<not> is_type key NoValue st"
| "item_ok st (Arg a) \<longleftrightarrow> \<not> dash_in_front a \<and> \<not> is_type a SubCommand st"
| "item_ok st Dash \<longleftrightarrow> True"

fun is_bare :: "cmd_item \<Rightarrow> bool" where
  "is_bare (Bare long key) = True"
| "is_bare _ = False"

text \<open>
  An option without a value must not be followed by an argument, which would be its value; a
  lone dash in between changes nothing.
\<close>

fun starts_with_arg :: "cmd_item list \<Rightarrow> bool" where
  "starts_with_arg (Arg a # xs) = True"
| "starts_with_arg (Dash # xs) = starts_with_arg xs"
| "starts_with_arg xs = False"

fun items_ok :: "cmd_options \<Rightarrow> cmd_item list \<Rightarrow> bool" where
  "items_ok st [] = True"
| "items_ok st (x # xs) =
     (item_ok st x \<and> items_ok st xs \<and> \<not> (is_bare x \<and> starts_with_arg xs))"

text \<open>Whether an option still waits for its value at the end.\<close>

fun waits :: "bool \<Rightarrow> cmd_item list \<Rightarrow> bool" where
  "waits b [] = b"
| "waits b (Dash # xs) = waits b xs"
| "waits b (x # xs) = waits (is_bare x) xs"

lemma waits_mono: "waits b xs \<Longrightarrow> (b \<Longrightarrow> c) \<Longrightarrow> waits c xs"
  by (induction b xs arbitrary: c rule: waits.induct) auto

text \<open>The same in steps, by the operation that puts a value.\<close>

fun apply_item :: "cmd_options \<Rightarrow> cmd_item \<Rightarrow> cmd_options" where
  "apply_item st (Flag long key) = put_option key long ''true'' st"
| "apply_item st (Setting long key val) = put_option key long val st"
| "apply_item st (Bare long key) = put_option key long ''true'' st"
| "apply_item st (Arg a) =
     (if length a > 1 \<and> opt_data st a = None then st\<lparr>arguments := arguments st @ [a]\<rparr> else st)"
| "apply_item st Dash = st"

subsection \<open>Options keep their names and types\<close>

lemma put_value_type [simp]: "opt_type (put_value v l d) = opt_type d"
  by (cases "opt_type d") (auto simp: put_value_def initialize_def)

lemma put_option_data [simp]: "opt_data (put_option k l v st) = opt_data st"
  by (simp add: put_option_def update_option_def split: option.split)

lemma update_type: "(\<And>d. opt_type (f d) = opt_type d) \<Longrightarrow>
   opt_type (ds[i := f (ds ! i)] ! j) = opt_type (ds ! j)"
  by (cases "i < length ds"; cases "i = j") (auto simp: list_update_beyond)

lemma put_option_is_type [simp]: "is_type key ty (put_option k l v st) = is_type key ty st"
  unfolding is_type_def put_option_data
  by (auto simp: put_option_def update_option_def update_type split: option.split)

lemma arguments_is_type [simp]: "is_type key ty (st\<lparr>arguments := as\<rparr>) = is_type key ty st"
  by (simp add: is_type_def split: option.split)

lemma apply_item_data [simp]:
  "opt_data (apply_item st x) = opt_data st" "is_type key ty (apply_item st x) = is_type key ty st"
  by (cases x; simp)+

lemma item_ok_apply [simp]: "item_ok (apply_item st x) y = item_ok st y"
  by (cases y) simp_all

lemma items_ok_apply [simp]: "items_ok (apply_item st x) ys = items_ok st ys"
  by (induction ys) simp_all

lemma items_ok_put [simp]: "items_ok (put_option k l v st) ys = items_ok st ys"
  using items_ok_apply[of st "Setting l k v" ys] by simp

subsection \<open>Parsing what was rendered\<close>

definition flush_option :: "string \<Rightarrow> bool \<Rightarrow> cmd_options \<Rightarrow> cmd_options" where
  "flush_option opt is_large st = (if opt \<noteq> [] then put_option opt is_large defOptValue st else st)"

lemma dashes_key:
  assumes "key_ok long key"
  shows "dash_in_front (dashes long @ key)" "length (dashes long @ key) > 1"
    "((dashes long @ key) ! 1 = CHR ''-'') = long"
    "drop (if long then 2 else 1) (dashes long @ key) = key"
  using assms by (cases key; auto simp: key_ok_def dashes_def dash_in_front_def)+

lemma parse_step_option:
  assumes "key_ok long key"
  shows "parse_step (dashes long @ key) rest (opt, lg, st) =
    (let st' = flush_option opt lg st
     in if is_type key NoValue st' then (rest, [], lg, put_option key long defOptValue st')
        else (rest, key, long, st'))"
  using dashes_key[OF assms] by (simp add: parse_step_def Let_def flush_option_def)

lemma parse_step_value:
  "\<not> dash_in_front v \<Longrightarrow> opt \<noteq> [] \<Longrightarrow>
   \<exists>lg'. parse_step v rest (opt, lg, st) = (rest, [], lg', put_option opt lg v st)"
  by (auto simp: parse_step_def)

lemma parse_step_argument:
  assumes "\<not> dash_in_front a" "\<not> is_type a SubCommand st"
  shows "parse_step a rest ([], lg, st) = (rest, [], lg, apply_item st (Arg a))"
  using assms
  by (auto simp: parse_step_def enter_subcommand_def put_subcommand_def update_option_def is_type_def
      split: option.splits)

lemma parse_step_dash: "parse_step ''-'' rest (opt, lg, st) = (rest, opt, lg, st)"
  by (simp add: parse_step_def dash_in_front_def)

lemma parse_items:
  assumes "items_ok st items" "opt \<noteq> [] \<Longrightarrow> \<not> starts_with_arg items"
  shows "\<exists>opt' lg' st'. parse_loop (concat (map render items) @ rest) (opt, lg, st) =
      parse_loop rest (opt', lg', st') \<and>
    flush_option opt' lg' st' = foldl apply_item (flush_option opt lg st) items \<and>
    (opt' \<noteq> [] \<longrightarrow> waits (opt \<noteq> []) items)"
  using assms
proof (induction items arbitrary: opt lg st)
  case Nil
  then show ?case by auto
next
  case (Cons x xs)
  have bare: "is_bare x \<Longrightarrow> \<not> starts_with_arg xs" using Cons.prems(1) by simp
  have step: "\<exists>opt1 lg1 st1. parse_loop (render x @ more) (opt, lg, st) = parse_loop more (opt1, lg1, st1) \<and>
      flush_option opt1 lg1 st1 = apply_item (flush_option opt lg st) x \<and>
      items_ok st1 xs \<and> (opt1 \<noteq> [] \<longrightarrow> is_bare x \<or> x = Dash \<and> opt \<noteq> [])" for more
  proof (cases x)
    case (Flag long key)
    with Cons.prems show ?thesis
      by (auto simp: parse_step_option Let_def flush_option_def defOptValue_def)
  next
    case (Setting long key val)
    then have k: "key_ok long key" "\<not> is_type key NoValue st" "\<not> dash_in_front val" "key \<noteq> []"
      using Cons.prems by (auto simp: key_ok_def)
    have "parse_step (dashes long @ key) (val # more) (opt, lg, st) = (val # more, key, long, flush_option opt lg st)"
      using k by (auto simp: parse_step_option Let_def flush_option_def)
    moreover obtain lg' where "parse_step val more (key, long, flush_option opt lg st) =
        (more, [], lg', put_option key long val (flush_option opt lg st))"
      using parse_step_value[OF k(3,4)] by blast
    ultimately show ?thesis using Setting Cons.prems by (auto simp: flush_option_def)
  next
    case (Bare long key)
    then have k: "key_ok long key" "\<not> is_type key NoValue st" "key \<noteq> []"
      using Cons.prems by (auto simp: key_ok_def)
    let ?st = "flush_option opt lg st"
    have "parse_loop (render x @ more) (opt, lg, st) = parse_loop more (key, long, ?st)"
      using Bare k by (auto simp: parse_step_option Let_def flush_option_def)
    moreover have "flush_option key long ?st = apply_item ?st x" "items_ok ?st xs"
      using Bare k Cons.prems by (simp_all add: flush_option_def defOptValue_def)
    ultimately show ?thesis using Bare by (metis is_bare.simps(1))
  next
    case (Arg a)
    then have "opt = []" using Cons.prems(2) by auto
    moreover have "parse_step a more ([], lg, st) = (more, [], lg, apply_item st x)"
      using Arg Cons.prems(1) parse_step_argument by simp
    moreover have "items_ok (apply_item st x) xs" using Cons.prems(1) by simp
    ultimately show ?thesis using Arg
      by (intro exI[of _ "[]"] exI[of _ lg] exI[of _ "apply_item st x"]) (simp add: flush_option_def)
  next
    case Dash
    with Cons.prems show ?thesis
      by (intro exI[of _ opt] exI[of _ lg] exI[of _ st]) (simp add: parse_step_dash flush_option_def)
  qed
  from step[of "concat (map render xs) @ rest"] obtain opt1 lg1 st1 where
    1: "parse_loop (concat (map render (x # xs)) @ rest) (opt, lg, st) =
        parse_loop (concat (map render xs) @ rest) (opt1, lg1, st1)"
      "flush_option opt1 lg1 st1 = apply_item (flush_option opt lg st) x" "items_ok st1 xs"
      "opt1 \<noteq> [] \<longrightarrow> is_bare x \<or> x = Dash \<and> opt \<noteq> []"
    by auto
  have "opt1 \<noteq> [] \<Longrightarrow> \<not> starts_with_arg xs" using 1(4) bare Cons.prems(2) by auto
  moreover have "waits (opt1 \<noteq> []) xs \<Longrightarrow> waits (opt \<noteq> []) (x # xs)"
  proof -
    have "waits b (x # xs) = waits (if x = Dash then b else is_bare x) xs" for b by (cases x) auto
    moreover have "opt1 \<noteq> [] \<Longrightarrow> if x = Dash then opt \<noteq> [] else is_bare x" using 1(4) by auto
    ultimately show "waits (opt1 \<noteq> []) xs \<Longrightarrow> waits (opt \<noteq> []) (x # xs)" using waits_mono by metis
  qed
  ultimately show ?case using Cons.IH[OF 1(3), of opt1 lg1] 1(1,2) by auto
qed

text \<open>The items one by one come to what they mean.\<close>

lemma option_after_snoc:
  "option_after (vs @ [(long, val)]) d = put_value val long (option_after vs d)"
  by (cases d; cases "opt_type d")
    (auto simp: option_after_def put_value_def initialize_def Let_def)

lemma option_after_Nil [simp]: "option_after [] d = d"
  by (simp add: option_after_def)

definition meant :: "cmd_item list \<Rightarrow> cmd_options \<Rightarrow> cmd_options \<Rightarrow> bool" where
  "meant items st st' \<longleftrightarrow>
     opt_data st' = opt_data st \<and>
     arguments st' = arguments st @ concat (map (collected (opt_data st)) items) \<and>
     opt_store st' = map (\<lambda>i. option_after (given_to (opt_data st) i items) (opt_store st ! i))
       [0..<length (opt_store st)] \<and>
     map_of (options st') = map_of (rev (unregistered (opt_data st) items) @ options st)"

lemma meant_put:
  assumes "meant items st st1" and "assigned x = [(key, long, val)]" and "collected (opt_data st) x = []"
  shows "meant (items @ [x]) st (put_option key long val st1)"
proof (cases "opt_data st key")
  case None
  then have "given_to (opt_data st) i (items @ [x]) = given_to (opt_data st) i items" for i
    using assms(2) by (simp add: given_to_def)
  moreover have "unregistered (opt_data st) (items @ [x]) = unregistered (opt_data st) items @ [(key, val)]"
    using assms(2) None by (simp add: unregistered_def)
  ultimately show ?thesis using assms None
    by (auto simp: meant_def put_option_def update_conv' fun_eq_iff map_add_def)
next
  case (Some i)
  have "given_to (opt_data st) j (items @ [x]) =
      given_to (opt_data st) j items @ (if j = i then [(long, val)] else [])" for j
    using assms(2) Some by (simp add: given_to_def)
  moreover have "unregistered (opt_data st) (items @ [x]) = unregistered (opt_data st) items"
    using assms(2) Some by (simp add: unregistered_def)
  ultimately have after: "option_after (given_to (opt_data st) j (items @ [x])) d =
      (if j = i then put_value val long (option_after (given_to (opt_data st) j items) d)
       else option_after (given_to (opt_data st) j items) d)"
    and same: "unregistered (opt_data st) (items @ [x]) = unregistered (opt_data st) items" for j d
    by (simp_all add: option_after_snoc)
  have store: "opt_store st1 = map (\<lambda>i. option_after (given_to (opt_data st) i items) (opt_store st ! i))
      [0..<length (opt_store st)]"
    using assms(1) by (simp add: meant_def)
  have "(opt_store st1)[i := put_value val long (opt_store st1 ! i)] =
      map (\<lambda>j. option_after (given_to (opt_data st) j (items @ [x])) (opt_store st ! j)) [0..<length (opt_store st)]"
    by (rule nth_equalityI) (simp_all add: store after nth_list_update)
  then show ?thesis using assms Some same
    by (simp add: meant_def put_option_def update_option_def)
qed

lemma items_meant: "meant items st (foldl apply_item st items)"
proof (induction items rule: rev_induct)
  case Nil
  then show ?case
    by (simp add: meant_def given_to_def unregistered_def map_nth)
next
  case (snoc x items)
  let ?st = "foldl apply_item st items"
  have data: "opt_data ?st = opt_data st" using snoc by (simp add: meant_def)
  have none: "meant (items @ [x]) st st'" if "assigned x = []"
    "st' = ?st\<lparr>arguments := arguments ?st @ collected (opt_data st) x\<rparr>" for st'
    using snoc that by (simp add: meant_def given_to_def unregistered_def)
  show ?case
  proof (cases x)
    case (Arg a)
    then show ?thesis by (intro none) (simp_all add: data)
  next
    case Dash
    then show ?thesis by (intro none) simp_all
  qed (use meant_put[OF snoc] in simp_all)
qed

subsection \<open>Properties\<close>

text \<open>
  C38. Parsing a command line does what its items mean, whatever options are registered. On a line
  of settings with a value that does not begin with a dash, options without one, registered
  flags, arguments and lone dashes, where no argument follows an option without a value: a
  registered option that takes one value has the last one given under either of its names, and
  whether that name was the long one; an option that takes many has all of them, in order; an
  option that is not registered has the last value; an option without a value has \<^verbatim>\<open>true\<close>; and the
  arguments of two characters or more that are no option names are collected in order. Arguments
  of one character, arguments that are the names of registered options without being sub
  commands, and lone dashes are lost.
\<close>

theorem parse_rendered:
  assumes "items_ok st items"
  shows "let st' = parse_cmd_options (skipped @ concat (map render items)) (length skipped) st
    in opt_data st' = opt_data st \<and>
      arguments st' = arguments st @ concat (map (collected (opt_data st)) items) \<and>
      opt_store st' = map (\<lambda>i. option_after (given_to (opt_data st) i items) (opt_store st ! i))
        [0..<length (opt_store st)] \<and>
      map_of (options st') = map_of (rev (unregistered (opt_data st) items) @ options st)"
proof -
  obtain opt' lg' st' where "parse_loop (concat (map render items) @ []) ([], False, st) = parse_loop [] (opt', lg', st')"
    "flush_option opt' lg' st' = foldl apply_item (flush_option [] False st) items"
    using parse_items[OF assms, where opt = "[]" and lg = False and rest = "[]"] by blast
  then have "parse_cmd_options (skipped @ concat (map render items)) (length skipped) st = foldl apply_item st items"
    by (simp add: parse_cmd_options_def flush_option_def)
  then show ?thesis using items_meant[of items st] by (simp only: meant_def Let_def)
qed

theorem parse_rendered_witness:
  "let st = register_options [new_option ''output'' ''o'' SingleValue] new_cmd_options;
       st' = parse_cmd_options [''chemical'', ''main.ch'', ''x'', ''-o'', ''main.exe'', ''--mode'', ''debug''] 1 st
   in arguments st' = [''main.ch''] \<and> map single_value (opt_store st') = [Some ''main.exe''] \<and>
     map_of (options st') ''mode'' = Some ''debug''"
  using parse_rendered[of "register_options [new_option ''output'' ''o'' SingleValue] new_cmd_options"
      "[Arg ''main.ch'', Arg ''x'', Setting False ''o'' ''main.exe'', Setting True ''mode'' ''debug'']"
      "[''chemical'']"]
  by (simp add: dashes_def key_ok_def dash_in_front_def is_type_def new_cmd_options_def register_options_def
      new_option_def emplace_def given_to_def unregistered_def option_after_def Let_def)

text \<open>
  A sub command ends the options: after any items, of which the last is not an option
  that still waits for its value, the name of a registered sub command takes every argument
  that follows, dashes and all, and nothing of them is parsed.
\<close>

theorem subcommand_takes_rest:
  assumes "items_ok st items" "\<not> waits False items"
    and "\<not> dash_in_front cmd" "opt_data st cmd = Some i" "is_type cmd SubCommand st"
  shows "parse_cmd_options (concat (map render items) @ cmd # rest) 0 st =
    update_option i (\<lambda>d. (initialize d)\<lparr>multi_values := multi_values (initialize d) @ rest\<rparr>)
      (foldl apply_item st items)"
proof -
  obtain opt' lg' st' where st': "parse_loop (concat (map render items) @ cmd # rest) ([], False, st) =
      parse_loop (cmd # rest) (opt', lg', st')"
    "flush_option opt' lg' st' = foldl apply_item (flush_option [] False st) items"
    "opt' \<noteq> [] \<longrightarrow> waits ([] \<noteq> ([] :: string)) items"
    using parse_items[OF assms(1), where opt = "[]" and lg = False and rest = "cmd # rest"] by blast
  then have opt: "opt' = []" using assms(2) by auto
  then have eq: "st' = foldl apply_item st items" using st'(2) by (simp add: flush_option_def)
  have "opt_data st' cmd = Some i \<and> is_type cmd SubCommand st'"
    unfolding eq using assms(4,5) by (induction items arbitrary: st) simp_all
  then have cmd: "opt_data st' cmd = Some i" "opt_type (opt_store st' ! i) = SubCommand"
    by (auto simp: is_type_def)
  then have "parse_step cmd rest ([], lg', st') = ([], [], lg',
      update_option i (\<lambda>d. (initialize d)\<lparr>multi_values := multi_values (initialize d) @ rest\<rparr>) st')"
    using assms(3) by (simp add: parse_step_def enter_subcommand_def put_subcommand_def update_option_def)
  then show ?thesis using st'(1) opt eq by (simp add: parse_cmd_options_def)
qed

theorem subcommand_takes_rest_witness:
  "let st = register_options [new_option ''run'' [] SubCommand] new_cmd_options
   in parse_cmd_options [''-v'', ''2'', ''run'', ''--fast'', ''x''] 0 st =
     update_option 0 (\<lambda>d. (initialize d)\<lparr>multi_values := multi_values (initialize d) @ [''--fast'', ''x'']\<rparr>)
       (foldl apply_item st [Setting False ''v'' ''2''])"
  using subcommand_takes_rest[of "register_options [new_option ''run'' [] SubCommand] new_cmd_options"
      "[Setting False ''v'' ''2'']" "''run''" 0 "[''--fast'', ''x'']"]
  by (simp add: dashes_def key_ok_def dash_in_front_def is_type_def new_cmd_options_def
      register_options_def new_option_def emplace_def Let_def)

definition option_names :: "cmd_option \<Rightarrow> string list" where
  "option_names d = filter (\<lambda>n. n \<noteq> []) [large_opt d, small_opt d]"

lemma register_names_keep:
  "m k \<noteq> None \<Longrightarrow> register_names i ds m k = m k"
  by (induction i ds m rule: register_names.induct) (auto simp: emplace_def Let_def)

lemma register_names_index:
  "distinct (concat (map option_names ds)) \<Longrightarrow> (\<forall>k\<in>set (concat (map option_names ds)). m k = None) \<Longrightarrow>
   j < length ds \<Longrightarrow> k \<in> set (option_names (ds ! j)) \<Longrightarrow> register_names i ds m k = Some (i + j)"
proof (induction i ds m arbitrary: j rule: register_names.induct)
  case (2 i d ds m)
  let ?m = "if large_opt d \<noteq> [] then emplace (large_opt d) i m else m"
  let ?m' = "if small_opt d \<noteq> [] then emplace (small_opt d) i ?m else ?m"
  have new: "?m' k' = Some i" if "k' \<in> set (option_names d)" for k'
    using that 2(2,3) by (auto simp: option_names_def emplace_def split: if_splits)
  have other: "?m' k' = m k'" if "k' \<notin> set (option_names d)" for k'
    using that by (auto simp: option_names_def emplace_def split: if_splits)
  show ?case
  proof (cases j)
    case 0
    then show ?thesis using register_names_keep[of ?m' k "Suc i" ds] new[of k] 2(5)
      by (simp add: Let_def)
  next
    case (Suc l)
    have "\<forall>k'\<in>set (concat (map option_names ds)). ?m' k' = None"
    proof
      fix k' assume k': "k' \<in> set (concat (map option_names ds))"
      then have "k' \<notin> set (option_names d)" using 2(2) by auto
      with other[of k'] k' 2(3) show "?m' k' = None" by auto
    qed
    then show ?thesis using 2(1)[of ?m ?m' l] 2(2,4,5) Suc by (simp add: Let_def)
  qed
qed simp

text \<open>
  The names of an option lead to the same value: with options registered under distinct
  names, a value given under either name of an option is read back under either name.
\<close>

theorem option_names_share_value:
  assumes "distinct (concat (map option_names ds))" "j < length ds"
    and "opt_type (ds ! j) \<in> {SingleValue, NoValue}"
    and "written \<in> set (option_names (ds ! j))" "read \<in> set (option_names (ds ! j))"
  shows "single_opt_val read [] (put_option written long val (register_options ds new_cmd_options)) =
    Some (Some val)"
proof -
  let ?st = "register_options ds new_cmd_options"
  have data: "opt_data ?st k = Some j" if "k \<in> set (option_names (ds ! j))" for k
    using register_names_index[OF assms(1) _ assms(2) that, of "\<lambda>k. None" 0]
    by (simp add: register_options_def new_cmd_options_def)
  have "opt_store ?st = ds" by (simp add: register_options_def new_cmd_options_def)
  moreover have "read \<noteq> []" using assms(5) by (auto simp: option_names_def split: if_splits)
  ultimately show ?thesis
    using assms(2,3) data[OF assms(4)] data[OF assms(5)]
    by (auto simp: single_opt_val_def opt_val_ptr_def put_option_def update_option_def put_value_def
        initialize_def)
qed

theorem option_names_share_value_witness:
  "single_opt_val ''output'' [] (put_option ''o'' False ''a.out''
     (register_options [new_option ''output'' ''o'' SingleValue] new_cmd_options)) = Some (Some ''a.out'')"
  by (rule option_names_share_value[where j = 0]) (simp_all add: option_names_def new_option_def)

end
