(* ===== verification/Post_Order.thy ===== *)
theory Post_Order
  imports Main "HOL-Library.Monad_Syntax"
begin

text \<open>
  A depth-first traversal that lists every node after the nodes it depends on: the interface the
  two flattening routines share, its laws, and what follows from them. \<open>visit nodes (flat, done)\<close>
  is the traversal of a list of nodes from a state; \<open>None\<close> is a recursion that does not end.
\<close>

abbreviation edge_rel :: "('a \<Rightarrow> 'a list) \<Rightarrow> ('a \<times> 'a) set" where
  "edge_rel succs \<equiv> {(a, b). b \<in> set (succs a)}"

text \<open>The nodes from which every path ends.\<close>

definition path_bounded :: "('a \<Rightarrow> 'a list) \<Rightarrow> 'a \<Rightarrow> bool" where
  "path_bounded succs = Wellfounded.accp (\<lambda>b a. b \<in> set (succs a))"

definition reachable_from :: "('a \<Rightarrow> 'a list) \<Rightarrow> 'a list \<Rightarrow> 'a set" where
  "reachable_from succs roots = (edge_rel succs)\<^sup>* `` set roots"

definition has_cycle :: "('a \<Rightarrow> 'a list) \<Rightarrow> 'a list \<Rightarrow> bool" where
  "has_cycle succs roots \<longleftrightarrow> (\<exists>a \<in> reachable_from succs roots. (a, a) \<in> (edge_rel succs)\<^sup>+)"

fun dependencies_first :: "('a \<Rightarrow> 'a list) \<Rightarrow> 'a list \<Rightarrow> 'a list \<Rightarrow> bool" where
  "dependencies_first succs before [] = True"
| "dependencies_first succs before (x # xs) =
     (set (succs x) \<subseteq> set before \<and> dependencies_first succs (before @ [x]) xs)"

subsection \<open>Paths and cycles\<close>

lemma path_boundedI: "(\<And>b. b \<in> set (succs a) \<Longrightarrow> path_bounded succs b) \<Longrightarrow> path_bounded succs a"
  unfolding path_bounded_def by (rule accp.intros) simp

lemma path_bounded_succ: "path_bounded succs a \<Longrightarrow> b \<in> set (succs a) \<Longrightarrow> path_bounded succs b"
  unfolding path_bounded_def by (blast dest: accp_downward)

lemma path_bounded_trancl: "(a, b) \<in> (edge_rel succs)\<^sup>+ \<Longrightarrow> path_bounded succs a \<Longrightarrow> path_bounded succs b"
  by (induction rule: trancl_induct) (auto intro: path_bounded_succ)

lemma path_bounded_rtrancl: "(a, b) \<in> (edge_rel succs)\<^sup>* \<Longrightarrow> path_bounded succs a \<Longrightarrow> path_bounded succs b"
  by (induction rule: rtrancl_induct) (auto intro: path_bounded_succ)

lemma path_bounded_no_cycle: "path_bounded succs a \<Longrightarrow> (a, a) \<notin> (edge_rel succs)\<^sup>+"
  unfolding path_bounded_def
proof (induction rule: accp.induct)
  case (accI a)
  show ?case
  proof
    assume "(a, a) \<in> (edge_rel succs)\<^sup>+"
    then obtain b where b: "b \<in> set (succs a)" "(b, a) \<in> (edge_rel succs)\<^sup>*"
      by (auto dest: tranclD)
    then have "(b, b) \<in> (edge_rel succs)\<^sup>+" by (auto intro: rtrancl_into_trancl1)
    with accI b(1) show False by blast
  qed
qed

lemma path_bounded_has_cycle: "\<forall>a \<in> set roots. path_bounded succs a \<Longrightarrow> \<not> has_cycle succs roots"
  unfolding has_cycle_def reachable_from_def
  using path_bounded_rtrancl path_bounded_no_cycle by fastforce

text \<open>With finitely many nodes to reach, paths are bounded unless there is a cycle.\<close>

lemma finite_path_bounded:
  assumes "finite (reachable_from succs roots)" "\<not> has_cycle succs roots" "a \<in> reachable_from succs roots"
  shows "path_bounded succs a"
proof -
  let ?R = "reachable_from succs roots"
  let ?r = "{(b, a). b \<in> set (succs a) \<and> a \<in> ?R}"
  have closed: "b \<in> ?R" if "a \<in> ?R" "b \<in> set (succs a)" for a b
    using that unfolding reachable_from_def by (auto intro: rtrancl_into_rtrancl)
  have "?r \<subseteq> ?R \<times> ?R" using closed by auto
  then have "finite ?r" using assms(1) finite_subset by blast
  moreover have "acyclic ?r"
  proof (rule acyclicI, rule allI, rule notI)
    fix x
    assume x: "(x, x) \<in> ?r\<^sup>+"
    then have "x \<in> ?R" by (auto dest: tranclD2)
    moreover have "?r\<^sup>+ \<subseteq> ((edge_rel succs)\<inverse>)\<^sup>+" by (rule trancl_mono_subset) auto
    ultimately show False using assms(2) x by (auto simp: has_cycle_def trancl_converse)
  qed
  ultimately have "wf ?r" by (rule finite_acyclic_wf)
  then show ?thesis using assms(3)
  proof (induction a rule: wf_induct_rule)
    case (less a)
    show ?case
    proof (rule path_boundedI)
      fix b
      assume b: "b \<in> set (succs a)"
      then have "b \<in> ?R" using closed less.prems by blast
      then show "path_bounded succs b" using less b by blast
    qed
  qed
qed

subsection \<open>Lists with dependencies first\<close>

lemma dependencies_first_append:
  "dependencies_first succs before (xs @ ys) \<longleftrightarrow>
   dependencies_first succs before xs \<and> dependencies_first succs (before @ xs) ys"
  by (induction xs arbitrary: before) auto

lemma dependencies_first_closed:
  "dependencies_first succs before xs \<Longrightarrow> x \<in> set xs \<Longrightarrow> b \<in> set (succs x) \<Longrightarrow> b \<in> set before \<union> set xs"
proof (induction xs arbitrary: before)
  case (Cons a xs)
  then show ?case using Cons.IH[of "before @ [a]"] by auto
qed simp

lemma dependencies_first_reachable:
  assumes "dependencies_first succs [] xs"
  shows "reachable_from succs xs = set xs"
proof -
  have "b \<in> set xs" if "(a, b) \<in> (edge_rel succs)\<^sup>*" "a \<in> set xs" for a b
    using that by (induction rule: rtrancl_induct) (auto dest: dependencies_first_closed[OF assms])
  then show ?thesis by (auto simp: reachable_from_def)
qed

text \<open>The order in terms of positions.\<close>

lemma dependencies_first_nth:
  "dependencies_first succs before xs \<longleftrightarrow>
   (\<forall>i < length xs. set (succs (xs ! i)) \<subseteq> set before \<union> set (take i xs))"
proof (induction xs arbitrary: before)
  case (Cons x xs)
  show ?case
    by (simp add: Cons.IH All_less_Suc2 Un_assoc)
qed simp

lemma reachable_from_Nil [simp]: "reachable_from succs [] = {}"
  by (simp add: reachable_from_def)

lemma reachable_from_append: "reachable_from succs (xs @ ys) = reachable_from succs xs \<union> reachable_from succs ys"
  by (auto simp: reachable_from_def)

lemma reachable_from_Cons:
  "reachable_from succs (x # xs) = insert x (reachable_from succs (succs x)) \<union> reachable_from succs xs"
  by (auto simp: reachable_from_def elim: converse_rtranclE intro: converse_rtrancl_into_rtrancl)

subsection \<open>The traversal\<close>

type_synonym 'a visit_state = "'a list \<times> ('a \<Rightarrow> bool option)"

definition visit_emplace :: "'a \<Rightarrow> 'a visit_state \<Rightarrow> 'a visit_state" where
  "visit_emplace a st = (if snd st a = None then (fst st @ [a], (snd st)(a \<mapsto> True)) else st)"

text \<open>The list and the map of a state agree, and the list is in order.\<close>

definition visit_ok :: "('a \<Rightarrow> 'a list) \<Rightarrow> 'a visit_state \<Rightarrow> bool" where
  "visit_ok succs st \<longleftrightarrow> distinct (fst st) \<and> dependencies_first succs [] (fst st) \<and>
     dom (snd st) = set (fst st)"

lemma visit_ok_empty [simp]: "visit_ok succs ([], \<lambda>a. None)"
  by (simp add: visit_ok_def)

lemma visit_ok_emplace:
  assumes "visit_ok succs st" "set (succs a) \<subseteq> set (fst st)"
  shows "visit_ok succs (visit_emplace a st)" "set (fst (visit_emplace a st)) = insert a (set (fst st))"
proof -
  have new: "snd st a = None \<longleftrightarrow> a \<notin> set (fst st)"
    using assms(1) by (metis domIff visit_ok_def)
  then show "visit_ok succs (visit_emplace a st)" "set (fst (visit_emplace a st)) = insert a (set (fst st))"
    using assms by (auto simp: visit_ok_def visit_emplace_def dependencies_first_append simp del: not_None_eq)
qed

locale post_order =
  fixes succs :: "'a \<Rightarrow> 'a list"
    and visit :: "'a list \<Rightarrow> 'a visit_state \<Rightarrow> 'a visit_state option"
  assumes visit_Nil: "visit [] st = Some st"
    and visit_Cons: "visit (a # as) st =
      visit (succs a) st \<bind> (\<lambda>st'. visit as (visit_emplace a st'))"
    and visit_bounded: "visit as st = Some st' \<Longrightarrow> a \<in> set as \<Longrightarrow> path_bounded succs a"
begin

definition visit_result :: "'a list \<Rightarrow> 'a visit_state \<Rightarrow> 'a visit_state \<Rightarrow> bool" where
  "visit_result as st st' \<longleftrightarrow> visit as st = Some st' \<and> visit_ok succs st' \<and>
     (\<exists>new. fst st' = fst st @ new) \<and> set (fst st') = set (fst st) \<union> reachable_from succs as"

lemma visit_list:
  assumes "\<And>a st. a \<in> set as \<Longrightarrow> visit_ok succs st \<Longrightarrow> \<exists>st'. visit_result (succs a) st st'"
    and "visit_ok succs st"
  shows "\<exists>st'. visit_result as st st'"
  using assms
proof (induction as arbitrary: st)
  case Nil
  then show ?case by (simp add: visit_result_def visit_Nil)
next
  case (Cons a as)
  from Cons.prems obtain s1 where s1: "visit_result (succs a) st s1" by fastforce
  then have "set (succs a) \<subseteq> set (fst s1)"
    by (auto simp: visit_result_def reachable_from_def)
  with s1 have ok: "visit_ok succs (visit_emplace a s1)"
    and set2: "set (fst (visit_emplace a s1)) = insert a (set (fst s1))"
    by (auto simp: visit_result_def visit_ok_emplace)
  from Cons.IH[OF _ ok] Cons.prems(1) obtain s2 where s2: "visit_result as (visit_emplace a s1) s2" by auto
  have "\<exists>new. fst (visit_emplace a s1) = fst s1 @ new" by (auto simp: visit_emplace_def)
  with s1 s2 set2 have "visit_result (a # as) st s2"
    by (auto simp: visit_result_def visit_Cons reachable_from_Cons)
  then show ?case by blast
qed

lemma visit_node:
  assumes "path_bounded succs a" "visit_ok succs st"
  shows "\<exists>st'. visit_result (succs a) st st'"
  using assms unfolding path_bounded_def
proof (induction arbitrary: st rule: accp.induct)
  case (accI a)
  show ?case by (rule visit_list[OF accI.IH accI.prems])
qed

lemma visit_returns:
  assumes "\<forall>a \<in> set as. path_bounded succs a" "visit_ok succs st"
  shows "\<exists>st'. visit_result as st st'"
proof (rule visit_list[OF _ assms(2)])
  fix a st
  assume "a \<in> set as" "visit_ok succs st"
  with assms(1) show "\<exists>st'. visit_result (succs a) st st'" by (intro visit_node) simp_all
qed

lemma visit_defined_iff:
  assumes "visit_ok succs st"
  shows "visit as st \<noteq> None \<longleftrightarrow> (\<forall>a \<in> set as. path_bounded succs a)"
proof
  assume "visit as st \<noteq> None"
  then obtain st' where "visit as st = Some st'" by blast
  then show "\<forall>a \<in> set as. path_bounded succs a" by (blast intro: visit_bounded)
next
  assume "\<forall>a \<in> set as. path_bounded succs a"
  from visit_returns[OF this assms] show "visit as st \<noteq> None" by (auto simp: visit_result_def)
qed

text \<open>From the empty state: what the traversal lists.\<close>

definition sorted_nodes :: "'a list \<Rightarrow> 'a list option" where
  "sorted_nodes as = map_option fst (visit as ([], \<lambda>a. None))"

lemma sorted_nodes_Some:
  assumes "sorted_nodes as = Some out"
  shows "distinct out" "set out = reachable_from succs as" "dependencies_first succs [] out"
proof -
  from assms obtain st where st: "visit as ([], \<lambda>a. None) = Some st" "fst st = out"
    by (auto simp: sorted_nodes_def)
  then have "\<forall>a \<in> set as. path_bounded succs a" by (blast intro: visit_bounded)
  from visit_returns[OF this visit_ok_empty] st
  show "distinct out" "set out = reachable_from succs as" "dependencies_first succs [] out"
    by (auto simp: visit_result_def visit_ok_def)
qed

lemma sorted_nodes_defined:
  assumes "finite (reachable_from succs as)"
  shows "sorted_nodes as \<noteq> None \<longleftrightarrow> \<not> has_cycle succs as"
proof -
  have "set as \<subseteq> reachable_from succs as" by (auto simp: reachable_from_def)
  then have "(\<forall>a \<in> set as. path_bounded succs a) \<longleftrightarrow> \<not> has_cycle succs as"
    using finite_path_bounded[OF assms] path_bounded_has_cycle by blast
  then show ?thesis
    using visit_defined_iff[OF visit_ok_empty] by (simp add: sorted_nodes_def)
qed

end

end
