(* ===== verification/Import_Graph.thy ===== *)
theory Import_Graph
  imports Post_Order
begin

text \<open>
  The order in which files and modules are processed: \<^verbatim>\<open>compiler/lab/LabBuildCompiler.cpp\<close>. A
  \<^verbatim>\<open>build.lab\<close> file and what it imports is checked for import cycles
  (\<^verbatim>\<open>check_imports_for_cycles\<close>) and then flattened, dependencies first (\<^verbatim>\<open>flatten\<close>); the
  modules of a job are flattened in the same way (\<^verbatim>\<open>flatten_dedupe_sorted\<close>), without a check.

  A pointer to a file result or a module is a value of a type \<open>'f\<close>. The traversals recurse
  along the pointers and need not return, so they are partial functions: \<open>None\<close> is a recursion
  that does not end, on the machine a stack overflow.
\<close>

record 'f import_graph =
  file_id_of :: "'f \<Rightarrow> nat"
  imports_of :: "'f \<Rightarrow> 'f list"

subsection \<open>Checking for cycles\<close>

text \<open>A call of the handler: the ids of the parents, the imported file, the parent, directness.\<close>

type_synonym 'f cycle_report = "nat list \<times> 'f \<times> 'f \<times> bool"

text \<open>
  The loop of one file over the imports that are left. \<open>parents\<close> is the vector the whole
  traversal shares, \<open>end_size\<close> its size when the file was entered.
\<close>

partial_function (option) check_file_imports ::
  "'f import_graph \<Rightarrow> 'f \<Rightarrow> nat \<Rightarrow> 'f list \<Rightarrow> nat list \<Rightarrow> 'f cycle_report list \<Rightarrow>
   (nat list \<times> 'f cycle_report list) option" where
  "check_file_imports g parent_file end_size imps parents reports = (case imps of
      [] \<Rightarrow> Some (parents, reports)
    | imported # rest \<Rightarrow>
        if file_id_of g imported = file_id_of g parent_file then
          check_file_imports g parent_file end_size rest parents
            (reports @ [(parents, imported, parent_file, True)])
        else
          let ps = take end_size parents;
              found = filter (\<lambda>i. file_id_of g imported = i) ps;
              rs = reports @ map (\<lambda>i. (ps, imported, parent_file, False)) found;
              ps' = ps @ [file_id_of g parent_file]
          in if found = [] then
               check_file_imports g imported (length ps') (imports_of g imported) ps' rs \<bind>
                 (\<lambda>r. check_file_imports g parent_file end_size rest (fst r) (snd r))
             else check_file_imports g parent_file end_size rest ps' rs)"

definition check_imports_for_cycles ::
  "'f import_graph \<Rightarrow> 'f \<Rightarrow> nat list \<Rightarrow> 'f cycle_report list \<Rightarrow> (nat list \<times> 'f cycle_report list) option" where
  "check_imports_for_cycles g file parents reports =
     check_file_imports g file (length parents) (imports_of g file) parents reports"

text \<open>The parents are cleared for every file of the span.\<close>

fun check_files_for_cycles ::
  "'f import_graph \<Rightarrow> 'f list \<Rightarrow> 'f cycle_report list \<Rightarrow> 'f cycle_report list option" where
  "check_files_for_cycles g [] reports = Some reports"
| "check_files_for_cycles g (file # files) reports =
     check_imports_for_cycles g file [] reports \<bind> (\<lambda>r. check_files_for_cycles g files (snd r))"

subsection \<open>Flattening\<close>

type_synonym 'f flat_state = "'f list \<times> ('f \<Rightarrow> bool option)"

definition flat_emplace :: "'f \<Rightarrow> 'f flat_state \<Rightarrow> 'f flat_state" where
  "flat_emplace file st = (case st of (flat_out, done_files) \<Rightarrow>
     if done_files file = None then (flat_out @ [file], done_files(file \<mapsto> True)) else st)"

partial_function (option) flatten_into ::
  "'f import_graph \<Rightarrow> 'f list \<Rightarrow> 'f flat_state \<Rightarrow> 'f flat_state option" where
  "flatten_into g files st = (case files of
      [] \<Rightarrow> Some st
    | file # rest \<Rightarrow>
        flatten_into g (imports_of g file) st \<bind> (\<lambda>st'. flatten_into g rest (flat_emplace file st')))"

definition flatten :: "'f import_graph \<Rightarrow> 'f list \<Rightarrow> 'f list option" where
  "flatten g files = map_option fst (flatten_into g files ([], \<lambda>f. None))"

text \<open>The files of a \<^verbatim>\<open>build.lab\<close> in order; the inner \<open>None\<close> is the failure.\<close>

definition order_lab_files :: "'f import_graph \<Rightarrow> 'f \<Rightarrow> 'f list option option" where
  "order_lab_files g lab_file =
     check_files_for_cycles g [lab_file] [] \<bind>
       (\<lambda>reports. if reports \<noteq> [] then Some None else map_option Some (flatten g [lab_file]))"

text \<open>Modules and their dependencies.\<close>

partial_function (option) recursive_dedupe ::
  "('m \<Rightarrow> 'm list) \<Rightarrow> 'm list \<Rightarrow> 'm flat_state \<Rightarrow> 'm flat_state option" where
  "recursive_dedupe dependencies mods st = (case mods of
      [] \<Rightarrow> Some st
    | file # rest \<Rightarrow>
        recursive_dedupe dependencies (dependencies file) st \<bind>
          (\<lambda>st'. recursive_dedupe dependencies rest (flat_emplace file st')))"

definition flatten_dedupe_sorted :: "('m \<Rightarrow> 'm list) \<Rightarrow> 'm list \<Rightarrow> 'm list option" where
  "flatten_dedupe_sorted dependencies mods =
     map_option fst (recursive_dedupe dependencies mods ([], \<lambda>m. None))"

end
