(* ===== verification/Import_Graph_Correct.thy ===== *)
theory Import_Graph_Correct
  imports Import_Graph
begin

text \<open>
  The cycle check returns and reports exactly when there is a cycle; the flattening routines are
  depth-first traversals that list dependencies first.
\<close>

subsection \<open>The flattening routines are post-order traversals\<close>

lemma flat_emplace_visit [simp]: "flat_emplace = visit_emplace"
  by (auto simp: fun_eq_iff flat_emplace_def visit_emplace_def split: prod.splits)

lemma flatten_into_bounded:
  assumes "flatten_into g files st = Some r"
  shows "\<forall>a \<in> set files. path_bounded (imports_of g) a"
proof (rule flatten_into.raw_induct[OF _ assms,
      where P = "\<lambda>g files st r. \<forall>a \<in> set files. path_bounded (imports_of g) a"])
  fix f :: "'a import_graph \<Rightarrow> 'a list \<Rightarrow> 'a flat_state \<Rightarrow> 'a flat_state option" and g files st r
  assume IH: "\<And>g files st r. f g files st = Some r \<Longrightarrow> \<forall>a \<in> set files. path_bounded (imports_of g) a"
    and run: "(case files of [] \<Rightarrow> Some st
      | node # rest \<Rightarrow> f g (imports_of g node) st \<bind> (\<lambda>st'. f g rest (flat_emplace node st'))) = Some r"
  show "\<forall>a \<in> set files. path_bounded (imports_of g) a"
  proof (cases files)
    case (Cons node rest)
    with run show ?thesis by (auto split: bind_splits dest!: IH intro: path_boundedI)
  qed simp
qed

lemma recursive_dedupe_bounded:
  assumes "recursive_dedupe d mods st = Some r"
  shows "\<forall>a \<in> set mods. path_bounded d a"
proof (rule recursive_dedupe.raw_induct[OF _ assms,
      where P = "\<lambda>d mods st r. \<forall>a \<in> set mods. path_bounded d a"])
  fix f :: "('a \<Rightarrow> 'a list) \<Rightarrow> 'a list \<Rightarrow> 'a flat_state \<Rightarrow> 'a flat_state option" and d mods st r
  assume IH: "\<And>d mods st r. f d mods st = Some r \<Longrightarrow> \<forall>a \<in> set mods. path_bounded d a"
    and run: "(case mods of [] \<Rightarrow> Some st
      | m # rest \<Rightarrow> f d (d m) st \<bind> (\<lambda>st'. f d rest (flat_emplace m st'))) = Some r"
  show "\<forall>a \<in> set mods. path_bounded d a"
  proof (cases mods)
    case (Cons m rest)
    with run show ?thesis by (auto split: bind_splits dest!: IH intro: path_boundedI)
  qed simp
qed

interpretation files: post_order "imports_of g" "flatten_into g" for g
  by unfold_locales (simp_all add: flatten_into.simps flatten_into_bounded)

interpretation modules: post_order dependencies "recursive_dedupe dependencies" for dependencies
  by unfold_locales (simp_all add: recursive_dedupe.simps recursive_dedupe_bounded)

lemma flatten_sorted_nodes: "flatten g = files.sorted_nodes g"
  by (simp add: fun_eq_iff flatten_def files.sorted_nodes_def)

lemma flatten_dedupe_sorted_nodes: "flatten_dedupe_sorted d = modules.sorted_nodes d"
  by (simp add: fun_eq_iff flatten_dedupe_sorted_def modules.sorted_nodes_def)

subsection \<open>The cycle check\<close>

abbreviation imports_rel :: "'f import_graph \<Rightarrow> ('f \<times> 'f) set" where
  "imports_rel g \<equiv> edge_rel (imports_of g)"

text \<open>A report names an import that closes a cycle.\<close>

definition closes_cycle :: "'f import_graph \<Rightarrow> 'f list \<Rightarrow> 'f cycle_report \<Rightarrow> bool" where
  "closes_cycle g roots report = (case report of (parents, imported, parent, direct) \<Rightarrow>
     parent \<in> reachable_from (imports_of g) roots \<and> imported \<in> set (imports_of g parent) \<and>
     (imported, parent) \<in> (imports_rel g)\<^sup>*)"

lemma closes_cycle_has_cycle: "closes_cycle g roots report \<Longrightarrow> has_cycle (imports_of g) roots"
  by (auto simp: closes_cycle_def has_cycle_def split: prod.splits
      intro!: bexI rtrancl_into_trancl2)

text \<open>Ids tell apart the files that can be reached.\<close>

definition distinct_ids :: "'f import_graph \<Rightarrow> 'f list \<Rightarrow> bool" where
  "distinct_ids g roots \<longleftrightarrow> inj_on (file_id_of g) (reachable_from (imports_of g) roots)"

text \<open>The parents when a node is entered: ids of files that reach it.\<close>

definition parents_ok :: "'f import_graph \<Rightarrow> 'f list \<Rightarrow> 'f \<Rightarrow> nat list \<Rightarrow> bool" where
  "parents_ok g roots node ps \<longleftrightarrow>
     node \<in> reachable_from (imports_of g) roots \<and> file_id_of g node \<notin> set ps \<and> distinct ps \<and>
     (\<forall>p \<in> set ps. \<exists>q \<in> reachable_from (imports_of g) roots.
        file_id_of g q = p \<and> (q, node) \<in> (imports_rel g)\<^sup>+)"

definition check_result ::
  "'f import_graph \<Rightarrow> 'f list \<Rightarrow> 'f list \<Rightarrow> nat list \<Rightarrow> 'f cycle_report list \<Rightarrow>
   nat list \<times> 'f cycle_report list \<Rightarrow> bool" where
  "check_result g roots imps ps reports r \<longleftrightarrow>
     (\<exists>junk new. r = (ps @ junk, reports @ new) \<and> list_all (closes_cycle g roots) new \<and>
        (if new = [] then list_all (path_bounded (imports_of g)) imps else True))"

lemma reachable_succ:
  "a \<in> reachable_from succs roots \<Longrightarrow> b \<in> set (succs a) \<Longrightarrow> b \<in> reachable_from succs roots"
  unfolding reachable_from_def by (auto intro: rtrancl_into_rtrancl)

lemma parents_ok_import:
  assumes "parents_ok g roots node ps" "imported \<in> set (imports_of g node)"
    "file_id_of g imported \<noteq> file_id_of g node" "file_id_of g imported \<notin> set ps"
  shows "parents_ok g roots imported (ps @ [file_id_of g node])"
  using assms reachable_succ[of node "imports_of g" roots imported]
  by (fastforce simp: parents_ok_def intro: trancl_into_trancl r_into_trancl)

lemma indirect_report:
  assumes "distinct_ids g roots" "parents_ok g roots node ps" "imported \<in> set (imports_of g node)"
    "file_id_of g imported \<in> set ps"
  shows "closes_cycle g roots (xs, imported, node, b)"
proof -
  from assms(2,4) obtain q where q: "q \<in> reachable_from (imports_of g) roots"
    "file_id_of g q = file_id_of g imported" "(q, node) \<in> (imports_rel g)\<^sup>+"
    by (auto simp: parents_ok_def)
  moreover have "imported \<in> reachable_from (imports_of g) roots"
    using assms(2,3) by (auto simp: parents_ok_def intro: reachable_succ)
  ultimately have "q = imported" using assms(1) by (auto simp: distinct_ids_def inj_on_def)
  with q assms(2,3) show ?thesis by (auto simp: closes_cycle_def parents_ok_def)
qed

lemma direct_report:
  assumes "distinct_ids g roots" "parents_ok g roots node ps" "imported \<in> set (imports_of g node)"
    "file_id_of g imported = file_id_of g node"
  shows "closes_cycle g roots (xs, imported, node, b)"
proof -
  have "imported \<in> reachable_from (imports_of g) roots"
    using assms(2,3) by (auto simp: parents_ok_def intro: reachable_succ)
  then have "imported = node"
    using assms by (auto simp: distinct_ids_def inj_on_def parents_ok_def)
  with assms(2,3) show ?thesis by (auto simp: closes_cycle_def parents_ok_def)
qed

text \<open>The ids left to enter.\<close>

definition ids_left :: "'f import_graph \<Rightarrow> 'f list \<Rightarrow> nat list \<Rightarrow> nat" where
  "ids_left g roots ps = card (file_id_of g ` reachable_from (imports_of g) roots - set ps)"

lemma ids_left_less:
  assumes "finite (reachable_from (imports_of g) roots)" "parents_ok g roots node ps"
  shows "ids_left g roots (ps @ [file_id_of g node]) < ids_left g roots ps"
  unfolding ids_left_def using assms
  by (intro psubset_card_mono) (auto simp: parents_ok_def)

text \<open>One turn of the loop.\<close>

lemma check_direct:
  "file_id_of g imported = file_id_of g node \<Longrightarrow>
   check_file_imports g node n (imported # rest) parents reports =
     check_file_imports g node n rest parents (reports @ [(parents, imported, node, True)])"
  by (subst check_file_imports.simps) simp

lemma check_indirect:
  "file_id_of g imported \<noteq> file_id_of g node \<Longrightarrow> file_id_of g imported \<in> set ps \<Longrightarrow>
   check_file_imports g node (length ps) (imported # rest) (ps @ junk) reports =
     check_file_imports g node (length ps) rest (ps @ [file_id_of g node])
       (reports @ map (\<lambda>i. (ps, imported, node, False)) (filter (\<lambda>i. file_id_of g imported = i) ps))"
  by (subst check_file_imports.simps) (auto simp: Let_def filter_empty_conv)

lemma check_enter:
  "file_id_of g imported \<noteq> file_id_of g node \<Longrightarrow> file_id_of g imported \<notin> set ps \<Longrightarrow>
   check_file_imports g node (length ps) (imported # rest) (ps @ junk) reports =
     check_file_imports g imported (length (ps @ [file_id_of g node])) (imports_of g imported)
       (ps @ [file_id_of g node]) reports \<bind>
     (\<lambda>r. check_file_imports g node (length ps) rest (fst r) (snd r))"
  by (subst check_file_imports.simps) (auto simp: Let_def filter_empty_conv)

lemma check_result_reported:
  assumes "check_result g roots rest ps (reports @ new) r" "list_all (closes_cycle g roots) new" "new \<noteq> []"
  shows "check_result g roots (imported # rest) ps reports r"
proof -
  from assms(1) obtain junk more where "r = (ps @ junk, reports @ new @ more)"
    "list_all (closes_cycle g roots) more" by (auto simp: check_result_def)
  with assms(2,3) show ?thesis
    unfolding check_result_def by (intro exI[of _ junk] exI[of _ "new @ more"]) simp
qed

lemma check_result_entered:
  assumes "check_result g roots (imports_of g imported) ps1 reports r1"
    "check_result g roots rest ps (snd r1) r"
  shows "check_result g roots (imported # rest) ps reports r"
proof -
  from assms(1) obtain new where new: "snd r1 = reports @ new" "list_all (closes_cycle g roots) new"
    "new = [] \<Longrightarrow> list_all (path_bounded (imports_of g)) (imports_of g imported)"
    by (auto simp: check_result_def split: if_splits)
  then have bounded: "new = [] \<Longrightarrow> path_bounded (imports_of g) imported"
    by (auto simp: list_all_iff intro: path_boundedI)
  from assms(2) new(1) obtain junk more where "r = (ps @ junk, reports @ new @ more)"
    "list_all (closes_cycle g roots) more" "more = [] \<Longrightarrow> list_all (path_bounded (imports_of g)) rest"
    by (auto simp: check_result_def split: if_splits)
  with new(2) bounded show ?thesis
    unfolding check_result_def by (intro exI[of _ junk] exI[of _ "new @ more"]) simp
qed

lemma check_file:
  assumes fin: "finite (reachable_from (imports_of g) roots)" and ids: "distinct_ids g roots"
    and "parents_ok g roots node ps" "set imps \<subseteq> set (imports_of g node)"
  shows "\<exists>r. check_file_imports g node (length ps) imps (ps @ junk) reports = Some r \<and>
             check_result g roots imps ps reports r"
  using assms(3-4)
proof (induction "ids_left g roots ps" arbitrary: node ps imps junk reports rule: less_induct)
  case less
  note entered = less.hyps and ok = less.prems(1)
  from less.prems(2) show ?case
  proof (induction imps arbitrary: junk reports)
    case Nil
    then show ?case by (simp add: check_file_imports.simps check_result_def)
  next
    case (Cons imported rest)
    then have imp: "imported \<in> set (imports_of g node)" and rest: "set rest \<subseteq> set (imports_of g node)"
      by auto
    let ?id = "file_id_of g" and ?ps = "ps @ [file_id_of g node]"
    consider (direct) "?id imported = ?id node"
      | (indirect) "?id imported \<noteq> ?id node" "?id imported \<in> set ps"
      | (enter) "?id imported \<noteq> ?id node" "?id imported \<notin> set ps" by blast
    then show ?case
    proof cases
      case direct
      let ?new = "(ps @ junk, imported, node, True)"
      have "closes_cycle g roots ?new" using ids ok imp direct by (rule direct_report)
      moreover from Cons.IH[OF rest, of junk "reports @ [?new]"] obtain r where
        r: "check_file_imports g node (length ps) rest (ps @ junk) (reports @ [?new]) = Some r"
        "check_result g roots rest ps (reports @ [?new]) r" by blast
      ultimately have "check_result g roots (imported # rest) ps reports r"
        using check_result_reported[of g roots rest ps reports "[?new]" r] by simp
      then show ?thesis using r(1) check_direct[OF direct] by metis
    next
      case indirect
      let ?new = "map (\<lambda>i. (ps, imported, node, False)) (filter (\<lambda>i. ?id imported = i) ps)"
      have "?new \<noteq> []" using indirect(2) by (auto simp: filter_empty_conv)
      moreover have "list_all (closes_cycle g roots) ?new"
        using indirect_report[OF ids ok imp indirect(2)] by (simp add: list_all_iff)
      moreover from Cons.IH[OF rest, of "[?id node]" "reports @ ?new"] obtain r where
        r: "check_file_imports g node (length ps) rest ?ps (reports @ ?new) = Some r"
        "check_result g roots rest ps (reports @ ?new) r" by blast
      ultimately have "check_result g roots (imported # rest) ps reports r"
        using check_result_reported[of g roots rest ps reports ?new r] by blast
      then show ?thesis using r(1) check_indirect[OF indirect] by metis
    next
      case enter
      have ok': "parents_ok g roots imported ?ps" using ok imp enter by (rule parents_ok_import)
      from entered[OF ids_left_less[OF fin ok] ok' subset_refl, of "[]" reports] obtain r1 where
        r1: "check_file_imports g imported (length ?ps) (imports_of g imported) ?ps reports = Some r1"
          "check_result g roots (imports_of g imported) ?ps reports r1" by auto
      then obtain j1 n1 where j1: "r1 = (?ps @ j1, reports @ n1)" by (auto simp: check_result_def)
      from Cons.IH[OF rest, of "?id node # j1" "reports @ n1"] obtain r where
        r: "check_file_imports g node (length ps) rest (fst r1) (snd r1) = Some r"
        "check_result g roots rest ps (snd r1) r" using j1 by auto
      have "check_file_imports g node (length ps) (imported # rest) (ps @ junk) reports = Some r"
        by (simp add: check_enter[OF enter] r1(1)[simplified] r(1))
      moreover have "check_result g roots (imported # rest) ps reports r"
        using r1(2) r(2) by (rule check_result_entered)
      ultimately show ?thesis by blast
    qed
  qed
qed

text \<open>All files of the span.\<close>

lemma check_files:
  assumes "finite (reachable_from (imports_of g) roots)" "distinct_ids g roots" "set fs \<subseteq> set roots"
  shows "\<exists>new. check_files_for_cycles g fs reports = Some (reports @ new) \<and>
    list_all (closes_cycle g roots) new \<and> (if new = [] then list_all (path_bounded (imports_of g)) fs else True)"
  using assms(3)
proof (induction fs arbitrary: reports)
  case (Cons f fs)
  have "parents_ok g roots f []" using Cons.prems by (auto simp: parents_ok_def reachable_from_def)
  from check_file[OF assms(1,2) this subset_refl, of "[]" reports] obtain r where
    r: "check_imports_for_cycles g f [] reports = Some r" "check_result g roots (imports_of g f) [] reports r"
    by (auto simp: check_imports_for_cycles_def)
  from r(2) obtain n1 where n1: "snd r = reports @ n1" "list_all (closes_cycle g roots) n1"
    "n1 = [] \<Longrightarrow> list_all (path_bounded (imports_of g)) (imports_of g f)"
    by (auto simp: check_result_def split: if_splits)
  then have "n1 = [] \<Longrightarrow> path_bounded (imports_of g) f"
    by (auto simp: list_all_iff intro: path_boundedI)
  moreover obtain n2 where "check_files_for_cycles g fs (reports @ n1) = Some (reports @ n1 @ n2)"
    "list_all (closes_cycle g roots) n2" "if n2 = [] then list_all (path_bounded (imports_of g)) fs else True"
    using Cons.IH[of "reports @ n1"] Cons.prems by auto
  ultimately show ?case using r(1) n1(1,2) by (intro exI[of _ "n1 @ n2"]) simp
qed simp

lemma check_files_iff:
  assumes "finite (reachable_from (imports_of g) roots)" "distinct_ids g roots"
  obtains reports where "check_files_for_cycles g roots [] = Some reports"
    "list_all (closes_cycle g roots) reports" "reports \<noteq> [] \<longleftrightarrow> has_cycle (imports_of g) roots"
proof -
  from check_files[OF assms subset_refl, of "[]"] obtain new where
    new: "check_files_for_cycles g roots [] = Some new" "list_all (closes_cycle g roots) new"
      "new = [] \<Longrightarrow> list_all (path_bounded (imports_of g)) roots"
    by auto
  moreover have "new \<noteq> [] \<longleftrightarrow> has_cycle (imports_of g) roots"
    using new(2,3) path_bounded_has_cycle[of roots "imports_of g"] closes_cycle_has_cycle[of g roots]
    by (cases new) (auto simp: list_all_iff)
  ultimately show ?thesis using that by blast
qed

subsection \<open>Properties\<close>

text \<open>Small graphs, given by the imports of the files \<open>0, 1, \<dots>\<close>\<close>

definition example_graph :: "nat list list \<Rightarrow> nat import_graph" where
  "example_graph imps = \<lparr>file_id_of = id, imports_of = (\<lambda>f. if f < length imps then imps ! f else [])\<rparr>"

lemma example_ids: "distinct_ids (example_graph imps) roots"
  by (simp add: distinct_ids_def example_graph_def)

lemma finite_reachable:
  assumes "set roots \<subseteq> set xs" "list_all (\<lambda>a. list_all (\<lambda>b. b \<in> set xs) (succs a)) xs"
  shows "finite (reachable_from succs roots)"
proof -
  have "b \<in> set xs" if "(a, b) \<in> (edge_rel succs)\<^sup>*" "a \<in> set xs" for a b
    using that by (induction rule: rtrancl_induct) (use assms(2) in \<open>auto simp: list_all_iff\<close>)
  then have "reachable_from succs roots \<subseteq> set xs" using assms(1) by (auto simp: reachable_from_def)
  then show ?thesis using finite_subset by blast
qed

text \<open>
  C39. The cycle check of a file with finitely many files to reach returns. It reports something
  exactly when the imports that can be reached have a cycle, and every report names an import
  from which the imports lead back to the importing file.
\<close>

theorem cycle_check_correct:
  assumes "finite (reachable_from (imports_of g) roots)" "distinct_ids g roots"
  shows "\<exists>reports. check_files_for_cycles g roots [] = Some reports \<and>
    (reports \<noteq> [] \<longleftrightarrow> has_cycle (imports_of g) roots) \<and> list_all (closes_cycle g roots) reports"
proof -
  from assms obtain reports where "check_files_for_cycles g roots [] = Some reports"
    "list_all (closes_cycle g roots) reports" "reports \<noteq> [] \<longleftrightarrow> has_cycle (imports_of g) roots"
    by (rule check_files_iff)
  then show ?thesis by blast
qed

theorem cycle_check_correct_witness:
  "\<exists>reports. check_files_for_cycles (example_graph [[1], [2], [1]]) [0] [] = Some reports \<and>
    (reports \<noteq> [] \<longleftrightarrow> has_cycle (imports_of (example_graph [[1], [2], [1]])) [0]) \<and>
    list_all (closes_cycle (example_graph [[1], [2], [1]]) [0]) reports"
  by (rule cycle_check_correct[OF finite_reachable[where xs = "[0, 1, 2]"] example_ids])
    (simp_all add: example_graph_def)

text \<open>
  C13. Ordering the files of a \<^verbatim>\<open>build.lab\<close> always ends. It fails exactly when the imports have a
  cycle, and otherwise gives every file that can be reached once, each after all the files it
  imports.
\<close>

theorem lab_files_ordered:
  assumes "finite (reachable_from (imports_of g) [f])" "distinct_ids g [f]"
  shows "\<exists>r. order_lab_files g f = Some r \<and>
    (case r of
       None \<Rightarrow> has_cycle (imports_of g) [f]
     | Some out \<Rightarrow> \<not> has_cycle (imports_of g) [f] \<and> distinct out \<and>
         set out = reachable_from (imports_of g) [f] \<and> dependencies_first (imports_of g) [] out)"
proof -
  from assms obtain reports where "check_files_for_cycles g [f] [] = Some reports"
    "reports \<noteq> [] \<longleftrightarrow> has_cycle (imports_of g) [f]" by (rule check_files_iff)
  then show ?thesis
    using files.sorted_nodes_defined[OF assms(1)] files.sorted_nodes_Some[of g "[f]"]
    by (auto simp: order_lab_files_def flatten_sorted_nodes)
qed

theorem lab_files_ordered_witness:
  "\<exists>r. order_lab_files (example_graph [[1, 2], [2], []]) 0 = Some r \<and>
    (case r of
       None \<Rightarrow> has_cycle (imports_of (example_graph [[1, 2], [2], []])) [0]
     | Some out \<Rightarrow> \<not> has_cycle (imports_of (example_graph [[1, 2], [2], []])) [0] \<and> distinct out \<and>
         set out = reachable_from (imports_of (example_graph [[1, 2], [2], []])) [0] \<and>
         dependencies_first (imports_of (example_graph [[1, 2], [2], []])) [] out)"
  by (rule lab_files_ordered[OF finite_reachable[where xs = "[0, 1, 2]"] example_ids])
    (simp_all add: example_graph_def)

text \<open>
  Flattening the modules of a job, for which nothing checks for cycles, returns exactly when
  their dependencies have no cycle; then the list has every module once, dependencies first.
\<close>

theorem modules_flattened:
  assumes "finite (reachable_from dependencies mods)"
  shows "case flatten_dedupe_sorted dependencies mods of
      None \<Rightarrow> has_cycle dependencies mods
    | Some out \<Rightarrow> \<not> has_cycle dependencies mods \<and> distinct out \<and>
        set out = reachable_from dependencies mods \<and> dependencies_first dependencies [] out"
  using modules.sorted_nodes_defined[OF assms] modules.sorted_nodes_Some[of dependencies mods]
  by (auto simp: flatten_dedupe_sorted_nodes split: option.split)

theorem modules_flattened_witness:
  "case flatten_dedupe_sorted (imports_of (example_graph [[1, 2], [2], []])) [1, 0] of
      None \<Rightarrow> has_cycle (imports_of (example_graph [[1, 2], [2], []])) [1, 0]
    | Some out \<Rightarrow> \<not> has_cycle (imports_of (example_graph [[1, 2], [2], []])) [1, 0] \<and> distinct out \<and>
        set out = reachable_from (imports_of (example_graph [[1, 2], [2], []])) [1, 0] \<and>
        dependencies_first (imports_of (example_graph [[1, 2], [2], []])) [] out"
  by (rule modules_flattened[OF finite_reachable[where xs = "[0, 1, 2]"]])
    (simp_all add: example_graph_def)

end
