(* ===== verification/Layout.thy ===== *)
theory Layout
  imports Int_Kinds
begin

text \<open>
  Sizes, alignments and member offsets that the compiler computes at compile time for
  \<^verbatim>\<open>sizeof\<close>, \<^verbatim>\<open>alignof\<close> and \<^verbatim>\<open>offsetof\<close>: the \<^verbatim>\<open>byte_size\<close> methods under \<^verbatim>\<open>ast/types\<close> and
  \<^verbatim>\<open>ast/structures\<close>, \<^verbatim>\<open>BaseType::type_alignment\<close>, \<^verbatim>\<open>total_byte_size\<close> and its relatives in
  \<^verbatim>\<open>ast/structures/MembersContainer.cpp\<close>, and \<^verbatim>\<open>struct_member_offset\<close> of
  \<^verbatim>\<open>ast/values/OffsetOfValue.cpp\<close>.

  A linked type holds its declaration (the pointer is never null after symbol resolution), so
  types are trees. Pointees, signatures and other parts that no size depends on are left out.
  Sizes are \<^verbatim>\<open>uint64_t\<close> and wrap; alignments are \<^verbatim>\<open>unsigned\<close>.
\<close>

datatype chem_type =
    AnyT | BoolT | DoubleT | FloatT | LongDoubleT | ComplexT | Float128T | PointerT | ReferenceT
  | StringT | DynamicT | VoidT | ExpressionT | NullPtrT | ExpressiveStringT | IfTypeT | UnknownT
  | IntNT int_n_kind
  | ArrayT u64 chem_type
  | StructT "member list"
  | UnionT "member list"
  | FunctionT bool
  | CapturingFunctionT chem_type
  | LiteralT chem_type
  | MaybeRuntimeT chem_type
  | RuntimeT chem_type
  | GenericT ast_node
  | LinkedT ast_node
and ast_node =
    StructDecl "chem_type list" "member list" u32
  | UnionDecl "member list"
  | VariantDecl "chem_type list" "variant_member list"
  | InterfaceDecl "chem_type list" "member list"
  | EnumDecl chem_type
  | TypealiasStmt chem_type
  | UnnamedStruct "member list"
  | UnnamedUnion "member list"
and member = Member (member_name: string) (known_type: chem_type) (required_alignment: u32)
and variant_member = VariantMember (variant_member_name: string) (variant_params: "chem_type list")

text \<open>
  A size, an exception (\<^verbatim>\<open>byte_size called on base type\<close>), or what C++ leaves undefined (a remainder
  by an alignment of zero, the largest member of an empty union).
\<close>

datatype 'a size_result = Computed 'a | Thrown | Undefined

fun bind_size :: "'a size_result \<Rightarrow> ('a \<Rightarrow> 'b size_result) \<Rightarrow> 'b size_result" where
  "bind_size (Computed a) f = f a"
| "bind_size Thrown f = Thrown"
| "bind_size Undefined f = Undefined"

subsection \<open>Linked nodes\<close>

fun get_direct_linked_node :: "chem_type \<Rightarrow> ast_node option" where
  "get_direct_linked_node (LinkedT n) = Some n"
| "get_direct_linked_node (GenericT n) = Some n"
| "get_direct_linked_node (CapturingFunctionT t) = get_direct_linked_node t"
| "get_direct_linked_node t = None"

text \<open>
  \<^verbatim>\<open>ASTNode::get_members_container\<close>. The node of an unnamed struct or union type is no container,
  so \<open>get_direct_linked_node\<close> gives none for them either.
\<close>

lemma linked_node_smaller [termination_simp]:
  "get_direct_linked_node t = Some n \<Longrightarrow> size n < size t"
  by (induction t rule: get_direct_linked_node.induct) auto

fun get_members_container :: "ast_node \<Rightarrow> ast_node option" where
  "get_members_container (TypealiasStmt actual) =
     (case get_direct_linked_node actual of Some n \<Rightarrow> get_members_container n | None \<Rightarrow> None)"
| "get_members_container (EnumDecl t) = None"
| "get_members_container (UnnamedStruct ms) = None"
| "get_members_container (UnnamedUnion ms) = None"
| "get_members_container n = Some n"

text \<open>The types of the variables of a container, with the alignment a struct member requires.\<close>

definition variables_of :: "ast_node \<Rightarrow> (chem_type \<times> u32) list" where
  "variables_of n = (case n of
      StructDecl inh ms r \<Rightarrow> map (\<lambda>m. (known_type m, required_alignment m)) ms
    | UnionDecl ms \<Rightarrow> map (\<lambda>m. (known_type m, required_alignment m)) ms
    | InterfaceDecl inh ms \<Rightarrow> map (\<lambda>m. (known_type m, required_alignment m)) ms
    | VariantDecl inh vs \<Rightarrow> map (\<lambda>v. (LinkedT (VariantDecl inh vs), 0)) vs
    | _ \<Rightarrow> [])"

text \<open>The own alignment of a struct declaration.\<close>

fun own_alignment :: "ast_node \<Rightarrow> u32" where
  "own_alignment (StructDecl inh ms r) = r"
| "own_alignment n = 0"

fun canonical_type :: "chem_type \<Rightarrow> chem_type" where
  "canonical_type (LiteralT t) = t"
| "canonical_type (MaybeRuntimeT t) = t"
| "canonical_type (RuntimeT t) = t"
| "canonical_type (LinkedT (TypealiasStmt actual)) = canonical_type actual"
| "canonical_type (GenericT (TypealiasStmt actual)) = canonical_type actual"
| "canonical_type t = t"

subsection \<open>Alignment\<close>

fun max_alignment :: "u32 \<Rightarrow> u32 list \<Rightarrow> u32" where
  "max_alignment m [] = m"
| "max_alignment m (a # as) = max_alignment (if a > m then a else m) as"

definition raise_alignment :: "u32 \<Rightarrow> u32 \<Rightarrow> u32" where
  "raise_alignment align required = (if required > align then required else align)"

lemma container_smaller:
  "get_members_container n = Some c \<Longrightarrow> size c \<le> size n"
  by (induction n rule: get_members_container.induct)
    (auto split: option.splits dest!: linked_node_smaller)

lemma canonical_smaller: "size (canonical_type t) \<le> size t"
  by (induction t rule: canonical_type.induct) auto

lemma known_type_smaller: "m \<in> set ms \<Longrightarrow> size (known_type m) \<le> size_list size ms"
proof -
  have "size (known_type m) \<le> size m" by (cases m) simp
  then show "m \<in> set ms \<Longrightarrow> size (known_type m) \<le> size_list size ms"
    by (rule size_list_estimation'[rotated])
qed

lemma variable_smaller: "(t, r) \<in> set (variables_of c) \<Longrightarrow> size t \<le> Suc (size c)"
proof -
  have known: "size (known_type m) \<le> size_list size ms" if "m \<in> set ms" for m ms
    using that by (rule known_type_smaller)
  assume "(t, r) \<in> set (variables_of c)"
  then show ?thesis by (cases c) (auto simp: variables_of_def dest: known)
qed

lemma variant_param_smaller:
  "v \<in> set vs \<Longrightarrow> t \<in> set (variant_params v) \<Longrightarrow> size t \<le> size_list size vs"
  by (rule size_list_estimation'[of v], assumption) (cases v, auto intro: size_list_estimation' le_SucI)

lemma alias_variable_smaller:
  assumes "get_members_container (TypealiasStmt actual) = Some c" "(t, r) \<in> set (variables_of c)"
  shows "size t < Suc (Suc (size actual))"
proof -
  from assms(1) obtain n where "get_direct_linked_node actual = Some n" "get_members_container n = Some c"
    by (auto split: option.splits)
  with assms(2) show ?thesis
    using linked_node_smaller[of actual n] container_smaller[of n c] variable_smaller[of t r c] by simp
qed

function type_alignment :: "target_data \<Rightarrow> chem_type \<Rightarrow> u32" where
  "type_alignment target (StructT ms) = max_alignment 1
     (map (\<lambda>m. raise_alignment (type_alignment target (known_type m)) (required_alignment m)) ms)"
| "type_alignment target (UnionT ms) = max_alignment 1
     (map (\<lambda>m. type_alignment target (known_type m)) ms)"
| "type_alignment target (ArrayT n t) = type_alignment target t"
| "type_alignment target AnyT = 8"
| "type_alignment target LongDoubleT = 8"
| "type_alignment target ComplexT = 8"
| "type_alignment target Float128T = 8"
| "type_alignment target (FunctionT capturing) = 8"
| "type_alignment target (GenericT n) = 8"
| "type_alignment target PointerT = 8"
| "type_alignment target NullPtrT = 8"
| "type_alignment target ReferenceT = 8"
| "type_alignment target StringT = 8"
| "type_alignment target VoidT = 8"
| "type_alignment target UnknownT = 8"
| "type_alignment target DynamicT = 8"
| "type_alignment target BoolT = 1"
| "type_alignment target DoubleT = 8"
| "type_alignment target FloatT = 4"
| "type_alignment target (IntNT k) =
     (if num_bits target k = 8 then 1 else if num_bits target k = 16 then 2
      else if num_bits target k = 32 then 4 else 8)"
| "type_alignment target (LiteralT t) = type_alignment target t"
| "type_alignment target (LinkedT (VariantDecl inh vs)) = max_alignment 4
     (map (\<lambda>v. max_alignment 1 (map (type_alignment target) (variant_params v))) vs)"
| "type_alignment target (LinkedT (StructDecl inh ms r)) = raise_alignment
     (max_alignment 1
       (map (\<lambda>m. raise_alignment (type_alignment target (known_type m)) (required_alignment m)) ms)) r"
| "type_alignment target (LinkedT (UnionDecl ms)) = max_alignment 1
     (map (\<lambda>m. raise_alignment (type_alignment target (known_type m)) (required_alignment m)) ms)"
| "type_alignment target (LinkedT (InterfaceDecl inh ms)) = max_alignment 1
     (map (\<lambda>m. raise_alignment (type_alignment target (known_type m)) (required_alignment m)) ms)"
| "type_alignment target (LinkedT (TypealiasStmt actual)) =
     (case get_members_container (TypealiasStmt actual) of
        Some c \<Rightarrow> max_alignment 1
          (map (\<lambda>(t, r). raise_alignment (type_alignment target t) r) (variables_of c))
      | None \<Rightarrow> type_alignment target (canonical_type actual))"
| "type_alignment target (LinkedT (EnumDecl t)) = 8"
| "type_alignment target (LinkedT (UnnamedStruct ms)) = 8"
| "type_alignment target (LinkedT (UnnamedUnion ms)) = 8"
| "type_alignment target ExpressionT = 8"
| "type_alignment target ExpressiveStringT = 0"
| "type_alignment target IfTypeT = 0"
| "type_alignment target (CapturingFunctionT t) = 0"
| "type_alignment target (MaybeRuntimeT t) = 0"
| "type_alignment target (RuntimeT t) = 0"
  by pat_completeness auto

termination
  by (relation "measure (\<lambda>(target, t). size t)")
    (auto simp del: get_members_container.simps simp: less_Suc_eq_le
      intro: le_SucI canonical_smaller
      dest: known_type_smaller variant_param_smaller alias_variable_smaller)

subsection \<open>Size\<close>

text \<open>\<open>(m - (n mod m)) mod m\<close>, for an alignment that is not zero.\<close>

definition padding_to :: "u32 \<Rightarrow> u64 \<Rightarrow> u64" where
  "padding_to align offset = (ucast align - offset mod ucast align) mod ucast align"

definition pad_offset :: "u32 \<Rightarrow> u64 \<Rightarrow> u64 size_result" where
  "pad_offset align offset =
    (if align = 0 then Undefined else Computed (offset + padding_to align offset))"

text \<open>\<^verbatim>\<open>total_byte_size\<close> over the alignments and sizes of the variables.\<close>

fun lay_out :: "(u32 \<times> u64 size_result) list \<Rightarrow> u32 \<Rightarrow> u64 \<Rightarrow> (u32 \<times> u64) size_result" where
  "lay_out [] maxAlignment offset = Computed (maxAlignment, offset)"
| "lay_out ((align, sz) # vars) maxAlignment offset =
     bind_size (pad_offset align offset) (\<lambda>offset.
       bind_size sz (\<lambda>n. lay_out vars (max maxAlignment align) (offset + n)))"

definition total_byte_size :: "(u32 \<times> u64 size_result) list \<Rightarrow> u64 size_result" where
  "total_byte_size vars =
     bind_size (lay_out vars 1 0) (\<lambda>(maxAlignment, offset). pad_offset maxAlignment offset)"

fun largest_member_byte_size :: "u64 size_result list \<Rightarrow> u64 \<Rightarrow> u64 size_result" where
  "largest_member_byte_size [] largest = Computed largest"
| "largest_member_byte_size (sz # rest) largest =
     bind_size sz (\<lambda>previous. largest_member_byte_size rest (if previous > largest then previous else largest))"

text \<open>\<^verbatim>\<open>largest_member\<close>: each member comes with the size that is compared.\<close>

fun largest_member :: "(u64 size_result \<times> 'b) list \<Rightarrow> (u64 size_result \<times> 'b) option \<Rightarrow> 'b option size_result" where
  "largest_member [] member = Computed (map_option snd member)"
| "largest_member (var # vars) None = largest_member vars (Some var)"
| "largest_member (var # vars) (Some member) =
     bind_size (fst var) (\<lambda>v. bind_size (fst member) (\<lambda>m.
       largest_member vars (Some (if v > m then var else member))))"

fun sum_sizes :: "u64 size_result list \<Rightarrow> u64 \<Rightarrow> u64 size_result" where
  "sum_sizes [] total_bytes = Computed total_bytes"
| "sum_sizes (sz # rest) total_bytes = bind_size sz (\<lambda>n. sum_sizes rest (total_bytes + n))"

text \<open>
  \<open>host\<close> is the target that \<^verbatim>\<open>largest_member\<close> compares sizes for, \<^verbatim>\<open>create_target_data()\<close>.
\<close>

fun type_byte_size :: "target_data \<Rightarrow> target_data \<Rightarrow> chem_type \<Rightarrow> u64 size_result"
and node_byte_size :: "target_data \<Rightarrow> target_data \<Rightarrow> ast_node \<Rightarrow> u64 size_result"
and member_byte_size :: "target_data \<Rightarrow> target_data \<Rightarrow> member \<Rightarrow> u64 size_result"
and variant_member_byte_size :: "target_data \<Rightarrow> target_data \<Rightarrow> variant_member \<Rightarrow> u64 size_result" where
  "type_byte_size host target BoolT = Computed 1"
| "type_byte_size host target DoubleT = Computed 8"
| "type_byte_size host target FloatT = Computed 4"
| "type_byte_size host target LongDoubleT = Computed 16"
| "type_byte_size host target ComplexT = Computed 8"
| "type_byte_size host target Float128T = Computed 16"
| "type_byte_size host target PointerT = Computed (if is64Bit target then 8 else 4)"
| "type_byte_size host target ReferenceT = Computed (if is64Bit target then 8 else 4)"
| "type_byte_size host target DynamicT = Computed 16"
| "type_byte_size host target ExpressionT = Computed 0"
| "type_byte_size host target (IntNT k) = Computed (of_nat (byte_size target k))"
| "type_byte_size host target (ArrayT n t) =
     (if n = 0 then Computed 0 else bind_size (type_byte_size host target t) (\<lambda>s. Computed (n * s)))"
| "type_byte_size host target (UnionT ms) =
     largest_member_byte_size (map (member_byte_size host target) ms) 0"
| "type_byte_size host target (FunctionT capturing) = Computed
     (if capturing then if is64Bit target then 16 else 8 else if is64Bit target then 8 else 4)"
| "type_byte_size host target (CapturingFunctionT t) = type_byte_size host target t"
| "type_byte_size host target (LiteralT t) = type_byte_size host target t"
| "type_byte_size host target (MaybeRuntimeT t) = type_byte_size host target t"
| "type_byte_size host target (RuntimeT t) = type_byte_size host target t"
| "type_byte_size host target (GenericT n) = node_byte_size host target n"
| "type_byte_size host target (LinkedT n) = node_byte_size host target n"
| "type_byte_size host target AnyT = Thrown"
| "type_byte_size host target StringT = Thrown"
| "type_byte_size host target VoidT = Thrown"
| "type_byte_size host target NullPtrT = Thrown"
| "type_byte_size host target ExpressiveStringT = Thrown"
| "type_byte_size host target IfTypeT = Thrown"
| "type_byte_size host target UnknownT = Thrown"
| "type_byte_size host target (StructT ms) = Thrown"
| "node_byte_size host target (StructDecl inh ms r) = total_byte_size
     (map (\<lambda>m. (type_alignment target (known_type m), member_byte_size host target m)) ms)"
| "node_byte_size host target (UnionDecl ms) =
     largest_member_byte_size (map (member_byte_size host target) ms) 0"
| "node_byte_size host target (VariantDecl inh vs) =
     (let type_size = (if is64Bit target then 4 else 2)
      in bind_size
           (largest_member
             (map (\<lambda>v. (variant_member_byte_size host host v, variant_member_byte_size host target v)) vs) None)
           (\<lambda>large. case large of
              None \<Rightarrow> Computed type_size
            | Some sz \<Rightarrow> bind_size sz (\<lambda>n. Computed (n + type_size))))"
| "node_byte_size host target (InterfaceDecl inh ms) = Computed (if is64Bit target then 8 else 4)"
| "node_byte_size host target (EnumDecl t) = type_byte_size host target t"
| "node_byte_size host target (TypealiasStmt actual) = type_byte_size host target actual"
| "node_byte_size host target (UnnamedStruct ms) = total_byte_size
     (map (\<lambda>m. (type_alignment target (known_type m), member_byte_size host target m)) ms)"
| "node_byte_size host target (UnnamedUnion ms) =
     bind_size
       (largest_member (map (\<lambda>m. (member_byte_size host host m, member_byte_size host target m)) ms) None)
       (\<lambda>large. case large of None \<Rightarrow> Undefined | Some sz \<Rightarrow> sz)"
| "member_byte_size host target (Member name t r) = type_byte_size host target t"
| "variant_member_byte_size host target (VariantMember name ts) =
     sum_sizes (map (type_byte_size host target) ts) 0"

subsection \<open>Offsets\<close>

fun inherited_of :: "ast_node \<Rightarrow> chem_type list" where
  "inherited_of (StructDecl inh ms r) = inh"
| "inherited_of (VariantDecl inh vs) = inh"
| "inherited_of (InterfaceDecl inh ms) = inh"
| "inherited_of n = []"

text \<open>The variables of a container with their names, alignments and sizes.\<close>

definition member_layout ::
  "target_data \<Rightarrow> target_data \<Rightarrow> member \<Rightarrow> string \<times> u32 \<times> u64 size_result" where
  "member_layout host target m =
     (member_name m, type_alignment target (known_type m), member_byte_size host target m)"

definition container_layout ::
  "target_data \<Rightarrow> target_data \<Rightarrow> ast_node \<Rightarrow> (string \<times> u32 \<times> u64 size_result) list" where
  "container_layout host target n = (case n of
      StructDecl inh ms r \<Rightarrow> map (member_layout host target) ms
    | UnionDecl ms \<Rightarrow> map (member_layout host target) ms
    | InterfaceDecl inh ms \<Rightarrow> map (member_layout host target) ms
    | VariantDecl inh vs \<Rightarrow> map (\<lambda>v. (variant_member_name v,
        type_alignment target (LinkedT (VariantDecl inh vs)), variant_member_byte_size host target v)) vs
    | _ \<Rightarrow> [])"

fun skip_inherited :: "(u32 \<times> u64 size_result) list \<Rightarrow> u64 \<Rightarrow> u64 size_result" where
  "skip_inherited [] offset = Computed offset"
| "skip_inherited ((align, sz) # rest) offset =
     bind_size (pad_offset align offset) (\<lambda>offset. bind_size sz (\<lambda>n. skip_inherited rest (offset + n)))"

fun find_offset :: "string \<Rightarrow> (string \<times> u32 \<times> u64 size_result) list \<Rightarrow> u64 \<Rightarrow> u64 size_result" where
  "find_offset name [] offset = Computed (- 1)"
| "find_offset name ((var, align, sz) # vars) offset =
     bind_size (pad_offset align offset) (\<lambda>offset.
       if var = name then Computed offset
       else bind_size sz (\<lambda>n. find_offset name vars (offset + n)))"

definition struct_member_offset ::
  "target_data \<Rightarrow> target_data \<Rightarrow> chem_type \<Rightarrow> string \<Rightarrow> u64 size_result" where
  "struct_member_offset host target t name =
    (case get_direct_linked_node t of
       None \<Rightarrow> Computed (- 1)
     | Some node \<Rightarrow>
         (case get_members_container node of
            None \<Rightarrow> Computed (- 1)
          | Some c \<Rightarrow>
              bind_size
                (skip_inherited
                  (map (\<lambda>t. (type_alignment target t, type_byte_size host target t)) (inherited_of c)) 0)
                (find_offset name (container_layout host target c))))"

end
