(* ===== verification/Layout_Correct.thy ===== *)
theory Layout_Correct
  imports Layout
begin

text \<open>
  What the computed layout guarantees: members one after the other at the first aligned
  position, sizes that are multiples of the alignment; and where it does not: inherited
  members, unions.
\<close>

subsection \<open>Padding\<close>

text \<open>\<open>p\<close> is the first multiple of \<open>a\<close> from \<open>e\<close> on.\<close>

definition first_aligned :: "nat \<Rightarrow> nat \<Rightarrow> nat \<Rightarrow> bool" where
  "first_aligned a e p \<longleftrightarrow> a dvd p \<and> e \<le> p \<and> p < e + a"

lemma unat_ucast_u32 [simp]: "unat (ucast (w :: u32) :: u64) = unat w"
  using unsigned_less[of w, where ?'a = nat] by (simp add: unsigned_ucast_eq take_bit_nat_eq_self)

lemma padding_to_nat:
  assumes "align \<noteq> 0"
  shows "unat (padding_to align offset) = (unat align - unat offset mod unat align) mod unat align"
proof -
  let ?a = "ucast align :: u64"
  have a: "unat ?a = unat align" by (rule unat_ucast_u32)
  have "unat (offset mod ?a) < unat ?a"
    using assms by (simp add: unat_mod unat_gt_0)
  then have "unat (?a - offset mod ?a) = unat ?a - unat offset mod unat ?a"
    by (simp add: unat_sub word_le_nat_alt unat_mod)
  then show ?thesis by (simp add: padding_to_def unat_mod)
qed

lemma pad_nat:
  fixes a e :: nat
  assumes "0 < a"
  shows "first_aligned a e (e + (a - e mod a) mod a)"
proof (cases "e mod a = 0")
  case False
  then have "(a - e mod a) mod a = a - e mod a" using assms by (intro mod_less) simp
  moreover have "e + (a - e mod a) = a * (e div a) + a"
    using assms mod_less_divisor[OF assms, of e] mult_div_mod_eq[of a e] by linarith
  moreover have "a dvd a * (e div a) + a" by simp
  moreover have "a * (e div a) + a < e + a" "e < a * (e div a) + a"
    using False mod_less_divisor[OF assms, of e] mult_div_mod_eq[of a e] by linarith+
  ultimately show ?thesis by (simp add: first_aligned_def)
qed (use assms in \<open>auto simp: first_aligned_def\<close>)

lemma pad_offset_exact:
  assumes "align \<noteq> 0" "unat offset + unat align \<le> 2 ^ 64"
  obtains p where "pad_offset align offset = Computed p" "first_aligned (unat align) (unat offset) (unat p)"
proof -
  let ?pad = "(unat align - unat offset mod unat align) mod unat align"
  have "0 < unat align" using assms(1) by (simp add: unat_gt_0)
  from pad_nat[OF this] have fits: "first_aligned (unat align) (unat offset) (unat offset + ?pad)" .
  then have "unat offset + unat (padding_to align offset) < 2 ^ 64"
    using assms by (simp add: padding_to_nat first_aligned_def)
  then have "unat (offset + padding_to align offset) = unat offset + ?pad"
    using assms(1) by (simp add: unat_add_lem[THEN iffD1] padding_to_nat)
  then show ?thesis using that fits assms(1) by (simp add: pad_offset_def)
qed

text \<open>Powers of two divide the padded offset even where it wraps.\<close>

definition small_alignment :: "u32 \<Rightarrow> bool" where
  "small_alignment a \<longleftrightarrow> a \<in> {1, 2, 4, 8}"

lemma small_alignment_dvd: "small_alignment a \<Longrightarrow> unat a dvd 2 ^ 64"
  by (auto simp: small_alignment_def)

lemma small_alignment_nonzero [simp]: "small_alignment a \<Longrightarrow> a \<noteq> 0"
  by (auto simp: small_alignment_def)

lemma pad_offset_dvd:
  assumes "small_alignment align"
  obtains p where "pad_offset align offset = Computed p" "unat align dvd unat p"
proof -
  let ?pad = "(unat align - unat offset mod unat align) mod unat align"
  have "unat align dvd unat offset + ?pad"
    using pad_nat[of "unat align" "unat offset"] assms by (simp add: first_aligned_def unat_gt_0)
  then have "unat align dvd (unat offset + ?pad) mod 2 ^ 64"
    using small_alignment_dvd[OF assms] by (simp add: dvd_mod)
  then have "unat align dvd unat (offset + padding_to align offset)"
    using assms by (simp add: unat_word_ariths padding_to_nat)
  then show ?thesis using that assms by (simp add: pad_offset_def)
qed

lemma small_alignment_max: "small_alignment a \<Longrightarrow> small_alignment b \<Longrightarrow> small_alignment (max a b)"
  by (simp add: max_def)

lemma small_alignment_dvd_le:
  "small_alignment a \<Longrightarrow> small_alignment b \<Longrightarrow> a \<le> b \<Longrightarrow> unat a dvd unat b"
  by (auto simp: small_alignment_def word_le_nat_alt)

lemma max_alignment_max: "max_alignment m as = foldl max m as"
  by (induction as arbitrary: m) (auto simp: max_def)

lemma raise_alignment_0 [simp]: "raise_alignment a 0 = a"
  by (simp add: raise_alignment_def)

lemma small_max_alignment:
  "small_alignment m \<Longrightarrow> list_all small_alignment as \<Longrightarrow> small_alignment (max_alignment m as)"
  by (induction as arbitrary: m) auto

subsection \<open>Plain types: sizes are multiples of alignments\<close>

text \<open>
  Scalars with a size, arrays, literals and aliases of plain types, and structs of plain members
  without explicit alignment.
\<close>

inductive plain_type :: "chem_type \<Rightarrow> bool" where
  plain_int: "plain_type (IntNT k)"
| plain_scalar: "t \<in> set [BoolT, DoubleT, FloatT, LongDoubleT, ComplexT, Float128T, PointerT, ReferenceT,
     DynamicT, FunctionT True, FunctionT False] \<Longrightarrow> plain_type t"
| plain_array: "plain_type t \<Longrightarrow> plain_type (ArrayT n t)"
| plain_literal: "plain_type t \<Longrightarrow> plain_type (LiteralT t)"
| plain_alias: "plain_type t \<Longrightarrow> plain_type (LinkedT (TypealiasStmt t))"
| plain_struct: "(\<forall>m \<in> set ms. required_alignment m = 0 \<and> plain_type (known_type m)) \<Longrightarrow>
     plain_type (LinkedT (StructDecl inh ms 0))"

code_pred plain_type .

definition well_sized :: "u32 \<Rightarrow> u64 size_result \<Rightarrow> bool" where
  "well_sized align sz \<longleftrightarrow> small_alignment align \<and> (\<exists>n. sz = Computed n \<and> unat align dvd unat n)"

lemma well_sizedI: "small_alignment a \<Longrightarrow> sz = Computed n \<Longrightarrow> unat a dvd unat n \<Longrightarrow> well_sized a sz"
  by (auto simp: well_sized_def)

lemma lay_out_defined:
  assumes "list_all (\<lambda>(a, sz). small_alignment a \<and> (\<exists>n. sz = Computed n)) vars"
  shows "\<exists>offset'. lay_out vars m offset = Computed (foldl max m (map fst vars), offset')"
  using assms
proof (induction vars arbitrary: m offset)
  case (Cons var vars)
  obtain a n where var: "var = (a, Computed n)" "small_alignment a" using Cons.prems by auto
  from pad_offset_dvd[OF this(2), of offset] obtain p where "pad_offset a offset = Computed p" .
  with var Cons show ?case by auto
qed simp

lemma total_byte_size_well_sized:
  assumes "list_all (\<lambda>(a, sz). well_sized a sz) vars"
  shows "well_sized (max_alignment 1 (map fst vars)) (total_byte_size vars)"
proof -
  from assms have "list_all (\<lambda>(a, sz). small_alignment a \<and> (\<exists>n. sz = Computed n)) vars"
    "list_all small_alignment (map fst vars)"
    by (auto simp: list_all_iff well_sized_def)
  then obtain offset where "lay_out vars 1 0 = Computed (max_alignment 1 (map fst vars), offset)"
    and small: "small_alignment (max_alignment 1 (map fst vars))"
    using lay_out_defined[of vars 1 0] small_max_alignment[of 1 "map fst vars"]
    by (auto simp: max_alignment_max small_alignment_def[of 1])
  then show ?thesis
    using pad_offset_dvd[OF small, of offset] by (auto simp: total_byte_size_def intro: well_sizedI)
qed

lemma member_byte_size_known: "member_byte_size host target m = type_byte_size host target (known_type m)"
  by (cases m) simp

lemma alias_alignment:
  "plain_type t \<Longrightarrow> type_alignment target (LinkedT (TypealiasStmt t)) = type_alignment target t"
  by (cases rule: plain_type.cases) (auto simp: variables_of_def comp_def split: option.splits)

lemma dvd_word_mult: "small_alignment a \<Longrightarrow> unat a dvd unat s \<Longrightarrow> unat a dvd unat (n * s :: u64)"
  using small_alignment_dvd by (auto simp: unat_word_ariths intro!: dvd_mod)

lemma int_well_sized:
  "is64Bit target \<Longrightarrow> well_sized (type_alignment target (IntNT k)) (Computed (of_nat (byte_size target k)))"
  by (cases k) (auto simp: well_sized_def small_alignment_def num_bits_def byte_size_def)

lemma plain_well_sized:
  assumes "plain_type t" "is64Bit target"
  shows "well_sized (type_alignment target t) (type_byte_size host target t)"
  using assms(1)
proof (induction rule: plain_type.induct)
  case (plain_int k)
  then show ?case using int_well_sized[OF assms(2)] by simp
next
  case (plain_scalar t)
  then show ?case using assms(2) by (auto simp: well_sized_def small_alignment_def)
next
  case (plain_array t n)
  then show ?case by (auto simp: well_sized_def intro: dvd_word_mult)
next
  case (plain_alias t)
  then show ?case by (simp add: alias_alignment del: type_alignment.simps)
next
  case (plain_struct ms inh)
  then have "list_all (\<lambda>(a, sz). well_sized a sz)
      (map (\<lambda>m. (type_alignment target (known_type m), member_byte_size host target m)) ms)"
    by (auto simp: list_all_iff member_byte_size_known)
  then have "well_sized
      (max_alignment 1 (map (\<lambda>m. type_alignment target (known_type m)) ms))
      (node_byte_size host target (StructDecl inh ms 0))"
    by (auto dest!: total_byte_size_well_sized simp: comp_def)
  moreover have "map (\<lambda>m. raise_alignment (type_alignment target (known_type m)) (required_alignment m)) ms =
      map (\<lambda>m. type_alignment target (known_type m)) ms"
    using plain_struct by simp
  ultimately show ?case
    by (simp only: type_alignment.simps type_byte_size.simps raise_alignment_0)
qed simp

text \<open>
  On a 64-bit target every plain type has a size and an alignment of 1, 2, 4 or 8 bytes that
  divides the size, so that the elements of an array, at multiples of the size, are all aligned.
\<close>

theorem plain_size_aligned:
  assumes "plain_type t" "is64Bit target"
  shows "\<exists>n. type_byte_size host target t = Computed n \<and>
    type_alignment target t \<in> {1, 2, 4, 8} \<and> unat (type_alignment target t) dvd unat n"
  using plain_well_sized[OF assms, of host] by (auto simp: well_sized_def small_alignment_def)

theorem plain_size_aligned_witness:
  "\<exists>n. type_byte_size \<lparr>is64Bit = False, windows = True\<rparr> \<lparr>is64Bit = True, windows = False\<rparr>
      (ArrayT 3 (LinkedT (StructDecl [] [Member ''a'' (IntNT KChar) 0, Member ''b'' (IntNT KLong) 0] 0))) =
      Computed n \<and>
    type_alignment \<lparr>is64Bit = True, windows = False\<rparr>
      (ArrayT 3 (LinkedT (StructDecl [] [Member ''a'' (IntNT KChar) 0, Member ''b'' (IntNT KLong) 0] 0)))
      \<in> {1, 2, 4, 8} \<and>
    unat (type_alignment \<lparr>is64Bit = True, windows = False\<rparr>
      (ArrayT 3 (LinkedT (StructDecl [] [Member ''a'' (IntNT KChar) 0, Member ''b'' (IntNT KLong) 0] 0))))
      dvd unat n"
  by (rule plain_size_aligned) (auto intro!: plain_array plain_struct plain_int)

subsection \<open>The layout of a struct\<close>

text \<open>
  Members with these alignments and sizes, from the position \<open>e\<close> on, lie at these offsets and
  finish at the last argument.
\<close>

fun laid_out :: "(nat \<times> nat) list \<Rightarrow> nat \<Rightarrow> nat list \<Rightarrow> nat \<Rightarrow> bool" where
  "laid_out [] e [] fin = (fin = e)"
| "laid_out ((a, s) # vs) e (p # ps) fin = (first_aligned a e p \<and> laid_out vs (p + s) ps fin)"
| "laid_out vs e ps fin = False"

record var_layout =
  vl_name :: string
  vl_align :: u32
  vl_size :: u64

definition room :: "var_layout list \<Rightarrow> nat" where
  "room vs = sum_list (map (\<lambda>v. unat (vl_align v) + unat (vl_size v)) vs)"

lemma lay_out_exact:
  assumes "list_all (\<lambda>v. vl_align v \<noteq> 0) vs" "unat offset + room vs < 2 ^ 64"
  shows "\<exists>ps fin. lay_out (map (\<lambda>v. (vl_align v, Computed (vl_size v))) vs) m offset =
      Computed (foldl max m (map vl_align vs), fin) \<and>
    laid_out (map (\<lambda>v. (unat (vl_align v), unat (vl_size v))) vs) (unat offset) (map unat ps) (unat fin) \<and>
    unat fin \<le> unat offset + room vs \<and>
    (distinct (map vl_name vs) \<longrightarrow>
      map (\<lambda>w. find_offset (vl_name w) (map (\<lambda>v. (vl_name v, vl_align v, Computed (vl_size v))) vs) offset) vs = map Computed ps)"
  using assms
proof (induction vs arbitrary: m offset)
  case Nil
  then show ?case by (auto intro: exI[of _ "[]"])
next
  case (Cons v vs)
  let ?a = "vl_align v" and ?s = "vl_size v"
  from Cons.prems have a: "?a \<noteq> 0" "unat offset + unat ?a \<le> 2 ^ 64" by (auto simp: room_def)
  obtain p where p: "pad_offset ?a offset = Computed p" "first_aligned (unat ?a) (unat offset) (unat p)"
    using pad_offset_exact[OF a] .
  have bound: "unat p + unat ?s + room vs < 2 ^ 64" "unat p < unat offset + unat ?a"
    using Cons.prems(2) p(2) by (auto simp: room_def first_aligned_def)
  then have ps: "unat (p + ?s) = unat p + unat ?s" by (simp add: unat_add_lem[THEN iffD1])
  have rest: "list_all (\<lambda>v. vl_align v \<noteq> 0) vs" "unat (p + ?s) + room vs < 2 ^ 64"
    using Cons.prems(1) bound(1) ps by simp_all
  from Cons.IH[OF this, of "max m ?a", unfolded ps] obtain qs fin where IH: "lay_out (map (\<lambda>v. (vl_align v, Computed (vl_size v))) vs) (max m ?a) (p + ?s) =
      Computed (foldl max (max m ?a) (map vl_align vs), fin)"
    "laid_out (map (\<lambda>v. (unat (vl_align v), unat (vl_size v))) vs) (unat p + unat ?s) (map unat qs) (unat fin)"
    "unat fin \<le> unat p + unat ?s + room vs"
    "distinct (map vl_name vs) \<longrightarrow>
      map (\<lambda>w. find_offset (vl_name w) (map (\<lambda>v. (vl_name v, vl_align v, Computed (vl_size v))) vs) (p + ?s)) vs = map Computed qs"
    by (elim exE conjE) (rule that; assumption)
  have "map (\<lambda>w. find_offset (vl_name w) (map (\<lambda>v. (vl_name v, vl_align v, Computed (vl_size v))) (v # vs)) offset) vs =
      map (\<lambda>w. find_offset (vl_name w) (map (\<lambda>v. (vl_name v, vl_align v, Computed (vl_size v))) vs) (p + ?s)) vs"
    if "distinct (map vl_name (v # vs))"
    using that p(1) by (intro map_cong refl) (auto simp: image_iff)
  then have "distinct (map vl_name (v # vs)) \<longrightarrow>
      map (\<lambda>w. find_offset (vl_name w) (map (\<lambda>v. (vl_name v, vl_align v, Computed (vl_size v))) (v # vs)) offset) (v # vs) =
      map Computed (p # qs)"
    using IH(4) p(1) by simp
  moreover have "unat fin \<le> unat offset + room (v # vs)"
    using IH(3) bound(2) by (simp add: room_def)
  ultimately show ?case
    using IH(1,2) p by (intro exI[of _ "p # qs"] exI[of _ fin]) simp
qed

lemma total_byte_size_exact:
  assumes "lay_out vars 1 0 = Computed (A, fin)" "A \<noteq> 0" "unat fin + unat A \<le> 2 ^ 64"
  obtains total where "total_byte_size vars = Computed total" "first_aligned (unat A) (unat fin) (unat total)"
  using assms pad_offset_exact[OF assms(2,3)] by (auto simp: total_byte_size_def)

text \<open>The variables of a struct whose members have the sizes \<open>ss\<close>.\<close>

definition sized_members :: "target_data \<Rightarrow> member list \<Rightarrow> u64 list \<Rightarrow> var_layout list" where
  "sized_members target ms ss =
     map (\<lambda>(m, s). \<lparr>vl_name = member_name m, vl_align = type_alignment target (known_type m), vl_size = s\<rparr>)
       (zip ms ss)"

lemma struct_vars:
  assumes "map (member_byte_size host target) ms = map Computed ss"
  shows "map (\<lambda>m. (type_alignment target (known_type m), member_byte_size host target m)) ms =
      map (\<lambda>v. (vl_align v, Computed (vl_size v))) (sized_members target ms ss)"
    "map (member_layout host target) ms = map (\<lambda>v. (vl_name v, vl_align v, Computed (vl_size v))) (sized_members target ms ss)"
    "map vl_align (sized_members target ms ss) = map (\<lambda>m. type_alignment target (known_type m)) ms"
    "map vl_name (sized_members target ms ss) = map member_name ms"
    "map (\<lambda>v. h (vl_name v)) (sized_members target ms ss) = map (\<lambda>m. h (member_name m)) ms"
  using assms
  by (induction ms arbitrary: ss) (auto simp: sized_members_def member_layout_def Cons_eq_map_conv)

lemma max_alignment_1_nonzero: "max_alignment 1 as \<noteq> 0"
proof -
  have "m \<le> max_alignment m as" for m
    by (induction as arbitrary: m) (auto simp: not_less intro: order_trans less_imp_le)
  from this[of 1] show ?thesis by (metis word_le_0_iff zero_neq_one)
qed

lemma struct_alignment:
  assumes "list_all (\<lambda>m. required_alignment m = 0) ms"
  shows "type_alignment target (LinkedT (StructDecl inh ms 0)) =
    max_alignment 1 (map (\<lambda>m. type_alignment target (known_type m)) ms)"
proof -
  have "map (\<lambda>m. raise_alignment (type_alignment target (known_type m)) (required_alignment m)) ms =
      map (\<lambda>m. type_alignment target (known_type m)) ms"
    using assms by (simp add: list_all_iff)
  then show ?thesis by (simp only: type_alignment.simps raise_alignment_0)
qed

text \<open>
  C14. The members of a struct that inherits nothing and requires no alignment, of itself or of a
  member, lie one after the other, each at the first aligned position after the one before it; the
  size of the struct is the first multiple of its alignment from the end of the last member on.
  This holds for members with different names, whose types have a size and an alignment other than
  zero, as long as nothing reaches \<open>2 ^ 64\<close>. Structs that inherit are laid out otherwise
  (\<open>member_outside_struct\<close> below).
\<close>

theorem struct_laid_out:
  assumes "distinct (map member_name ms)" "list_all (\<lambda>m. required_alignment m = 0) ms"
    and "list_all (\<lambda>m. type_alignment target (known_type m) \<noteq> 0) ms"
    and "map (member_byte_size host target) ms = map Computed ss"
    and "room (sized_members target ms ss) +
         unat (type_alignment target (LinkedT (StructDecl [] ms 0))) < 2 ^ 64"
  shows "\<exists>ps fin total.
    map (\<lambda>m. struct_member_offset host target (LinkedT (StructDecl [] ms 0)) (member_name m)) ms =
      map Computed ps \<and>
    laid_out (map (\<lambda>v. (unat (vl_align v), unat (vl_size v))) (sized_members target ms ss)) 0 (map unat ps) fin \<and>
    type_byte_size host target (LinkedT (StructDecl [] ms 0)) = Computed total \<and>
    first_aligned (unat (type_alignment target (LinkedT (StructDecl [] ms 0)))) fin (unat total)"
proof -
  let ?vs = "sized_members target ms ss" and ?A = "type_alignment target (LinkedT (StructDecl [] ms 0))"
  note vars = struct_vars[OF assms(4)]
  have A: "?A = max_alignment 1 (map (\<lambda>m. type_alignment target (known_type m)) ms)"
    by (rule struct_alignment[OF assms(2)])
  have "list_all (\<lambda>a. a \<noteq> 0) (map vl_align ?vs)"
    unfolding vars(3) using assms(3) by (simp add: list_all_iff)
  then have "list_all (\<lambda>v. vl_align v \<noteq> 0) ?vs" by (auto simp: list_all_iff)
  from lay_out_exact[OF this, of 0 1] assms(1,5) obtain ps fin where out:
    "lay_out (map (\<lambda>v. (vl_align v, Computed (vl_size v))) ?vs) 1 0 = Computed (?A, fin)"
    "laid_out (map (\<lambda>v. (unat (vl_align v), unat (vl_size v))) ?vs) 0 (map unat ps) (unat fin)"
    "unat fin \<le> room ?vs"
    "map (\<lambda>w. find_offset (vl_name w) (map (\<lambda>v. (vl_name v, vl_align v, Computed (vl_size v))) ?vs) 0) ?vs = map Computed ps"
    unfolding A max_alignment_max vars(3,4) by auto
  have "?A \<noteq> 0" unfolding A by (rule max_alignment_1_nonzero)
  then obtain total where
    "total_byte_size (map (\<lambda>v. (vl_align v, Computed (vl_size v))) ?vs) = Computed total"
    "first_aligned (unat ?A) (unat fin) (unat total)"
    using total_byte_size_exact[OF out(1)] out(3) assms(5) by auto
  moreover have "map (\<lambda>m. struct_member_offset host target (LinkedT (StructDecl [] ms 0)) (member_name m)) ms =
      map Computed ps"
    using out(4) vars(5)[of "\<lambda>x. find_offset x (map (\<lambda>v. (vl_name v, vl_align v, Computed (vl_size v))) ?vs) 0"]
    by (simp add: struct_member_offset_def container_layout_def vars(2))
  ultimately show ?thesis using out(2)
    by (intro exI[of _ ps] exI[of _ "unat fin"] exI[of _ total]) (simp only: type_byte_size.simps node_byte_size.simps vars(1))
qed

text \<open>A 64-bit target, and a struct of a character, a long and an integer.\<close>

definition linux64 :: target_data where
  "linux64 = \<lparr>is64Bit = True, windows = False\<rparr>"

definition example_members :: "member list" where
  "example_members = [Member ''a'' (IntNT KChar) 0, Member ''b'' (IntNT KLong) 0, Member ''c'' (IntNT KInt) 0]"

theorem struct_laid_out_witness:
  "\<exists>ps fin total.
    map (\<lambda>m. struct_member_offset linux64 linux64 (LinkedT (StructDecl [] example_members 0)) (member_name m))
      example_members = map Computed ps \<and>
    laid_out (map (\<lambda>v. (unat (vl_align v), unat (vl_size v)))
      (sized_members linux64 example_members [1, 8, 4])) 0 (map unat ps) fin \<and>
    type_byte_size linux64 linux64 (LinkedT (StructDecl [] example_members 0)) = Computed total \<and>
    first_aligned (unat (type_alignment linux64 (LinkedT (StructDecl [] example_members 0)))) fin (unat total)"
  by (rule struct_laid_out)
    (simp_all add: example_members_def linux64_def num_bits_def byte_size_def room_def sized_members_def
      raise_alignment_def)

subsection \<open>Where the layout goes wrong\<close>

lemma offset_bound:
  assumes "first_aligned a e p" "e + a \<le> b"
  shows "p < b"
  using assms by (simp add: first_aligned_def)

text \<open>
  \<^verbatim>\<open>offsetof\<close> places inherited structs in front of the members, \<^verbatim>\<open>sizeof\<close> does not count them: a
  member smaller than the base of its struct has an offset at or beyond the size of the struct.
\<close>

theorem member_outside_struct:
  assumes "type_byte_size host target base = Computed b" "type_alignment target base \<noteq> 0"
    and "type_byte_size host target t = Computed s" "type_alignment target t \<noteq> 0"
    and "unat s + unat (type_alignment target t) \<le> unat b"
    and "unat b + unat (type_alignment target t) + unat (type_alignment target base) < 2 ^ 64"
  shows "\<exists>off total.
    struct_member_offset host target (LinkedT (StructDecl [base] [Member x t 0] 0)) x = Computed off \<and>
    type_byte_size host target (LinkedT (StructDecl [base] [Member x t 0] 0)) = Computed total \<and>
    unat total < unat off"
proof -
  let ?a = "type_alignment target t" and ?ab = "type_alignment target base"
  have pad0: "pad_offset al 0 = Computed 0" if "al \<noteq> 0" for al
    using that by (simp add: pad_offset_def padding_to_def)
  have "max 1 ?a = ?a" using assms(4)
    by (simp add: max_def word_le_nat_alt Suc_le_eq unat_gt_0)
  have "unat b + unat ?a \<le> 2 ^ 64" using assms(6) by simp
  from pad_offset_exact[OF assms(4) this] obtain off where
    off: "pad_offset ?a b = Computed off" "first_aligned (unat ?a) (unat b) (unat off)" .
  have "unat s + unat ?a \<le> 2 ^ 64" using assms(5,6) by simp
  from pad_offset_exact[OF assms(4) this] obtain total where
    total: "pad_offset ?a s = Computed total" "first_aligned (unat ?a) (unat s) (unat total)" .
  have "struct_member_offset host target (LinkedT (StructDecl [base] [Member x t 0] 0)) x = Computed off"
    using assms(1,2) off(1)
    by (simp add: struct_member_offset_def container_layout_def member_layout_def pad0)
  moreover have "type_byte_size host target (LinkedT (StructDecl [base] [Member x t 0] 0)) = Computed total"
    using assms(3,4) total(1) \<open>max 1 ?a = ?a\<close> by (simp add: total_byte_size_def pad0)
  moreover have "unat total < unat off"
    using offset_bound[OF total(2) assms(5)] off(2) by (simp add: first_aligned_def)
  ultimately show ?thesis by blast
qed

theorem member_outside_struct_witness:
  "\<exists>off total.
    struct_member_offset linux64 linux64
      (LinkedT (StructDecl [LinkedT (StructDecl [] example_members 0)] [Member ''d'' (IntNT KInt) 0] 0)) ''d'' =
      Computed off \<and>
    type_byte_size linux64 linux64
      (LinkedT (StructDecl [LinkedT (StructDecl [] example_members 0)] [Member ''d'' (IntNT KInt) 0] 0)) =
      Computed total \<and>
    unat total < unat off"
  by (rule member_outside_struct[where b = 24 and s = 4])
    (simp_all add: example_members_def linux64_def num_bits_def byte_size_def raise_alignment_def
      total_byte_size_def pad_offset_def padding_to_def max_def)

text \<open>
  The second member of a union, which shares its storage with the first, is given an offset
  past the first; it starts at or after the first member's end.
\<close>

theorem union_offset_past_first:
  assumes "type_byte_size host target t = Computed s" "type_alignment target t \<noteq> 0"
    and "type_alignment target u \<noteq> 0" "x \<noteq> y"
    and "unat s + unat (type_alignment target u) \<le> 2 ^ 64"
  shows "\<exists>off.
    struct_member_offset host target (LinkedT (UnionDecl [Member x t rt, Member y u ru])) y = Computed off \<and>
    unat s \<le> unat off"
proof -
  from pad_offset_exact[OF assms(3,5)] obtain off where
    off: "pad_offset (type_alignment target u) s = Computed off"
      "first_aligned (unat (type_alignment target u)) (unat s) (unat off)" .
  then show ?thesis using assms
    by (simp add: struct_member_offset_def container_layout_def member_layout_def first_aligned_def
        pad_offset_def[of _ 0] padding_to_def[of _ 0])
qed

theorem union_offset_past_first_witness:
  "\<exists>off.
    struct_member_offset linux64 linux64
      (LinkedT (UnionDecl [Member ''i'' (IntNT KLong) 0, Member ''f'' FloatT 0])) ''f'' = Computed off \<and>
    unat (8 :: u64) \<le> unat off"
  by (rule union_offset_past_first)
    (simp_all add: linux64_def num_bits_def byte_size_def)

end
