(* ===== verification/Symbol_Resolver.thy ===== *)
theory Symbol_Resolver
  imports Symbol_Table "HOL-Library.AList"
begin

text \<open>
  Declaring the symbols of files: \<^verbatim>\<open>compiler/symres/SymbolResolver.cpp\<close>, the visitor of
  \<^verbatim>\<open>compiler/symres/DeclareTopLevel.cpp\<close> and \<^verbatim>\<open>declare_node\<close> of \<^verbatim>\<open>NodeSymbolDeclarer.h\<close>.

  A pointer to a declaration is a record with what the resolver reads of the node: an id that
  stands for its address, its name and access specifier, whether it is a namespace, and the names
  of the namespaces around it, innermost first (its chain of parents up to the file). The maps
  \<^verbatim>\<open>extended\<close> and the pointers \<^verbatim>\<open>root\<close> of namespaces are kept in the state, by the id of the
  namespace; \<^verbatim>\<open>extended\<close> is a hash map, here an association list in the order of insertion.
  A compile-time \<^verbatim>\<open>if\<close> holds the nodes of the branch it evaluated to, if it did.
\<close>

datatype access_specifier = Private | Protected | Internal | Public

fun specifier_index :: "access_specifier \<Rightarrow> nat" where
  "specifier_index Private = 0"
| "specifier_index Protected = 1"
| "specifier_index Internal = 2"
| "specifier_index Public = 3"

instantiation access_specifier :: linorder
begin

definition less_eq_access_specifier :: "access_specifier \<Rightarrow> access_specifier \<Rightarrow> bool" where
  "a \<le> b \<longleftrightarrow> specifier_index a \<le> specifier_index b"

definition less_access_specifier :: "access_specifier \<Rightarrow> access_specifier \<Rightarrow> bool" where
  "a < b \<longleftrightarrow> specifier_index a < specifier_index b"

instance
proof
  show "x = y" if "x \<le> y" "y \<le> x" for x y :: access_specifier
    using that by (cases x; cases y) (simp_all add: less_eq_access_specifier_def)
qed (auto simp: less_eq_access_specifier_def less_access_specifier_def)

end

lemma Private_least [simp]: "Private \<le> a"
  by (simp add: less_eq_access_specifier_def)

record sym_node =
  n_id :: nat
  n_name :: string
  n_specifier :: access_specifier
  n_is_namespace :: bool
  n_path :: "string list"

text \<open>The nodes of a file or a namespace.\<close>

datatype tld_node =
    Decl sym_node
  | Func sym_node bool
  | Generic sym_node
  | GenericFunc sym_node bool
  | Namespace sym_node "tld_node list"
  | If "tld_node list option"

datatype diagnostic =
    Duplicate_Symbol string nat
  | Already_Exists string nat
  | Has_Conflict nat
  | Lower_Specifier nat

record symbol_resolver =
  table :: "sym_node symbol_table"
  stored_file_symbols :: "(string \<times> sym_node) list"
  extended :: "nat \<Rightarrow> (string \<times> sym_node) list"
  root_of :: "nat \<Rightarrow> sym_node option"
  diagnostics :: "diagnostic list"

definition new_resolver :: symbol_resolver where
  "new_resolver =
     \<lparr>table = scope_start GlobalScope (new_symbol_table_sized 512), stored_file_symbols = [],
      extended = (\<lambda>i. []), root_of = (\<lambda>i. None), diagnostics = []\<rparr>"

definition report :: "diagnostic list \<Rightarrow> symbol_resolver \<Rightarrow> symbol_resolver" where
  "report ds r = r\<lparr>diagnostics := diagnostics r @ ds\<rparr>"

definition update_table ::
  "(sym_node symbol_table \<Rightarrow> sym_node symbol_table) \<Rightarrow> symbol_resolver \<Rightarrow> symbol_resolver" where
  "update_table f r = r\<lparr>table := f (table r)\<rparr>"

definition find_node :: "string \<Rightarrow> symbol_resolver \<Rightarrow> sym_node option" where
  "find_node name r = resolve name (table r)"

definition in_namespace :: "sym_node \<Rightarrow> bool" where
  "in_namespace n \<longleftrightarrow> n_path n \<noteq> []"

definition dup_sym_error :: "string \<Rightarrow> sym_node \<Rightarrow> sym_node \<Rightarrow> symbol_resolver \<Rightarrow> symbol_resolver" where
  "dup_sym_error name previous new_node =
     report [Duplicate_Symbol name (n_id new_node), Has_Conflict (n_id previous)]"

subsection \<open>Declaring a node\<close>

definition declare_tld_default :: "string \<Rightarrow> sym_node \<Rightarrow> symbol_resolver \<Rightarrow> symbol_resolver" where
  "declare_tld_default name node r =
    (case declare_no_shadow name node (table r) of
       (None, t) \<Rightarrow> r\<lparr>table := t\<rparr>
     | (Some previous, t) \<Rightarrow>
         let r' = r\<lparr>table := declare_symbol name node t\<rparr>
         in if in_namespace node then r' else dup_sym_error name previous node r')"

definition declare_or_shadow :: "string \<Rightarrow> sym_node \<Rightarrow> symbol_resolver \<Rightarrow> symbol_resolver" where
  "declare_or_shadow name node = update_table (declare_symbol name node)"

definition declare_new :: "string \<Rightarrow> sym_node \<Rightarrow> symbol_resolver \<Rightarrow> symbol_resolver" where
  "declare_new name node r =
    (case declare_no_shadow name node (table r) of
       (None, t) \<Rightarrow> r\<lparr>table := t\<rparr>
     | (Some previous, t) \<Rightarrow>
         update_table (declare_symbol name node)
           (report [Already_Exists name (n_id node), Has_Conflict (n_id previous)] (r\<lparr>table := t\<rparr>)))"

definition declare_file_disposable :: "string \<Rightarrow> sym_node \<Rightarrow> symbol_resolver \<Rightarrow> symbol_resolver" where
  "declare_file_disposable name node r =
     r\<lparr>stored_file_symbols := stored_file_symbols r @ [(name, node)]\<rparr>"

text \<open>There is always a scope, the global one, for \<open>is_in_current_scope\<close> to look at.\<close>

definition declare_function_quietly :: "string \<Rightarrow> sym_node \<Rightarrow> symbol_resolver \<Rightarrow> symbol_resolver" where
  "declare_function_quietly name node r =
    (case declare_no_shadow_sym name node (table r) of
       (None, t) \<Rightarrow> r\<lparr>table := t\<rparr>
     | (Some previous, t) \<Rightarrow>
         let dup = (case s_node previous of
                      Some p \<Rightarrow> dup_sym_error name p node (r\<lparr>table := t\<rparr>) | None \<Rightarrow> r\<lparr>table := t\<rparr>)
         in update_table (declare_symbol name node)
              (if is_in_current_scope previous t = Some True then dup
               else if in_namespace node then r\<lparr>table := t\<rparr> else dup))"

definition declare_tld_node :: "string \<Rightarrow> sym_node \<Rightarrow> access_specifier \<Rightarrow> symbol_resolver \<Rightarrow> symbol_resolver" where
  "declare_tld_node name node specifier = (case specifier of
      Private \<Rightarrow> declare_file_disposable name node
    | Protected \<Rightarrow> declare_file_disposable name node
    | Public \<Rightarrow> declare_tld_default name node
    | Internal \<Rightarrow> declare_tld_default name node)"

definition declare_function :: "string \<Rightarrow> sym_node \<Rightarrow> access_specifier \<Rightarrow> symbol_resolver \<Rightarrow> symbol_resolver" where
  "declare_function name node specifier = (case specifier of
      Private \<Rightarrow> declare_file_disposable name node
    | Public \<Rightarrow> declare_function_quietly name node
    | Internal \<Rightarrow> declare_function_quietly name node
    | Protected \<Rightarrow> declare_function_quietly name node)"

subsection \<open>The maps of namespaces\<close>

text \<open>\<^verbatim>\<open>MapSymbolDeclarer\<close> and \<^verbatim>\<open>MapSymbolDeclarerNoOverride\<close>, into the map of a namespace.\<close>

definition map_declare :: "nat \<Rightarrow> string \<Rightarrow> sym_node \<Rightarrow> symbol_resolver \<Rightarrow> symbol_resolver" where
  "map_declare ns name node r =
     r\<lparr>extended := (extended r)(ns := AList.update name node (extended r ns))\<rparr>"

definition map_declare_no_override :: "nat \<Rightarrow> string \<Rightarrow> sym_node \<Rightarrow> symbol_resolver \<Rightarrow> symbol_resolver" where
  "map_declare_no_override ns name node r =
    (case map_of (extended r ns) name of
       None \<Rightarrow> r\<lparr>extended := (extended r)(ns := extended r ns @ [(name, node)])\<rparr>
     | Some previous \<Rightarrow> report [Already_Exists name (n_id node), Has_Conflict (n_id previous)] r)"

fun declare_node ::
  "(string \<Rightarrow> sym_node \<Rightarrow> symbol_resolver \<Rightarrow> symbol_resolver) \<Rightarrow> access_specifier \<Rightarrow> tld_node \<Rightarrow>
   symbol_resolver \<Rightarrow> symbol_resolver"
and declare_nodes ::
  "(string \<Rightarrow> sym_node \<Rightarrow> symbol_resolver \<Rightarrow> symbol_resolver) \<Rightarrow> access_specifier \<Rightarrow> tld_node list \<Rightarrow>
   symbol_resolver \<Rightarrow> symbol_resolver" where
  "declare_node dec at_least (Namespace ns nodes) r =
     (if n_specifier ns \<ge> at_least
      then dec (n_name ns) (case root_of r (n_id ns) of Some root \<Rightarrow> root | None \<Rightarrow> ns) r else r)"
| "declare_node dec at_least (If computed_scope) r =
     (case computed_scope of Some nodes \<Rightarrow> declare_nodes dec at_least nodes r | None \<Rightarrow> r)"
| "declare_node dec at_least (Func n is_extension) r =
     (if \<not> is_extension \<and> n_specifier n \<ge> at_least then dec (n_name n) n r else r)"
| "declare_node dec at_least (GenericFunc n is_extension) r =
     (if \<not> is_extension \<and> n_specifier n \<ge> at_least then dec (n_name n) n r else r)"
| "declare_node dec at_least (Generic n) r =
     (if n_name n \<noteq> [] \<and> n_specifier n \<ge> at_least then dec (n_name n) n r else r)"
| "declare_node dec at_least (Decl n) r =
     (if n_name n \<noteq> [] \<and> n_specifier n \<ge> at_least then dec (n_name n) n r else r)"
| "declare_nodes dec at_least [] r = r"
| "declare_nodes dec at_least (n # ns) r = declare_nodes dec at_least ns (declare_node dec at_least n r)"

text \<open>\<^verbatim>\<open>Namespace::declare_extended_in_table\<close>\<close>

definition declare_extended_in_table :: "sym_node \<Rightarrow> symbol_resolver \<Rightarrow> symbol_resolver" where
  "declare_extended_in_table ns r =
     update_table (fold (\<lambda>(name, node). declare_symbol name node) (extended r (n_id ns))) r"

subsection \<open>Merging namespaces\<close>

datatype merge_result = Duplicate | Merge | NoMerge

text \<open>
  The names of two namespaces and of the namespaces around them; the parent of the outermost is
  a file scope.
\<close>

fun namespace_parent_chain_equals :: "string list \<Rightarrow> string list \<Rightarrow> bool" where
  "namespace_parent_chain_equals (p1 # pp1) (p2 # pp2) =
     (if p1 \<noteq> p2 then False
      else if (pp1 = []) \<noteq> (pp2 = []) then False
      else if pp1 \<noteq> [] then namespace_parent_chain_equals pp1 pp2
      else True)"
| "namespace_parent_chain_equals p1 p2 = False"

definition merge_namespace_result :: "sym_node \<Rightarrow> sym_node \<Rightarrow> merge_result" where
  "merge_namespace_result previous ns =
    (if \<not> n_is_namespace previous then if in_namespace ns then NoMerge else Duplicate
     else if in_namespace ns then
       if \<not> in_namespace previous then NoMerge
       else if \<not> namespace_parent_chain_equals (n_path ns) (n_path previous) then NoMerge
       else Merge
     else Merge)"

subsection \<open>Visiting a file\<close>

definition start_scope :: "symbol_resolver \<Rightarrow> symbol_resolver" where
  "start_scope = update_table (scope_start DefaultScope)"

text \<open>Only scopes that were started are ended.\<close>

definition end_scope :: "symbol_resolver \<Rightarrow> symbol_resolver" where
  "end_scope = update_table (\<lambda>t. case scope_end t of Some t' \<Rightarrow> t' | None \<Rightarrow> t)"

fun visit_node :: "tld_node \<Rightarrow> symbol_resolver \<Rightarrow> symbol_resolver"
and visit_nodes :: "tld_node list \<Rightarrow> symbol_resolver \<Rightarrow> symbol_resolver" where
  "visit_node (Decl n) r = declare_tld_node (n_name n) n (n_specifier n) r"
| "visit_node (Func n is_extension) r =
     (if \<not> is_extension then declare_function (n_name n) n (n_specifier n) r else r)"
| "visit_node (Generic n) r = declare_new (n_name n) n r"
| "visit_node (GenericFunc n is_extension) r = (if \<not> is_extension then declare_new (n_name n) n r else r)"
| "visit_node (If computed_scope) r =
     (case computed_scope of Some nodes \<Rightarrow> visit_nodes nodes r | None \<Rightarrow> r)"
| "visit_node (Namespace ns nodes) r =
     (case find_node (n_name ns) r of
        None \<Rightarrow>
          end_scope (declare_nodes (map_declare (n_id ns)) Private nodes
            (visit_nodes nodes (start_scope (declare_tld_node (n_name ns) ns (n_specifier ns) r))))
      | Some previous \<Rightarrow>
          (case merge_namespace_result previous ns of
             Duplicate \<Rightarrow> dup_sym_error (n_name ns) previous ns r
           | Merge \<Rightarrow>
               let r = r\<lparr>root_of := (root_of r)(n_id ns := Some previous)\<rparr>
               in if n_specifier ns < n_specifier previous then report [Lower_Specifier (n_id ns)] r
                  else end_scope (declare_nodes (map_declare_no_override (n_id previous)) Private nodes
                         (visit_nodes nodes (declare_extended_in_table previous (start_scope r))))
           | NoMerge \<Rightarrow>
               end_scope (declare_nodes (map_declare (n_id ns)) Private nodes
                 (visit_nodes nodes (start_scope (declare_tld_node (n_name ns) ns (n_specifier ns) r))))))"
| "visit_nodes [] r = r"
| "visit_nodes (n # ns) r = visit_nodes ns (visit_node n r)"

subsection \<open>Passes over files\<close>

text \<open>A range is a pair of indices into the stored symbols.\<close>

definition enable_file_symbols :: "nat \<times> nat \<Rightarrow> symbol_resolver \<Rightarrow> symbol_resolver" where
  "enable_file_symbols sym_range r =
     update_table (fold (\<lambda>(name, node). declare_symbol name node)
       (slice (fst sym_range) (snd sym_range) (stored_file_symbols r))) r"

definition file_scope_start :: "symbol_resolver \<Rightarrow> nat \<times> symbol_resolver" where
  "file_scope_start r = (case scope_start_index FileScope (table r) of (i, t) \<Rightarrow> (i, r\<lparr>table := t\<rparr>))"

definition file_scope_end :: "nat \<Rightarrow> symbol_resolver \<Rightarrow> symbol_resolver" where
  "file_scope_end scope_index =
     update_table (\<lambda>t. case drop_all_scopes_from scope_index t of Some t' \<Rightarrow> t' | None \<Rightarrow> t)"

text \<open>The scope of the file stays open: its symbols are seen by the other files of the module.\<close>

definition tld_declare_file :: "tld_node list \<Rightarrow> symbol_resolver \<Rightarrow> (nat \<times> nat) \<times> symbol_resolver" where
  "tld_declare_file nodes r =
    (let (scope_index, r) = file_scope_start r;
         start = length (stored_file_symbols r);
         r = visit_nodes nodes r
     in ((start, length (stored_file_symbols r)), r))"

text \<open>
  \<^verbatim>\<open>link_signature_file\<close>, \<^verbatim>\<open>generic_instantiation_file\<close> and \<^verbatim>\<open>after_link_signature_file\<close>: a pass over
  the nodes of a file with its private symbols enabled.
\<close>

definition link_file ::
  "(symbol_resolver \<Rightarrow> symbol_resolver) \<Rightarrow> nat \<times> nat \<Rightarrow> symbol_resolver \<Rightarrow> symbol_resolver" where
  "link_file pass sym_range r =
    (let (scope_index, r) = file_scope_start r
     in file_scope_end scope_index (pass (enable_file_symbols sym_range r)))"

text \<open>Declaring and linking a file in one go; \<open>pass\<close> is what the four passes do one after the other.\<close>

definition declare_and_link_file ::
  "(symbol_resolver \<Rightarrow> symbol_resolver) \<Rightarrow> tld_node list \<Rightarrow> symbol_resolver \<Rightarrow> symbol_resolver" where
  "declare_and_link_file pass nodes r =
    (let (scope_index, r) = file_scope_start r;
         start = length (stored_file_symbols r);
         r = visit_nodes nodes r;
         sym_range = (start, length (stored_file_symbols r))
     in file_scope_end scope_index (pass (enable_file_symbols sym_range r)))"

text \<open>
  The loop of \<^verbatim>\<open>ASTProcessor::sym_res_module\<close> that declares the files of a module, each with the range
  of its private symbols. A file comes with whether the parts of it that are not modelled (imports,
  conditions, members) reported an error. The function returns 1 at the first file with an error,
  or after the last file, as the options say; otherwise it goes on to the passes.
\<close>

record resolve_options =
  ignore_errors :: bool
  stop_on_file_error :: bool

definition is_error :: "diagnostic \<Rightarrow> bool" where
  "is_error d \<longleftrightarrow> (case d of Has_Conflict i \<Rightarrow> False | _ \<Rightarrow> True)"

definition has_errors :: "symbol_resolver \<Rightarrow> bool" where
  "has_errors r \<longleftrightarrow> list_ex is_error (diagnostics r)"

definition reset_errors :: "symbol_resolver \<Rightarrow> symbol_resolver" where
  "reset_errors r = r\<lparr>diagnostics := []\<rparr>"

datatype module_result = Failed symbol_resolver | Declared "(nat \<times> nat) list" symbol_resolver

fun add_range :: "nat \<times> nat \<Rightarrow> module_result \<Rightarrow> module_result" where
  "add_range sym_range (Failed r) = Failed r"
| "add_range sym_range (Declared ranges r) = Declared (sym_range # ranges) r"

fun declare_files_loop ::
  "resolve_options \<Rightarrow> bool \<Rightarrow> (tld_node list \<times> bool) list \<Rightarrow> symbol_resolver \<Rightarrow> module_result" where
  "declare_files_loop options errored [] r = (if errored then Failed r else Declared [] r)"
| "declare_files_loop options errored ((nodes, other_errors) # files) r =
    (let (sym_range, r) = tld_declare_file nodes r;
         failed = (has_errors r \<or> other_errors) \<and> \<not> ignore_errors options
     in if failed \<and> stop_on_file_error options then Failed r
        else add_range sym_range
          (declare_files_loop options (errored \<or> failed) files (reset_errors r)))"

definition declare_module_files ::
  "resolve_options \<Rightarrow> (tld_node list \<times> bool) list \<Rightarrow> symbol_resolver \<Rightarrow> module_result" where
  "declare_module_files options files r = declare_files_loop options False files r"

text \<open>
  What a pass over a file then sees, through the table the visitor of the pass has for itself
  (\<^verbatim>\<open>sym_res_signature\<close>, \<^verbatim>\<open>tld_find\<close>).
\<close>

definition pass_table :: "nat \<times> nat \<Rightarrow> symbol_resolver \<Rightarrow> sym_node symbol_table" where
  "pass_table sym_range r =
     fold (\<lambda>(name, node). declare_symbol name node)
       (slice (fst sym_range) (snd sym_range) (stored_file_symbols r)) new_symbol_table"

definition tld_find :: "string \<Rightarrow> sym_node symbol_table \<Rightarrow> symbol_resolver \<Rightarrow> sym_node option" where
  "tld_find name t r = (case resolve name t of Some n \<Rightarrow> Some n | None \<Rightarrow> find_node name r)"

text \<open>Declaring the nodes of headers; a symbol that has an identifier and is not private.\<close>

definition tld_symbol :: "tld_node \<Rightarrow> sym_node option" where
  "tld_symbol node = (case node of
      Decl n \<Rightarrow> Some n | Func n e \<Rightarrow> Some n | Generic n \<Rightarrow> Some n | GenericFunc n e \<Rightarrow> Some n
    | Namespace n nodes \<Rightarrow> Some n | If nodes \<Rightarrow> None)"

definition import_node :: "bool \<Rightarrow> tld_node \<Rightarrow> symbol_resolver \<Rightarrow> symbol_resolver" where
  "import_node restrict_public node r = (case tld_symbol node of
      None \<Rightarrow> r
    | Some n \<Rightarrow>
        let specifier = (if restrict_public \<and> n_specifier n = Public then Internal else n_specifier n)
        in if n_name n \<noteq> [] \<and> specifier \<noteq> Private then declare_tld_node (n_name n) n specifier r else r)"

definition import_file :: "tld_node list \<Rightarrow> bool \<Rightarrow> symbol_resolver \<Rightarrow> symbol_resolver" where
  "import_file nodes restrict_public r =
     (fold (import_node restrict_public) nodes (snd (file_scope_start r)))\<lparr>diagnostics := []\<rparr>"

definition clear_resolver :: "symbol_resolver \<Rightarrow> symbol_resolver" where
  "clear_resolver r = r\<lparr>table := clear (table r), stored_file_symbols := []\<rparr>"

end
