(* ===== verification/Symbol_Resolver_Correct.thy ===== *)
theory Symbol_Resolver_Correct
  imports Symbol_Resolver Symbol_Table_Correct
begin

text \<open>
  What files and namespaces make visible to each other: the resolver is a scoped table, a
  namespace leaves no trace but its name, private symbols are seen by their file only.
\<close>

subsection \<open>Declaring\<close>

abbreviation resolver_ok :: "symbol_resolver \<Rightarrow> bool" where
  "resolver_ok r \<equiv> table_ok (table r)"

abbreviation visible_nodes :: "symbol_resolver \<Rightarrow> (string \<Rightarrow> sym_node option) list" where
  "visible_nodes r \<equiv> visible_names (table r)"

lemma find_node_visible: "resolver_ok r \<Longrightarrow> find_node name r = hd (visible_nodes r) name"
  by (simp add: find_node_def resolve_declared visible_cons)

lemma rehash_if_needed_visible: "table_ok t \<Longrightarrow> visible_names (rehash_if_needed t) = visible_names t"
  by (simp add: visible_names_def)

text \<open>A table in which a name was declared: it is well formed and the name has its node.\<close>

definition declares :: "string \<Rightarrow> 'n \<Rightarrow> 'n symbol_table \<Rightarrow> 'n symbol_table \<Rightarrow> bool" where
  "declares name node t t' \<longleftrightarrow> table_ok t' \<and>
     visible_names t' = (hd (visible_names t))(name \<mapsto> node) # tl (visible_names t)"

lemma declare_symbol_declares: "table_ok t \<Longrightarrow> declares name node t (declare_symbol name node t)"
  by (simp add: declares_def declare_symbol_ok declare_symbol_visible fun_upd_def)

lemma add_entry_declares: "table_ok t \<Longrightarrow> declares name node t (add_entry name node (rehash_if_needed t))"
proof -
  assume ok: "table_ok t"
  have "visible_names (add_entry name node t') = (hd (visible_names t'))(name \<mapsto> node) # tl (visible_names t')"
    if "table_ok t'" for t' using that by (simp add: add_entry_visible fun_upd_def)
  from this[of "rehash_if_needed t"] ok show ?thesis
    by (simp add: declares_def add_entry_ok rehash_if_needed_ok rehash_if_needed_visible)
qed

lemma declare_rehashed_declares:
  "table_ok t \<Longrightarrow> declares name node t (declare_symbol name node (rehash_if_needed t))"
  using declare_symbol_declares[of "rehash_if_needed t" name node]
  by (simp add: declares_def rehash_if_needed_ok rehash_if_needed_visible)

lemma declare_no_shadow_sym_cases:
  "declare_no_shadow_sym key node t = (None, add_entry key node (rehash_if_needed t)) \<or>
   (\<exists>d. declare_no_shadow_sym key node t = (Some d, rehash_if_needed t))"
  by (simp add: declare_no_shadow_sym_def add_entry_def Let_def split: option.split)

lemma table_report [simp]:
  "table (report ds r) = table r" "stored_file_symbols (report ds r) = stored_file_symbols r"
  "extended (report ds r) = extended r" "root_of (report ds r) = root_of r"
  by (simp_all add: report_def)

lemma table_dup [simp]:
  "table (dup_sym_error x p n r) = table r"
  "stored_file_symbols (dup_sym_error x p n r) = stored_file_symbols r"
  "extended (dup_sym_error x p n r) = extended r" "root_of (dup_sym_error x p n r) = root_of r"
  by (simp_all add: dup_sym_error_def)

lemma update_table_simps [simp]:
  "table (update_table f r) = f (table r)"
  "stored_file_symbols (update_table f r) = stored_file_symbols r"
  "extended (update_table f r) = extended r" "root_of (update_table f r) = root_of r"
  "diagnostics (update_table f r) = diagnostics r"
  by (simp_all add: update_table_def)

lemma declare_new_declares: "resolver_ok r \<Longrightarrow> declares name node (table r) (table (declare_new name node r))"
  using declare_no_shadow_cases[of "table r" name node]
  by (simp add: declare_new_def Let_def add_entry_declares declare_rehashed_declares split: option.split)

lemma declare_tld_default_declares:
  "resolver_ok r \<Longrightarrow> declares name node (table r) (table (declare_tld_default name node r))"
  using declare_no_shadow_cases[of "table r" name node]
  by (simp add: declare_tld_default_def Let_def add_entry_declares declare_rehashed_declares split: option.split)

lemma declare_function_quietly_declares:
  "resolver_ok r \<Longrightarrow> declares name node (table r) (table (declare_function_quietly name node r))"
  using declare_no_shadow_sym_cases[of name node "table r"]
  by (auto simp: declare_function_quietly_def Let_def add_entry_declares declare_rehashed_declares
      split: option.split)

lemma declare_or_shadow_declares:
  "resolver_ok r \<Longrightarrow> declares name node (table r) (table (declare_or_shadow name node r))"
  by (simp add: declare_or_shadow_def declare_symbol_declares)

lemmas declares_all = declare_new_declares declare_tld_default_declares declare_function_quietly_declares
  declare_or_shadow_declares

lemma declare_new_rest [simp]:
  "stored_file_symbols (declare_new x n r) = stored_file_symbols r"
  "extended (declare_new x n r) = extended r" "root_of (declare_new x n r) = root_of r"
  by (simp_all add: declare_new_def split: prod.split option.split)

lemma declare_tld_default_rest [simp]:
  "stored_file_symbols (declare_tld_default x n r) = stored_file_symbols r"
  "extended (declare_tld_default x n r) = extended r" "root_of (declare_tld_default x n r) = root_of r"
  by (simp_all add: declare_tld_default_def Let_def split: prod.split option.split)

lemma declare_function_quietly_rest [simp]:
  "stored_file_symbols (declare_function_quietly x n r) = stored_file_symbols r"
  "extended (declare_function_quietly x n r) = extended r" "root_of (declare_function_quietly x n r) = root_of r"
  by (simp_all add: declare_function_quietly_def Let_def split: prod.split option.split)

lemma declare_file_disposable_simps [simp]:
  "table (declare_file_disposable x n r) = table r"
  "stored_file_symbols (declare_file_disposable x n r) = stored_file_symbols r @ [(x, n)]"
  "extended (declare_file_disposable x n r) = extended r" "root_of (declare_file_disposable x n r) = root_of r"
  by (simp_all add: declare_file_disposable_def)

subsection \<open>The resolver is a scoped table\<close>

lemma start_scope_simps [simp]:
  "table (start_scope r) = scope_start DefaultScope (table r)"
  "stored_file_symbols (start_scope r) = stored_file_symbols r"
  "extended (start_scope r) = extended r" "root_of (start_scope r) = root_of r"
  by (simp_all add: start_scope_def)

lemma end_scope_simps [simp]:
  "table (end_scope r) = leave_scope (table r)"
  "stored_file_symbols (end_scope r) = stored_file_symbols r"
  "extended (end_scope r) = extended r" "root_of (end_scope r) = root_of r"
  by (simp_all add: end_scope_def leave_scope_def)

lemma new_resolver_ok: "resolver_ok new_resolver"
  by (simp add: new_resolver_def scope_start_ok new_sized_ok)

interpretation resolver: scoped_env resolver_ok visible_nodes new_resolver declare_new
  "\<lambda>r name. find_node name r" start_scope end_scope
proof
  show "resolver_ok new_resolver" by (rule new_resolver_ok)
  show "hd (visible_nodes new_resolver) = (\<lambda>k. None)"
    by (simp add: new_resolver_def visible_names_def scope_start_def new_symbol_table_sized_def declared_def Let_def)
  show "visible_nodes r \<noteq> []" for r by (simp add: visible_cons)
  show "find_node name r = hd (visible_nodes r) name" if "resolver_ok r" for r name
    using that by (rule find_node_visible)
  show "resolver_ok (declare_new k n r)" "visible_nodes (declare_new k n r) =
      (\<lambda>k'. if k' = k then Some n else hd (visible_nodes r) k') # tl (visible_nodes r)"
    if "resolver_ok r" for r k n
    using declare_new_declares[OF that, of k n] by (simp_all add: declares_def fun_upd_def)
  show "resolver_ok (end_scope r)" "visible_nodes (end_scope r) = tl (visible_nodes r)"
    if "resolver_ok r" "length (visible_nodes r) > 1" for r
    using symtab.invar_leave[OF that] symtab.visible_leave[OF that] by simp_all
qed (simp_all add: scope_start_ok scope_start_visible)

subsection \<open>Visiting nodes\<close>

text \<open>What visiting keeps: the table is well formed, and no enclosing scope changes.\<close>

definition keeps_outer :: "symbol_resolver \<Rightarrow> symbol_resolver \<Rightarrow> bool" where
  "keeps_outer r r' \<longleftrightarrow> resolver_ok r' \<and> tl (visible_nodes r') = tl (visible_nodes r)"

lemma declares_keeps_outer: "declares name node (table r) (table r') \<Longrightarrow> keeps_outer r r'"
  by (simp add: declares_def keeps_outer_def)

lemma keeps_outer_refl: "resolver_ok r \<Longrightarrow> keeps_outer r r"
  by (simp add: keeps_outer_def)

lemma keeps_outer_trans: "keeps_outer r r' \<Longrightarrow> keeps_outer r' r'' \<Longrightarrow> keeps_outer r r''"
  by (simp add: keeps_outer_def)

lemma declare_tld_node_table:
  "resolver_ok r \<Longrightarrow>
   (if specifier \<le> Protected then table (declare_tld_node name node specifier r) = table r
    else declares name node (table r) (table (declare_tld_node name node specifier r)))"
  by (cases specifier) (simp_all add: declare_tld_node_def declare_tld_default_declares less_eq_access_specifier_def)

lemma declare_function_table:
  "resolver_ok r \<Longrightarrow>
   (if specifier = Private then table (declare_function name node specifier r) = table r
    else declares name node (table r) (table (declare_function name node specifier r)))"
  by (cases specifier) (simp_all add: declare_function_def declare_function_quietly_declares)

lemma declare_tld_node_keeps: "resolver_ok r \<Longrightarrow> keeps_outer r (declare_tld_node name node specifier r)"
  using declare_tld_node_table[of r specifier name node]
  by (auto simp: keeps_outer_def declares_def split: if_splits)

lemma declare_function_keeps: "resolver_ok r \<Longrightarrow> keeps_outer r (declare_function name node specifier r)"
  using declare_function_table[of r specifier name node]
  by (auto simp: keeps_outer_def declares_def split: if_splits)

text \<open>Filling the map of a namespace leaves the table alone.\<close>

lemma map_declare_table [simp]:
  "table (map_declare ns x n r) = table r" "table (map_declare_no_override ns x n r) = table r"
  "stored_file_symbols (map_declare ns x n r) = stored_file_symbols r"
  "stored_file_symbols (map_declare_no_override ns x n r) = stored_file_symbols r"
  "root_of (map_declare ns x n r) = root_of r" "root_of (map_declare_no_override ns x n r) = root_of r"
  by (simp_all add: map_declare_def map_declare_no_override_def split: option.split)

lemma declare_nodes_keep:
  "\<forall>x n r. f (dec x n r) = f r \<Longrightarrow> f (declare_node dec a node r) = f r"
  "\<forall>x n r. f (dec x n r) = f r \<Longrightarrow> f (declare_nodes dec a nodes r) = f r"
  by (induction dec a node r and dec a nodes r rule: declare_node_declare_nodes.induct)
    (auto split: option.split)

lemma declare_nodes_map [simp]:
  "table (declare_nodes (map_declare ns) a nodes r) = table r"
  "table (declare_nodes (map_declare_no_override ns) a nodes r) = table r"
  "stored_file_symbols (declare_nodes (map_declare ns) a nodes r) = stored_file_symbols r"
  "stored_file_symbols (declare_nodes (map_declare_no_override ns) a nodes r) = stored_file_symbols r"
  "root_of (declare_nodes (map_declare ns) a nodes r) = root_of r"
  "root_of (declare_nodes (map_declare_no_override ns) a nodes r) = root_of r"
  by (rule declare_nodes_keep(2), simp)+

text \<open>Declaring a list of symbols.\<close>

lemma fold_declare:
  "table_ok t \<Longrightarrow> table_ok (fold (\<lambda>(x, n). declare_symbol x n) ss t) \<and>
   visible_names (fold (\<lambda>(x, n). declare_symbol x n) ss t) =
     (hd (visible_names t) ++ map_of (rev ss)) # tl (visible_names t)"
proof (induction ss arbitrary: t)
  case Nil
  then show ?case by (simp add: visible_cons)
next
  case (Cons s ss)
  obtain x n where s: "s = (x, n)" by (cases s)
  have "declares x n t (declare_symbol x n t)" using Cons.prems by (rule declare_symbol_declares)
  then show ?case using Cons.IH[of "declare_symbol x n t"] s
    by (simp add: declares_def map_add_def fun_eq_iff split: option.split)
qed

lemma extended_in_table_keeps:
  "resolver_ok r \<Longrightarrow> keeps_outer r (declare_extended_in_table ns r)"
  using fold_declare[of "table r"] by (simp add: keeps_outer_def declare_extended_in_table_def)

text \<open>A scope that is left, with whatever happened in it.\<close>

lemma scope_restores:
  assumes "resolver_ok r" "keeps_outer (start_scope r) r'"
  shows "resolver_ok (end_scope r') \<and> visible_nodes (end_scope r') = visible_nodes r"
proof -
  have "tl (visible_nodes r') = visible_nodes r"
    using assms by (simp add: keeps_outer_def scope_start_visible)
  moreover from this have "length (visible_nodes r') > 1"
    by (cases "visible_nodes r'") (auto simp: visible_cons)
  ultimately show ?thesis
    using resolver.invar_leave[of r'] resolver.visible_leave[of r'] assms(2) by (simp add: keeps_outer_def)
qed

lemma start_scope_ok: "resolver_ok r \<Longrightarrow> resolver_ok (start_scope r)"
  by (simp add: scope_start_ok)

text \<open>The block of a namespace, as a new one and as an extension of one that is there.\<close>

definition namespace_new :: "sym_node \<Rightarrow> tld_node list \<Rightarrow> symbol_resolver \<Rightarrow> symbol_resolver" where
  "namespace_new ns nodes r =
     end_scope (declare_nodes (map_declare (n_id ns)) Private nodes (visit_nodes nodes (start_scope r)))"

definition namespace_merged :: "sym_node \<Rightarrow> tld_node list \<Rightarrow> symbol_resolver \<Rightarrow> symbol_resolver" where
  "namespace_merged root nodes r =
     end_scope (declare_nodes (map_declare_no_override (n_id root)) Private nodes
       (visit_nodes nodes (declare_extended_in_table root (start_scope r))))"

lemma visit_namespace:
  "visit_node (Namespace ns nodes) r =
     (case find_node (n_name ns) r of
        None \<Rightarrow> namespace_new ns nodes (declare_tld_node (n_name ns) ns (n_specifier ns) r)
      | Some previous \<Rightarrow>
          (case merge_namespace_result previous ns of
             Duplicate \<Rightarrow> dup_sym_error (n_name ns) previous ns r
           | Merge \<Rightarrow>
               let r = r\<lparr>root_of := (root_of r)(n_id ns := Some previous)\<rparr>
               in if n_specifier ns < n_specifier previous then report [Lower_Specifier (n_id ns)] r
                  else namespace_merged previous nodes r
           | NoMerge \<Rightarrow> namespace_new ns nodes (declare_tld_node (n_name ns) ns (n_specifier ns) r)))"
  unfolding visit_node.simps namespace_new_def namespace_merged_def by (rule refl)

declare visit_node.simps(6) [simp del]

lemma namespace_new_restores:
  assumes "\<And>r. resolver_ok r \<Longrightarrow> keeps_outer r (visit_nodes nodes r)" "resolver_ok r"
  shows "resolver_ok (namespace_new ns nodes r)" "visible_nodes (namespace_new ns nodes r) = visible_nodes r"
proof -
  have "keeps_outer (start_scope r)
      (declare_nodes (map_declare (n_id ns)) Private nodes (visit_nodes nodes (start_scope r)))"
    using assms(1)[OF start_scope_ok[OF assms(2)]] by (simp add: keeps_outer_def)
  from scope_restores[OF assms(2) this]
  show "resolver_ok (namespace_new ns nodes r)" "visible_nodes (namespace_new ns nodes r) = visible_nodes r"
    by (simp_all add: namespace_new_def)
qed

lemma namespace_merged_restores:
  assumes "\<And>r. resolver_ok r \<Longrightarrow> keeps_outer r (visit_nodes nodes r)" "resolver_ok r"
  shows "resolver_ok (namespace_merged ns nodes r)"
    "visible_nodes (namespace_merged ns nodes r) = visible_nodes r"
proof -
  have ext: "keeps_outer (start_scope r) (declare_extended_in_table ns (start_scope r))"
    using extended_in_table_keeps[OF start_scope_ok[OF assms(2)]] .
  then have "keeps_outer (start_scope r) (visit_nodes nodes (declare_extended_in_table ns (start_scope r)))"
    using assms(1) keeps_outer_trans by (auto simp: keeps_outer_def)
  then have "keeps_outer (start_scope r) (declare_nodes (map_declare_no_override (n_id ns)) Private nodes
      (visit_nodes nodes (declare_extended_in_table ns (start_scope r))))"
    by (simp add: keeps_outer_def)
  from scope_restores[OF assms(2) this]
  show "resolver_ok (namespace_merged ns nodes r)"
    "visible_nodes (namespace_merged ns nodes r) = visible_nodes r"
    by (simp_all add: namespace_merged_def)
qed

lemma visit_list_keeps:
  assumes "\<And>n r. n \<in> set nodes \<Longrightarrow> resolver_ok r \<Longrightarrow> keeps_outer r (visit_node n r)" "resolver_ok r"
  shows "keeps_outer r (visit_nodes nodes r)"
  using assms
proof (induction nodes arbitrary: r)
  case (Cons n nodes)
  have "keeps_outer r (visit_node n r)" using Cons.prems by simp
  moreover from this have "keeps_outer (visit_node n r) (visit_nodes nodes (visit_node n r))"
    using Cons.prems(1) by (intro Cons.IH) (auto simp: keeps_outer_def)
  ultimately show ?case by (auto intro: keeps_outer_trans)
qed (simp add: keeps_outer_refl)

lemma restores_keeps_outer:
  "resolver_ok r' \<Longrightarrow> visible_nodes r' = visible_nodes r \<Longrightarrow> keeps_outer r r'"
  by (simp add: keeps_outer_def)

lemma visit_node_keeps: "resolver_ok r \<Longrightarrow> keeps_outer r (visit_node node r)"
proof (induction node arbitrary: r)
  case (Decl n)
  then show ?case by (simp add: declare_tld_node_keeps)
next
  case (Func n e)
  then show ?case by (simp add: declare_function_keeps keeps_outer_refl)
next
  case (Generic n)
  then show ?case by (auto intro: declares_keeps_outer declare_new_declares)
next
  case (GenericFunc n e)
  then show ?case by (auto intro: declares_keeps_outer declare_new_declares keeps_outer_refl)
next
  case (If nodes)
  then show ?case by (auto intro: keeps_outer_refl visit_list_keeps split: option.split)
next
  case (Namespace ns nodes)
  have inner: "keeps_outer r (visit_nodes nodes r)" if "resolver_ok r" for r
    using Namespace.IH that by (rule visit_list_keeps)
  have new: "keeps_outer r (namespace_new ns nodes (declare_tld_node (n_name ns) ns (n_specifier ns) r))"
    using keeps_outer_trans[OF declare_tld_node_keeps[OF Namespace.prems]]
      namespace_new_restores[OF inner, where ns = ns] declare_tld_node_keeps[OF Namespace.prems]
    by (auto simp: keeps_outer_def)
  have merged: "keeps_outer r (namespace_merged p nodes (r\<lparr>root_of := f\<rparr>))" for p f
    using namespace_merged_restores[OF inner, of "r\<lparr>root_of := f\<rparr>" p] Namespace.prems
    by (intro restores_keeps_outer) simp_all
  show ?case using Namespace.prems new merged
    by (auto simp: visit_namespace Let_def keeps_outer_def split: option.split merge_result.split)
qed

lemma visit_nodes_keep: "resolver_ok r \<Longrightarrow> keeps_outer r (visit_nodes nodes r)"
  by (rule visit_list_keeps) (simp_all add: visit_node_keeps)

subsection \<open>Flat files\<close>

text \<open>
  Files without namespaces and conditionals: the symbols that are stored for the file, and the
  ones that are declared for the module.
\<close>

fun flat_node :: "tld_node \<Rightarrow> bool" where
  "flat_node (Namespace ns nodes) = False"
| "flat_node (If nodes) = False"
| "flat_node n = True"

fun private_of :: "tld_node \<Rightarrow> (string \<times> sym_node) list" where
  "private_of (Decl n) = (if n_specifier n \<in> {Private, Protected} then [(n_name n, n)] else [])"
| "private_of (Func n e) = (if \<not> e \<and> n_specifier n = Private then [(n_name n, n)] else [])"
| "private_of n = []"

fun shared_of :: "tld_node \<Rightarrow> (string \<times> sym_node) list" where
  "shared_of (Decl n) = (if n_specifier n \<in> {Internal, Public} then [(n_name n, n)] else [])"
| "shared_of (Func n e) = (if \<not> e \<and> n_specifier n \<noteq> Private then [(n_name n, n)] else [])"
| "shared_of (Generic n) = [(n_name n, n)]"
| "shared_of (GenericFunc n e) = (if e then [] else [(n_name n, n)])"
| "shared_of n = []"

definition flat_result :: "tld_node list \<Rightarrow> symbol_resolver \<Rightarrow> symbol_resolver \<Rightarrow> bool" where
  "flat_result nodes r r' \<longleftrightarrow> resolver_ok r' \<and>
     visible_nodes r' =
       (hd (visible_nodes r) ++ map_of (rev (concat (map shared_of nodes)))) # tl (visible_nodes r) \<and>
     stored_file_symbols r' = stored_file_symbols r @ concat (map private_of nodes) \<and>
     extended r' = extended r \<and> root_of r' = root_of r"

lemma visible_hd_tl: "hd (visible_nodes r) # tl (visible_nodes r) = visible_nodes r"
  by (simp add: visible_cons)

lemma visit_flat_node:
  assumes "resolver_ok r" "flat_node node"
  shows "flat_result [node] r (visit_node node r)"
proof -
  note new = declares_all[OF assms(1), unfolded declares_def]
  show ?thesis
  proof (cases node)
    case (Decl n)
    then show ?thesis using assms(1)
      by (cases "n_specifier n") (simp_all add: flat_result_def declare_tld_node_def visible_hd_tl new)
  next
    case (Func n e)
    then show ?thesis using assms(1)
      by (cases "n_specifier n") (simp_all add: flat_result_def declare_function_def visible_hd_tl new)
  qed (use assms in \<open>simp_all add: flat_result_def visible_hd_tl new\<close>)
qed

lemma flat_result_append:
  "flat_result ns r r' \<Longrightarrow> flat_result ms r' r'' \<Longrightarrow> flat_result (ns @ ms) r r''"
  by (simp add: flat_result_def map_add_assoc)

lemma visit_flat:
  "resolver_ok r \<Longrightarrow> list_all flat_node nodes \<Longrightarrow> flat_result nodes r (visit_nodes nodes r)"
proof (induction nodes arbitrary: r)
  case (Cons n nodes)
  then have first: "flat_result [n] r (visit_node n r)" by (intro visit_flat_node) simp_all
  then have "flat_result nodes (visit_node n r) (visit_nodes nodes (visit_node n r))"
    using Cons by (simp add: flat_result_def)
  from flat_result_append[OF first this] show ?case by simp
qed (simp add: flat_result_def visible_hd_tl)

subsection \<open>Modules of files\<close>

lemma file_scope_start_simps:
  "file_scope_start r = (length (scopeStack (table r)), r\<lparr>table := scope_start FileScope (table r)\<rparr>)"
  by (simp add: file_scope_start_def scope_start_index_def)


lemma slice_stored:
  "slice (length xs) (length xs + length ys) (xs @ ys @ zs) = ys"
  by (simp add: slice_def)




lemma pass_table_finds:
  "resolve name (pass_table rng r) = map_of (rev (slice (fst rng) (snd rng) (stored_file_symbols r))) name"
proof -
  let ?t = "pass_table rng r" and ?ss = "slice (fst rng) (snd rng) (stored_file_symbols r)"
  have "table_ok ?t" "visible_names ?t = (hd (visible_names new_symbol_table) ++ map_of (rev ?ss)) #
      tl (visible_names (new_symbol_table :: sym_node symbol_table))"
    using fold_declare[OF new_table_ok, of ?ss] by (simp_all add: pass_table_def)
  then show ?thesis
    using symtab.lookup_visible[of ?t name] by (simp add: symtab.visible_empty map_add_def split: option.split)
qed

subsection \<open>Properties\<close>


definition node_named :: "nat \<Rightarrow> string \<Rightarrow> access_specifier \<Rightarrow> sym_node" where
  "node_named i name spec =
     \<lparr>n_id = i, n_name = name, n_specifier = spec, n_is_namespace = False, n_path = []\<rparr>"

text \<open>Two files that both have a private \<open>x\<close>; the first shares a \<open>y\<close>.\<close>

definition example_files :: "(tld_node list \<times> bool) list" where
  "example_files =
     [([Decl (node_named 1 ''x'' Private), Decl (node_named 2 ''y'' Public)], False),
      ([Decl (node_named 3 ''x'' Private), Func (node_named 4 ''f'' Internal) False], True)]"



text \<open>
  With the options a build starts with, the first file with an error ends the resolution of the
  module: whatever files follow are not looked at.
\<close>

theorem first_error_stops:
  assumes "\<not> ignore_errors options" "stop_on_file_error options"
    and "has_errors (snd (tld_declare_file nodes r)) \<or> other_errors"
  shows "declare_module_files options ((nodes, other_errors) # files) r = Failed (snd (tld_declare_file nodes r))"
  using assms by (auto simp: declare_module_files_def Let_def split: prod.splits)

theorem first_error_stops_witness:
  "declare_module_files \<lparr>ignore_errors = False, stop_on_file_error = True\<rparr>
     [([], True), ([Decl (node_named 1 ''x'' Public)], False)] new_resolver =
   Failed (snd (tld_declare_file [] new_resolver))"
  by (rule first_error_stops) simp_all

text \<open>A file scope that is left, with whatever happened in it.\<close>

lemma visible_length: "length (visible_nodes r) = Suc (length (scopeStack (table r)))"
  by (simp add: visible_names_def)

lemma file_scope_restores:
  assumes "resolver_ok r" "keeps_outer (r\<lparr>table := scope_start FileScope (table r)\<rparr>) r'"
  shows "resolver_ok (file_scope_end (length (scopeStack (table r))) r') \<and>
    visible_nodes (file_scope_end (length (scopeStack (table r))) r') = visible_nodes r"
proof -
  let ?i = "length (scopeStack (table r))"
  have inner: "tl (visible_nodes r') = visible_nodes r" "resolver_ok r'"
    using assms(2) by (simp_all add: keeps_outer_def scope_start_visible)
  then have "length (scopeStack (table r')) = Suc ?i"
    using visible_length[of r] visible_length[of r'] by (metis diff_Suc_1 length_tl)
  moreover from this obtain t where t: "drop_all_scopes_from ?i (table r') = Some t"
    using drop_all_scopes_defined[of ?i "table r'"] by auto
  ultimately have "table_ok t" "visible_names t = tl (visible_nodes r')"
    using drop_all_scopes_ok[OF inner(2) _ t] drop_all_scopes_visible[OF inner(2) _ t]
    by (simp_all add: drop_Suc)
  then show ?thesis using t inner(1) by (simp add: file_scope_end_def)
qed

lemma enable_file_keeps: "resolver_ok r \<Longrightarrow> keeps_outer r (enable_file_symbols rng r)"
  using fold_declare[of "table r"] by (simp add: keeps_outer_def enable_file_symbols_def)

lemma run_keeps:
  "resolver_ok r \<Longrightarrow> keeps_outer r (run_decls declare_new start_scope end_scope ds r)"
  using resolver.run_correct[of r ds] by (simp add: keeps_outer_def)

lemma file_scope_start_ok: "resolver_ok r \<Longrightarrow> resolver_ok (r\<lparr>table := scope_start FileScope (table r)\<rparr>)"
  by (simp add: scope_start_ok)

text \<open>
  A pass over a file leaves no trace: after the private symbols of the file were enabled in a
  file scope and any program of declarations and blocks has run, the end of the file scope
  restores what every name means in every open scope. The same holds when the file's nodes,
  namespaces included, are declared in the scope first.
\<close>

theorem file_pass_restores:
  assumes "resolver_ok r"
  shows "visible_nodes (link_file (run_decls declare_new start_scope end_scope ds) rng r) = visible_nodes r \<and>
    visible_nodes (declare_and_link_file (run_decls declare_new start_scope end_scope ds) nodes r) =
      visible_nodes r"
proof -
  let ?r = "r\<lparr>table := scope_start FileScope (table r)\<rparr>"
  note start = file_scope_start_ok[OF assms]
  have enabled: "keeps_outer ?r (run_decls declare_new start_scope end_scope ds (enable_file_symbols rng r'))"
    if "keeps_outer ?r r'" for rng r'
    using that enable_file_keeps[of r' rng] run_keeps[of "enable_file_symbols rng r'" ds]
    by (simp add: keeps_outer_def)
  have "keeps_outer ?r (visit_nodes nodes ?r)" using start by (rule visit_nodes_keep)
  from file_scope_restores[OF assms enabled[OF this]] file_scope_restores[OF assms enabled[OF keeps_outer_refl[OF start]]]
  show ?thesis by (simp add: link_file_def declare_and_link_file_def file_scope_start_simps Let_def)
qed

theorem file_pass_restores_witness:
  "visible_nodes (link_file (run_decls declare_new start_scope end_scope
      [Declare ''x'' (node_named 1 ''x'' Internal)]) (0, 0) new_resolver) = visible_nodes new_resolver \<and>
    visible_nodes (declare_and_link_file (run_decls declare_new start_scope end_scope
      [Declare ''x'' (node_named 1 ''x'' Internal)]) (fst (example_files ! 0)) new_resolver) =
      visible_nodes new_resolver"
  by (rule file_pass_restores[OF new_resolver_ok])

text \<open>
  C26. Whatever a namespace contains, nested namespaces included, nothing declared in it is found
  outside by its name alone: after it, every name means what it meant before, except that the
  namespace itself is declared when its name was free or meant something it does not merge with,
  and it is not private to its file.
\<close>

theorem namespace_hides_nodes:
  assumes "resolver_ok r"
  shows "find_node name (visit_node (Namespace ns nodes) r) =
    (if name = n_name ns \<and> n_specifier ns > Protected \<and>
        (case find_node (n_name ns) r of None \<Rightarrow> True | Some p \<Rightarrow> merge_namespace_result p ns = NoMerge)
     then Some ns else find_node name r)"
proof -
  note keeps = visit_nodes_keep[of _ nodes]
  let ?d = "declare_tld_node (n_name ns) ns (n_specifier ns) r"
  have d: "resolver_ok ?d" using declare_tld_node_keeps[OF assms] by (simp add: keeps_outer_def)
  have named: "find_node x ?d =
      (if x = n_name ns \<and> n_specifier ns > Protected then Some ns else find_node x r)" for x
    using declare_tld_node_table[OF assms, of "n_specifier ns" "n_name ns" ns] assms d
    by (auto simp: find_node_visible declares_def split: if_splits)
  have new: "find_node x (namespace_new ns nodes ?d) = find_node x ?d" for x
    using namespace_new_restores[OF keeps d, of ns] d by (simp add: find_node_visible)
  have merged: "find_node x (namespace_merged p nodes (r\<lparr>root_of := f\<rparr>)) = find_node x r" for x p f
    using namespace_merged_restores[OF keeps, of "r\<lparr>root_of := f\<rparr>" p] assms by (simp add: find_node_visible)
  have reported: "find_node x (report ds (r\<lparr>root_of := f\<rparr>)) = find_node x r"
    "find_node x (dup_sym_error y p n r) = find_node x r" for x ds f y p n
    by (simp_all add: find_node_def)
  show ?thesis
  proof (cases "find_node (n_name ns) r")
    case (Some p)
    then show ?thesis
      by (cases "merge_namespace_result p ns")
        (simp_all add: visit_namespace Let_def named new merged reported)
  qed (simp add: visit_namespace named new)
qed

theorem namespace_hides_nodes_witness:
  "find_node ''x'' (visit_node (Namespace
      \<lparr>n_id = 9, n_name = ''a'', n_specifier = Public, n_is_namespace = True, n_path = []\<rparr>
      [Decl (node_named 1 ''x'' Public)]) new_resolver) = find_node ''x'' new_resolver"
  using namespace_hides_nodes[OF new_resolver_ok, of "''x''"
      "\<lparr>n_id = 9, n_name = ''a'', n_specifier = Public, n_is_namespace = True, n_path = []\<rparr>"] by simp

text \<open>
  The privacy of a member of a namespace is that of its file: a pass over a file that opens a
  new namespace finds the private members of the namespace by their bare names, outside the
  namespace too.
\<close>

theorem namespace_private_members_found:
  assumes "resolver_ok r" "list_all flat_node nodes" "n_specifier ns \<in> {Internal, Public}"
    and "find_node (n_name ns) r = None" "tld_declare_file [Namespace ns nodes] r = (rng, r')"
    and "map_of (rev (concat (map private_of nodes))) name = Some n"
  shows "tld_find name (pass_table rng r') r' = Some n"
proof -
  let ?r = "r\<lparr>table := scope_start FileScope (table r)\<rparr>"
  let ?d = "declare_tld_node (n_name ns) ns (n_specifier ns) ?r"
  have start: "resolver_ok ?r" using assms(1) by (rule file_scope_start_ok)
  have "find_node (n_name ns) ?r = None"
    using assms(1,4) start by (simp add: find_node_visible scope_start_visible)
  then have r': "r' = namespace_new ns nodes ?d"
    and rng: "rng = (length (stored_file_symbols r), length (stored_file_symbols r'))"
    using assms(5) by (auto simp: tld_declare_file_def file_scope_start_simps visit_namespace Let_def)
  have "resolver_ok (start_scope ?d)"
    using declare_tld_node_keeps[OF start] by (intro start_scope_ok) (simp add: keeps_outer_def)
  from visit_flat[OF this assms(2)] have "stored_file_symbols (visit_nodes nodes (start_scope ?d)) =
      stored_file_symbols ?d @ concat (map private_of nodes)" by (simp add: flat_result_def)
  moreover have "stored_file_symbols ?d = stored_file_symbols r"
    using assms(3) by (auto simp: declare_tld_node_def)
  ultimately have "stored_file_symbols r' = stored_file_symbols r @ concat (map private_of nodes)"
    by (simp add: r' namespace_new_def)
  then show ?thesis
    using assms(6) slice_stored[of "stored_file_symbols r" "concat (map private_of nodes)" "[]"]
    by (simp add: tld_find_def pass_table_finds rng)
qed

lemma map_of_rev_distinct: "distinct (map fst xs) \<Longrightarrow> map_of (rev xs) = map_of xs"
  by (subst map_of_inject_set) (simp_all add: rev_map[symmetric])

lemma find_new_resolver: "find_node x new_resolver = None"
  using resolver.lookup_visible[OF new_resolver_ok, of x] by (simp add: resolver.visible_empty)

definition namespace_named :: "nat \<Rightarrow> string \<Rightarrow> string list \<Rightarrow> sym_node" where
  "namespace_named i name path =
     \<lparr>n_id = i, n_name = name, n_specifier = Public, n_is_namespace = True, n_path = path\<rparr>"

theorem namespace_private_members_found_witness:
  "tld_find ''secret''
     (pass_table
       (fst (tld_declare_file [Namespace (namespace_named 9 ''a'' []) [Decl (node_named 1 ''secret'' Private)]]
          new_resolver))
       (snd (tld_declare_file [Namespace (namespace_named 9 ''a'' []) [Decl (node_named 1 ''secret'' Private)]]
          new_resolver)))
     (snd (tld_declare_file [Namespace (namespace_named 9 ''a'' []) [Decl (node_named 1 ''secret'' Private)]]
        new_resolver)) = Some (node_named 1 ''secret'' Private)"
  by (rule namespace_private_members_found[OF new_resolver_ok _ _ find_new_resolver surjective_pairing])
    (simp_all add: namespace_named_def node_named_def)

text \<open>
  Merging fails for nested namespaces. When a namespace is opened again and with it a
  namespace nested in it, the inner one is merged with the one that is there, and then reported
  as a symbol that already exists, in conflict with itself.
\<close>

theorem nested_namespace_conflicts:
  assumes "resolver_ok r" "find_node (n_name a2) r = Some a1"
    and "n_is_namespace a1" "n_path a2 = []" "n_specifier a1 \<le> n_specifier a2"
    and "n_is_namespace b1" "n_path b1 = [n_name a2]" "n_path b2 = [n_name a2]" "n_specifier b1 \<le> n_specifier b2"
    and "distinct (map fst (extended r (n_id a1)))" "map_of (extended r (n_id a1)) (n_name b2) = Some b1"
    and "n_id b1 \<noteq> n_id a1" "list_all flat_node nodes"
  shows "Already_Exists (n_name b2) (n_id b1) \<in>
    set (diagnostics (visit_node (Namespace a2 [Namespace b2 nodes]) r))"
proof -
  let ?r0 = "start_scope (r\<lparr>root_of := (root_of r)(n_id a2 \<mapsto> a1)\<rparr>)"
  let ?r1 = "declare_extended_in_table a1 ?r0"
  let ?r2 = "?r1\<lparr>root_of := (root_of ?r1)(n_id b2 \<mapsto> b1)\<rparr>"
  let ?r3 = "namespace_merged b1 nodes ?r2"
  have ok0: "resolver_ok ?r0" using assms(1) by (simp add: scope_start_ok)
  have ok1: "resolver_ok ?r1" using extended_in_table_keeps[OF ok0] by (simp add: keeps_outer_def)
  have "find_node (n_name b2) ?r1 = Some b1"
    using fold_declare[of "table ?r0" "extended r (n_id a1)"] ok0 ok1 assms(10,11)
    by (simp add: find_node_visible declare_extended_in_table_def map_add_def map_of_rev_distinct)
  moreover have "merge_namespace_result b1 b2 = Merge"
    using assms(6-8) by (simp add: merge_namespace_result_def in_namespace_def)
  ultimately have inner: "visit_node (Namespace b2 nodes) ?r1 = ?r3"
    using assms(9) by (simp add: visit_namespace Let_def not_less)
  have outer: "visit_node (Namespace a2 [Namespace b2 nodes]) r =
      end_scope (map_declare_no_override (n_id a1) (n_name b2)
        (case root_of ?r3 (n_id b2) of Some root \<Rightarrow> root | None \<Rightarrow> b2) ?r3)"
    using assms(2-5) inner
    by (simp add: visit_namespace[of a2] merge_namespace_result_def in_namespace_def Let_def not_less
        namespace_merged_def[of a1])
  have flat: "flat_result nodes (declare_extended_in_table b1 (start_scope ?r2))
      (visit_nodes nodes (declare_extended_in_table b1 (start_scope ?r2)))"
    using ok1 assms(13) extended_in_table_keeps[of "start_scope ?r2" b1]
    by (intro visit_flat) (simp_all add: keeps_outer_def scope_start_ok)
  have other: "extended (declare_nodes (map_declare_no_override (n_id b1)) Private nodes r') (n_id a1) =
      extended r' (n_id a1)" for r'
    by (rule declare_nodes_keep(2)[where f = "\<lambda>r. extended r (n_id a1)"])
      (use assms(12) in \<open>simp add: map_declare_no_override_def split: option.split\<close>)
  have "root_of ?r3 (n_id b2) = Some b1" "extended ?r3 (n_id a1) = extended r (n_id a1)"
    using flat by (simp_all add: namespace_merged_def flat_result_def other declare_extended_in_table_def)
  then show ?thesis using assms(11)
    by (simp add: outer map_declare_no_override_def report_def end_scope_def)
qed

text \<open>The state after \<^verbatim>\<open>namespace a { namespace b {} }\<close> in an empty resolver.\<close>

definition nested_once :: symbol_resolver where
  "nested_once = visit_node
     (Namespace (namespace_named 11 ''a'' []) [Namespace (namespace_named 12 ''b'' [''a'']) []]) new_resolver"

lemma nested_once_state:
  "resolver_ok nested_once" "find_node ''a'' nested_once = Some (namespace_named 11 ''a'' [])"
  "extended nested_once 11 = [(''b'', namespace_named 12 ''b'' [''a''])]"
proof -
  let ?a = "namespace_named 11 ''a'' []" and ?b = "namespace_named 12 ''b'' [''a'']"
  let ?d = "declare_tld_default ''a'' ?a new_resolver"
  have nm: "n_name ?a = ''a''" "n_specifier ?a = Public" "n_id ?a = 11"
    "n_name ?b = ''b''" "n_specifier ?b = Public" "n_id ?b = 12"
    by (simp_all add: namespace_named_def)
  note d = declare_tld_default_declares[OF new_resolver_ok, of "''a''" ?a, unfolded declares_def]
  have dn: "declare_tld_node ''a'' ?a Public new_resolver = ?d"
    by (simp add: declare_tld_node_def)
  have out: "nested_once = namespace_new ?a [Namespace ?b []] ?d"
    by (simp add: nested_once_def visit_namespace nm find_new_resolver dn)
  have d_ok: "resolver_ok ?d" using d by simp
  note new = namespace_new_restores[OF visit_nodes_keep d_ok]
  have vis: "visible_nodes nested_once = visible_nodes ?d" "resolver_ok nested_once"
    unfolding out by (rule new, assumption)+
  show "resolver_ok nested_once" by (rule vis(2))
  show "find_node ''a'' nested_once = Some ?a" using vis d by (simp add: find_node_visible)
  have "find_node ''b'' (start_scope ?d) = None"
    using d start_scope_ok[OF d_ok] resolver.visible_empty
    by (simp add: find_node_visible scope_start_visible)
  then have "visit_nodes [Namespace ?b []] (start_scope ?d) =
      namespace_new ?b [] (declare_tld_default ''b'' ?b (start_scope ?d))"
    by (simp add: visit_namespace nm declare_tld_node_def)
  then show "extended nested_once 11 = [(''b'', ?b)]"
    by (simp add: out namespace_new_def nm map_declare_def new_resolver_def)
qed

theorem nested_namespace_conflicts_witness:
  "Already_Exists ''b'' 12 \<in> set (diagnostics (visit_node
    (Namespace (namespace_named 13 ''a'' []) [Namespace (namespace_named 14 ''b'' [''a'']) []]) nested_once))"
  using nested_namespace_conflicts[OF nested_once_state(1), of "namespace_named 13 ''a'' []"
      "namespace_named 11 ''a'' []" "namespace_named 12 ''b'' [''a'']" "namespace_named 14 ''b'' [''a'']" "[]"]
    nested_once_state(2,3)
  by (simp add: namespace_named_def)

end
