(* ===== verification/Type_Rules.thy ===== *)
theory Type_Rules
  imports Int_Kinds
begin

text \<open>
  When two types are the same and when a type accepts another: \<^verbatim>\<open>is_same\<close> and \<^verbatim>\<open>satisfies\<close> of the
  classes under \<^verbatim>\<open>ast/types\<close>, with \<^verbatim>\<open>canonical\<close> and \<^verbatim>\<open>get_direct_linked_node\<close> of
  \<^verbatim>\<open>ast/base/BaseType.cpp\<close> and \<^verbatim>\<open>extends_node\<close> of \<^verbatim>\<open>ast/structures/MembersContainer.cpp\<close>.

  Types are trees: a linked type holds the declaration it is linked to (never null after symbol
  resolution). Declarations have identities, which stand for their addresses; the types of the type
  builder exist once, so comparing their addresses is comparing their kinds. What C++ leaves
  undefined (a null element type, an index behind the end of a vector) is the answer \<open>None\<close>.
\<close>

datatype ty =
    AnyTy | BoolTy | DoubleTy | FloatTy | LongDoubleTy | Float128Ty | VoidTy | NullPtrTy
  | StringTy | ExpressiveStringTy | UnknownTy | IfTy
  | ComplexTy ty
  | IntTy int_n_kind
  | PointerTy ty bool
  | ReferenceTy ty bool
  | ArrayTy "ty option" u64
  | DynamicTy ty
  | LiteralTy ty
  | MaybeRuntimeTy ty
  | RuntimeTy ty
  | ExpressionTy ty ty bool
  | FunctionTy "ty list" "ty option" bool
  | CapturingFunctionTy ty ty
  | StructTy nat "ty list"
  | UnionTy nat "ty list"
  | LinkedTy node
  | GenericTy node "ty list"
and node =
    StructNode (node_id: nat) "ty list"
  | UnionNode (node_id: nat) "ty list"
  | VariantNode (node_id: nat) "ty list"
  | VariantMemberNode (node_id: nat) node
  | InterfaceNode (node_id: nat) "ty list" "nat list"
  | TypealiasNode (node_id: nat) ty
  | EnumNode (node_id: nat) int_n_kind
  | GenericParamNode (node_id: nat) "ty option" "ty list"
  | StructTypeNode (node_id: nat) "ty list"
  | UnionTypeNode (node_id: nat)
  | ValueNode (node_id: nat) "ty option"

definition same_node :: "node \<Rightarrow> node \<Rightarrow> bool" where
  "same_node n m \<longleftrightarrow> node_id n = node_id m"

subsection \<open>Linked nodes and containers\<close>

fun direct_linked_node :: "ty \<Rightarrow> node option" where
  "direct_linked_node (LinkedTy n) = Some n"
| "direct_linked_node (GenericTy n ts) = Some n"
| "direct_linked_node (StructTy i ms) = Some (StructTypeNode i ms)"
| "direct_linked_node (UnionTy i ms) = Some (UnionTypeNode i)"
| "direct_linked_node (CapturingFunctionTy f i) = direct_linked_node i"
| "direct_linked_node t = None"

lemma direct_node_smaller [termination_simp]:
  "direct_linked_node t = Some n \<Longrightarrow> size n \<le> size t"
  by (induction t rule: direct_linked_node.induct) auto

fun members_container :: "node \<Rightarrow> node option" where
  "members_container (TypealiasNode i actual) =
     (case direct_linked_node actual of Some n \<Rightarrow> members_container n | None \<Rightarrow> None)"
| "members_container (StructNode i inh) = Some (StructNode i inh)"
| "members_container (UnionNode i inh) = Some (UnionNode i inh)"
| "members_container (VariantNode i inh) = Some (VariantNode i inh)"
| "members_container (InterfaceNode i inh us) = Some (InterfaceNode i inh us)"
| "members_container n = None"

lemma container_le: "members_container n = Some c \<Longrightarrow> size c \<le> size n"
  by (induction n rule: members_container.induct)
    (auto split: option.splits dest!: direct_node_smaller)

text \<open>The types a container inherits.\<close>

fun inherited_types :: "node \<Rightarrow> ty list" where
  "inherited_types (StructNode i inh) = inh"
| "inherited_types (UnionNode i inh) = inh"
| "inherited_types (VariantNode i inh) = inh"
| "inherited_types (InterfaceNode i inh us) = inh"
| "inherited_types n = []"

lemma inherited_smaller: "t \<in> set (inherited_types c) \<Longrightarrow> size t < size c"
  by (cases c) (auto dest: size_list_estimation'[OF _ order_refl] simp: less_Suc_eq_le)

text \<open>The container that an inherited type leads to.\<close>

definition inherited_node :: "ty \<Rightarrow> (node \<times> node option) option" where
  "inherited_node t = map_option (\<lambda>n. (n, members_container n)) (direct_linked_node t)"

lemma inherited_node_smaller:
  assumes "t \<in> set (inherited_types c)" and "inherited_node t = Some (n, Some d)"
  shows "size d < size c"
proof -
  from assms(2) have "direct_linked_node t = Some n" "members_container n = Some d"
    by (auto simp: inherited_node_def)
  with assms(1) show ?thesis
    using inherited_smaller direct_node_smaller container_le by (meson le_less_trans)
qed

text \<open>
  \<^verbatim>\<open>MembersContainer::extends_node\<close>: a struct is looked for along the first inherited types, an
  interface along all of them, and no other node is extended.
\<close>

function extends_node :: "node \<Rightarrow> node \<Rightarrow> bool" where
  "extends_node c other =
    (case other of
      StructNode i inh \<Rightarrow>
        (case inherited_types c of
           [] \<Rightarrow> False
         | t # ts \<Rightarrow>
             (case inherited_node t of
                None \<Rightarrow> False
              | Some (n, d) \<Rightarrow> same_node n other \<or>
                  (case d of None \<Rightarrow> False | Some d \<Rightarrow> extends_node d other)))
    | InterfaceNode i inh us \<Rightarrow>
        list_ex (\<lambda>t. case inherited_node t of
            None \<Rightarrow> False
          | Some (n, d) \<Rightarrow> same_node n other \<or>
              (case d of None \<Rightarrow> False | Some d \<Rightarrow> extends_node d other)) (inherited_types c)
    | _ \<Rightarrow> False)"
  by pat_completeness auto

termination
  by (relation "measure (\<lambda>(c, other). size c)") (auto intro: inherited_node_smaller)

declare extends_node.simps [simp del]

subsection \<open>Canonical types\<close>

text \<open>
  A declaration's own type is linked to the declaration, so \<^verbatim>\<open>canonical\<close> stops there. The member of
  a variant has the type of its variant, a value declaration the type of its value, and the node
  of an unnamed union, which \<^verbatim>\<open>ASTNode::known_type\<close> does not list, the void type.
\<close>

fun canonical_linked :: "node \<Rightarrow> ty" and canonical :: "ty \<Rightarrow> ty" where
  "canonical_linked (TypealiasNode i t) = canonical t"
| "canonical_linked (GenericParamNode i (Some t) traits) = canonical t"
| "canonical_linked (ValueNode i (Some t)) = canonical t"
| "canonical_linked (VariantMemberNode i p) = canonical_linked p"
| "canonical_linked (StructTypeNode i ms) = StructTy i ms"
| "canonical_linked (UnionTypeNode i) = VoidTy"
| "canonical_linked n = LinkedTy n"
| "canonical (LiteralTy t) = t"
| "canonical (MaybeRuntimeTy t) = t"
| "canonical (RuntimeTy t) = t"
| "canonical (LinkedTy n) = canonical_linked n"
| "canonical (GenericTy n ts) =
    (case canonical_linked n of
       LinkedTy m \<Rightarrow> if same_node m n then GenericTy n ts else LinkedTy m
     | can \<Rightarrow> can)"
| "canonical t = t"

lemma canonical_le:
  "size (canonical_linked n) \<le> Suc (size n)"
  "size (canonical t) \<le> size t"
  by (induction n and t rule: canonical_linked_canonical.induct) (auto split: ty.splits)

subsection \<open>Answers\<close>

text \<open>\<^verbatim>\<open>a && b\<close>, \<^verbatim>\<open>a || b\<close> and a loop over two vectors that stops at the first pair that fails.\<close>

fun both :: "bool option \<Rightarrow> bool option \<Rightarrow> bool option" where
  "both (Some True) b = b"
| "both (Some False) b = Some False"
| "both None b = None"

fun either :: "bool option \<Rightarrow> bool option \<Rightarrow> bool option" where
  "either (Some False) b = b"
| "either (Some True) b = Some True"
| "either None b = None"

fun all_pairs :: "('a \<Rightarrow> 'b \<Rightarrow> bool option) \<Rightarrow> 'a list \<Rightarrow> 'b list \<Rightarrow> bool option" where
  "all_pairs f [] ys = Some True"
| "all_pairs f (x # xs) (y # ys) = both (f x y) (all_pairs f xs ys)"
| "all_pairs f (x # xs) [] = None"

lemma all_pairs_cong [fundef_cong]:
  assumes "xs = xs'" and "ys = ys'"
    and "\<And>x y. x \<in> set xs' \<Longrightarrow> y \<in> set ys' \<Longrightarrow> f x y = g x y"
  shows "all_pairs f xs ys = all_pairs g xs' ys'"
proof -
  have "all_pairs f xs' ys' = all_pairs g xs' ys'"
    using assms(3) by (induction f xs' ys' rule: all_pairs.induct) auto
  with assms(1,2) show ?thesis by simp
qed

fun all_of :: "('a \<Rightarrow> bool option) \<Rightarrow> 'a list \<Rightarrow> bool option" where
  "all_of f [] = Some True"
| "all_of f (x # xs) = both (f x) (all_of f xs)"

lemma all_of_cong [fundef_cong]:
  assumes "xs = xs'" and "\<And>x. x \<in> set xs' \<Longrightarrow> f x = g x"
  shows "all_of f xs = all_of g xs'"
proof -
  have "all_of f xs' = all_of g xs'" using assms(2) by (induction xs') auto
  with assms(1) show ?thesis by simp
qed

subsection \<open>The kinds that answer alone\<close>

definition is_char_or_uchar :: "int_n_kind \<Rightarrow> bool" where
  "is_char_or_uchar k \<longleftrightarrow> k = KChar \<or> k = KUChar"

definition is_str_like :: "int_n_kind \<Rightarrow> bool" where
  "is_str_like k \<longleftrightarrow> k = KChar \<or> k = KUChar \<or> k = KU8"

definition pointee_satisfies :: "int_n_kind \<Rightarrow> int_n_kind \<Rightarrow> bool" where
  "pointee_satisfies k other \<longleftrightarrow> k = other \<and> is_unsigned k = is_unsigned other"

definition kind_satisfies :: "int_n_kind \<Rightarrow> int_n_kind \<Rightarrow> bool" where
  "kind_satisfies k other \<longleftrightarrow>
    is_unsigned k \<and> is_unsigned other \<or> \<not> is_unsigned k \<and> \<not> is_unsigned other"

text \<open>\<^verbatim>\<open>IntNType::satisfies\<close>. Only type aliases and enums are looked through.\<close>

fun int_satisfies :: "int_n_kind \<Rightarrow> ty \<Rightarrow> bool" where
  "int_satisfies k (IntTy other) = kind_satisfies k other"
| "int_satisfies k (LinkedTy (TypealiasNode i t)) = int_satisfies k t"
| "int_satisfies k (LinkedTy (EnumNode i other)) = kind_satisfies k other"
| "int_satisfies k (MaybeRuntimeTy t) = int_satisfies k t"
| "int_satisfies k (RuntimeTy t) = int_satisfies k t"
| "int_satisfies k t = False"

fun bool_satisfies :: "ty \<Rightarrow> bool" where
  "bool_satisfies BoolTy = True"
| "bool_satisfies (ReferenceTy t m) = (t = BoolTy)"
| "bool_satisfies t = False"

fun string_satisfies :: "ty \<Rightarrow> bool" where
  "string_satisfies StringTy = True"
| "string_satisfies (PointerTy (IntTy k) m) = is_char_or_uchar k"
| "string_satisfies t = False"

text \<open>
  \<^verbatim>\<open>is_struct_linked_satisfies\<close>, \<^verbatim>\<open>is_union_linked_satisfies\<close> and \<^verbatim>\<open>is_variant_linked_satisfies\<close>, called
  with \<^verbatim>\<open>reference\<close> false.
\<close>

definition container_linked_satisfies :: "node \<Rightarrow> node \<Rightarrow> bool" where
  "container_linked_satisfies linked other_linked \<longleftrightarrow>
    same_node linked other_linked \<or>
    (case members_container other_linked of None \<Rightarrow> False | Some c \<Rightarrow> extends_node c linked)"

fun variant_linked_satisfies :: "node \<Rightarrow> node \<Rightarrow> bool" where
  "variant_linked_satisfies linked (VariantMemberNode i p) \<longleftrightarrow>
     same_node linked (VariantMemberNode i p) \<or> same_node p linked"
| "variant_linked_satisfies linked other_linked \<longleftrightarrow> same_node linked other_linked"

text \<open>The case of an interface in \<^verbatim>\<open>LinkedType::satisfies\<close>.\<close>

definition trait_extends :: "node \<Rightarrow> ty \<Rightarrow> bool" where
  "trait_extends linked t = (case direct_linked_node t of
      None \<Rightarrow> False
    | Some traitLinked \<Rightarrow> same_node traitLinked linked \<or>
        (case members_container traitLinked of None \<Rightarrow> False | Some c \<Rightarrow> extends_node c linked))"

fun interface_satisfies :: "node \<Rightarrow> nat list \<Rightarrow> node \<Rightarrow> bool" where
  "interface_satisfies linked users (StructNode i inh) \<longleftrightarrow> node_id linked = i \<or> i \<in> set users"
| "interface_satisfies linked users (UnionNode i inh) \<longleftrightarrow> node_id linked = i \<or> i \<in> set users"
| "interface_satisfies linked users (VariantNode i inh) \<longleftrightarrow> node_id linked = i \<or> i \<in> set users"
| "interface_satisfies linked users (InterfaceNode i inh us) \<longleftrightarrow>
     node_id linked = i \<or> extends_node (InterfaceNode i inh us) linked"
| "interface_satisfies linked users (GenericParamNode i active traits) \<longleftrightarrow>
     node_id linked = i \<or> list_ex (trait_extends linked) traits"
| "interface_satisfies linked users other \<longleftrightarrow> same_node linked other"

subsection \<open>The same type, and a type that accepts another\<close>

text \<open>
  \<open>is_same t u\<close> is \<open>t->is_same(u)\<close> and \<open>satisfies t u\<close> is \<open>t->satisfies(u)\<close>. Some methods ask the
  argument about the receiver; the order is kept.
\<close>

text \<open>The pointees are no integers that differ.\<close>

fun integers_match :: "ty \<Rightarrow> ty \<Rightarrow> bool" where
  "integers_match (IntTy k) (IntTy k') = pointee_satisfies k k'"
| "integers_match t u = True"

text \<open>The traits of a type parameter, and the arguments of an instance of the same declaration.\<close>

fun param_traits :: "ty \<Rightarrow> ty list option" where
  "param_traits (LinkedTy (GenericParamNode i active traits)) = Some traits"
| "param_traits t = None"

fun arguments_of :: "node \<Rightarrow> ty \<Rightarrow> ty list option" where
  "arguments_of n (GenericTy m us) = (if same_node n m then Some us else None)"
| "arguments_of n u = None"

lemma param_traits_smaller: "param_traits t = Some traits \<Longrightarrow> size_list size traits < size t"
  by (cases t rule: param_traits.cases) auto

lemma arguments_smaller: "arguments_of n t = Some us \<Longrightarrow> size_list size us < size t"
  by (cases "(n, t)" rule: arguments_of.cases) (auto split: if_splits)

lemma canonical_eq_le: "canonical t = u \<Longrightarrow> size u \<le> size t"
  using canonical_le(2) by blast

definition canonical_gap :: "ty \<Rightarrow> nat" where
  "canonical_gap t = size t - size (canonical t)"

lemma canonical_size: "size (canonical t) = size t - canonical_gap t"
  using canonical_le(2)[of t] by (simp add: canonical_gap_def)

lemma element_smaller: "t \<in> set ts \<Longrightarrow> size t \<le> size_list size ts"
  by (rule size_list_estimation') auto

definition same_global :: "ty \<Rightarrow> ty \<Rightarrow> bool option" where
  "same_global t u = Some (u = t)"

function (sequential) is_same :: "ty \<Rightarrow> ty \<Rightarrow> bool option"
  and satisfies :: "ty \<Rightarrow> ty \<Rightarrow> bool option"
where
  "is_same (IntTy k) u = Some (u = IntTy k)"
| "is_same VoidTy u = Some (u = VoidTy)"
| "is_same (ComplexTy t) u = (case u of ComplexTy v \<Rightarrow> Some True | _ \<Rightarrow> Some False)"
| "is_same (PointerTy t m) u = (case u of PointerTy v m' \<Rightarrow> is_same v t | _ \<Rightarrow> Some False)"
| "is_same (ReferenceTy t m) u = (case u of ReferenceTy v m' \<Rightarrow> is_same v t | _ \<Rightarrow> Some False)"
| "is_same (ArrayTy e n) u = (case u of
      ArrayTy e' n' \<Rightarrow> both (Some (n' = n))
        (case (e, e') of (Some t, Some v) \<Rightarrow> is_same t v | _ \<Rightarrow> None)
    | _ \<Rightarrow> Some False)"
| "is_same (DynamicTy t) u = (case u of DynamicTy v \<Rightarrow> is_same v t | _ \<Rightarrow> Some False)"
| "is_same (LiteralTy t) u = (case u of LiteralTy v \<Rightarrow> is_same v t | _ \<Rightarrow> Some False)"
| "is_same (MaybeRuntimeTy t) u = (case u of MaybeRuntimeTy v \<Rightarrow> is_same v t | _ \<Rightarrow> Some False)"
| "is_same (RuntimeTy t) u = (case u of RuntimeTy v \<Rightarrow> is_same v t | _ \<Rightarrow> Some False)"
| "is_same (ExpressionTy a b isAnd) u = (case u of
      ExpressionTy a' b' isAnd' \<Rightarrow>
        both (Some (isAnd = isAnd')) (both (is_same a a') (is_same b b'))
    | _ \<Rightarrow> Some False)"
| "is_same (FunctionTy ps r v) u = (case u of
      FunctionTy ps' r' v' \<Rightarrow>
        both (Some (v = v'))
          (both (case r of
              None \<Rightarrow> Some (case r' of None \<Rightarrow> False | Some t' \<Rightarrow> canonical t' = VoidTy)
            | Some t \<Rightarrow> (case r' of None \<Rightarrow> Some (canonical t = VoidTy) | Some t' \<Rightarrow> is_same t t'))
          (both (Some (length ps = length ps')) (all_pairs is_same ps ps')))
    | _ \<Rightarrow> Some False)"
| "is_same (CapturingFunctionTy f i) u = (case u of
      CapturingFunctionTy f' i' \<Rightarrow> both (is_same f f') (is_same i i')
    | _ \<Rightarrow> Some False)"
| "is_same (StructTy i ms) u = (case u of
      StructTy j ms' \<Rightarrow> both (Some (length ms = length ms')) (all_pairs is_same ms ms')
    | _ \<Rightarrow> Some False)"
| "is_same (UnionTy i ms) u = (case u of
      UnionTy j ms' \<Rightarrow> either (Some (i = j)) (all_pairs is_same ms ms')
    | _ \<Rightarrow> Some False)"
| "is_same (LinkedTy n) u = (case u of
      LinkedTy m \<Rightarrow>
        (case (n, m) of
          (GenericParamNode i active traits, GenericParamNode j active' traits') \<Rightarrow>
            if traits = [] then
              (case active of Some t \<Rightarrow> satisfies t u | None \<Rightarrow> Some True)
            else either (Some (i = j))
              (both (Some (length traits = length traits'))
                (both (all_pairs satisfies traits traits') (Some False)))
        | _ \<Rightarrow> Some (same_node n m))
    | _ \<Rightarrow> Some False)"
| "is_same (GenericTy n ts) u = (case canonical u of
      GenericTy m us \<Rightarrow>
        both (Some (same_node n m))
          (both (Some (length ts = length us)) (all_pairs is_same ts us))
    | _ \<Rightarrow> Some False)"
| "is_same IfTy u = Some False"
| "is_same t u = same_global t u"
| "satisfies AnyTy u = Some True"
| "satisfies BoolTy u = Some (bool_satisfies u)"
| "satisfies DoubleTy u = Some (u = DoubleTy)"
| "satisfies FloatTy u = Some (u = FloatTy)"
| "satisfies LongDoubleTy u = Some (u = LongDoubleTy)"
| "satisfies Float128Ty u = Some (u = Float128Ty)"
| "satisfies VoidTy u = Some (u = VoidTy)"
| "satisfies NullPtrTy u = Some (u = NullPtrTy)"
| "satisfies StringTy u = Some (string_satisfies u)"
| "satisfies IfTy u = Some False"
| "satisfies ExpressiveStringTy u = same_global ExpressiveStringTy u"
| "satisfies UnknownTy u = same_global UnknownTy u"
| "satisfies (ComplexTy t) u = (case u of ComplexTy v \<Rightarrow> Some True | _ \<Rightarrow> Some False)"
| "satisfies (IntTy k) u = Some (int_satisfies k u)"
| "satisfies (PointerTy t m) u = (case canonical u of
      NullPtrTy \<Rightarrow> Some True
    | StringTy \<Rightarrow> Some (\<not> m \<and> (case canonical t of
          AnyTy \<Rightarrow> True | IntTy k \<Rightarrow> is_str_like k | _ \<Rightarrow> False))
    | ArrayTy e n \<Rightarrow> (case e of None \<Rightarrow> None | Some v \<Rightarrow> satisfies (canonical t) (canonical v))
    | FunctionTy ps r v \<Rightarrow> Some (t = VoidTy)
    | PointerTy v m' \<Rightarrow>
        if \<not> m' \<and> m then Some False
        else if canonical t = VoidTy then Some True
        else if \<not> integers_match (canonical t) (canonical v) then Some False
        else satisfies (canonical t) (canonical v)
    | _ \<Rightarrow> Some False)"
| "satisfies (ReferenceTy t m) u = (case canonical u of
      ReferenceTy v m' \<Rightarrow> both (satisfies t v) (Some (\<not> m \<or> m'))
    | _ \<Rightarrow> Some False)"
| "satisfies (ArrayTy e n) u = (case u of
      StringTy \<Rightarrow> (case e of
          None \<Rightarrow> None
        | Some t \<Rightarrow> Some (case canonical t of IntTy k \<Rightarrow> is_char_or_uchar k | _ \<Rightarrow> False))
    | ArrayTy e' n' \<Rightarrow>
        if n \<noteq> 0 \<and> n' = 0 \<and> n \<noteq> n' then Some False
        else (case e' of
            None \<Rightarrow> Some True
          | Some v \<Rightarrow> (case e of None \<Rightarrow> None | Some t \<Rightarrow> satisfies t v))
    | _ \<Rightarrow> Some False)"
| "satisfies (DynamicTy t) u = (case u of DynamicTy v \<Rightarrow> satisfies t v | _ \<Rightarrow> Some False)"
| "satisfies (LiteralTy t) u = (case u of LiteralTy v \<Rightarrow> is_same v t | _ \<Rightarrow> Some False)"
| "satisfies (MaybeRuntimeTy t) u =
     satisfies t (case u of MaybeRuntimeTy v \<Rightarrow> v | _ \<Rightarrow> u)"
| "satisfies (RuntimeTy t) u = satisfies t (case u of RuntimeTy v \<Rightarrow> v | _ \<Rightarrow> u)"
| "satisfies (ExpressionTy a b isAnd) u =
    (if isAnd then both (satisfies a u) (satisfies b u) else either (satisfies a u) (satisfies b u))"
| "satisfies (FunctionTy ps r v) u = (case u of
      NullPtrTy \<Rightarrow> Some True
    | FunctionTy ps' r' v' \<Rightarrow>
        both (Some (v = v'))
          (both (case r of
              None \<Rightarrow> Some (case r' of None \<Rightarrow> False | Some t' \<Rightarrow> canonical t' = VoidTy)
            | Some t \<Rightarrow> (case r' of None \<Rightarrow> Some (canonical t = VoidTy) | Some t' \<Rightarrow> is_same t t'))
          (both (Some (length ps = length ps')) (all_pairs is_same ps ps')))
    | _ \<Rightarrow> Some False)"
| "satisfies (CapturingFunctionTy f i) u = (case u of
      FunctionTy ps r v \<Rightarrow> satisfies f u
    | CapturingFunctionTy f' i' \<Rightarrow> satisfies f f'
    | _ \<Rightarrow> Some False)"
| "satisfies (StructTy i ms) u = (case u of
      StructTy j ms' \<Rightarrow> both (Some (length ms = length ms')) (all_pairs is_same ms ms')
    | LinkedTy n \<Rightarrow> Some (node_id n = i)
    | _ \<Rightarrow> Some False)"
| "satisfies (UnionTy i ms) u = (case u of
      UnionTy j ms' \<Rightarrow> either (Some (i = j)) (all_pairs is_same ms ms')
    | _ \<Rightarrow> Some False)"
| "satisfies (LinkedTy n) given =
    (let u = canonical given in
     either (Some (case u of LinkedTy m \<Rightarrow> same_node n m | _ \<Rightarrow> False))
      (case n of
        InterfaceNode i inh users \<Rightarrow>
          Some (case direct_linked_node u of Some m \<Rightarrow> interface_satisfies n users m | None \<Rightarrow> False)
      | StructNode i inh \<Rightarrow>
          Some (case direct_linked_node u of Some m \<Rightarrow> container_linked_satisfies n m | None \<Rightarrow> False)
      | UnionNode i inh \<Rightarrow>
          Some (case direct_linked_node u of Some m \<Rightarrow> container_linked_satisfies n m | None \<Rightarrow> False)
      | VariantNode i inh \<Rightarrow>
          Some (case direct_linked_node u of Some m \<Rightarrow> variant_linked_satisfies n m | None \<Rightarrow> False)
      | TypealiasNode i actual \<Rightarrow> satisfies actual u
      | EnumNode i k \<Rightarrow>
          Some (case direct_linked_node u of Some m \<Rightarrow> same_node n m | None \<Rightarrow> False)
      | GenericParamNode i active traits \<Rightarrow>
          if traits = [] then (case active of Some t \<Rightarrow> satisfies t u | None \<Rightarrow> Some True)
          else (case param_traits u of
              Some traits' \<Rightarrow>
                both (Some (length traits = length traits')) (all_pairs satisfies traits traits')
            | None \<Rightarrow> all_of (\<lambda>t. satisfies t u) traits)
      | VariantMemberNode i p \<Rightarrow> satisfies (LinkedTy p) u
      | StructTypeNode i ms \<Rightarrow> satisfies (StructTy i ms) u
      | UnionTypeNode i \<Rightarrow> Some (u = VoidTy)
      | ValueNode i known \<Rightarrow> (case known of Some t \<Rightarrow> satisfies t u | None \<Rightarrow> Some False)))"
| "satisfies (GenericTy n ts) given =
    (let u = canonical given in
     case arguments_of n u of
       Some us \<Rightarrow> all_pairs satisfies (take (length us) ts) (take (length ts) us)
     | None \<Rightarrow> satisfies (LinkedTy n) u)"
  by pat_completeness auto

termination
  by (relation "measures
      [\<lambda>x. case x of Inl (t, u) \<Rightarrow> size t + size u | Inr (t, u) \<Rightarrow> size t + size u,
       \<lambda>x. case x of Inl (t, u) \<Rightarrow> 0 | Inr (t, u) \<Rightarrow> (case t of GenericTy n ts \<Rightarrow> 1 | _ \<Rightarrow> 0)]",
      simp_all only: in_measures sum.case prod.case)
    (auto simp: canonical_size split: ty.splits dest!: canonical_eq_le element_smaller
      param_traits_smaller arguments_smaller in_set_takeD)

subsection \<open>A type that accepts a value\<close>

text \<open>
  What \<open>satisfies(Value*, bool)\<close> asks of a value: its type (null before it is resolved), whether it
  is an integer literal, a lambda, an rvalue for the front end or refers to something, and whether
  it is a parameter of a comptime function (\<^verbatim>\<open>isValueTotallyComptime\<close>).
\<close>

record chem_value =
  getType :: "ty option"
  isValueIntegerLiteral :: bool
  isLambdaFunc :: bool
  isValueRValueInFrontend :: bool
  is_reference_value :: bool
  isValueTotallyComptime :: bool

fun is_int_type :: "ty \<Rightarrow> bool" where
  "is_int_type (IntTy k) = True"
| "is_int_type t = False"

definition value_satisfies :: "ty \<Rightarrow> chem_value \<Rightarrow> bool option" where
  "value_satisfies t val =
    (case getType val of None \<Rightarrow> None | Some u \<Rightarrow> satisfies t (canonical u))"

fun reference_satisfies :: "ty \<Rightarrow> bool \<Rightarrow> ty \<Rightarrow> chem_value \<Rightarrow> bool \<Rightarrow> bool option" where
  "reference_satisfies t m given val assignment =
    (if isLambdaFunc val \<and> (case canonical t of CapturingFunctionTy f i \<Rightarrow> True | _ \<Rightarrow> False)
     then value_satisfies (canonical t) val
     else case canonical given of
       ReferenceTy v m' \<Rightarrow> both (satisfies t v) (Some (\<not> m \<or> m'))
     | u \<Rightarrow>
         if \<not> assignment \<and> \<not> m \<and> isValueRValueInFrontend val then satisfies t u else Some False)"

fun satisfies_value :: "ty \<Rightarrow> chem_value \<Rightarrow> bool \<Rightarrow> bool option" where
  "satisfies_value AnyTy val assignment = Some True"
| "satisfies_value (IntTy k) val assignment = Some (case getType val of
      None \<Rightarrow> False
    | Some u \<Rightarrow> isValueIntegerLiteral val \<and> is_int_type u \<or> int_satisfies k u)"
| "satisfies_value (ReferenceTy t m) val assignment = (case getType val of
      None \<Rightarrow> Some False
    | Some u \<Rightarrow> reference_satisfies t m u val assignment)"
| "satisfies_value (LinkedTy n) val assignment = (case getType val of
      None \<Rightarrow> Some False
    | Some u \<Rightarrow>
        if isValueIntegerLiteral val \<and> is_int_type (canonical_linked n) then Some True
        else satisfies (LinkedTy n) u)"
| "satisfies_value (LiteralTy t) val assignment =
    either (both (Some (\<not> is_reference_value val)) (satisfies_value t val False))
      (case getType val of Some (LiteralTy u) \<Rightarrow> satisfies t u | _ \<Rightarrow> Some False)"
| "satisfies_value (MaybeRuntimeTy t) val assignment = satisfies_value t val assignment"
| "satisfies_value (RuntimeTy t) val assignment = (case getType val of
      None \<Rightarrow> None
    | Some (LiteralTy u) \<Rightarrow> Some False
    | Some (RuntimeTy u) \<Rightarrow> satisfies t (RuntimeTy u)
    | Some (MaybeRuntimeTy u) \<Rightarrow> Some False
    | Some u \<Rightarrow> if isValueTotallyComptime val then Some False else satisfies t u)"
| "satisfies_value t val assignment = value_satisfies t val"

end
