(* ===== verification/Instantiations.thy ===== *)
theory Instantiations
  imports Type_Rules "HOL-Library.Monad_Syntax"
begin

text \<open>
  The table of the instances of generic declarations: \<^verbatim>\<open>compiler/generics/InstantiationsContainer.h\<close>,
  and its use by \<^verbatim>\<open>get_iteration_for\<close> and \<^verbatim>\<open>register_generic_usage\<close> of \<^verbatim>\<open>ast/utils/ASTUtils.cpp\<close>.

  Every declaration has its instances, every file the instances it caused, and each entry holds its
  index in the other vector, so that removing the instances of a declaration or of a file swaps an
  entry with the last one and pops it. The vector of implementations belongs to the declaration
  and is kept by reference: \<open>vecs\<close> maps the address of a vector to its contents. The keys
  (\<^verbatim>\<open>void*\<close>) and the implementations are of any type; vectors have fewer than $2^{32}$ entries, so
  their indexes are natural numbers. An index behind the end of a vector is undefined: \<open>None\<close>.
\<close>

record registry_position =
  pos_file :: nat
  pos_index :: nat

record 'k registry_entry =
  ent_key :: 'k
  ent_index :: nat

record decl_instantiations =
  types :: "ty list list"
  implData :: nat
  registryPositions :: "registry_position list"

record ('k, 'i) instantiations_container =
  instantiations :: "'k \<rightharpoonup> decl_instantiations"
  fileIdRegistry :: "nat \<rightharpoonup> 'k registry_entry list"
  current_module_instantiations :: "'i list"

type_synonym 'i vectors = "nat \<Rightarrow> 'i list"

definition new_container :: "('k, 'i) instantiations_container" where
  "new_container = \<lparr>instantiations = \<lambda>k. None, fileIdRegistry = \<lambda>f. None,
     current_module_instantiations = []\<rparr>"

definition getInstantiationTypesFor :: "'k \<Rightarrow> ('k, 'i) instantiations_container \<Rightarrow> ty list list" where
  "getInstantiationTypesFor key c =
    (case instantiations c key of None \<Rightarrow> [] | Some d \<Rightarrow> types d)"

definition decl_of :: "'k \<Rightarrow> nat \<Rightarrow> ('k, 'i) instantiations_container \<Rightarrow> decl_instantiations" where
  "decl_of key instVec c = (case instantiations c key of
      Some d \<Rightarrow> d
    | None \<Rightarrow> \<lparr>types = [], implData = instVec, registryPositions = []\<rparr>)"

definition registry_of :: "nat \<Rightarrow> ('k, 'i) instantiations_container \<Rightarrow> 'k registry_entry list" where
  "registry_of f c = (case fileIdRegistry c f of Some r \<Rightarrow> r | None \<Rightarrow> [])"

definition registerInstantiation ::
  "'k \<Rightarrow> ty list \<Rightarrow> nat \<Rightarrow> nat \<Rightarrow> ('k, 'i) instantiations_container \<Rightarrow>
    nat \<times> ('k, 'i) instantiations_container"
where
  "registerInstantiation key ts instVec current_file_id c =
    (let d = decl_of key instVec c; registry = registry_of current_file_id c; instIdx = length (types d)
     in (instIdx, c\<lparr>
       instantiations := (instantiations c)(key \<mapsto> d\<lparr>types := types d @ [ts],
         registryPositions := registryPositions d @
           [\<lparr>pos_file = current_file_id, pos_index = length registry\<rparr>]\<rparr>),
       fileIdRegistry := (fileIdRegistry c)(current_file_id \<mapsto>
         registry @ [\<lparr>ent_key = key, ent_index = instIdx\<rparr>])\<rparr>))"

subsection \<open>Removing the instances of a declaration\<close>

definition swap_elems :: "nat \<Rightarrow> nat \<Rightarrow> 'a list \<Rightarrow> 'a list option" where
  "swap_elems i j xs =
    (if i < length xs \<and> j < length xs then Some (xs[i := xs ! j, j := xs ! i]) else None)"

definition pop_back :: "'a list \<Rightarrow> 'a list option" where
  "pop_back xs = (if xs = [] then None else Some (butlast xs))"

text \<open>\<^verbatim>\<open>it2->second.registryPositions[movedRec.typeIndex].index = pos.index\<close>.\<close>

definition move_position ::
  "'k registry_entry \<Rightarrow> nat \<Rightarrow> ('k, 'i) instantiations_container \<Rightarrow>
    ('k, 'i) instantiations_container option"
where
  "move_position movedRec idx c = (case instantiations c (ent_key movedRec) of
      None \<Rightarrow> Some c
    | Some d \<Rightarrow>
        if ent_index movedRec < length (registryPositions d) then
          Some (c\<lparr>instantiations := (instantiations c)(ent_key movedRec \<mapsto>
            d\<lparr>registryPositions := (registryPositions d)[ent_index movedRec :=
              (registryPositions d ! ent_index movedRec)\<lparr>pos_index := idx\<rparr>]\<rparr>)\<rparr>)
        else None)"

definition unregister ::
  "registry_position \<Rightarrow> ('k, 'i) instantiations_container \<Rightarrow> ('k, 'i) instantiations_container option"
where
  "unregister pos c = (case fileIdRegistry c (pos_file pos) of
      None \<Rightarrow> Some c
    | Some registry \<Rightarrow>
        if pos_index pos < length registry then do {
          let lastIdx = length registry - 1;
          (registry, c) \<leftarrow>
            (if pos_index pos \<noteq> lastIdx then do {
               registry \<leftarrow> swap_elems (pos_index pos) lastIdx registry;
               c \<leftarrow> move_position (registry ! pos_index pos) (pos_index pos) c;
               Some (registry, c)
             } else Some (registry, c));
          registry \<leftarrow> pop_back registry;
          Some (c\<lparr>fileIdRegistry := (fileIdRegistry c)(pos_file pos \<mapsto> registry)\<rparr>)
        } else Some c)"

text \<open>
  The loop over \<^verbatim>\<open>decl.registryPositions\<close> reads each position when its turn comes, after the
  positions of entries that were moved have changed.
\<close>

fun unregister_all ::
  "'k \<Rightarrow> nat list \<Rightarrow> ('k, 'i) instantiations_container \<Rightarrow> ('k, 'i) instantiations_container option"
where
  "unregister_all key [] c = Some c"
| "unregister_all key (i # is) c = (case instantiations c key of
      None \<Rightarrow> None
    | Some d \<Rightarrow> do {
        c \<leftarrow> unregister (registryPositions d ! i) c;
        unregister_all key is c
      })"

definition removeInstantiationsFor_key ::
  "'k \<Rightarrow> ('k, 'i) instantiations_container \<Rightarrow> ('k, 'i) instantiations_container option"
where
  "removeInstantiationsFor_key key c = (case instantiations c key of
      None \<Rightarrow> Some c
    | Some d \<Rightarrow> do {
        c \<leftarrow> unregister_all key [0..<length (registryPositions d)] c;
        Some (c\<lparr>instantiations := (instantiations c)(key := None)\<rparr>)
      })"

subsection \<open>Removing the instances of a file\<close>

text \<open>The registry entry of the instance that was moved gets its new index.\<close>

definition retarget ::
  "registry_position \<Rightarrow> nat \<Rightarrow> (nat \<rightharpoonup> 'k registry_entry list) \<Rightarrow> (nat \<rightharpoonup> 'k registry_entry list)"
where
  "retarget otherPos removeIdx regs = (case regs (pos_file otherPos) of
      None \<Rightarrow> regs
    | Some other \<Rightarrow>
        if pos_index otherPos < length other then
          regs(pos_file otherPos \<mapsto> other[pos_index otherPos :=
            (other ! pos_index otherPos)\<lparr>ent_index := removeIdx\<rparr>])
        else regs)"

definition remove_record ::
  "nat \<Rightarrow> nat \<Rightarrow> ('k, 'i) instantiations_container \<times> 'i vectors \<Rightarrow>
    (('k, 'i) instantiations_container \<times> 'i vectors) option"
where
  "remove_record fileId i s = (case s of (c, vecs) \<Rightarrow>
    (case fileIdRegistry c fileId of
      None \<Rightarrow> None
    | Some registry \<Rightarrow>
       if length registry \<le> i then None
       else (case instantiations c (ent_key (registry ! i)) of
           None \<Rightarrow> do {
             registry \<leftarrow> pop_back registry;
             Some (c\<lparr>fileIdRegistry := (fileIdRegistry c)(fileId \<mapsto> registry)\<rparr>, vecs)
           }
         | Some d \<Rightarrow> do {
             let key = ent_key (registry ! i);
             let removeIdx = ent_index (registry ! i);
             let lastIdx = length (types d) - 1;
             (ts, impls, positions, regs) \<leftarrow>
               (if removeIdx \<noteq> lastIdx then do {
                  ts \<leftarrow> swap_elems removeIdx lastIdx (types d);
                  impls \<leftarrow> swap_elems removeIdx lastIdx (vecs (implData d));
                  positions \<leftarrow> swap_elems removeIdx lastIdx (registryPositions d);
                  Some (ts, impls, positions,
                    retarget (positions ! removeIdx) removeIdx (fileIdRegistry c))
                } else Some (types d, vecs (implData d), registryPositions d, fileIdRegistry c));
             ts \<leftarrow> pop_back ts;
             impls \<leftarrow> pop_back impls;
             positions \<leftarrow> pop_back positions;
             registry \<leftarrow> regs fileId \<bind> pop_back;
             Some (c\<lparr>instantiations := (instantiations c)(key \<mapsto>
                   d\<lparr>types := ts, registryPositions := positions\<rparr>),
                 fileIdRegistry := regs(fileId \<mapsto> registry)\<rparr>,
               vecs(implData d := impls))
           })))"

text \<open>The loop goes over the entries of the file from the last one down.\<close>

fun remove_records ::
  "nat \<Rightarrow> nat \<Rightarrow> ('k, 'i) instantiations_container \<times> 'i vectors \<Rightarrow>
    (('k, 'i) instantiations_container \<times> 'i vectors) option"
where
  "remove_records fileId 0 s = Some s"
| "remove_records fileId (Suc i) s = remove_record fileId i s \<bind> remove_records fileId i"

definition removeInstantiationsFor_file ::
  "nat \<Rightarrow> ('k, 'i) instantiations_container \<times> 'i vectors \<Rightarrow>
    (('k, 'i) instantiations_container \<times> 'i vectors) option"
where
  "removeInstantiationsFor_file fileId s = (case fileIdRegistry (fst s) fileId of
      None \<Rightarrow> Some s
    | Some registry \<Rightarrow> do {
        (c, vecs) \<leftarrow> remove_records fileId (length registry) s;
        Some (c\<lparr>fileIdRegistry := (fileIdRegistry c)(fileId := None)\<rparr>, vecs)
      })"

subsection \<open>The other operations\<close>

definition put_current_module_instantiation ::
  "'i \<Rightarrow> ('k, 'i) instantiations_container \<Rightarrow> ('k, 'i) instantiations_container"
where
  "put_current_module_instantiation n c =
    c\<lparr>current_module_instantiations := current_module_instantiations c @ [n]\<rparr>"

definition clear_current_module_instantiations ::
  "('k, 'i) instantiations_container \<Rightarrow> ('k, 'i) instantiations_container"
where
  "clear_current_module_instantiations c = c\<lparr>current_module_instantiations := []\<rparr>"

definition clear_container :: "('k, 'i) instantiations_container \<Rightarrow> ('k, 'i) instantiations_container" where
  "clear_container c = c\<lparr>instantiations := \<lambda>k. None, fileIdRegistry := \<lambda>f. None\<rparr>"

subsection \<open>Finding an instance\<close>

text \<open>The arguments of an instance against those of a use, which may be null.\<close>

fun same_arguments :: "ty list \<Rightarrow> ty option list \<Rightarrow> bool option" where
  "same_arguments [] args = Some True"
| "same_arguments (t # ts) [] = None"
| "same_arguments (t # ts) (a # args) = (case a of
      None \<Rightarrow> Some False
    | Some g \<Rightarrow> both (is_same (canonical t) (canonical g)) (same_arguments ts args))"

text \<open>The loop of \<^verbatim>\<open>get_iteration_for\<close>: an \<^verbatim>\<open>int16_t\<close> against a \<^verbatim>\<open>size_t\<close>.\<close>

definition before_total :: "16 word \<Rightarrow> ty list list \<Rightarrow> bool" where
  "before_total i insts \<longleftrightarrow> (scast i :: u64) < of_nat (length insts)"

lemma unat_minus_one_word_16: "unat (- 1 :: 16 word) = 65535"
  by (simp add: unsigned_minus_1_eq_mask mask_eq_exp_minus_1)

lemma before_total_less:
  assumes "before_total i insts"
  shows "unat i < unat (i + 1)"
proof -
  from assms have "i \<noteq> - 1" by (auto simp: before_total_def)
  then have "unat i \<noteq> 65535" by (metis unat_minus_one_word_16 word_unat_eq_iff)
  moreover have "unat i < 65536" using unsigned_less[of i, where 'a = nat] by simp
  ultimately show ?thesis by (simp add: unat_word_ariths)
qed

function find_iteration :: "16 word \<Rightarrow> ty list list \<Rightarrow> ty option list \<Rightarrow> 16 word option" where
  "find_iteration i insts args =
    (if before_total i insts then
       (case same_arguments (insts ! unat (scast i :: u64)) args of
          None \<Rightarrow> None
        | Some found \<Rightarrow> if found then Some i else find_iteration (i + 1) insts args)
     else if (scast i :: u64) = of_nat (length insts) then Some (- 1) else Some i)"
  by pat_completeness auto

termination
proof (relation "measure (\<lambda>(i, insts, args). 2 ^ 16 - unat i)")
  show "((i + 1, insts, args), i, insts, args) \<in> measure (\<lambda>(i, insts, args). 2 ^ 16 - unat i)"
    if "before_total i insts" for i insts args
    using before_total_less[OF that] unsigned_less[of "i + 1", where 'a = nat] by simp
qed simp_all

declare find_iteration.simps [simp del]

definition get_iteration_for :: "ty list list \<Rightarrow> ty option list \<Rightarrow> 16 word option" where
  "get_iteration_for insts args = (if insts = [] then Some (- 1) else find_iteration 0 insts args)"

text \<open>
  The methods \<^verbatim>\<open>copy\<close> of types, which all parts of a type are expected to be set for. The copy of a node at address \<open>i\<close> is at \<open>fresh i\<close>. The copy of an
  unnamed struct or union type has no members.
\<close>

fun copy_type :: "(nat \<Rightarrow> nat) \<Rightarrow> ty \<Rightarrow> ty" where
  "copy_type fresh (PointerTy t m) = PointerTy (copy_type fresh t) m"
| "copy_type fresh (ReferenceTy t m) = ReferenceTy (copy_type fresh t) m"
| "copy_type fresh (ArrayTy e n) = ArrayTy (map_option (copy_type fresh) e) n"
| "copy_type fresh (DynamicTy t) = DynamicTy (copy_type fresh t)"
| "copy_type fresh (LiteralTy t) = LiteralTy (copy_type fresh t)"
| "copy_type fresh (MaybeRuntimeTy t) = MaybeRuntimeTy (copy_type fresh t)"
| "copy_type fresh (RuntimeTy t) = RuntimeTy (copy_type fresh t)"
| "copy_type fresh (ExpressionTy a b isAnd) = ExpressionTy (copy_type fresh a) (copy_type fresh b) isAnd"
| "copy_type fresh (FunctionTy ps r v) =
     FunctionTy (map (copy_type fresh) ps) (map_option (copy_type fresh) r) v"
| "copy_type fresh (CapturingFunctionTy f i) =
     CapturingFunctionTy (copy_type fresh f) (copy_type fresh i)"
| "copy_type fresh (StructTy i ms) = StructTy (fresh i) []"
| "copy_type fresh (UnionTy i ms) = UnionTy (fresh i) []"
| "copy_type fresh (GenericTy n ts) = GenericTy n (map (copy_type fresh) ts)"
| "copy_type fresh t = t"

text \<open>\<^verbatim>\<open>register_generic_usage\<close>: every instance is registered for the file 0.\<close>

definition register_generic_usage ::
  "(nat \<Rightarrow> nat) \<Rightarrow> 'k \<Rightarrow> ty option list \<Rightarrow> nat \<Rightarrow> ('k, 'i) instantiations_container \<Rightarrow>
    ((16 word \<times> bool) \<times> ('k, 'i) instantiations_container) option"
where
  "register_generic_usage fresh key generic_list instVec c = do {
     i \<leftarrow> get_iteration_for (getInstantiationTypesFor key c) generic_list;
     if i \<noteq> - 1 then Some ((i, False), c)
     else do {
       ts \<leftarrow> those generic_list;
       let (index, c) = registerInstantiation key (map (copy_type fresh) ts) instVec 0 c;
       Some ((of_nat index, True), c)
     }
   }"

subsection \<open>Sequences of operations\<close>

text \<open>
  \<^verbatim>\<open>register_generic_args\<close> of a generic declaration pushes the new implementation onto the vector
  of the declaration, at \<open>vec_of key\<close>. When a file is parsed again, the declarations of its old
  tree are unregistered and destroyed with their vectors.
\<close>

datatype ('k, 'i) instance_op =
    Register 'k "ty list" nat 'i
  | RemoveFile nat
  | RemoveDecl 'k

fun run_op :: "('k \<Rightarrow> nat) \<Rightarrow> ('k, 'i) instance_op \<Rightarrow> ('k, 'i) instantiations_container \<times> 'i vectors \<Rightarrow>
    (('k, 'i) instantiations_container \<times> 'i vectors) option" where
  "run_op vec_of (Register key ts f impl) (c, vecs) =
     Some (snd (registerInstantiation key ts (vec_of key) f c),
       vecs(vec_of key := vecs (vec_of key) @ [impl]))"
| "run_op vec_of (RemoveFile f) s = removeInstantiationsFor_file f s"
| "run_op vec_of (RemoveDecl key) (c, vecs) =
     map_option (\<lambda>c. (c, vecs(vec_of key := []))) (removeInstantiationsFor_key key c)"

fun run_ops :: "('k \<Rightarrow> nat) \<Rightarrow> ('k, 'i) instance_op list \<Rightarrow>
    ('k, 'i) instantiations_container \<times> 'i vectors \<Rightarrow>
    (('k, 'i) instantiations_container \<times> 'i vectors) option" where
  "run_ops vec_of [] s = Some s"
| "run_ops vec_of (x # xs) s = run_op vec_of x s \<bind> run_ops vec_of xs"

end
