(* ===== verification/Type_Rules_Correct.thy ===== *)
theory Type_Rules_Correct
  imports Type_Rules
begin

text \<open>
  What the rules of \<open>Type_Rules\<close> promise: every plain type accepts itself, containers accept exactly
  the containers that extend them, pointers keep mutability and the width of integers; and where
  the rules let more through than they mean to.
\<close>

subsection \<open>Plain types accept themselves\<close>

text \<open>
  The types that are complete when they are compared. Left out are: an \<^verbatim>\<open>if\<close> type and an expression
  type, which are evaluated before; an array without an element type; a function type without a
  result; a type parameter with an active type and a linked value, which only occur while a
  generic declaration is expanded; instances of generic aliases (\<open>generic_alias_not_itself\<close>);
  and aliases of the wrappers \<^verbatim>\<open>%literal\<close>, \<^verbatim>\<open>%maybe_runtime\<close> and \<^verbatim>\<open>%runtime\<close>
  (\<open>literal_alias_rejects_itself\<close>), though not the wrappers themselves.
\<close>

fun is_wrapper :: "ty \<Rightarrow> bool" where
  "is_wrapper (LiteralTy t) = True"
| "is_wrapper (MaybeRuntimeTy t) = True"
| "is_wrapper (RuntimeTy t) = True"
| "is_wrapper t = False"

fun plain :: "ty \<Rightarrow> bool" and plain_node :: "node \<Rightarrow> bool" where
  "plain (ComplexTy t) = plain t"
| "plain (PointerTy t m) = plain t"
| "plain (ReferenceTy t m) = plain t"
| "plain (ArrayTy e n) = (case e of Some t \<Rightarrow> plain t | None \<Rightarrow> False)"
| "plain (DynamicTy t) = plain t"
| "plain (LiteralTy t) = plain t"
| "plain (MaybeRuntimeTy t) = plain t"
| "plain (RuntimeTy t) = plain t"
| "plain (ExpressionTy a b isAnd) = False"
| "plain IfTy = False"
| "plain (FunctionTy ps r v) = (list_all plain ps \<and> (case r of Some t \<Rightarrow> plain t | None \<Rightarrow> False))"
| "plain (CapturingFunctionTy f i) = (plain f \<and> plain i)"
| "plain (StructTy i ms) = list_all plain ms"
| "plain (UnionTy i ms) = True"
| "plain (LinkedTy n) = plain_node n"
| "plain (GenericTy n ts) = ((case n of
      StructNode i inh \<Rightarrow> True | UnionNode i inh \<Rightarrow> True | VariantNode i inh \<Rightarrow> True
    | InterfaceNode i inh users \<Rightarrow> True | _ \<Rightarrow> False) \<and> list_all plain ts)"
| "plain t = True"
| "plain_node (TypealiasNode i t) = (plain t \<and> \<not> is_wrapper t)"
| "plain_node (VariantMemberNode i p) = (case p of VariantNode j inh \<Rightarrow> True | _ \<Rightarrow> False)"
| "plain_node (GenericParamNode i active traits) = (active = None)"
| "plain_node (StructTypeNode i ms) = list_all plain ms"
| "plain_node (UnionTypeNode i) = True"
| "plain_node (ValueNode i known) = False"
| "plain_node n = True"

lemma same_node_refl [simp]: "same_node n n"
  by (simp add: same_node_def)

lemma same_node_sym: "same_node n m \<Longrightarrow> same_node m n"
  by (simp add: same_node_def)

lemma both_True [simp]: "both a (Some True) = a"
  by (cases "(a, Some True)" rule: both.cases) auto

lemma both_iff: "both a b = Some True \<longleftrightarrow> a = Some True \<and> b = Some True"
  by (cases "(a, b)" rule: both.cases) auto

lemma either_Some_True [simp]: "either (Some b) (Some True) = Some True"
  by (cases b) auto

lemma all_pairs_refl: "(\<And>t. t \<in> set ts \<Longrightarrow> f t t = Some True) \<Longrightarrow> all_pairs f ts ts = Some True"
  by (induction ts) auto

lemma canonical_plain:
  "plain_node n \<Longrightarrow> plain (canonical_linked n) \<and> canonical (canonical_linked n) = canonical_linked n \<and>
     \<not> is_wrapper (canonical_linked n)"
  "plain t \<Longrightarrow> plain (canonical t) \<and>
     (\<not> is_wrapper t \<longrightarrow> canonical (canonical t) = canonical t \<and> \<not> is_wrapper (canonical t))"
  by (induction n and t rule: canonical_linked_canonical.induct)
    (auto split: ty.splits node.splits option.splits)

lemma is_same_plain: "plain t \<Longrightarrow> is_same t t = Some True"
proof (induction "size t" arbitrary: t rule: less_induct)
  case less
  then have sub: "is_same u u = Some True" if "size u < size t" "plain u" for u
    using that by blast
  have args: "all_pairs is_same ts ts = Some True" if "size_list size ts < size t" "list_all plain ts" for ts
    using that by (intro all_pairs_refl sub) (auto simp: list_all_iff dest: element_smaller)
  from less.prems show ?case
    by (cases t) (auto simp: sub args same_global_def split: option.splits node.splits)
qed

lemma satisfies_own_canonical:
  "plain t \<Longrightarrow> \<not> is_wrapper t \<Longrightarrow> satisfies t (canonical t) = satisfies t t"
  using canonical_plain(2)[of t] by (cases t) (auto simp del: canonical.simps(4,5) simp: Let_def)

lemma pointee_satisfies_refl [simp]: "pointee_satisfies k k"
  by (simp add: pointee_satisfies_def)

lemma kind_satisfies_refl [simp]: "kind_satisfies k k"
  unfolding kind_satisfies_def by blast

lemma integers_match_refl [simp]: "integers_match t t"
  by (cases t) auto

lemma variant_linked_refl [simp]: "variant_linked_satisfies n n"
  by (cases n) auto

lemma satisfies_plain: "plain t \<Longrightarrow> satisfies t t = Some True"
proof (induction "size t" arbitrary: t rule: less_induct)
  case less
  then have sub: "satisfies u u = Some True" if "size u < size t" "plain u" for u
    using that by blast
  have can: "satisfies (canonical u) (canonical u) = Some True" if "size u < size t" "plain u" for u
    using that canonical_le(2)[of u] canonical_plain(2)[of u] by (intro sub) auto
  have own: "satisfies u (canonical u) = Some True" if "size u < size t" "plain u" "\<not> is_wrapper u" for u
    using sub[OF that(1,2)] satisfies_own_canonical[OF that(2,3)] by simp
  have args: "all_pairs satisfies ts ts = Some True" if "size_list size ts < size t" "list_all plain ts" for ts
    using that by (intro all_pairs_refl sub) (auto simp: list_all_iff dest: element_smaller)
  have same: "all_pairs is_same ts ts = Some True" if "list_all plain ts" for ts
    using that by (intro all_pairs_refl is_same_plain) (simp add: list_all_iff)
  have linked: "satisfies t t = Some True" if t: "t = LinkedTy n" and n: "plain_node n" for n
  proof (cases n)
    case (TypealiasNode i u)
    with t n have "satisfies u (canonical u) = Some True" by (intro own) simp_all
    with t n TypealiasNode show ?thesis by (simp add: Let_def canonical_plain(2))
  next
    case (VariantMemberNode i p)
    with n obtain j inh where "p = VariantNode j inh" by (cases p) auto
    with t VariantMemberNode show ?thesis by simp
  next
    case (StructTypeNode i ms)
    with t n have "satisfies (StructTy i ms) (StructTy i ms) = Some True" by (simp add: same)
    with t StructTypeNode show ?thesis by simp
  next
    case (GenericParamNode i active traits)
    with t n show ?thesis by simp
  qed (use t n in simp_all)
  from less.prems show ?case
  proof (cases t)
    case (LinkedTy n)
    with less.prems show ?thesis by (intro linked) simp_all
  next
    case (GenericTy n ts)
    with less.prems show ?thesis by (auto simp: args Let_def split: node.splits)
  qed (auto simp: sub can own args same is_same_plain same_global_def canonical_plain
        split: option.splits)
qed

text \<open>
  C15. Every complete type (\<open>plain\<close>) accepts itself, and is the same as itself: a value can be
  stored where its own type is expected. Type aliases, the wrappers \<^verbatim>\<open>%literal\<close>, \<^verbatim>\<open>%maybe_runtime\<close>
  and \<^verbatim>\<open>%runtime\<close>, members of variants and instances of generic structs, unions, variants and
  interfaces are included; instances of generic aliases and aliases of wrappers are not, and do
  not accept themselves in general (\<open>generic_alias_not_itself\<close>, \<open>literal_alias_rejects_itself\<close>).
\<close>

theorem plain_type_accepts_itself:
  assumes "plain t"
  shows "satisfies t t = Some True \<and> is_same t t = Some True"
  using assms by (simp add: satisfies_plain is_same_plain)

theorem plain_type_accepts_itself_witness:
  "satisfies (FunctionTy [PointerTy (LinkedTy (TypealiasNode 1 (LinkedTy (StructNode 2 [])))) True]
      (Some (ArrayTy (Some (IntTy KI32)) 4)) False)
    (FunctionTy [PointerTy (LinkedTy (TypealiasNode 1 (LinkedTy (StructNode 2 [])))) True]
      (Some (ArrayTy (Some (IntTy KI32)) 4)) False) = Some True"
  using plain_type_accepts_itself[of "FunctionTy [PointerTy (LinkedTy (TypealiasNode 1
      (LinkedTy (StructNode 2 [])))) True] (Some (ArrayTy (Some (IntTy KI32)) 4)) False"]
  by simp

text \<open>
  An alias of \<^verbatim>\<open>%literal<t>\<close> does not accept itself: \<^verbatim>\<open>canonical\<close> takes the wrapper away from the
  given type, and the alias then asks whether the literal type accepts what is left.
\<close>

theorem literal_alias_rejects_itself:
  "satisfies (LinkedTy (TypealiasNode i (LiteralTy (IntTy k)))) (LinkedTy (TypealiasNode i (LiteralTy (IntTy k)))) =
    Some False"
  by simp

subsection \<open>Containers\<close>

text \<open>
  The declarations a container inherits: through its first inherited type, or through any of them.
  A chain goes on from the container a declaration stands for.
\<close>

inductive first_base :: "node \<Rightarrow> node \<Rightarrow> bool" where
  "inherited_types c = t # ts \<Longrightarrow> direct_linked_node t = Some n \<Longrightarrow> first_base c n"

inductive any_base :: "node \<Rightarrow> node \<Rightarrow> bool" where
  "t \<in> set (inherited_types c) \<Longrightarrow> direct_linked_node t = Some n \<Longrightarrow> any_base c n"

inductive inherits :: "(node \<Rightarrow> node \<Rightarrow> bool) \<Rightarrow> node \<Rightarrow> node \<Rightarrow> bool" for base where
  direct: "base c n \<Longrightarrow> inherits base c n"
| further: "base c n \<Longrightarrow> members_container n = Some d \<Longrightarrow> inherits base d m \<Longrightarrow> inherits base c m"

definition extends_by :: "(node \<Rightarrow> node \<Rightarrow> bool) \<Rightarrow> node \<Rightarrow> node \<Rightarrow> bool" where
  "extends_by base c other \<longleftrightarrow> (\<exists>n. inherits base c n \<and> same_node n other)"

lemma extends_by_unfold:
  "extends_by base c other \<longleftrightarrow>
    (\<exists>n. base c n \<and> (same_node n other \<or>
      (case members_container n of None \<Rightarrow> False | Some d \<Rightarrow> extends_by base d other)))"
  (is "?lhs \<longleftrightarrow> ?rhs")
proof
  assume ?lhs
  then show ?rhs unfolding extends_by_def by (force elim: inherits.cases)
next
  assume ?rhs
  then show ?lhs unfolding extends_by_def
    by (auto intro: inherits.direct inherits.further split: option.splits)
qed

lemma first_base_iff:
  "first_base c n \<longleftrightarrow> (\<exists>t ts. inherited_types c = t # ts \<and> direct_linked_node t = Some n)"
  by (auto simp: first_base.simps)

lemma extends_by_unique:
  assumes unfold: "\<And>c. E c \<longleftrightarrow> (\<exists>n. base c n \<and> (same_node n other \<or>
      (case members_container n of None \<Rightarrow> False | Some d \<Rightarrow> E d)))"
    and smaller: "\<And>c n d. base c n \<Longrightarrow> members_container n = Some d \<Longrightarrow> size d < size c"
  shows "E c \<longleftrightarrow> extends_by base c other"
proof (induction "size c" arbitrary: c rule: less_induct)
  case less
  have "(case members_container n of None \<Rightarrow> False | Some d \<Rightarrow> E d) \<longleftrightarrow>
      (case members_container n of None \<Rightarrow> False | Some d \<Rightarrow> extends_by base d other)"
    if "base c n" for n
    using smaller[OF that] less by (auto split: option.splits)
  then show ?case by (subst unfold, subst extends_by_unfold) blast
qed

lemma any_base_smaller: "any_base c n \<Longrightarrow> members_container n = Some d \<Longrightarrow> size d < size c"
  by (auto simp: any_base.simps inherited_node_def intro: inherited_node_smaller)

lemma first_base_any: "first_base c n \<Longrightarrow> any_base c n"
  by (auto simp: first_base.simps any_base.simps)

lemma extends_struct:
  "extends_node c (StructNode i inh) \<longleftrightarrow> extends_by first_base c (StructNode i inh)"
proof (rule extends_by_unique)
  show "extends_node c (StructNode i inh) \<longleftrightarrow>
      (\<exists>n. first_base c n \<and> (same_node n (StructNode i inh) \<or>
        (case members_container n of None \<Rightarrow> False | Some d \<Rightarrow> extends_node d (StructNode i inh))))" for c
    by (subst extends_node.simps)
      (auto simp: first_base_iff inherited_node_def split: list.splits option.splits)
qed (blast intro: any_base_smaller first_base_any)

lemma extends_interface:
  "extends_node c (InterfaceNode i inh us) \<longleftrightarrow> extends_by any_base c (InterfaceNode i inh us)"
proof (rule extends_by_unique)
  show "extends_node c (InterfaceNode i inh us) \<longleftrightarrow>
      (\<exists>n. any_base c n \<and> (same_node n (InterfaceNode i inh us) \<or>
        (case members_container n of None \<Rightarrow> False | Some d \<Rightarrow> extends_node d (InterfaceNode i inh us))))" for c
    by (subst extends_node.simps) (fastforce simp: any_base.simps inherited_node_def list_ex_iff
        split: option.splits)
qed (rule any_base_smaller)

lemma inherits_trans:
  "inherits base c n \<Longrightarrow> members_container n = Some d \<Longrightarrow> inherits base d m \<Longrightarrow> inherits base c m"
  by (induction rule: inherits.induct) (auto intro: inherits.further)

lemma satisfies_struct:
  "satisfies (LinkedTy (StructNode i inh)) (LinkedTy (StructNode j inh')) =
    Some (i = j \<or> extends_by first_base (StructNode j inh') (StructNode i inh))"
  by (cases "i = j") (simp_all add: Let_def same_node_def container_linked_satisfies_def extends_struct)

text \<open>
  C16. A struct type accepts exactly the struct types that are the same declaration or inherit it
  along their first bases, however deep.
\<close>

theorem struct_accepts_heirs:
  "satisfies (LinkedTy (StructNode i inh)) (LinkedTy (StructNode j inh')) =
    Some (i = j \<or> extends_by first_base (StructNode j inh') (StructNode i inh))"
  by (cases "i = j") (simp_all add: Let_def same_node_def container_linked_satisfies_def extends_struct)

text \<open>
  Acceptance of structs is transitive, in a program in which the bases of a struct that share
  the identity of a declaration are that declaration.
\<close>

theorem struct_acceptance_transitive:
  assumes "satisfies (LinkedTy (StructNode i inh)) (LinkedTy (StructNode j inh')) = Some True"
    and "satisfies (LinkedTy (StructNode j inh')) (LinkedTy (StructNode k inh'')) = Some True"
    and "\<And>n. n = StructNode k inh'' \<or> inherits first_base (StructNode k inh'') n \<Longrightarrow>
      node_id n = j \<Longrightarrow> n = StructNode j inh'"
  shows "satisfies (LinkedTy (StructNode i inh)) (LinkedTy (StructNode k inh'')) = Some True"
proof (cases "j = k")
  case True
  with assms(1,3) show ?thesis by force
next
  case False
  with assms(2) obtain n where "inherits first_base (StructNode k inh'') n" "node_id n = j"
    by (auto simp: satisfies_struct extends_by_def same_node_def simp del: satisfies.simps)
  then have jk: "inherits first_base (StructNode k inh'') (StructNode j inh')"
    using assms(3)[of n] by simp
  from assms(1) have "i = j \<or> (\<exists>m. inherits first_base (StructNode j inh') m \<and> node_id m = i)"
    by (auto simp: satisfies_struct extends_by_def same_node_def simp del: satisfies.simps)
  with jk have "\<exists>m. inherits first_base (StructNode k inh'') m \<and> node_id m = i"
    using inherits_trans[OF jk] by auto
  then show ?thesis
    by (auto simp: satisfies_struct extends_by_def same_node_def simp del: satisfies.simps)
qed

lemma inherits_simps:
  "inherits first_base c m \<longleftrightarrow>
    (\<exists>n. first_base c n \<and> (n = m \<or> (\<exists>d. members_container n = Some d \<and> inherits first_base d m)))"
  by (auto intro: inherits.intros elim: inherits.cases)

theorem struct_acceptance_transitive_witness:
  "satisfies (LinkedTy (StructNode 1 []))
    (LinkedTy (StructNode 3 [LinkedTy (StructNode 2 [LinkedTy (StructNode 1 [])])])) = Some True"
proof (rule struct_acceptance_transitive[of 1 "[]" 2 "[LinkedTy (StructNode 1 [])]"])
  show "satisfies (LinkedTy (StructNode 1 [])) (LinkedTy (StructNode 2 [LinkedTy (StructNode 1 [])])) =
      Some True"
    by code_simp
  show "satisfies (LinkedTy (StructNode 2 [LinkedTy (StructNode 1 [])]))
      (LinkedTy (StructNode 3 [LinkedTy (StructNode 2 [LinkedTy (StructNode 1 [])])])) = Some True"
    by code_simp
  show "n = StructNode 2 [LinkedTy (StructNode 1 [])]"
    if "n = StructNode 3 [LinkedTy (StructNode 2 [LinkedTy (StructNode 1 [])])] \<or>
      inherits first_base (StructNode 3 [LinkedTy (StructNode 2 [LinkedTy (StructNode 1 [])])]) n"
      "node_id n = 2" for n
    using that by (auto simp: inherits_simps[of "StructNode _ _"] first_base_iff)
qed

subsection \<open>Pointers\<close>

text \<open>
  Behind a pointer an integer keeps its kind, and a mutable pointer to it is accepted from a
  mutable pointer only.
\<close>

theorem pointer_keeps_kind_and_mutability:
  "satisfies (PointerTy (IntTy k) m) (PointerTy (IntTy k') m') = Some (k = k' \<and> m \<le> m')"
  by (auto simp: pointee_satisfies_def)

text \<open>
  Where a mutable pointer is expected, only a mutable pointer, null, an array, or for
  \<^verbatim>\<open>*mut void\<close> a function is accepted.
\<close>

theorem mutable_pointer_from_mutable:
  assumes "satisfies (PointerTy t True) u = Some True"
  shows "case canonical u of
      PointerTy v m \<Rightarrow> m | NullPtrTy \<Rightarrow> True | ArrayTy e n \<Rightarrow> True | FunctionTy ps r v \<Rightarrow> t = VoidTy
    | _ \<Rightarrow> False"
  using assms by (auto split: ty.splits if_splits)

theorem mutable_pointer_from_mutable_witness:
  "case canonical (LinkedTy (TypealiasNode 1 (PointerTy (IntTy KI8) True))) of
      PointerTy v m \<Rightarrow> m | NullPtrTy \<Rightarrow> True | ArrayTy e n \<Rightarrow> True
    | FunctionTy ps r v \<Rightarrow> VoidTy = (VoidTy :: ty) | _ \<Rightarrow> False"
  by (rule mutable_pointer_from_mutable[of VoidTy]) code_simp

subsection \<open>What slips through\<close>

text \<open>
  An array accepts an array of any other length that is not zero, and a pointer to an integer
  accepts an array of integers of any other width: the lengths are only compared when one of them
  is zero, and the elements of an array are not compared the way pointees are.
\<close>

theorem array_shape_ignored:
  assumes "n' \<noteq> 0" and "kind_satisfies k k'"
  shows "satisfies (ArrayTy (Some (IntTy k)) n) (ArrayTy (Some (IntTy k')) n') = Some True \<and>
    satisfies (PointerTy (IntTy k) m) (ArrayTy (Some (IntTy k')) n') = Some True"
  using assms by simp

theorem array_shape_ignored_witness:
  "satisfies (ArrayTy (Some (IntTy KU8)) 8) (ArrayTy (Some (IntTy KU64)) 2) = Some True \<and>
    satisfies (PointerTy (IntTy KU8) True) (ArrayTy (Some (IntTy KU64)) 2) = Some True"
  by (rule array_shape_ignored) (simp_all add: kind_satisfies_def is_unsigned_def UnsignedStart_def)

text \<open>
  The rules for pointers see one level: a \<^verbatim>\<open>*mut *int\<close> accepts a \<^verbatim>\<open>*mut *mut int\<close>, so a
  pointer to an immutable integer can be stored where a pointer to a mutable one is read back.
\<close>

theorem nested_pointer_hole:
  "satisfies (PointerTy (PointerTy (IntTy k) False) True) (PointerTy (PointerTy (IntTy k) True) True) =
     Some True"
  by simp

text \<open>
  A generic alias that is instantiated is not the same as itself, so a function type with such
  a parameter does not accept itself.
\<close>

theorem generic_alias_not_itself:
  "satisfies (FunctionTy [GenericTy (TypealiasNode i (IntTy k)) ts] (Some VoidTy) v)
    (FunctionTy [GenericTy (TypealiasNode i (IntTy k)) ts] (Some VoidTy) v) = Some False"
  by simp

end
