(* ===== verification/Instantiations_Correct.thy ===== *)
theory Instantiations_Correct
  imports Instantiations Type_Rules_Correct "HOL-Library.Multiset"
begin

text \<open>
  The two sides of the table of instances stay inverse to each other, removing the instances of a
  declaration or of a file removes these and no others, and a use of a generic declaration finds
  the instance an equal use made before.
\<close>

subsection \<open>Tables that hold each other's positions\<close>

definition mutual :: "('a \<rightharpoonup> 'b) \<Rightarrow> ('b \<rightharpoonup> 'a) \<Rightarrow> bool" where
  "mutual P R \<longleftrightarrow> (\<forall>a b. P a = Some b \<longleftrightarrow> R b = Some a)"

lemma mutualD: "mutual P R \<Longrightarrow> P a = Some b \<longleftrightarrow> R b = Some a"
  by (simp add: mutual_def)

lemma mutual_sym: "mutual P R \<Longrightarrow> mutual R P"
  by (simp add: mutual_def)

lemma mutual_drop:
  assumes "mutual P R" and "R b = Some a" and "P a' = Some b'"
  shows "mutual (P(a \<mapsto> b', a' := None)) (R(b' \<mapsto> a, b := None))"
  using assms unfolding mutual_def by (auto split: if_splits) (metis option.inject)+

lemma mutual_add:
  assumes "mutual P R" and "P a = None" and "R b = None"
  shows "mutual (P(a \<mapsto> b)) (R(b \<mapsto> a))"
  using assms unfolding mutual_def fun_upd_def by (metis option.distinct(1) option.inject)

text \<open>A cell of a map of vectors, and a vector without its element \<open>i\<close>, whose place the last one takes.\<close>

definition cell :: "('x \<rightharpoonup> 'y list) \<Rightarrow> 'x \<times> nat \<Rightarrow> 'y option" where
  "cell m = (\<lambda>(x, i). case m x of None \<Rightarrow> None | Some ys \<Rightarrow> if i < length ys then Some (ys ! i) else None)"

definition drop_at :: "nat \<Rightarrow> 'a list \<Rightarrow> 'a list" where
  "drop_at i xs = (butlast xs)[i := last xs]"

lemma length_drop_at [simp]: "length (drop_at i xs) = length xs - 1"
  by (simp add: drop_at_def)

lemma swap_last:
  assumes "i < length xs" and "i \<noteq> length xs - 1"
  obtains ys where "swap_elems i (length xs - 1) xs = Some ys" "pop_back ys = Some (drop_at i xs)"
    "ys ! i = last xs" "length ys = length xs"
proof
  let ?ys = "xs[i := xs ! (length xs - 1), length xs - 1 := xs ! i]"
  from assms have "xs \<noteq> []" "length xs - 1 < length xs" by auto
  with assms show "swap_elems i (length xs - 1) xs = Some ?ys" "pop_back ?ys = Some (drop_at i xs)"
    "?ys ! i = last xs" "length ?ys = length xs"
    by (auto simp: swap_elems_def pop_back_def drop_at_def butlast_list_update last_conv_nth)
qed

lemma pop_last: "xs \<noteq> [] \<Longrightarrow> pop_back xs = Some (drop_at (length xs - 1) xs)"
  by (simp add: pop_back_def drop_at_def list_update_beyond)

lemma cell_drop_at:
  assumes "m x = Some ys" and "i < length ys"
  shows "cell (m(x \<mapsto> drop_at i ys)) = (cell m)((x, i) \<mapsto> last ys, (x, length ys - 1) := None)"
  using assms
  by (auto simp: fun_eq_iff cell_def drop_at_def nth_list_update nth_butlast split: option.splits)

lemma cell_set:
  assumes "m x = Some ys" and "i < length ys"
  shows "cell (m(x \<mapsto> ys[i := y])) = (cell m)((x, i) \<mapsto> y)"
  using assms by (auto simp: fun_eq_iff cell_def split: option.splits)

lemma cell_push:
  assumes "(case m x of Some zs \<Rightarrow> zs | None \<Rightarrow> []) = ys"
  shows "cell (m(x \<mapsto> ys @ [y])) = (cell m)((x, length ys) \<mapsto> y)"
  using assms by (auto simp: fun_eq_iff cell_def nth_append split: option.splits)

lemma cell_Some:
  "cell m (x, i) = Some y \<longleftrightarrow> (\<exists>ys. m x = Some ys \<and> i < length ys \<and> ys ! i = y)"
  by (auto simp: cell_def split: option.splits)

lemma mset_drop_at: "i < length xs \<Longrightarrow> add_mset (xs ! i) (mset (drop_at i xs)) = mset xs"
proof (cases xs rule: rev_cases)
  case (snoc ys x)
  assume "i < length xs"
  with snoc show ?thesis
    by (cases "i < length ys") (auto simp: drop_at_def mset_update nth_append list_update_beyond)
qed simp

lemma zip_drop_at: "length xs = length ys \<Longrightarrow> zip (drop_at i xs) (drop_at i ys) = drop_at i (zip xs ys)"
  by (cases xs rule: rev_cases; cases ys rule: rev_cases)
    (auto simp: drop_at_def zip_update zip_append)

lemma map_drop_at: "map f (drop_at i xs) = drop_at i (map f xs)"
  by (cases xs rule: rev_cases) (auto simp: drop_at_def map_update)

subsection \<open>The invariant\<close>

definition entry_pair :: "'k registry_entry \<Rightarrow> 'k \<times> nat" where
  "entry_pair e = (ent_key e, ent_index e)"

definition position_pair :: "registry_position \<Rightarrow> nat \<times> nat" where
  "position_pair p = (pos_file p, pos_index p)"

definition records_in :: "(nat \<rightharpoonup> 'k registry_entry list) \<Rightarrow> nat \<times> nat \<rightharpoonup> 'k \<times> nat" where
  "records_in regs = map_option entry_pair \<circ> cell regs"

definition positions_in :: "('k \<rightharpoonup> decl_instantiations) \<Rightarrow> 'k \<times> nat \<rightharpoonup> nat \<times> nat" where
  "positions_in insts = map_option position_pair \<circ> cell (map_option registryPositions \<circ> insts)"

text \<open>
  The registry and the positions are inverse to each other, the three vectors of a declaration have
  one length, and no two declarations share the vector of their implementations.
\<close>

definition vectors_ok :: "('k \<rightharpoonup> decl_instantiations) \<Rightarrow> 'i vectors \<Rightarrow> bool" where
  "vectors_ok insts vecs \<longleftrightarrow>
    (\<forall>k d. insts k = Some d \<longrightarrow> length (registryPositions d) = length (types d) \<and>
      length (vecs (implData d)) = length (types d)) \<and>
    (\<forall>k k' d d'. insts k = Some d \<longrightarrow> insts k' = Some d' \<longrightarrow> k \<noteq> k' \<longrightarrow> implData d \<noteq> implData d')"

definition container_ok :: "('k, 'i) instantiations_container \<Rightarrow> 'i vectors \<Rightarrow> bool" where
  "container_ok c vecs \<longleftrightarrow>
    mutual (positions_in (instantiations c)) (records_in (fileIdRegistry c)) \<and>
    vectors_ok (instantiations c) vecs"

text \<open>Every declaration uses its own vector, which is empty while it has no entry.\<close>

definition owned :: "('k \<Rightarrow> nat) \<Rightarrow> ('k, 'i) instantiations_container \<Rightarrow> 'i vectors \<Rightarrow> bool" where
  "owned vec_of c vecs \<longleftrightarrow> (\<forall>k. case instantiations c k of
      None \<Rightarrow> vecs (vec_of k) = [] | Some d \<Rightarrow> implData d = vec_of k)"

text \<open>The instances of a declaration: arguments, implementation and the file that caused them.\<close>

definition instances ::
  "('k, 'i) instantiations_container \<Rightarrow> 'i vectors \<Rightarrow> 'k \<Rightarrow> (ty list \<times> 'i \<times> nat) multiset"
where
  "instances c vecs k = (case instantiations c k of
      None \<Rightarrow> {#}
    | Some d \<Rightarrow> mset (zip (types d) (zip (vecs (implData d)) (map pos_file (registryPositions d)))))"

definition caused_by :: "nat \<Rightarrow> ty list \<times> 'i \<times> nat \<Rightarrow> bool" where
  "caused_by f inst \<longleftrightarrow> snd (snd inst) = f"

lemma map_option_upd:
  "map_option f \<circ> g(a \<mapsto> b) = (map_option f \<circ> g)(a \<mapsto> f b)"
  "map_option f \<circ> g(a := None) = (map_option f \<circ> g)(a := None)"
  by (auto simp: fun_eq_iff)

lemma records_drop:
  assumes "regs f = Some reg" and "j < length reg"
  shows "records_in (regs(f \<mapsto> drop_at j reg)) =
    (records_in regs)((f, j) \<mapsto> entry_pair (last reg), (f, length reg - 1) := None)"
  using assms by (simp add: records_in_def cell_drop_at map_option_upd)

lemma positions_drop:
  assumes "insts k = Some d" and "i < length (registryPositions d)"
    and "registryPositions d' = drop_at i (registryPositions d)"
  shows "positions_in (insts(k \<mapsto> d')) = (positions_in insts)
    ((k, i) \<mapsto> position_pair (last (registryPositions d)), (k, length (registryPositions d) - 1) := None)"
  using assms by (simp add: positions_in_def cell_drop_at map_option_upd)

lemma records_Some:
  "records_in regs (f, j) = Some (k, i) \<longleftrightarrow>
    (\<exists>reg. regs f = Some reg \<and> j < length reg \<and> reg ! j = \<lparr>ent_key = k, ent_index = i\<rparr>)"
  by (auto simp: records_in_def cell_Some entry_pair_def)

lemma positions_Some:
  "positions_in insts (k, i) = Some (f, j) \<longleftrightarrow>
    (\<exists>d. insts k = Some d \<and> i < length (registryPositions d) \<and>
      registryPositions d ! i = \<lparr>pos_file = f, pos_index = j\<rparr>)"
  by (auto simp: positions_in_def cell_Some position_pair_def)

subsection \<open>Removing the instances of a file\<close>

lemma retarget_records:
  assumes "records_in regs (position_pair p) = Some (k, l)"
  shows "records_in (retarget p x regs) = (records_in regs)(position_pair p \<mapsto> (k, x))"
proof -
  from assms obtain other where "regs (pos_file p) = Some other" "pos_index p < length other"
    "other ! pos_index p = \<lparr>ent_key = k, ent_index = l\<rparr>"
    by (auto simp: position_pair_def records_Some)
  then show ?thesis
    by (simp add: retarget_def records_in_def cell_set map_option_upd position_pair_def entry_pair_def)
qed

lemma retarget_length:
  "regs f = Some reg \<Longrightarrow> \<exists>reg'. retarget p x regs f = Some reg' \<and> length reg' = length reg"
  by (auto simp: retarget_def split: option.splits)

lemma vectors_ok_drop:
  assumes "vectors_ok insts vecs" and "insts k = Some d"
    and "d' = d\<lparr>types := drop_at x (types d), registryPositions := drop_at x (registryPositions d)\<rparr>"
  shows "vectors_ok (insts(k \<mapsto> d')) (vecs(implData d := drop_at x (vecs (implData d))))"
  using assms unfolding vectors_ok_def by auto

lemma instances_drop:
  assumes ok: "vectors_ok (instantiations c) vecs" and d: "instantiations c k = Some d"
    and x: "x < length (registryPositions d)" "pos_file (registryPositions d ! x) = f"
    and c': "instantiations c' = (instantiations c)(k \<mapsto>
      d\<lparr>types := drop_at x (types d), registryPositions := drop_at x (registryPositions d)\<rparr>)"
  shows "{#i \<in># instances c' (vecs(implData d := drop_at x (vecs (implData d)))) k'. \<not> caused_by f i#}
    = {#i \<in># instances c vecs k'. \<not> caused_by f i#}"
proof (cases "k' = k")
  case True
  let ?all = "zip (types d) (zip (vecs (implData d)) (map pos_file (registryPositions d)))"
  from ok d have len: "length (registryPositions d) = length (types d)"
    "length (vecs (implData d)) = length (types d)"
    by (auto simp: vectors_ok_def)
  with x have "caused_by f (?all ! x)" "x < length ?all" by (simp_all add: caused_by_def)
  with mset_drop_at[of x ?all, symmetric]
  have "{#i \<in># mset ?all. \<not> caused_by f i#} = {#i \<in># mset (drop_at x ?all). \<not> caused_by f i#}"
    by simp
  with True d c' len show ?thesis
    by (simp add: instances_def map_drop_at zip_drop_at)
next
  case False
  with ok d have "instantiations c k' = Some e \<Longrightarrow> implData e \<noteq> implData d" for e
    by (auto simp: vectors_ok_def)
  with False c' show ?thesis by (auto simp: instances_def split: option.splits)
qed

lemma owned_drop:
  assumes "inj vec_of" and own: "owned vec_of c vecs" and d: "instantiations c k = Some d"
  shows "owned vec_of (c\<lparr>instantiations := (instantiations c)(k \<mapsto> d\<lparr>types := ts, registryPositions := ps\<rparr>)\<rparr>)
    (vecs(implData d := xs))"
proof -
  have "implData d = vec_of k" using own[unfolded owned_def, rule_format, of k] d by simp
  with own \<open>inj vec_of\<close> show ?thesis
    by (auto simp: owned_def inj_eq split: option.splits) (metis option.distinct(1))
qed

lemma remove_record_step:
  assumes ok: "container_ok c vecs" and reg: "fileIdRegistry c f = Some reg" "length reg = Suc m"
  obtains c' vecs' reg' where "remove_record f m (c, vecs) = Some (c', vecs')"
    and "container_ok c' vecs'" and "fileIdRegistry c' f = Some reg'" and "length reg' = m"
    and "\<And>k. {#i \<in># instances c' vecs' k. \<not> caused_by f i#} = {#i \<in># instances c vecs k. \<not> caused_by f i#}"
    and "\<And>vec_of. inj vec_of \<Longrightarrow> owned vec_of c vecs \<Longrightarrow> owned vec_of c' vecs'"
proof -
  let ?P = "positions_in (instantiations c)" and ?R = "records_in (fileIdRegistry c)"
  from ok have mutual: "mutual ?P ?R" and vok: "vectors_ok (instantiations c) vecs"
    by (simp_all add: container_ok_def)
  obtain k x where kx: "reg ! m = \<lparr>ent_key = k, ent_index = x\<rparr>" by (cases "reg ! m") auto
  with reg have R: "?R (f, m) = Some (k, x)" by (simp add: records_Some)
  then obtain d where d: "instantiations c k = Some d" "x < length (registryPositions d)"
    "registryPositions d ! x = \<lparr>pos_file = f, pos_index = m\<rparr>"
    using mutualD[OF mutual] by (auto simp: positions_Some[symmetric] simp del: fun_upd_apply)
      (metis positions_Some)
  let ?ps = "registryPositions d" and ?l = "length (types d) - 1"
  from vok d have len: "length ?ps = length (types d)" "length (vecs (implData d)) = length (types d)"
    and ne: "types d \<noteq> []"
    by (auto simp: vectors_ok_def)
  from ne len have "last ?ps = ?ps ! ?l" "?l < length ?ps"
    using last_conv_nth[of ?ps] by fastforce+
  with d(1) have P: "?P (k, ?l) = Some (position_pair (last ?ps))"
    by (cases "last ?ps") (simp add: positions_Some position_pair_def)
  let ?regs = "if x \<noteq> ?l then retarget (last ?ps) x (fileIdRegistry c) else fileIdRegistry c"
  have regs: "records_in ?regs = ?R(position_pair (last ?ps) \<mapsto> (k, x))"
    using P mutualD[OF mutual] retarget_records[of "fileIdRegistry c" "last ?ps" k ?l x]
    by (cases "x = ?l") (auto simp: fun_upd_idem)
  obtain reg' where reg': "?regs f = Some reg'" "length reg' = Suc m"
    using reg retarget_length[of "fileIdRegistry c" f reg "last ?ps" x] by (cases "x = ?l") auto
  let ?d = "d\<lparr>types := drop_at x (types d), registryPositions := drop_at x ?ps\<rparr>"
  let ?c = "c\<lparr>instantiations := (instantiations c)(k \<mapsto> ?d), fileIdRegistry := ?regs(f \<mapsto> drop_at m reg')\<rparr>"
  let ?vecs = "vecs(implData d := drop_at x (vecs (implData d)))"
  have pop: "pop_back reg' = Some (drop_at m reg')" using pop_last[of reg'] reg' by force
  have step: "remove_record f m (c, vecs) = Some (?c, ?vecs)"
  proof (cases "x = ?l")
    case True
    from len ne have "?ps \<noteq> []" "vecs (implData d) \<noteq> []" by (metis list.size(3) length_0_conv)+
    with ne have pops: "pop_back (types d) = Some (drop_at ?l (types d))"
      "pop_back ?ps = Some (drop_at ?l ?ps)"
      "pop_back (vecs (implData d)) = Some (drop_at ?l (vecs (implData d)))"
      using pop_last[of "types d"] pop_last[of ?ps] pop_last[of "vecs (implData d)"] len by simp_all
    from True reg kx d pop reg' pops show ?thesis by (simp add: remove_record_def Let_def)
  next
    case False
    from False d len obtain ts where ts: "swap_elems x ?l (types d) = Some ts"
      "pop_back ts = Some (drop_at x (types d))"
      using swap_last[of x "types d"] by metis
    from False d len obtain zs where zs: "swap_elems x ?l (vecs (implData d)) = Some zs"
      "pop_back zs = Some (drop_at x (vecs (implData d)))"
      using swap_last[of x "vecs (implData d)"] by metis
    from False d len obtain qs where qs: "swap_elems x ?l ?ps = Some qs"
      "pop_back qs = Some (drop_at x ?ps)" "qs ! x = last ?ps"
      using swap_last[of x ?ps] by metis
    from False reg kx d ts zs qs pop reg' show ?thesis
      by (simp add: remove_record_def Let_def)
  qed
  have "mutual (positions_in (instantiations ?c)) (records_in (fileIdRegistry ?c))"
    using mutual_drop[OF mutual R P] d len reg' regs
    by (simp add: positions_drop records_drop fun_upd_twist)
  then have "container_ok ?c ?vecs"
    using vectors_ok_drop[OF vok d(1) refl] by (simp add: container_ok_def)
  moreover have "{#i \<in># instances ?c ?vecs k'. \<not> caused_by f i#} = {#i \<in># instances c vecs k'. \<not> caused_by f i#}" for k'
    using instances_drop[OF vok d(1,2), of f ?c k'] d(3) by simp
  moreover have "owned vec_of ?c ?vecs" if "inj vec_of" "owned vec_of c vecs" for vec_of
    using owned_drop[OF that d(1)] by (simp add: owned_def)
  ultimately show ?thesis using step reg' by (intro that[of ?c ?vecs "drop_at m reg'"]) simp_all
qed

lemma remove_records_correct:
  assumes "container_ok c vecs" and "fileIdRegistry c f = Some reg" and "length reg = m"
  shows "\<exists>c' vecs'. remove_records f m (c, vecs) = Some (c', vecs') \<and> container_ok c' vecs' \<and>
    fileIdRegistry c' f = Some [] \<and>
    (\<forall>k. {#i \<in># instances c' vecs' k. \<not> caused_by f i#} = {#i \<in># instances c vecs k. \<not> caused_by f i#}) \<and>
    (inj vec_of \<longrightarrow> owned vec_of c vecs \<longrightarrow> owned vec_of c' vecs')"
  using assms
proof (induction m arbitrary: c vecs reg)
  case (Suc m)
  then obtain c' vecs' reg' where step: "remove_record f m (c, vecs) = Some (c', vecs')"
    "container_ok c' vecs'" "fileIdRegistry c' f = Some reg'" "length reg' = m"
    "\<And>k. {#i \<in># instances c' vecs' k. \<not> caused_by f i#} = {#i \<in># instances c vecs k. \<not> caused_by f i#}"
    "inj vec_of \<Longrightarrow> owned vec_of c vecs \<Longrightarrow> owned vec_of c' vecs'"
    using remove_record_step[OF Suc.prems] by metis
  from Suc.IH[OF step(2,3,4)] step(1,5,6) show ?case by auto
qed simp

lemma no_record_no_instance:
  assumes ok: "container_ok c vecs" and none: "registry_of f c = []"
  shows "{#i \<in># instances c vecs k. \<not> caused_by f i#} = instances c vecs k"
proof (cases "instantiations c k")
  case (Some d)
  have "pos_file p \<noteq> f" if "p \<in> set (registryPositions d)" for p
  proof
    assume f: "pos_file p = f"
    from that obtain i where "i < length (registryPositions d)" "registryPositions d ! i = p"
      by (auto simp: in_set_conv_nth)
    with Some f have "positions_in (instantiations c) (k, i) = Some (f, pos_index p)"
      by (auto simp: positions_Some)
    with ok have "records_in (fileIdRegistry c) (f, pos_index p) = Some (k, i)"
      by (auto simp: container_ok_def mutual_def)
    with none show False by (auto simp: records_Some registry_of_def)
  qed
  then have "snd (snd i) \<noteq> f" if "i \<in># instances c vecs k" for i
    using that Some by (cases i) (auto simp: instances_def dest!: set_zip_rightD, blast)
  then show ?thesis by (simp add: filter_mset_eq_conv caused_by_def)
qed (simp add: instances_def)

lemma records_in_empty: "regs f = Some [] \<Longrightarrow> records_in (regs(f := None)) = records_in regs"
  by (auto simp: records_in_def cell_def fun_eq_iff)

lemma file_removed:
  assumes "container_ok c vecs"
  shows "\<exists>c' vecs'. removeInstantiationsFor_file f (c, vecs) = Some (c', vecs') \<and> container_ok c' vecs' \<and>
    registry_of f c' = [] \<and> (\<forall>k. instances c' vecs' k = {#i \<in># instances c vecs k. \<not> caused_by f i#}) \<and>
    (inj vec_of \<longrightarrow> owned vec_of c vecs \<longrightarrow> owned vec_of c' vecs')"
proof (cases "fileIdRegistry c f")
  case None
  with assms show ?thesis
    by (simp add: removeInstantiationsFor_file_def registry_of_def no_record_no_instance)
next
  case (Some reg)
  with remove_records_correct[OF assms Some refl, of vec_of] obtain c' vecs' where
    step: "remove_records f (length reg) (c, vecs) = Some (c', vecs')" "container_ok c' vecs'"
    "fileIdRegistry c' f = Some []"
    "\<And>k. {#i \<in># instances c' vecs' k. \<not> caused_by f i#} = {#i \<in># instances c vecs k. \<not> caused_by f i#}"
    "inj vec_of \<longrightarrow> owned vec_of c vecs \<longrightarrow> owned vec_of c' vecs'"
    by blast
  let ?c = "c'\<lparr>fileIdRegistry := (fileIdRegistry c')(f := None)\<rparr>"
  have ok: "container_ok ?c vecs'"
    using step(2,3) by (simp add: container_ok_def records_in_empty)
  have none: "registry_of f ?c = []" by (simp add: registry_of_def)
  have "instances ?c vecs' k = {#i \<in># instances c vecs k. \<not> caused_by f i#}" for k
    using no_record_no_instance[OF ok none, of k] step(4)[of k] by (simp add: instances_def)
  with ok none Some step(1,5) show ?thesis
    by (auto simp: removeInstantiationsFor_file_def owned_def)
qed

subsection \<open>Removing the instances of a declaration\<close>

text \<open>
  While the positions of a declaration are unregistered in turn, the ones that are done are hidden.
  Only indexes into registries change; the shape of every declaration stays.
\<close>

definition live :: "'k \<Rightarrow> nat \<Rightarrow> ('k \<times> nat \<rightharpoonup> 'b) \<Rightarrow> ('k \<times> nat \<rightharpoonup> 'b)" where
  "live key n P = (\<lambda>(k, i). if k = key \<and> i < n then None else P (k, i))"

definition shape :: "decl_instantiations \<Rightarrow> ty list list \<times> nat \<times> nat list" where
  "shape d = (types d, implData d, map pos_file (registryPositions d))"

definition same_shape :: "('k \<rightharpoonup> decl_instantiations) \<Rightarrow> ('k \<rightharpoonup> decl_instantiations) \<Rightarrow> bool" where
  "same_shape insts insts' \<longleftrightarrow> (\<forall>k. map_option shape (insts' k) = map_option shape (insts k))"

lemma same_shape_refl [simp]: "same_shape insts insts"
  by (simp add: same_shape_def)

lemma same_shape_trans: "same_shape a b \<Longrightarrow> same_shape b c \<Longrightarrow> same_shape a c"
  by (simp add: same_shape_def)

lemma live_0 [simp]: "live key 0 P = P"
  by (auto simp: live_def fun_eq_iff)

lemma live_Suc: "live key (Suc n) P = (live key n P)((key, n) := None)"
  by (auto simp: live_def fun_eq_iff)

lemma live_Some: "live key n P (k, i) = Some b \<Longrightarrow> P (k, i) = Some b"
  by (auto simp: live_def split: if_splits)

lemma live_upd: "live key n P a \<noteq> None \<Longrightarrow> live key n (P(a \<mapsto> b)) = (live key n P)(a \<mapsto> b)"
  by (cases a) (auto simp: live_def fun_eq_iff split: if_splits)

lemma unregister_step:
  assumes mutual: "mutual (live key n (positions_in (instantiations c))) (records_in (fileIdRegistry c))"
    and d: "instantiations c key = Some d" "n < length (registryPositions d)"
  obtains c' where "unregister (registryPositions d ! n) c = Some c'"
    and "mutual (live key (Suc n) (positions_in (instantiations c'))) (records_in (fileIdRegistry c'))"
    and "same_shape (instantiations c) (instantiations c')"
proof -
  let ?P = "positions_in (instantiations c)" and ?R = "records_in (fileIdRegistry c)"
  obtain f j where pos: "registryPositions d ! n = \<lparr>pos_file = f, pos_index = j\<rparr>"
    by (cases "registryPositions d ! n") auto
  with d have P: "live key n ?P (key, n) = Some (f, j)" by (auto simp: live_def positions_Some)
  with mutualD[OF mutual] obtain reg where reg: "fileIdRegistry c f = Some reg" "j < length reg"
    by (auto simp: records_Some)
  let ?m = "length reg - 1"
  obtain k i where ki: "last reg = \<lparr>ent_key = k, ent_index = i\<rparr>" by (cases "last reg") auto
  have last: "last reg = reg ! ?m" using reg(2) last_conv_nth[of reg] by fastforce
  with reg ki have R: "?R (f, ?m) = Some (k, i)" by (auto simp: records_Some)
  then have Q: "live key n ?P (k, i) = Some (f, ?m)" using mutualD[OF mutual] by blast
  have moved: "mutual ((live key n ?P)((k, i) \<mapsto> (f, j), (key, n) := None))
      (?R((f, j) \<mapsto> (k, i), (f, ?m) := None))"
    using mutual_drop[OF mutual_sym[OF mutual] P R] by (rule mutual_sym)
  show ?thesis
  proof (cases "j = ?m")
    case True
    let ?c = "c\<lparr>fileIdRegistry := (fileIdRegistry c)(f \<mapsto> drop_at j reg)\<rparr>"
    from True P Q R mutualD[OF mutual] have "(k, i) = (key, n)" by force
    with moved reg True have "mutual (live key (Suc n) ?P) (records_in (fileIdRegistry ?c))"
      by (simp add: live_Suc records_drop)
    moreover from reg(2) have "reg \<noteq> []" by auto
    then have "unregister (registryPositions d ! n) c = Some ?c"
      using True reg pos pop_last[of reg] by (simp add: unregister_def)
    ultimately show ?thesis by (intro that[of ?c]) simp_all
  next
    case False
    from Q obtain e where e: "instantiations c k = Some e" "i < length (registryPositions e)"
      "registryPositions e ! i = \<lparr>pos_file = f, pos_index = ?m\<rparr>"
      by (auto simp: positions_Some dest!: live_Some)
    let ?e = "e\<lparr>registryPositions := (registryPositions e)[i := \<lparr>pos_file = f, pos_index = j\<rparr>]\<rparr>"
    let ?c = "c\<lparr>instantiations := (instantiations c)(k \<mapsto> ?e),
      fileIdRegistry := (fileIdRegistry c)(f \<mapsto> drop_at j reg)\<rparr>"
    have P': "positions_in (instantiations ?c) = ?P((k, i) \<mapsto> (f, j))"
      using e by (simp add: positions_in_def cell_set map_option_upd position_pair_def)
    then have "live key (Suc n) (positions_in (instantiations ?c)) =
        (live key n ?P)((k, i) \<mapsto> (f, j), (key, n) := None)"
      using Q by (simp add: live_Suc live_upd)
    with moved reg False ki have "mutual (live key (Suc n) (positions_in (instantiations ?c)))
        (records_in (fileIdRegistry ?c))"
      by (simp add: records_drop entry_pair_def)
    moreover obtain ys where "swap_elems j ?m reg = Some ys" "pop_back ys = Some (drop_at j reg)"
      "ys ! j = last reg"
      using swap_last[of j reg] reg False by metis
    with False reg pos ki e have "unregister (registryPositions d ! n) c = Some ?c"
      by (simp add: unregister_def move_position_def)
    moreover have "same_shape (instantiations c) (instantiations ?c)"
      using e by (auto simp: same_shape_def shape_def map_update list_update_same_conv)
    ultimately show ?thesis by (intro that[of ?c])
  qed
qed

lemma shape_entry:
  assumes "same_shape insts insts'" and "insts k = Some d"
  obtains d' where "insts' k = Some d'" "shape d' = shape d"
proof -
  from assms have "map_option shape (insts' k) = Some (shape d)" by (simp add: same_shape_def)
  then show ?thesis by (auto intro: that)
qed

lemma shape_length: "shape d' = shape d \<Longrightarrow> length (registryPositions d') = length (registryPositions d)"
  unfolding shape_def by (metis length_map prod.inject)

lemma unregister_all_correct:
  assumes "mutual (live key n (positions_in (instantiations c))) (records_in (fileIdRegistry c))"
    and "instantiations c key = Some d" and "n \<le> length (registryPositions d)"
  shows "\<exists>c'. unregister_all key [n..<length (registryPositions d)] c = Some c' \<and>
    mutual (live key (length (registryPositions d)) (positions_in (instantiations c')))
      (records_in (fileIdRegistry c')) \<and>
    same_shape (instantiations c) (instantiations c')"
  using assms
proof (induction "length (registryPositions d) - n" arbitrary: n c d)
  case 0
  then show ?case by simp
next
  case (Suc m)
  then have n: "n < length (registryPositions d)" by simp
  obtain c' where c': "unregister (registryPositions d ! n) c = Some c'"
    "mutual (live key (Suc n) (positions_in (instantiations c'))) (records_in (fileIdRegistry c'))"
    "same_shape (instantiations c) (instantiations c')"
    using unregister_step[OF Suc.prems(1,2) n] .
  obtain d' where d': "instantiations c' key = Some d'" "shape d' = shape d"
    using shape_entry[OF c'(3) Suc.prems(2)] .
  then have len: "length (registryPositions d') = length (registryPositions d)"
    by (intro shape_length)
  have "m = length (registryPositions d') - Suc n" "Suc n \<le> length (registryPositions d')"
    using Suc.hyps(2) n len by simp_all
  from Suc.hyps(1)[OF this(1) c'(2) d'(1) this(2)] obtain c'' where
    "unregister_all key [Suc n..<length (registryPositions d)] c' = Some c''"
    "mutual (live key (length (registryPositions d)) (positions_in (instantiations c'')))
      (records_in (fileIdRegistry c''))"
    "same_shape (instantiations c') (instantiations c'')"
    unfolding len by blast
  with c' Suc.prems(2) n show ?case
    using same_shape_trans[OF c'(3)] by (simp add: upt_conv_Cons)
qed

lemma same_shape_sym: "same_shape a b \<Longrightarrow> same_shape b a"
  by (simp add: same_shape_def)

lemma same_shape_vectors_ok:
  assumes same: "same_shape insts insts'" and ok: "vectors_ok insts vecs"
  shows "vectors_ok insts' vecs"
proof -
  have old: "\<exists>d. insts k = Some d \<and> types d' = types d \<and> implData d' = implData d \<and>
      length (registryPositions d') = length (registryPositions d)" if "insts' k = Some d'" for k d'
  proof -
    from shape_entry[OF same_shape_sym[OF same] that]
    obtain d where d: "insts k = Some d" "shape d = shape d'" by blast
    then show ?thesis using shape_length[OF d(2)] by (simp add: shape_def)
  qed
  show ?thesis unfolding vectors_ok_def
  proof (intro conjI allI impI)
    fix k d' assume "insts' k = Some d'"
    with old ok show "length (registryPositions d') = length (types d')"
      "length (vecs (implData d')) = length (types d')"
      by (fastforce simp: vectors_ok_def)+
  next
    fix k k' d d' assume "insts' k = Some d" "insts' k' = Some d'" "k \<noteq> k'"
    with old[of k d] old[of k' d'] ok show "implData d \<noteq> implData d'"
      by (auto simp: vectors_ok_def)
  qed
qed

lemma vectors_ok_remove: "vectors_ok insts vecs \<Longrightarrow> vectors_ok (insts(k := None)) vecs"
  by (simp add: vectors_ok_def)

lemma same_shape_instances:
  "same_shape (instantiations c) (instantiations c') \<Longrightarrow> instances c' vecs k = instances c vecs k"
proof -
  assume "same_shape (instantiations c) (instantiations c')"
  then have "map_option shape (instantiations c' k) = map_option shape (instantiations c k)"
    by (simp add: same_shape_def)
  then show ?thesis by (auto simp: instances_def shape_def split: option.splits)
qed

lemma decl_removed:
  assumes ok: "container_ok c vecs"
  shows "\<exists>c'. removeInstantiationsFor_key key c = Some c' \<and> container_ok c' vecs \<and>
    instantiations c' key = None \<and>
    (\<forall>k. instances c' vecs k = (if k = key then {#} else instances c vecs k)) \<and>
    (\<forall>k. k \<noteq> key \<longrightarrow> map_option implData (instantiations c' k) = map_option implData (instantiations c k))"
proof (cases "instantiations c key")
  case None
  with ok show ?thesis by (auto simp: removeInstantiationsFor_key_def instances_def)
next
  case (Some d)
  let ?n = "length (registryPositions d)"
  from ok Some unregister_all_correct[of key 0 c d] obtain c' where
    c': "unregister_all key [0..<?n] c = Some c'"
    "mutual (live key ?n (positions_in (instantiations c'))) (records_in (fileIdRegistry c'))"
    "same_shape (instantiations c) (instantiations c')"
    by (auto simp: container_ok_def)
  let ?c = "c'\<lparr>instantiations := (instantiations c')(key := None)\<rparr>"
  obtain d' where "instantiations c' key = Some d'" "shape d' = shape d"
    using shape_entry[OF c'(3) Some] .
  then have "length (registryPositions d') = ?n" "instantiations c' key = Some d'"
    by (intro shape_length, simp_all)
  then have "positions_in (instantiations ?c) (k, i) = live key ?n (positions_in (instantiations c')) (k, i)" for k i
    by (simp add: live_def positions_in_def cell_def)
  then have "positions_in (instantiations ?c) = live key ?n (positions_in (instantiations c'))"
    by (simp add: fun_eq_iff)
  with c'(2) have "mutual (positions_in (instantiations ?c)) (records_in (fileIdRegistry ?c))" by simp
  moreover have "vectors_ok (instantiations ?c) vecs"
    using same_shape_vectors_ok[OF c'(3), of vecs] ok
    by (simp add: container_ok_def vectors_ok_remove)
  moreover have "instances ?c vecs k = (if k = key then {#} else instances c vecs k)" for k
    using same_shape_instances[OF c'(3), of vecs k] by (auto simp: instances_def)
  moreover have "map_option implData (instantiations c' k) = map_option implData (instantiations c k)" for k
  proof -
    from c'(3) have "map_option (fst \<circ> snd) (map_option shape (instantiations c' k)) =
        map_option (fst \<circ> snd) (map_option shape (instantiations c k))"
      by (simp add: same_shape_def)
    then show ?thesis by (simp add: option.map_comp comp_def shape_def)
  qed
  ultimately show ?thesis
    using Some c'(1) by (auto simp: removeInstantiationsFor_key_def container_ok_def)
qed

subsection \<open>Sequences of operations\<close>

text \<open>What a sequence of operations means: a multiset of instances for every declaration.\<close>

fun spec_op ::
  "('k, 'i) instance_op \<Rightarrow> ('k \<Rightarrow> (ty list \<times> 'i \<times> nat) multiset) \<Rightarrow> 'k \<Rightarrow> (ty list \<times> 'i \<times> nat) multiset"
where
  "spec_op (Register key ts f impl) M = M(key := add_mset (ts, impl, f) (M key))"
| "spec_op (RemoveFile f) M = (\<lambda>k. {#i \<in># M k. \<not> caused_by f i#})"
| "spec_op (RemoveDecl key) M = M(key := {#})"

lemma register_mutual:
  assumes "mutual (positions_in (instantiations c)) (records_in (fileIdRegistry c))"
    and vok: "vectors_ok (instantiations c) vecs" and c': "registerInstantiation key ts vec f c = (idx, c')"
  shows "mutual (positions_in (instantiations c')) (records_in (fileIdRegistry c'))"
proof -
  let ?d = "decl_of key vec c" and ?reg = "registry_of f c"
  have len: "length (types ?d) = length (registryPositions ?d)"
    using vok by (auto simp: vectors_ok_def decl_of_def split: option.splits)
  have "positions_in (instantiations c') =
      (positions_in (instantiations c))((key, length (types ?d)) \<mapsto> (f, length ?reg))"
  proof -
    have "map_option registryPositions \<circ> instantiations c' = (map_option registryPositions \<circ> instantiations c)
        (key \<mapsto> registryPositions ?d @ [\<lparr>pos_file = f, pos_index = length ?reg\<rparr>])"
      using c' by (auto simp: registerInstantiation_def Let_def)
    moreover have "(case (map_option registryPositions \<circ> instantiations c) key of Some zs \<Rightarrow> zs | None \<Rightarrow> []) =
        registryPositions ?d"
      by (simp add: decl_of_def split: option.splits)
    ultimately show ?thesis
      by (simp add: positions_in_def cell_push map_option_upd position_pair_def len)
  qed
  moreover have "records_in (fileIdRegistry c') =
      (records_in (fileIdRegistry c))((f, length ?reg) \<mapsto> (key, length (types ?d)))"
  proof -
    have "(case fileIdRegistry c f of Some zs \<Rightarrow> zs | None \<Rightarrow> []) = ?reg"
      by (simp add: registry_of_def split: option.splits)
    with c' show ?thesis
      by (auto simp: registerInstantiation_def Let_def records_in_def cell_push map_option_upd entry_pair_def)
  qed
  moreover have "positions_in (instantiations c) (key, length (types ?d)) = None"
    using len by (auto simp: positions_in_def cell_def decl_of_def split: option.splits)
  moreover have "records_in (fileIdRegistry c) (f, length ?reg) = None"
    by (auto simp: records_in_def cell_def registry_of_def split: option.splits)
  ultimately show ?thesis using mutual_add[OF assms(1)] by simp
qed

lemma register_correct:
  assumes ok: "container_ok c vecs" and own: "owned vec_of c vecs" and inj: "inj vec_of"
    and s_def: "s = snd (registerInstantiation key ts (vec_of key) f c)"
    and vecs'_def: "vecs' = vecs(vec_of key := vecs (vec_of key) @ [impl])"
  shows "container_ok s vecs' \<and> owned vec_of s vecs' \<and>
    instances s vecs' = spec_op (Register key ts f impl) (instances c vecs)"
proof -
  let ?d = "decl_of key (vec_of key) c"
  let ?d' = "?d\<lparr>types := types ?d @ [ts], registryPositions := registryPositions ?d @
    [\<lparr>pos_file = f, pos_index = length (registry_of f c)\<rparr>]\<rparr>"
  have insts: "instantiations s = (instantiations c)(key \<mapsto> ?d')"
    by (simp add: s_def registerInstantiation_def Let_def)
  have lens: "length (registryPositions e) = length (types e)" "length (vecs (implData e)) = length (types e)"
    if "instantiations c k = Some e" for k e
    using ok that by (auto simp: container_ok_def vectors_ok_def)
  have impl: "implData ?d = vec_of key \<and> length (registryPositions ?d) = length (types ?d) \<and>
    length (vecs (vec_of key)) = length (types ?d)"
    using own[unfolded owned_def, rule_format, of key] lens[of key]
    by (cases "instantiations c key") (auto simp: decl_of_def)
  have other: "implData e = vec_of k" if "instantiations c k = Some e" for k e
    using own[unfolded owned_def, rule_format, of k] that by simp
  have none: "vecs (vec_of k) = []" if "instantiations c k = None" for k
    using own[unfolded owned_def, rule_format, of k] that by simp
  have new: "implData e = vec_of k" if "instantiations s k = Some e" for k e
    using that impl other by (auto simp: insts split: if_splits)
  have "vectors_ok (instantiations s) vecs'"
    unfolding vectors_ok_def
  proof (intro conjI allI impI)
    fix k e assume "instantiations s k = Some e"
    then show "length (registryPositions e) = length (types e)" "length (vecs' (implData e)) = length (types e)"
      using ok impl other inj
      by (auto simp: insts vecs'_def container_ok_def vectors_ok_def inj_eq split: if_splits)
  next
    fix k k' e e' assume "instantiations s k = Some e" "instantiations s k' = Some e'" "k \<noteq> k'"
    then show "implData e \<noteq> implData e'" using inj by (simp add: new inj_eq)
  qed
  moreover have "mutual (positions_in (instantiations s)) (records_in (fileIdRegistry s))"
    using register_mutual[of c vecs key ts "vec_of key" f] ok
    by (simp add: s_def container_ok_def prod_eq_iff)
  moreover have "owned vec_of s vecs'"
    using inj impl other none by (auto simp: owned_def insts vecs'_def inj_eq split: option.splits)
  moreover have "instances s vecs' k = spec_op (Register key ts f impl) (instances c vecs) k" for k
  proof (cases "k = key")
    case True
    have "instances c vecs key =
        mset (zip (types ?d) (zip (vecs (vec_of key)) (map pos_file (registryPositions ?d))))"
      using other[of key] by (auto simp: instances_def decl_of_def split: option.splits)
    with True impl show ?thesis by (simp add: instances_def insts vecs'_def)
  next
    case False
    with other inj show ?thesis
      by (auto simp: instances_def insts vecs'_def inj_eq split: option.splits)
  qed
  ultimately show ?thesis by (simp add: container_ok_def fun_eq_iff)
qed

lemma decl_destroyed:
  assumes ok: "container_ok c vecs" and own: "owned vec_of c vecs" and inj: "inj vec_of"
  shows "\<exists>c' vecs'. run_op vec_of (RemoveDecl key) (c, vecs) = Some (c', vecs') \<and> container_ok c' vecs' \<and>
    owned vec_of c' vecs' \<and> instances c' vecs' = spec_op (RemoveDecl key) (instances c vecs)"
proof -
  obtain c' where c': "removeInstantiationsFor_key key c = Some c'" "container_ok c' vecs"
    "instantiations c' key = None" "\<And>k. instances c' vecs k = (if k = key then {#} else instances c vecs k)"
    "\<And>k. k \<noteq> key \<Longrightarrow> map_option implData (instantiations c' k) = map_option implData (instantiations c k)"
    using decl_removed[OF ok, of key] by blast
  let ?vecs = "vecs(vec_of key := [])"
  have data: "implData e = vec_of k \<and> k \<noteq> key" if "instantiations c' k = Some e" for k e
    using that c'(3) c'(5)[of k] own[unfolded owned_def, rule_format, of k]
    by (cases "instantiations c k"; cases "k = key") auto
  have none: "vecs (vec_of k) = []" if "instantiations c' k = None" "k \<noteq> key" for k
    using that c'(5)[of k] own[unfolded owned_def, rule_format, of k]
    by (cases "instantiations c k") auto
  have vecs: "?vecs (implData e) = vecs (implData e)" if "instantiations c' k = Some e" for k e
    using data[OF that] inj by (simp add: inj_eq)
  have ok': "container_ok c' ?vecs"
    using c'(2) vecs by (simp add: container_ok_def vectors_ok_def)
  have own': "owned vec_of c' ?vecs"
    using data none inj by (auto simp: owned_def inj_eq split: option.splits)
  have "instances c' ?vecs k = spec_op (RemoveDecl key) (instances c vecs) k" for k
    using c'(4)[of k] vecs[of k] by (auto simp: instances_def split: option.splits if_splits)
  then have "instances c' ?vecs = spec_op (RemoveDecl key) (instances c vecs)" by (rule ext)
  moreover have "run_op vec_of (RemoveDecl key) (c, vecs) = Some (c', ?vecs)" using c'(1) by simp
  ultimately show ?thesis using ok' own' by blast
qed

lemma op_refines:
  assumes "container_ok c vecs" and "owned vec_of c vecs" and "inj vec_of"
  shows "\<exists>c' vecs'. run_op vec_of x (c, vecs) = Some (c', vecs') \<and> container_ok c' vecs' \<and>
    owned vec_of c' vecs' \<and> instances c' vecs' = spec_op x (instances c vecs)"
proof (cases x)
  case (Register key ts f impl)
  with register_correct[OF assms refl refl, of key ts f impl] show ?thesis by simp
next
  case (RemoveFile f)
  with file_removed[OF assms(1), of f vec_of] assms(2,3) show ?thesis by (auto simp: fun_eq_iff)
next
  case (RemoveDecl key)
  with decl_destroyed[OF assms, of key] show ?thesis by simp
qed

lemma ops_refine:
  assumes "container_ok c vecs" and "owned vec_of c vecs" and "inj vec_of"
  shows "\<exists>c' vecs'. run_ops vec_of xs (c, vecs) = Some (c', vecs') \<and> container_ok c' vecs' \<and>
    owned vec_of c' vecs' \<and> instances c' vecs' = fold spec_op xs (instances c vecs)"
  using assms
proof (induction xs arbitrary: c vecs)
  case (Cons x xs)
  from op_refines[OF Cons.prems, of x] obtain c' vecs' where
    "run_op vec_of x (c, vecs) = Some (c', vecs')" "container_ok c' vecs'" "owned vec_of c' vecs'"
    "instances c' vecs' = spec_op x (instances c vecs)"
    by blast
  with Cons.IH[of c' vecs'] Cons.prems(3) show ?case by auto
qed simp

lemma new_container_ok: "container_ok new_container (\<lambda>v. [])" "owned vec_of new_container (\<lambda>v. [])"
  "instances new_container (\<lambda>v. []) = (\<lambda>k. {#})"
  by (auto simp: container_ok_def new_container_def mutual_def positions_in_def records_in_def cell_def
      vectors_ok_def owned_def instances_def fun_eq_iff)

text \<open>
  C6. However instances are registered, and removed with their file or with their declaration, no
  index goes wrong, the two tables stay inverse to each other, and the table holds the instances
  that a multiset per declaration would hold, each with its arguments, implementation and file.
\<close>

theorem instance_table_refines:
  assumes "inj vec_of"
  shows "\<exists>c vecs. run_ops vec_of xs (new_container, \<lambda>v. []) = Some (c, vecs) \<and>
    container_ok c vecs \<and> instances c vecs = fold spec_op xs (\<lambda>k. {#})"
  using ops_refine[OF new_container_ok(1,2) assms, of xs] by (auto simp: new_container_ok(3))

theorem instance_table_refines_witness:
  "\<exists>c vecs. run_ops (\<lambda>k. k) [Register 7 [IntTy KI32] 1 ''a'', Register 7 [BoolTy] 2 ''b'', RemoveFile 1]
      (new_container, \<lambda>v. []) = Some (c, vecs) \<and> container_ok c vecs \<and>
    instances c vecs 7 = {#([BoolTy], ''b'', 2)#}"
  using instance_table_refines[of "\<lambda>k :: nat. k"
      "[Register 7 [IntTy KI32] 1 ''a'', Register 7 [BoolTy] 2 ''b'', RemoveFile 1]"]
  by (auto simp: caused_by_def)

text \<open>
  The index that a registration returns is only good until a file is removed: the instance that
  was registered second is the first one after the file of the other is removed, while its
  implementation still holds the index 1, behind the end of the vector.
\<close>

theorem instance_index_moves:
  assumes "f \<noteq> g"
  shows "map_option (\<lambda>(c, vecs). getInstantiationTypesFor key c)
      (run_ops vec_of [Register key ts f a, Register key us g b, RemoveFile f] (new_container, \<lambda>v. [])) =
    Some [us] \<and>
    fst (registerInstantiation key us (vec_of key) g
      (snd (registerInstantiation key ts (vec_of key) f new_container))) = 1"
  using assms
  by (simp add: registerInstantiation_def Let_def decl_of_def registry_of_def new_container_def
      removeInstantiationsFor_file_def remove_record_def swap_elems_def pop_back_def retarget_def
      getInstantiationTypesFor_def)

theorem instance_index_moves_witness:
  "map_option (\<lambda>(c, vecs). getInstantiationTypesFor 7 c)
      (run_ops (\<lambda>k. k) [Register 7 [BoolTy] 1 ''a'', Register 7 [IntTy KI8] 2 ''b'', RemoveFile 1]
        (new_container, \<lambda>v. [])) = Some [[IntTy KI8]]"
  by (rule conjunct1[OF instance_index_moves]) simp

subsection \<open>Finding an instance\<close>

lemma scast_small: "n < 32768 \<Longrightarrow> (scast (of_nat n :: 16 word) :: u64) = of_nat n"
proof -
  assume "n < 32768"
  then have "sint (of_nat n :: 16 word) = int n"
    by (simp add: signed_of_nat signed_take_bit_int_eq_self)
  then show ?thesis by (metis of_int_of_nat_eq of_int_sint scast_eq)
qed

lemma scast_index: "n < 32768 \<Longrightarrow> unat (scast (of_nat n :: 16 word) :: u64) = n"
  by (simp add: scast_small unat_of_nat)

lemma before_total_small:
  assumes "n < 32768" and "length insts < 2 ^ 63"
  shows "before_total (of_nat n) insts \<longleftrightarrow> n < length insts"
    and "(scast (of_nat n :: 16 word) :: u64) = of_nat (length insts) \<longleftrightarrow> n = length insts"
  using assms by (simp_all add: before_total_def scast_small word_less_nat_alt unat_of_nat
      word_of_nat_eq_iff take_bit_nat_eq_self)

text \<open>The first instance whose arguments match, as long as the index does not wrap.\<close>

fun first_match :: "nat \<Rightarrow> ty list list \<Rightarrow> ty option list \<Rightarrow> 16 word option" where
  "first_match n [] args = Some (- 1)"
| "first_match n (inst # insts) args = (case same_arguments inst args of
      None \<Rightarrow> None
    | Some found \<Rightarrow> if found then Some (of_nat n) else first_match (Suc n) insts args)"

lemma find_iteration_first_match:
  assumes "length insts < 32768" and "n \<le> length insts"
  shows "find_iteration (of_nat n) insts args = first_match n (drop n insts) args"
  using assms(2)
proof (induction "length insts - n" arbitrary: n)
  case 0
  with assms(1) show ?case
    by (subst find_iteration.simps) (simp add: before_total_small scast_small)
next
  case (Suc m)
  then have "n < length insts" by simp
  with Suc assms(1) have "find_iteration (of_nat n + 1) insts args = first_match (Suc n) (drop (Suc n) insts) args"
    by (metis Suc_diff_Suc Suc_inject Suc_leI add.commute of_nat_Suc)
  with \<open>n < length insts\<close> assms(1) show ?case
    by (subst find_iteration.simps)
      (simp add: before_total_small scast_index Cons_nth_drop_Suc[symmetric] split: option.split)
qed

lemma get_iteration_first_match:
  "length insts < 32768 \<Longrightarrow> get_iteration_for insts args = first_match 0 insts args"
  using find_iteration_first_match[of insts 0 args] by (simp add: get_iteration_for_def)

lemma small_not_minus_one: "n < 32768 \<Longrightarrow> (of_nat n :: 16 word) \<noteq> - 1"
  using scast_small[of n] by (auto simp: word_unat_eq_iff unat_of_nat unsigned_minus_1_eq_mask mask_eq_exp_minus_1)

lemma first_match_append:
  assumes "first_match n xs args = Some (- 1)" and "n + length xs < 32768" and "same_arguments y args = Some True"
  shows "first_match n (xs @ [y]) args = Some (of_nat (n + length xs))"
  using assms
proof (induction xs arbitrary: n)
  case (Cons x xs)
  then show ?case
    using small_not_minus_one[of n] by (auto split: option.splits if_splits)
qed simp

lemma find_iteration_end:
  "length insts < 32768 \<Longrightarrow> find_iteration (of_nat (length insts)) insts args = Some (- 1)"
  by (subst find_iteration.simps) (simp add: before_total_small scast_small)

lemma find_iteration_next:
  assumes "n < 32768" "n < length insts" "length insts < 2 ^ 63"
    and "same_arguments (insts ! n) args = Some False"
  shows "find_iteration (of_nat n) insts args = find_iteration (of_nat (Suc n)) insts args"
  using assms by (subst find_iteration.simps) (simp add: before_total_small scast_index add.commute)

lemma find_iteration_wrapped:
  "length insts < 2 ^ 63 \<Longrightarrow> find_iteration 0x8000 insts args = Some 0x8000"
proof -
  assume "length insts < 2 ^ 63"
  moreover have "(scast (0x8000 :: 16 word) :: u64) = 0xFFFFFFFFFFFF8000" by simp
  ultimately show ?thesis
    by (subst find_iteration.simps)
      (simp add: before_total_def word_less_nat_alt unat_of_nat word_unat_eq_iff)
qed

lemma find_iteration_none:
  assumes none: "\<And>inst. inst \<in> set insts \<Longrightarrow> same_arguments inst args = Some False"
    and len: "length insts < 2 ^ 63" and "n \<le> 32768" and "n \<le> length insts"
  shows "find_iteration (of_nat n) insts args = Some (if length insts < 32768 then - 1 else 0x8000)"
  using assms(3,4)
proof (induction "32768 - n" arbitrary: n)
  case 0
  then have "n = 32768" by simp
  with 0 find_iteration_wrapped[OF len] show ?case by simp
next
  case (Suc m)
  then show ?case
  proof (cases "n = length insts")
    case True
    with Suc.hyps(2) find_iteration_end show ?thesis by auto
  next
    case False
    with Suc.prems Suc.hyps(2) have n: "n < 32768" "n < length insts" by simp_all
    with Suc.hyps(2) have "find_iteration (of_nat (Suc n)) insts args =
        Some (if length insts < 32768 then - 1 else 0x8000)"
      by (intro Suc.hyps(1)) simp_all
    with find_iteration_next[OF n len] none n show ?thesis by (metis nth_mem)
  qed
qed

text \<open>
  When no instance matches, the search answers -1 for fewer than 32768 instances; for more, its
  16-bit counter wraps, and the answer is the index -32768 of an instance that is said to be there.
\<close>

theorem instance_search_wraps:
  assumes "\<And>inst. inst \<in> set insts \<Longrightarrow> same_arguments inst args = Some False"
    and "length insts < 2 ^ 63"
  shows "map_option sint (get_iteration_for insts args) = Some (if length insts < 32768 then - 1 else - 32768)"
proof -
  have "sint (0x8000 :: 16 word) = - 32768" by simp
  with find_iteration_none[OF assms, of 0] show ?thesis
    by (auto simp: get_iteration_for_def)
qed

theorem instance_search_wraps_witness:
  "map_option sint (get_iteration_for (replicate 40000 [BoolTy]) [Some DoubleTy]) = Some (- 32768)"
  using instance_search_wraps[of "replicate 40000 [BoolTy]" "[Some DoubleTy]"]
  by (simp add: same_global_def)

text \<open>
  C25. A use of a generic declaration finds the instance that an equal use registered, and registers
  nothing: one instance serves all uses with the same arguments, when these are complete types
  (\<open>plain\<close>) that copying leaves as they are, and the declaration has fewer than 32767 instances.
  Copied types that are not themselves any more are registered again
  (\<open>unnamed_struct_registered_again\<close>), and from 32767 instances on the search goes wrong
  (\<open>instance_search_wraps\<close>).
\<close>

theorem equal_use_finds_instance:
  assumes "\<And>t. t \<in> set ts \<Longrightarrow> plain t \<and> copy_type fresh t = t"
    and "length (getInstantiationTypesFor key c) < 32767"
    and "register_generic_usage fresh key (map Some ts) vec c = Some ((i, True), c')"
  shows "register_generic_usage fresh key (map Some ts) vec c' = Some ((i, False), c')"
proof -
  let ?old = "getInstantiationTypesFor key c"
  have those: "those (map Some ts) = Some ts" by (induction ts) auto
  have copied: "map (copy_type fresh) ts = ts" using assms(1) by (simp add: map_idI)
  from assms(3) have old: "get_iteration_for ?old (map Some ts) = Some (- 1)"
    and i: "i = of_nat (length ?old)" and new: "getInstantiationTypesFor key c' = ?old @ [ts]"
    by (auto simp: register_generic_usage_def those copied registerInstantiation_def Let_def
        getInstantiationTypesFor_def decl_of_def bind_eq_Some_conv split: if_splits option.splits)
  have "same_arguments us (map Some us) = Some True" if "\<And>t. t \<in> set us \<Longrightarrow> plain t" for us
    using that by (induction us) (auto simp: is_same_plain canonical_plain)
  then have "same_arguments ts (map Some ts) = Some True" using assms(1) by blast
  with old assms(2) have "get_iteration_for (getInstantiationTypesFor key c') (map Some ts) = Some i"
    using first_match_append[of 0 ?old "map Some ts" ts]
    by (simp add: new i get_iteration_first_match)
  moreover have "i \<noteq> - 1" using small_not_minus_one[of "length ?old"] assms(2) by (simp add: i)
  ultimately show ?thesis by (simp add: register_generic_usage_def)
qed

lemma use_new_container:
  "register_generic_usage fresh key (map Some ts) vec new_container =
    Some ((0, True), snd (registerInstantiation key (map (copy_type fresh) ts) vec 0 new_container))"
proof -
  have "those (map Some ts) = Some ts" by (induction ts) auto
  then show ?thesis
    by (simp add: register_generic_usage_def get_iteration_for_def getInstantiationTypesFor_def
        registerInstantiation_def new_container_def decl_of_def Let_def)
qed

theorem equal_use_finds_instance_witness:
  "\<exists>c :: (nat, string) instantiations_container.
    register_generic_usage (\<lambda>i. i) 7 [Some (PointerTy (IntTy KI32) True)] 5 c = Some ((0, False), c)"
  using equal_use_finds_instance[of "[PointerTy (IntTy KI32) True]" "\<lambda>i. i" "7 :: nat"
      "new_container :: (nat, string) instantiations_container" 5 0]
    use_new_container[of "\<lambda>i. i" "7 :: nat" "[PointerTy (IntTy KI32) True]" 5]
  by (auto simp: getInstantiationTypesFor_def new_container_def)

text \<open>The types the table holds after the first use.\<close>

lemma types_after_first_use:
  "getInstantiationTypesFor key (snd (registerInstantiation key ts vec 0 new_container)) = [ts]"
  by (simp add: getInstantiationTypesFor_def registerInstantiation_def decl_of_def new_container_def Let_def)

text \<open>
  The same type ignores mutability, so a use with \<^verbatim>\<open>*int\<close> is given the instance that a use
  with \<^verbatim>\<open>*mut int\<close> made, although it does not accept a \<^verbatim>\<open>*int\<close> where a \<^verbatim>\<open>*mut int\<close> is expected.
\<close>

theorem instance_shared_by_mutability:
  "\<exists>c. register_generic_usage fresh key [Some (PointerTy (IntTy k) True)] vec new_container =
      Some ((0, True), c) \<and>
    register_generic_usage fresh key [Some (PointerTy (IntTy k) False)] vec c = Some ((0, False), c)"
proof -
  let ?c = "snd (registerInstantiation key [PointerTy (IntTy k) True] vec 0 new_container)"
  have "register_generic_usage fresh key [Some (PointerTy (IntTy k) True)] vec new_container = Some ((0, True), ?c)"
    using use_new_container[of fresh key "[PointerTy (IntTy k) True]" vec] by simp
  moreover have "register_generic_usage fresh key [Some (PointerTy (IntTy k) False)] vec ?c = Some ((0, False), ?c)"
    by (simp add: register_generic_usage_def types_after_first_use get_iteration_first_match)
  ultimately show ?thesis by blast
qed

text \<open>
  The copy of an unnamed struct type has no members, so it never matches, and every use with the
  same unnamed struct registers another instance.
\<close>

theorem unnamed_struct_registered_again:
  "\<exists>c c'. register_generic_usage fresh key [Some (StructTy i [IntTy k])] vec new_container =
      Some ((0, True), c) \<and>
    register_generic_usage fresh key [Some (StructTy i [IntTy k])] vec c = Some ((1, True), c')"
proof -
  let ?c = "snd (registerInstantiation key [StructTy (fresh i) []] vec 0 new_container)"
  have "register_generic_usage fresh key [Some (StructTy i [IntTy k])] vec new_container = Some ((0, True), ?c)"
    using use_new_container[of fresh key "[StructTy i [IntTy k]]" vec] by simp
  moreover have "\<exists>c'. register_generic_usage fresh key [Some (StructTy i [IntTy k])] vec ?c = Some ((1, True), c')"
    by (simp add: register_generic_usage_def types_after_first_use get_iteration_first_match
        registerInstantiation_def[of key _ vec 0 ?c] Let_def)
      (simp add: decl_of_def registerInstantiation_def new_container_def Let_def)
  ultimately show ?thesis by blast
qed

end
