(* ===== verification/Type_Parser.thy ===== *)
theory Type_Parser
  imports Shunting_Yard Locations Int_Kinds "HOL-Library.Monad_Syntax"
begin

text \<open>
  The parser of types: \<^verbatim>\<open>parser/statements/LexType.cpp\<close> with the lists of parameters of
  \<^verbatim>\<open>parser/structures/Function.cpp\<close> and the token helpers of \<^verbatim>\<open>parser/Parser.h\<close>.

  The state is what the parser changes: the tokens from the current one on, the count of closing
  angle brackets still owed by a \<^verbatim>\<open>>>\<close>, and the diagnostics. The rest of the parser is the
  environment: it reads expressions (array sizes, default values) and the members between the
  braces of an unnamed struct, and knows the parents of the place that is parsed. Both may fail to
  return, which is \<open>None\<close>; so is running out of fuel, one unit per nested type or round of a
  loop, and \<open>parseTypeLoc\<close> starts with more than there are tokens. Of the locations only the one
  that the code passes where a flag is expected is kept.
\<close>

subsection \<open>Parsed types\<close>

datatype builtin_type =
    AnyB | BoolB | DoubleB | FloatB | LongDoubleB | Float128B | VoidB | StringB
  | ExpressiveStringB | NullPtrB | IntNB int_n_kind

text \<open>
  A linked type holds its name, and the declaration when it is \<^verbatim>\<open>Self\<close>. Sizes are optional; the
  members are missing when no brace follows; a capturing type may miss either part.
\<close>

datatype ('e, 'm) type_tree =
    BuiltinType builtin_type
  | NamedLinkedType string "nat option"
  | LinkedValueType "string list"
  | GenericType "('e, 'm) type_tree" "('e, 'm) type_tree list"
  | PointerType "('e, 'm) type_tree" bool
  | ReferenceType "('e, 'm) type_tree" bool
  | ArrayType "('e, 'm) type_tree" "'e option"
  | DynamicType "('e, 'm) type_tree"
  | LiteralType "('e, 'm) type_tree"
  | MaybeRuntimeType "('e, 'm) type_tree"
  | RuntimeType "('e, 'm) type_tree"
  | ExpressionType "('e, 'm) type_tree" "('e, 'm) type_tree" bool
  | FunctionType "('e, 'm) func_param list" "('e, 'm) type_tree" bool bool
  | CapturingFunctionType "('e, 'm) type_tree option" "('e, 'm) type_tree option"
  | StructType string "'m option"
  | UnionType string "'m option"
and ('e, 'm) func_param =
    FunctionParam (param_name: string) (param_type: "('e, 'm) type_tree option")
      (param_index: nat) (param_default: "'e option") (param_implicit: bool)

text \<open>\<^verbatim>\<open>BaseType::make_mutable\<close> and the place of \<^verbatim>\<open>dyn\<close> in a pointer, reference or array.\<close>

fun make_mutable :: "('e, 'm) type_tree \<Rightarrow> ('e, 'm) type_tree" where
  "make_mutable (PointerType t _) = PointerType (make_mutable t) True"
| "make_mutable (ReferenceType t _) = ReferenceType (make_mutable t) True"
| "make_mutable t = t"

fun make_dynamic_type :: "('e, 'm) type_tree \<Rightarrow> ('e, 'm) type_tree" where
  "make_dynamic_type (ArrayType t n) = ArrayType (DynamicType t) n"
| "make_dynamic_type (PointerType t m) = PointerType (DynamicType t) m"
| "make_dynamic_type (ReferenceType t m) = ReferenceType (DynamicType t) m"
| "make_dynamic_type t = DynamicType t"

text \<open>
  The parents of a place, innermost first: nodes that are looked through (functions, blocks), a
  container with its identity, an implementation with the types it names, any other node.
\<close>

datatype ('e, 'm) ancestor =
    Transparent
  | Container nat
  | Implementation "('e, 'm) type_tree option" "('e, 'm) type_tree"
  | OtherAncestor

fun get_self_kw_type :: "('e, 'm) ancestor list \<Rightarrow> ('e, 'm) type_tree option" where
  "get_self_kw_type [] = None"
| "get_self_kw_type (Transparent # up) = get_self_kw_type up"
| "get_self_kw_type (Container i # up) = Some (NamedLinkedType ''Self'' (Some i))"
| "get_self_kw_type (Implementation struct_type interface_type # up) =
     Some (case struct_type of Some t \<Rightarrow> t | None \<Rightarrow> interface_type)"
| "get_self_kw_type (OtherAncestor # up) = None"

subsection \<open>The state of the parser\<close>

datatype diag_severity = DiagWarning | DiagError

record type_parser =
  remaining :: "token list"
  pending_greater_count :: int
  messages :: "(diag_severity \<times> string) list"

record ('e, 'm) parser_env =
  parse_expression :: "type_parser \<Rightarrow> ('e option \<times> type_parser) option"
  parse_members :: "type_parser \<Rightarrow> ('m \<times> type_parser) option"
  parent_chain :: "('e, 'm) ancestor list"
  source_file :: u32
  location_man :: location_manager

definition current :: "type_parser \<Rightarrow> token_type" where
  "current s = current_type (remaining s)"

definition advance :: "type_parser \<Rightarrow> type_parser" where
  "advance s = s\<lparr>remaining := tl (remaining s)\<rparr>"

definition current_value :: "type_parser \<Rightarrow> string" where
  "current_value s = (case remaining s of [] \<Rightarrow> [] | t # _ \<Rightarrow> tok_value t)"

definition parse_warning :: "string \<Rightarrow> type_parser \<Rightarrow> type_parser" where
  "parse_warning m s = s\<lparr>messages := messages s @ [(DiagWarning, m)]\<rparr>"

definition parse_error :: "string \<Rightarrow> type_parser \<Rightarrow> type_parser" where
  "parse_error m s = s\<lparr>messages := messages s @ [(DiagError, m)]\<rparr>"

definition unexpected_error :: "string \<Rightarrow> type_parser \<Rightarrow> type_parser" where
  "unexpected_error m s = parse_error (m @ '', got '' @ [CHR 0x27] @ current_value s @ [CHR 0x27]) s"

definition consume :: "token_type \<Rightarrow> type_parser \<Rightarrow> bool \<times> type_parser" where
  "consume ty s = (if current s = ty then (True, advance s) else (False, s))"

definition expect :: "token_type \<Rightarrow> string \<Rightarrow> type_parser \<Rightarrow> type_parser" where
  "expect ty m s = (if current s = ty then advance s else unexpected_error m s)"

definition consumeIdentifierOrKeyword :: "type_parser \<Rightarrow> string option \<times> type_parser" where
  "consumeIdentifierOrKeyword s =
     (if current s = Identifier \<or> isKeyword (current s)
      then (Some (current_value s), advance s) else (None, s))"

definition skip_new_lines :: "type_parser \<Rightarrow> type_parser" where
  "skip_new_lines s = s\<lparr>remaining := consumeNewLines (remaining s)\<rparr>"

definition loc_single :: "('e, 'm) parser_env \<Rightarrow> token \<Rightarrow> u64" where
  "loc_single E t =
     (let line = of_nat (pos_line (tok_position t)); start = of_nat (pos_character (tok_position t))
      in fst (addLocation (location_man E) (source_file E) line start line
               (start + of_nat (length (tok_value t)))))"

definition errored_type :: "('e, 'm) type_tree" where
  "errored_type = BuiltinType NullPtrB"

subsection \<open>Generic arguments\<close>

definition consumeGenericClose :: "type_parser \<Rightarrow> bool \<times> type_parser" where
  "consumeGenericClose s =
     (if pending_greater_count s > 0
      then (True, s\<lparr>pending_greater_count := pending_greater_count s - 1\<rparr>)
      else if current s = GreaterThanSym then (True, advance s)
      else if current s = RightShiftSym then (True, (advance s)\<lparr>pending_greater_count := 1\<rparr>)
      else (False, s))"

definition close_generic :: "string \<Rightarrow> type_parser \<Rightarrow> type_parser" where
  "close_generic m s =
     (case consumeGenericClose s of (True, s') \<Rightarrow> s' | (False, s') \<Rightarrow> unexpected_error m s')"

text \<open>A parser of types, given to the operations that are below it in the recursion.\<close>

type_synonym ('e, 'm) types = "type_parser \<Rightarrow> (('e, 'm) type_tree option \<times> type_parser) option"

fun type_list ::
  "token_type \<Rightarrow> ('e, 'm) types \<Rightarrow> nat \<Rightarrow> ('e, 'm) type_tree list \<Rightarrow> type_parser \<Rightarrow>
   (('e, 'm) type_tree list \<times> type_parser) option" where
  "type_list sep p 0 ts s = None"
| "type_list sep p (Suc n) ts s =
     do { (t, s) \<leftarrow> p s;
          (case t of
             None \<Rightarrow> Some (ts, s)
           | Some t \<Rightarrow>
               if current s = sep then type_list sep p n (ts @ [t]) (advance s)
               else Some (ts @ [t], s)) }"

definition parseGenericTypeAfterId ::
  "('e, 'm) types \<Rightarrow> nat \<Rightarrow> ('e, 'm) type_tree \<Rightarrow> type_parser \<Rightarrow>
   (('e, 'm) type_tree \<times> type_parser) option" where
  "parseGenericTypeAfterId p n idType s =
     (if current s = LessThanSym
      then do { (ts, s) \<leftarrow> type_list CommaSym p n [] (advance s);
                Some (GenericType idType ts, close_generic ''expected '>' for generic type'' s) }
      else Some (idType, s))"

definition parseLinkedOrGenericType ::
  "('e, 'm) types \<Rightarrow> nat \<Rightarrow> ('e, 'm) types" where
  "parseLinkedOrGenericType p n s =
     (case consumeIdentifierOrKeyword s of
        (None, s) \<Rightarrow>
          Some (None, parse_error ''missing struct / interface name in inheritance list of the struct'' s)
      | (Some name, s) \<Rightarrow>
          do { (t, s) \<leftarrow> parseGenericTypeAfterId p n (NamedLinkedType name None) s;
               Some (Some t, s) })"

definition parseSingleGenType ::
  "('e, 'm) types \<Rightarrow> type_parser \<Rightarrow> (('e, 'm) type_tree \<times> type_parser) option" where
  "parseSingleGenType p s =
     do { (t, s) \<leftarrow> p (expect LessThanSym ''expected '<' for generic argument type'' s);
          (case t of
             None \<Rightarrow>
               Some (errored_type, parse_error ''expected a child type as generic argument type'' s)
           | Some t \<Rightarrow>
               Some (t, close_generic ''expected '>' after the generic argument type'' s)) }"

subsection \<open>Names\<close>

text \<open>
  The identifiers behind \<^verbatim>\<open>::\<close> or a dot. The loop of \<^verbatim>\<open>parseLinkedValueType\<close> goes on as long as
  tokens are taken.
\<close>

lemma current_eof [simp]: "remaining s = [] \<Longrightarrow> current s = EndOfFile"
  by (simp add: current_def current_type_def)

lemma advance_shorter:
  "current s \<noteq> EndOfFile \<Longrightarrow> length (remaining (advance s)) < length (remaining s)"
  by (cases "remaining s") (auto simp: advance_def)

lemma identifier_consumed:
  "consumeIdentifierOrKeyword s = (Some v, s') \<Longrightarrow> length (remaining s') < length (remaining s)"
  by (cases "remaining s")
    (auto simp: consumeIdentifierOrKeyword_def advance_def isKeyword_code split: if_splits)

lemma chain_step:
  assumes "current s = DoubleColonSym \<or> current s = DotSym"
    and "consumeIdentifierOrKeyword (advance s) = (Some v, s')"
  shows "length (remaining s') < length (remaining s)"
  using identifier_consumed[OF assms(2)] advance_shorter[of s] assms(1) by auto

function linked_chain :: "string \<Rightarrow> string list \<Rightarrow> type_parser \<Rightarrow> string list \<times> type_parser" where
  "linked_chain first vs s =
     (if current s = DoubleColonSym \<or> current s = DotSym then
        (case consumeIdentifierOrKeyword (advance s) of
           (Some v, s') \<Rightarrow> linked_chain first (vs @ [v]) s'
         | (None, s') \<Rightarrow>
             (vs, parse_error (''expected an identifier after '' @ [CHR 0x27] @ first @ ''::'' @
                    [CHR 0x27] @ '' for a type'') s'))
      else (vs, s))"
  by pat_completeness auto

termination
  by (relation "measure (\<lambda>(first, vs, s). length (remaining s))") (auto intro: chain_step[OF _ sym])

declare linked_chain.simps [simp del]

definition parseLinkedValueType :: "string \<Rightarrow> type_parser \<Rightarrow> ('e, 'm) type_tree \<times> type_parser" where
  "parseLinkedValueType name s =
     (case linked_chain name [name] s of (vs, s) \<Rightarrow> (LinkedValueType vs, s))"

definition builtin_keywords :: "(token_type \<times> builtin_type) list" where
  "builtin_keywords =
     [(AnyKw, AnyB), (BoolKw, BoolB), (CharKw, IntNB KChar), (UCharKw, IntNB KUChar),
      (DoubleKw, DoubleB), (FloatKw, FloatB), (LongdoubleKw, LongDoubleB),
      (I8Kw, IntNB KI8), (I16Kw, IntNB KI16), (I32Kw, IntNB KI32), (I64Kw, IntNB KI64),
      (BigIntKw, IntNB KI64), (U8Kw, IntNB KU8), (U16Kw, IntNB KU16), (U32Kw, IntNB KU32),
      (U64Kw, IntNB KU64), (UBigIntKw, IntNB KU64), (IntKw, IntNB KInt), (UIntKw, IntNB KUInt),
      (ShortKw, IntNB KShort), (UShortKw, IntNB KUShort), (LongKw, IntNB KLong),
      (LongLongKw, IntNB KLongLong), (ULongKw, IntNB KULong), (ULongLongKw, IntNB KULongLong),
      (Int128Kw, IntNB KInt128), (UInt128Kw, IntNB KUInt128), (Float128Kw, Float128B),
      (VoidKw, VoidB)]"

definition named_type :: "('e, 'm) types \<Rightarrow> nat \<Rightarrow> ('e, 'm) types" where
  "named_type p n s =
     (case consumeIdentifierOrKeyword s of
        (None, s') \<Rightarrow> Some (None, s')
      | (Some name, s') \<Rightarrow>
          (case map_of builtin_keywords (current s) of
             Some b \<Rightarrow> Some (Some (BuiltinType b), s')
           | None \<Rightarrow>
               do { (t, s) \<leftarrow>
                      (if current s' = DoubleColonSym \<or> current s' = DotSym
                       then (case parseLinkedValueType name s' of
                               (t, s) \<Rightarrow> parseGenericTypeAfterId p n t s)
                       else parseGenericTypeAfterId p n (NamedLinkedType name None) s');
                    Some (Some t, s) }))"

subsection \<open>Parameters and function types\<close>

text \<open>
  One round of the loop of \<^verbatim>\<open>parseParameterList\<close>: \<open>Some v\<close> returns \<open>v\<close>, \<open>None\<close> goes on to the
  test for a comma.
\<close>

type_synonym ('e, 'm) param_round = "bool option \<times> ('e, 'm) func_param list \<times> type_parser"

definition reference_param ::
  "('e, 'm) func_param list \<Rightarrow> nat \<Rightarrow> type_parser \<Rightarrow> ('e, 'm) param_round" where
  "reference_param params index s =
     (case consume MutKw (advance s) of
        (is_mutable, s) \<Rightarrow>
          (case consumeIdentifierOrKeyword s of
             (Some name, s') \<Rightarrow>
               let child = (if current s = SelfKw then BuiltinType VoidB else NamedLinkedType name None)
               in (None,
                   params @ [FunctionParam name (Some (ReferenceType child is_mutable)) index None True],
                   s')
           | (None, s') \<Rightarrow>
               (Some False, params, unexpected_error
                  (''expected a identifier right after '' @ [CHR 0x27] @ ''&'' @ [CHR 0x27] @
                   '' in the first function parameter as a '' @ [CHR 0x27] @ ''self'' @ [CHR 0x27] @
                   '' parameter'') s')))"

definition typed_param ::
  "('e, 'm) parser_env \<Rightarrow> ('e, 'm) types \<Rightarrow> bool \<Rightarrow> bool \<Rightarrow> string \<Rightarrow>
   ('e, 'm) func_param list \<Rightarrow> nat \<Rightarrow> type_parser \<Rightarrow> ('e, 'm) param_round option" where
  "typed_param E p defValues variadicParam name params index s =
     do { (t, s) \<leftarrow> p s;
          (case t of
             None \<Rightarrow>
               Some (Some False, params, unexpected_error
                 ''missing a type token for the function parameter, expected type after the colon'' s)
           | Some ty \<Rightarrow>
               if variadicParam \<and> current s = TripleDotSym then
                 Some (Some True, params @ [FunctionParam name t index None False], advance s)
               else if defValues \<and> current s = EqualSym then
                 do { (v, s) \<leftarrow> parse_expression E (advance s);
                      Some (case v of
                          None \<Rightarrow> (Some False, params, unexpected_error
                            (''expected value after '' @ [CHR 0x27] @ ''='' @ [CHR 0x27] @
                             '' for default value for the parameter'') s)
                        | Some d \<Rightarrow> (None, params @ [FunctionParam name t index v False], s)) }
               else Some (None, params @ [FunctionParam name t index None False], s)) }"

definition named_param ::
  "('e, 'm) parser_env \<Rightarrow> ('e, 'm) types \<Rightarrow> bool \<Rightarrow> bool \<Rightarrow> bool \<Rightarrow>
   ('e, 'm) func_param list \<Rightarrow> nat \<Rightarrow> type_parser \<Rightarrow> ('e, 'm) param_round option" where
  "named_param E p optionalTypes defValues variadicParam params index s =
     (case consumeIdentifierOrKeyword s of
        (None, s) \<Rightarrow> Some (None, params, s)
      | (Some name, s) \<Rightarrow>
          if current s = ColonSym then
            typed_param E p defValues variadicParam name params index (advance s)
          else if optionalTypes then
            Some (None, params @ [FunctionParam name None index None False], s)
          else
            Some (Some False, params, parse_error
              (''expected colon '' @ [CHR 0x27] @ '':'' @ [CHR 0x27] @
               '' in function parameter list after the parameter name '') s))"

definition param_round ::
  "('e, 'm) parser_env \<Rightarrow> ('e, 'm) types \<Rightarrow> bool \<Rightarrow> bool \<Rightarrow> bool \<Rightarrow> bool \<Rightarrow>
   ('e, 'm) func_param list \<Rightarrow> nat \<Rightarrow> type_parser \<Rightarrow> ('e, 'm) param_round option" where
  "param_round E p optionalTypes defValues lexImplicitParams variadicParam params index s0 =
     (let s = skip_new_lines s0 in
      if lexImplicitParams \<and> current s = SelfKw then
        Some (None,
          params @ [FunctionParam (current_value s) (Some (BuiltinType VoidB)) index None True],
          advance s)
      else if lexImplicitParams \<and> current s = AmpersandSym then Some (reference_param params index s)
      else named_param E p optionalTypes defValues variadicParam params index s)"

fun param_loop ::
  "('e, 'm) parser_env \<Rightarrow> ('e, 'm) types \<Rightarrow> bool \<Rightarrow> bool \<Rightarrow> bool \<Rightarrow> bool \<Rightarrow> nat \<Rightarrow>
   ('e, 'm) func_param list \<Rightarrow> nat \<Rightarrow> type_parser \<Rightarrow>
   (bool \<times> ('e, 'm) func_param list \<times> type_parser) option" where
  "param_loop E p ot dv li vp 0 params index s = None"
| "param_loop E p ot dv li vp (Suc n) params index s =
     do { (r, params, s) \<leftarrow> param_round E p ot dv li vp params index s;
          (case r of
             Some variadic \<Rightarrow> Some (variadic, params, s)
           | None \<Rightarrow>
               if current s = CommaSym then param_loop E p ot dv li vp n params (Suc index) (advance s)
               else Some (False, params, s)) }"

definition parseParameterList ::
  "('e, 'm) parser_env \<Rightarrow> ('e, 'm) types \<Rightarrow> nat \<Rightarrow> bool \<Rightarrow> bool \<Rightarrow> bool \<Rightarrow> bool \<Rightarrow>
   ('e, 'm) func_param list \<Rightarrow> type_parser \<Rightarrow>
   (bool \<times> ('e, 'm) func_param list \<times> type_parser) option" where
  "parseParameterList E p n optionalTypes defValues lexImplicitParams variadicParam params s =
     param_loop E p optionalTypes defValues lexImplicitParams variadicParam n params (length params) s"

text \<open>A function type: its return type, and the whole from the opening parenthesis on.\<close>

definition lambda_return ::
  "('e, 'm) types \<Rightarrow> ('e, 'm) func_param list \<Rightarrow> bool \<Rightarrow> bool \<Rightarrow> ('e, 'm) types" where
  "lambda_return p params variadic isCapturing s =
     (if current s = LambdaSym \<or> current s = ColonSym then
        do { (t, s) \<leftarrow> p (advance s);
             Some (case t of
                 Some t \<Rightarrow> (Some (FunctionType params t variadic isCapturing), s)
               | None \<Rightarrow>
                   (Some (FunctionType params (BuiltinType VoidB) variadic isCapturing),
                    unexpected_error
                      (''expected a return type for lambda function type after '' @
                       [CHR 0x27] @ ''=>'' @ [CHR 0x27]) s)) }
      else
        Some (Some (FunctionType params (BuiltinType VoidB) variadic isCapturing),
          unexpected_error (''expected '' @ [CHR 0x27] @ ''=>'' @ [CHR 0x27] @
            '' for lambda function type'') s))"

definition parseLambdaTypeLoc ::
  "('e, 'm) parser_env \<Rightarrow> ('e, 'm) types \<Rightarrow> nat \<Rightarrow> bool \<Rightarrow> ('e, 'm) types" where
  "parseLambdaTypeLoc E p n isCapturing s =
     (if current s = LParen then
        do { (variadic, params, s) \<leftarrow> parseParameterList E p n False True True True [] (advance s);
             lambda_return p params variadic isCapturing
               (expect RParen (''expected a '' @ [CHR 0x27] @ '')'' @ [CHR 0x27] @
                  '' after the '' @ [CHR 0x27] @ '')'' @ [CHR 0x27] @ '' in lambda function type'')
                 (skip_new_lines s)) }
      else Some (None, s))"

subsection \<open>Unnamed structs and unions\<close>

definition braced_members ::
  "('e, 'm) parser_env \<Rightarrow> (string \<Rightarrow> 'm option \<Rightarrow> ('e, 'm) type_tree) \<Rightarrow>
   (type_parser \<Rightarrow> type_parser) \<Rightarrow> (type_parser \<Rightarrow> type_parser) \<Rightarrow> ('e, 'm) types" where
  "braced_members E build no_open no_close s =
     (case consumeIdentifierOrKeyword s of
        (word, s) \<Rightarrow>
          let name = (case word of Some v \<Rightarrow> v | None \<Rightarrow> []) in
          if current s \<noteq> LBrace then Some (Some (build name None), no_open s)
          else do { (ms, s) \<leftarrow> parse_members E (advance s);
                    Some (Some (build name (Some ms)),
                          if current s \<noteq> RBrace then no_close s else advance s) })"

definition parseStructType :: "('e, 'm) parser_env \<Rightarrow> ('e, 'm) types" where
  "parseStructType E s =
     (if current s = StructKw then
        braced_members E StructType
          (unexpected_error (''expected a '' @ [CHR 0x27] @ ''{'' @ [CHR 0x27] @
             '' after the struct keyword for struct type''))
          (unexpected_error (''expected a '' @ [CHR 0x27] @ ''}'' @ [CHR 0x27] @
             '' after the struct type declaration''))
          (advance s)
      else Some (None, s))"

definition parseUnionType :: "('e, 'm) parser_env \<Rightarrow> ('e, 'm) types" where
  "parseUnionType E s =
     (if current s = UnionKw then
        braced_members E UnionType
          (unexpected_error (''expected a '' @ [CHR 0x27] @ ''{'' @ [CHR 0x27] @
             '' after the struct keyword for union type''))
          (parse_error (''expected a '' @ [CHR 0x27] @ ''}'' @ [CHR 0x27] @
             '' after the union type declaration''))
          (advance s)
      else Some (None, s))"

subsection \<open>Prefixes\<close>

definition parse_array_prefix :: "('e, 'm) parser_env \<Rightarrow> ('e, 'm) types \<Rightarrow> ('e, 'm) types" where
  "parse_array_prefix E p s =
     do { (e, s) \<leftarrow> parse_expression E s;
          if current s \<noteq> RBracket then
            Some (Some errored_type, unexpected_error
              (''expected '' @ [CHR 0x27] @ '']'' @ [CHR 0x27] @ '' for array type'') s)
          else
            do { (t, s) \<leftarrow> p (advance s);
                 Some (case t of
                     Some t \<Rightarrow> (Some (ArrayType t e), s)
                   | None \<Rightarrow> (Some (ArrayType errored_type e),
                       parse_error (''expected a child type for the array type, after the '' @
                         [CHR 0x27] @ '']'' @ [CHR 0x27]) s)) } }"

text \<open>What a prefix makes of the type behind it.\<close>

definition prefixed_type ::
  "(('e, 'm) type_tree \<Rightarrow> ('e, 'm) type_tree) \<Rightarrow> string \<Rightarrow> ('e, 'm) types \<Rightarrow> ('e, 'm) types" where
  "prefixed_type build missing p s =
     do { (t, s) \<leftarrow> p s;
          Some (case t of
              Some t \<Rightarrow> (Some (build t), s)
            | None \<Rightarrow> (Some errored_type, parse_error missing s)) }"

definition parse_pointer_prefix ::
  "(('e, 'm) type_tree \<Rightarrow> bool \<Rightarrow> ('e, 'm) type_tree) \<Rightarrow> string \<Rightarrow> ('e, 'm) types \<Rightarrow> ('e, 'm) types" where
  "parse_pointer_prefix build missing p s =
     (case consume MutKw s of
        (is_mutable, s) \<Rightarrow> prefixed_type (\<lambda>t. build t is_mutable) missing p s)"

definition capture_type :: "('e, 'm) types \<Rightarrow> ('e, 'm) types" where
  "capture_type p s =
     do { (f, s) \<leftarrow> p (expect LessThanSym
            (''expected '' @ [CHR 0x27] @ ''<'' @ [CHR 0x27] @ '' for capture type'') s);
          let s = (if f = None
                   then unexpected_error ''expected a function type for capturing function type'' s
                   else s);
          (i, s) \<leftarrow> p (expect CommaSym ''expected a comma'' s);
          let s = (if i = None
                   then unexpected_error ''expected a instance type for capturing function type'' s
                   else s);
          Some (Some (CapturingFunctionType f i),
            close_generic (''expected '' @ [CHR 0x27] @ ''>'' @ [CHR 0x27] @ '' for capture type'') s) }"

definition magic_type :: "('e, 'm) types \<Rightarrow> ('e, 'm) types" where
  "magic_type p s =
     (case consumeIdentifierOrKeyword s of
        (None, s) \<Rightarrow>
          Some (Some errored_type, parse_error ''expected a identifier / type after '' s)
      | (Some name, s) \<Rightarrow>
          if name = ''expressive_string'' then Some (Some (BuiltinType ExpressiveStringB), s)
          else if name = ''literal_string'' then Some (Some (LiteralType (BuiltinType StringB)), s)
          else if name = ''literal'' then
            do { (t, s) \<leftarrow> parseSingleGenType p s; Some (Some (LiteralType t), s) }
          else if name = ''maybe_runtime'' then
            do { (t, s) \<leftarrow> parseSingleGenType p s; Some (Some (MaybeRuntimeType t), s) }
          else if name = ''runtime'' then
            do { (t, s) \<leftarrow> parseSingleGenType p s; Some (Some (RuntimeType t), s) }
          else if name = ''capture'' then capture_type p s
          else Some (Some errored_type, parse_error ''unknown magic type given'' s))"

definition self_type :: "('e, 'm) parser_env \<Rightarrow> ('e, 'm) types" where
  "self_type E s =
     (case get_self_kw_type (parent_chain E) of
        Some t \<Rightarrow> Some (Some t, s)
      | None \<Rightarrow> Some (Some errored_type,
          parse_error (''couldn'' @ [CHR 0x27] @ ''t find the parent declaration for '' @
            [CHR 0x27] @ ''Self'' @ [CHR 0x27] @ '' Type'') s))"

definition parseTypeLocNoPostOps ::
  "('e, 'm) parser_env \<Rightarrow> ('e, 'm) types \<Rightarrow> nat \<Rightarrow> ('e, 'm) types" where
  "parseTypeLocNoPostOps E p n s =
     (if current s = SelfKw then self_type E (advance s)
      else if current s = StructKw then parseStructType E s
      else if current s = UnionKw then parseUnionType E s
      else if current s = LParen then parseLambdaTypeLoc E p n False s
      else if current s = LBracket then parse_array_prefix E p (advance s)
      else if current s = MultiplySym then
        parse_pointer_prefix PointerType ''expected a type after the *'' p (advance s)
      else if current s = AmpersandSym then
        parse_pointer_prefix ReferenceType ''expected a type after the &'' p (advance s)
      else if current s = DynKw then
        prefixed_type make_dynamic_type ''expected a type after the qualifier'' p (advance s)
      else if current s = MutKw then
        prefixed_type make_mutable ''expected a type after the qualifier'' p (advance s)
      else if current s = ModSym then magic_type p (advance s)
      else named_type p n s)"

subsection \<open>Suffixes\<close>

text \<open>
  Brackets behind a type; the flag tells that the loop ended without an error. The pointer and the
  reference behind a type are built with the location of the sign where the flag for a mutable
  pointee belongs.
\<close>

fun array_suffixes ::
  "('e, 'm) parser_env \<Rightarrow> nat \<Rightarrow> ('e, 'm) type_tree \<Rightarrow> type_parser \<Rightarrow>
   (bool \<times> ('e, 'm) type_tree \<times> type_parser) option" where
  "array_suffixes E 0 t s = None"
| "array_suffixes E (Suc n) t s =
     (if current s = LBracket then
        do { (e, s) \<leftarrow> parse_expression E
               (parse_warning ''deprecated syntax, brackets should be before type'' (advance s));
             if current s = RBracket then array_suffixes E n (ArrayType t e) (advance s)
             else Some (False, t, unexpected_error
               (''expected '' @ [CHR 0x27] @ '']'' @ [CHR 0x27] @ '' for array type'') s) }
      else Some (True, t, s))"

definition location_flag :: "('e, 'm) parser_env \<Rightarrow> type_parser \<Rightarrow> bool" where
  "location_flag E s =
     (case remaining s of [] \<Rightarrow> False | k # _ \<Rightarrow> loc_single E k \<noteq> 0)"

function pointer_suffixes ::
  "('e, 'm) parser_env \<Rightarrow> ('e, 'm) type_tree \<Rightarrow> type_parser \<Rightarrow> ('e, 'm) type_tree \<times> type_parser" where
  "pointer_suffixes E t s =
     (if current s = MultiplySym
      then pointer_suffixes E (PointerType t (location_flag E s))
             (parse_warning ''deprecated syntax, pointer should be before type'' (advance s))
      else (t, s))"
  by pat_completeness auto

termination
  by (relation "measure (\<lambda>(E, t, s). length (remaining s))")
    (auto simp: parse_warning_def intro: advance_shorter)

declare pointer_suffixes.simps [simp del]

definition reference_suffix ::
  "('e, 'm) parser_env \<Rightarrow> ('e, 'm) type_tree \<times> type_parser \<Rightarrow> ('e, 'm) type_tree \<times> type_parser" where
  "reference_suffix E r =
     (case r of (t, s) \<Rightarrow>
        if current s = AmpersandSym
        then (ReferenceType t (location_flag E s),
              parse_warning ''deprecated syntax, reference should be before type'' (advance s))
        else (t, s))"

definition parseArrayAndPointerTypesAfterTypeId ::
  "('e, 'm) parser_env \<Rightarrow> nat \<Rightarrow> ('e, 'm) type_tree \<Rightarrow> type_parser \<Rightarrow>
   (('e, 'm) type_tree \<times> type_parser) option" where
  "parseArrayAndPointerTypesAfterTypeId E n t s =
     do { (whole, t, s) \<leftarrow> array_suffixes E n t s;
          Some (if whole then reference_suffix E (pointer_suffixes E t s) else (t, s)) }"

subsection \<open>Types\<close>

text \<open>
  The recursion of \<^verbatim>\<open>parseTypeLoc\<close>. The code applies the suffixes to a missing type as well;
  \<open>null_type_no_suffix\<close> (in the next theory) shows that none follows one.
\<close>

fun parse_type_loc :: "('e, 'm) parser_env \<Rightarrow> nat \<Rightarrow> ('e, 'm) types" where
  "parse_type_loc E 0 s = None"
| "parse_type_loc E (Suc n) s =
     do { (t, s) \<leftarrow> parseTypeLocNoPostOps E (parse_type_loc E n) n s;
          (case t of
             None \<Rightarrow> Some (None, s)
           | Some t \<Rightarrow>
               do { (t, s) \<leftarrow> parseArrayAndPointerTypesAfterTypeId E (Suc n) t s;
                    Some (Some t, s) }) }"

definition type_fuel :: "type_parser \<Rightarrow> nat" where
  "type_fuel s = Suc (length (remaining s))"

definition parseTypeLoc :: "('e, 'm) parser_env \<Rightarrow> ('e, 'm) types" where
  "parseTypeLoc E s = parse_type_loc E (type_fuel s) s"

subsection \<open>Type expressions\<close>

text \<open>
  The loop of \<^verbatim>\<open>parseExpressionType\<close>: the current expression is always the root, since a tighter
  operator only changes its second type.
\<close>

fun add_operand :: "bool \<Rightarrow> ('e, 'm) type_tree \<Rightarrow> ('e, 'm) type_tree \<Rightarrow> ('e, 'm) type_tree" where
  "add_operand next_and (ExpressionType first second is_and) t =
     (if next_and \<and> \<not> is_and then ExpressionType first (ExpressionType second t next_and) is_and
      else ExpressionType (ExpressionType first second is_and) t next_and)"
| "add_operand next_and first t = ExpressionType first t next_and"

fun expression_operands ::
  "('e, 'm) types \<Rightarrow> nat \<Rightarrow> ('e, 'm) type_tree \<Rightarrow> type_parser \<Rightarrow>
   (('e, 'm) type_tree \<times> type_parser) option" where
  "expression_operands p 0 root s = None"
| "expression_operands p (Suc n) root s =
     (if current s = LogicalAndSym \<or> current s = LogicalOrSym then
        do { (t, s') \<leftarrow> p (advance s);
             (case t of
                None \<Rightarrow> Some (root, parse_error ''expected second type in expression type'' s')
              | Some t \<Rightarrow>
                  expression_operands p n (add_operand (current s = LogicalAndSym) root t) s') }
      else Some (root, s))"

definition parseExpressionType ::
  "('e, 'm) types \<Rightarrow> nat \<Rightarrow> ('e, 'm) type_tree \<Rightarrow> type_parser \<Rightarrow>
   (('e, 'm) type_tree \<times> type_parser) option" where
  "parseExpressionType p n firstType s =
     (if current s = LogicalAndSym \<or> current s = LogicalOrSym then
        do { (t, s') \<leftarrow> p (advance s);
             (case t of
                None \<Rightarrow> Some (firstType, parse_error ''expected second type in expression type'' s')
              | Some t \<Rightarrow>
                  expression_operands p n
                    (ExpressionType firstType t (current s = LogicalAndSym)) s') }
      else Some (firstType, s))"

subsection \<open>Generic parameters\<close>

record ('e, 'm) generic_param =
  gen_name :: string
  gen_index :: nat
  gen_traits :: "('e, 'm) type_tree list"
  gen_default :: "('e, 'm) type_tree option"

text \<open>
  \<^verbatim>\<open>parseGenericParametersList\<close>: one parameter, which returns whether the list goes on, and the
  loop. An error inside a parameter leaves the list with the parameter as it is.
\<close>

datatype list_step = ListGoesOn | ListEnds | ListFails

definition generic_param_traits ::
  "('e, 'm) types \<Rightarrow> nat \<Rightarrow> type_parser \<Rightarrow> (('e, 'm) type_tree list option \<times> type_parser) option" where
  "generic_param_traits p n s =
     (if current s = ColonSym then
        do { (ts, s) \<leftarrow> type_list PlusSym p n [] (advance s);
             Some (if ts = [] then
                 (None, parse_error (''expected a type after '' @ [CHR 0x27] @ '':'' @ [CHR 0x27] @
                    '' in generic parameter list'') s)
               else (Some ts, s)) }
      else Some (Some [], s))"

definition generic_param_default ::
  "('e, 'm) types \<Rightarrow> type_parser \<Rightarrow> (('e, 'm) type_tree option option \<times> type_parser) option" where
  "generic_param_default p s =
     (if current s = EqualSym then
        do { (t, s) \<leftarrow> p (advance s);
             Some (case t of
                 None \<Rightarrow> (None, parse_error (''expected a default type after '' @ [CHR 0x27] @ ''='' @
                   [CHR 0x27] @ '' in generic parameter list'') s)
               | Some t \<Rightarrow> (Some (Some t), s)) }
      else Some (Some None, s))"

definition one_generic_param ::
  "('e, 'm) types \<Rightarrow> nat \<Rightarrow> nat \<Rightarrow> string \<Rightarrow> type_parser \<Rightarrow>
   (list_step \<times> ('e, 'm) generic_param \<times> type_parser) option" where
  "one_generic_param p n index name s =
     do { (traits, s) \<leftarrow> generic_param_traits p n s;
          (case traits of
             None \<Rightarrow> Some (ListFails, \<lparr>gen_name = name, gen_index = index, gen_traits = [],
               gen_default = None\<rparr>, s)
           | Some ts \<Rightarrow>
               do { (dflt, s) \<leftarrow> generic_param_default p s;
                    (case dflt of
                       None \<Rightarrow> Some (ListFails, \<lparr>gen_name = name, gen_index = index,
                         gen_traits = ts, gen_default = None\<rparr>, s)
                     | Some d \<Rightarrow>
                         let param = \<lparr>gen_name = name, gen_index = index, gen_traits = ts,
                           gen_default = d\<rparr>
                         in Some (if current s = CommaSym then (ListGoesOn, param, advance s)
                                  else (ListEnds, param, s))) }) }"

fun generic_params ::
  "('e, 'm) types \<Rightarrow> nat \<Rightarrow> nat \<Rightarrow> ('e, 'm) generic_param list \<Rightarrow> type_parser \<Rightarrow>
   (bool \<times> ('e, 'm) generic_param list \<times> type_parser) option" where
  "generic_params p 0 index params s = None"
| "generic_params p (Suc n) index params s =
     (case consumeIdentifierOrKeyword s of
        (None, s) \<Rightarrow> Some (True, params, s)
      | (Some name, s) \<Rightarrow>
          do { (step, param, s) \<leftarrow> one_generic_param p n index name s;
               (case step of
                  ListGoesOn \<Rightarrow> generic_params p n (Suc index) (params @ [param]) s
                | ListEnds \<Rightarrow> Some (True, params @ [param], s)
                | ListFails \<Rightarrow> Some (False, params @ [param], s)) })"

definition parseGenericParametersList ::
  "('e, 'm) types \<Rightarrow> nat \<Rightarrow> ('e, 'm) generic_param list \<Rightarrow> type_parser \<Rightarrow>
   (bool \<times> ('e, 'm) generic_param list \<times> type_parser) option" where
  "parseGenericParametersList p n params s =
     (if current s = LessThanSym then
        do { (whole, params, s) \<leftarrow> generic_params p n 0 params (advance s);
             Some (True, params,
               if \<not> whole then s
               else (case consumeGenericClose s of
                   (True, s) \<Rightarrow> s
                 | (False, s) \<Rightarrow> parse_error (''expected a '' @ [CHR 0x27] @ ''>'' @ [CHR 0x27] @
                     '' for ending the generic parameters list'') s)) }
      else Some (False, params, s))"

end
