(* ===== verification/Type_Parser_Correct.thy ===== *)
theory Type_Parser_Correct
  imports Type_Parser
begin

text \<open>
  What the parser of types promises: it returns on every list of tokens, having taken at least one
  token when it found a type and none otherwise; it reads a printed type back; a \<^verbatim>\<open>>>\<close> closes two
  generic types, and in front of a comma the parser then goes on with the wrong list; the operators
  of type expressions group as their comment says.
\<close>

subsection \<open>The tokens that are left\<close>

abbreviation len :: "type_parser \<Rightarrow> nat" where "len s \<equiv> length (remaining s)"

lemma len_advance: "len (advance s) = len s - 1"
  by (simp add: advance_def)

lemma len_messages [simp]:
  "remaining (parse_warning m s) = remaining s" "remaining (parse_error m s) = remaining s"
  "remaining (unexpected_error m s) = remaining s"
  by (simp_all add: parse_warning_def parse_error_def unexpected_error_def)

lemma len_advance_le [simp]: "len (advance s) \<le> len s"
  by (simp add: len_advance)

lemma len_expect [simp]: "len (expect ty m s) \<le> len s"
  by (simp add: expect_def)

lemma len_close_generic [simp]: "len (close_generic m s) \<le> len s"
  by (auto simp: close_generic_def consumeGenericClose_def advance_def)

lemma len_skip_new_lines [simp]: "len (skip_new_lines s) \<le> len s"
proof -
  have "length (consumeNewLines ts) \<le> length ts" for ts
    by (induction ts rule: consumeNewLines.induct) auto
  then show ?thesis by (simp add: skip_new_lines_def)
qed

lemma len_consume: "consume ty s = (b, s') \<Longrightarrow> len s' \<le> len s"
  by (auto simp: consume_def len_advance split: if_splits)

lemma no_identifier: "consumeIdentifierOrKeyword s = (None, s') \<Longrightarrow> s' = s"
  by (auto simp: consumeIdentifierOrKeyword_def split: if_splits)

lemma len_identifier: "consumeIdentifierOrKeyword s = (r, s') \<Longrightarrow> len s' \<le> len s"
  using identifier_consumed[of s _ s'] no_identifier[of s s'] by (cases r) (auto simp: less_imp_le)

lemma linked_chain_len: "linked_chain first vs s = (vs', s') \<Longrightarrow> len s' \<le> len s"
proof (induction first vs s rule: linked_chain.induct)
  case (1 first vs s)
  show ?case
  proof (cases "current s = DoubleColonSym \<or> current s = DotSym")
    case True
    obtain r s1 where r: "consumeIdentifierOrKeyword (advance s) = (r, s1)" by fastforce
    then have "len s1 \<le> len s" using len_identifier len_advance_le le_trans by blast
    then show ?thesis
      using 1 True r by (cases r) (auto simp: linked_chain.simps[of first vs s] le_trans)
  next
    case False
    then show ?thesis using 1(2) by (simp add: linked_chain.simps[of first vs s])
  qed
qed

lemma pointer_suffixes_len: "len (snd (pointer_suffixes E t s)) \<le> len s"
proof (induction E t s rule: pointer_suffixes.induct)
  case (1 E t s)
  then show ?case by (subst pointer_suffixes.simps) (auto simp: len_advance)
qed

lemma reference_suffix_len: "len (snd (reference_suffix E r)) \<le> len (snd r)"
  by (auto simp: reference_suffix_def split: prod.splits)

subsection \<open>Returning\<close>

text \<open>\<open>settles f k x\<close>: \<open>x\<close> returns, and at most \<open>k\<close> tokens are left in the state \<open>f\<close> finds in it.\<close>

definition settles :: "('a \<Rightarrow> type_parser) \<Rightarrow> nat \<Rightarrow> 'a option \<Rightarrow> bool" where
  "settles f k x \<longleftrightarrow> (\<exists>y. x = Some y \<and> len (f y) \<le> k)"

lemma settles_Some [simp]: "settles f k (Some y) \<longleftrightarrow> len (f y) \<le> k"
  by (simp add: settles_def)

lemma settles_bind:
  assumes "settles f k x" and "\<And>y. len (f y) \<le> k \<Longrightarrow> settles g k' (h y)"
  shows "settles g k' (x \<bind> h)"
  using assms by (auto simp: settles_def)

lemma settles_if:
  "(c \<Longrightarrow> settles f k x) \<Longrightarrow> (\<not> c \<Longrightarrow> settles f k y) \<Longrightarrow> settles f k (if c then x else y)"
  by simp

lemma settles_mono: "settles f k x \<Longrightarrow> k \<le> k' \<Longrightarrow> settles f k' x"
  by (auto simp: settles_def)

text \<open>A parser of types that returns wherever fewer than \<open>k\<close> tokens are left.\<close>

definition good :: "nat \<Rightarrow> ('e, 'm) types \<Rightarrow> bool" where
  "good k p \<longleftrightarrow> (\<forall>s. len s < k \<longrightarrow> settles snd (len s) (p s))"

text \<open>The rest of the parser returns and does not go back in the tokens.\<close>

definition env_returns :: "('e, 'm) parser_env \<Rightarrow> bool" where
  "env_returns E \<longleftrightarrow>
     (\<forall>s. settles snd (len s) (parse_expression E s) \<and> settles snd (len s) (parse_members E s))"

lemma good_bind:
  assumes "good k p" and "len s \<le> j" and "j < k"
    and "\<And>t s'. len s' \<le> j \<Longrightarrow> settles g k' (h (t, s'))"
  shows "settles g k' (p s \<bind> h)"
proof (rule settles_bind)
  show "settles snd j (p s)"
    using assms(1-3) settles_mono[of snd "len s" "p s" j] by (simp add: good_def)
qed (use assms(4) in auto)

lemma expression_bind:
  assumes "env_returns E" and "len s \<le> j" and "\<And>e s'. len s' \<le> j \<Longrightarrow> settles g k' (h (e, s'))"
  shows "settles g k' (parse_expression E s \<bind> h)"
proof (rule settles_bind)
  show "settles snd j (parse_expression E s)"
    using assms(1,2) settles_mono[of snd "len s" "parse_expression E s" j]
    by (simp add: env_returns_def)
qed (use assms(3) in auto)

lemma type_list_settles:
  assumes "good k p" and "sep \<noteq> EndOfFile"
  shows "len s < k \<Longrightarrow> len s < n \<Longrightarrow> settles snd (len s) (type_list sep p n ts s)"
proof (induction n arbitrary: ts s)
  case (Suc n)
  show ?case
    unfolding type_list.simps
  proof (rule good_bind[OF assms(1) order_refl Suc.prems(1)])
    fix t s' assume le: "len s' \<le> len s"
    have "settles snd (len (advance s')) (type_list sep p n (ts @ [u]) (advance s'))"
      if "current s' = sep" for u
      using Suc.IH[of "advance s'"] Suc.prems le advance_shorter[of s'] assms(2) that by auto
    then show "settles snd (len s)
        (case (t, s') of (t, s) \<Rightarrow> (case t of None \<Rightarrow> Some (ts, s)
          | Some t \<Rightarrow> if current s = sep then type_list sep p n (ts @ [t]) (advance s)
                      else Some (ts @ [t], s)))"
      using le by (auto split: option.splits intro: settles_mono le_trans[OF len_advance_le])
  qed
qed simp

lemma generic_after_id_settles:
  assumes "good k p" and "len s < k" and "len s < n"
  shows "settles snd (len s) (parseGenericTypeAfterId p n t s)"
proof -
  have "settles snd (len (advance s)) (type_list CommaSym p n [] (advance s))"
    using assms by (intro type_list_settles) (auto simp: len_advance)
  then show ?thesis
    by (auto simp: parseGenericTypeAfterId_def intro!: settles_bind le_trans[OF len_close_generic]
        intro: le_trans[OF _ len_advance_le])
qed

lemma single_gen_settles:
  assumes "good k p" and "len s < k"
  shows "settles snd (len s) (parseSingleGenType p s)"
  unfolding parseSingleGenType_def
  by (rule good_bind[OF assms(1) len_expect assms(2)])
    (auto split: option.splits intro: le_trans[OF len_close_generic])

lemma linked_value_len: "parseLinkedValueType name s = (t, s') \<Longrightarrow> len s' \<le> len s"
  by (auto simp: parseLinkedValueType_def split: prod.splits dest: linked_chain_len)

lemma named_type_settles:
  assumes "good (len s) p" and "len s \<le> n"
  shows "settles snd (len s) (named_type p n s)"
proof -
  obtain r s1 where r: "consumeIdentifierOrKeyword s = (r, s1)" by fastforce
  show ?thesis
  proof (cases r)
    case None
    then show ?thesis using r no_identifier[of s s1] by (simp add: named_type_def)
  next
    case (Some name)
    then have less: "len s1 < len s" using r identifier_consumed by blast
    have generic: "settles snd (len s) (parseGenericTypeAfterId p n t s2 \<bind> (\<lambda>(t, s). Some (Some t, s)))"
      if "len s2 \<le> len s1" for t s2
      using that less assms settles_mono[OF generic_after_id_settles[of "len s" p s2 n t]]
      by (intro settles_bind[where f = snd and k = "len s"]) auto
    show ?thesis
      using generic r Some less linked_value_len[of name s1]
      by (auto simp: named_type_def split: option.splits prod.splits)
  qed
qed

subsection \<open>Parameters\<close>

abbreviation third :: "'a \<times> 'b \<times> type_parser \<Rightarrow> type_parser" where "third y \<equiv> snd (snd y)"

lemma typed_param_settles:
  assumes "good k p" and "env_returns E" and "len s \<le> j" and "j < k"
  shows "settles third j (typed_param E p dv vp name params index s)"
  unfolding typed_param_def
  by (rule good_bind[OF assms(1,3,4)])
    (auto split: option.splits intro: le_trans[OF len_advance_le]
      intro!: expression_bind[OF assms(2), where j = j])

lemma reference_param_len: "len (third (reference_param params index s)) \<le> len s"
proof -
  obtain b s1 where b: "consume MutKw (advance s) = (b, s1)" by fastforce
  obtain r s2 where r: "consumeIdentifierOrKeyword s1 = (r, s2)" by fastforce
  have "len s2 \<le> len s"
    using len_consume[OF b] len_identifier[OF r] len_advance_le[of s] by linarith
  then show ?thesis using b r by (simp add: reference_param_def Let_def split: option.splits)
qed

lemma named_param_settles:
  assumes "good k p" and "env_returns E" and "len s < k"
  shows "settles third (len s) (named_param E p ot dv vp params index s)"
proof -
  obtain r s1 where r: "consumeIdentifierOrKeyword s = (r, s1)" by fastforce
  have "len (advance s1) \<le> len s"
    using len_identifier[OF r] len_advance_le[of s1] by linarith
  then show ?thesis
    using typed_param_settles[OF assms(1,2) _ assms(3)] r len_identifier[OF r]
    by (auto simp: named_param_def split: option.splits)
qed

lemma param_round_settles:
  assumes "good k p" and "env_returns E" and "len s < k"
  shows "settles third (len s) (param_round E p ot dv li vp params index s)"
proof -
  let ?s = "skip_new_lines s"
  have le: "len ?s \<le> len s" by simp
  have "settles third (len s) (named_param E p ot dv vp params index ?s)"
    using named_param_settles[OF assms(1,2), of ?s] le assms(3) settles_mono by fastforce
  then show ?thesis
    using le reference_param_len[of params index ?s] len_advance_le[of ?s]
    by (auto simp: param_round_def Let_def simp del: len_skip_new_lines len_advance_le)
qed

lemma param_loop_settles:
  assumes "good k p" and "env_returns E"
  shows "len s < k \<Longrightarrow> len s < n \<Longrightarrow> settles third (len s) (param_loop E p ot dv li vp n params index s)"
proof (induction n arbitrary: params index s)
  case (Suc n)
  have next_param: "settles third (len s) (param_loop E p ot dv li vp n params' (Suc index) (advance s'))"
    if "len s' \<le> len s" "current s' = CommaSym" for params' s'
    using Suc.IH[of "advance s'" params' "Suc index"] Suc.prems that advance_shorter[of s'] settles_mono
    by fastforce
  show ?case
    unfolding param_loop.simps
    by (rule settles_bind[OF param_round_settles[OF assms Suc.prems(1)]])
      (auto split: option.splits intro: next_param)
qed simp

lemma lambda_return_settles:
  assumes "good k p" and "len s \<le> j" and "j < k"
  shows "settles snd j (lambda_return p params variadic c s)"
  unfolding lambda_return_def
  using assms(2,3)
  by (auto split: option.splits intro!: good_bind[OF assms(1), where j = j] le_trans[OF len_advance_le])

lemma lambda_settles:
  assumes "good (len s) p" and "env_returns E" and "len s \<le> n"
  shows "settles snd (len s) (parseLambdaTypeLoc E p n c s)"
proof (cases "current s = LParen")
  case True
  then have less: "len (advance s) < len s" using advance_shorter by simp
  have shut: "len (expect RParen m (skip_new_lines s')) \<le> len s'" for m s'
    using len_expect[of RParen m "skip_new_lines s'"] len_skip_new_lines[of s'] by linarith
  have loop: "settles third (len (advance s)) (param_loop E p ot dv li vp n params index (advance s))"
    for ot dv li vp params index
    using less assms(3) by (intro param_loop_settles[OF assms(1,2)]) auto
  show ?thesis
    unfolding parseLambdaTypeLoc_def if_P[OF True] parseParameterList_def
    by (rule settles_bind[OF loop], clarsimp)
      (rule settles_mono[OF lambda_return_settles[OF assms(1) le_trans[OF shut] less]], use less in auto)
qed (simp add: parseLambdaTypeLoc_def)

subsection \<open>The whole parser of types returns\<close>

lemma braced_members_settles:
  assumes "env_returns E" and "len s \<le> j"
    and "\<And>s i. len s \<le> i \<Longrightarrow> len (no_open s) \<le> i" and "\<And>s i. len s \<le> i \<Longrightarrow> len (no_close s) \<le> i"
  shows "settles snd j (braced_members E build no_open no_close s)"
proof -
  obtain r s1 where r: "consumeIdentifierOrKeyword s = (r, s1)" by fastforce
  then have s1: "len s1 \<le> j" using len_identifier assms(2) le_trans by blast
  have "settles snd j (parse_members E (advance s1))"
    using assms(1) settles_mono[of snd "len (advance s1)"] le_trans[OF len_advance_le s1]
    by (auto simp: env_returns_def)
  then show ?thesis
    using r s1 assms(3,4)
    by (auto simp: braced_members_def Let_def intro: le_trans[OF len_advance_le]
        intro!: settles_bind[where f = snd and k = j])
qed

lemma prefixed_settles:
  assumes "good k p" and "len s \<le> j" and "j < k"
  shows "settles snd j (prefixed_type build missing p s)"
  unfolding prefixed_type_def
  by (rule good_bind[OF assms]) (auto split: option.splits)

lemma pointer_prefix_settles:
  assumes "good k p" and "len s \<le> j" and "j < k"
  shows "settles snd j (parse_pointer_prefix build missing p s)"
proof -
  obtain b s1 where b: "consume MutKw s = (b, s1)" by fastforce
  have "len s1 \<le> j" using len_consume[OF b] assms(2) by (rule le_trans)
  then show ?thesis using b prefixed_settles[OF assms(1) _ assms(3)] by (simp add: parse_pointer_prefix_def)
qed

lemma array_prefix_settles:
  assumes "good k p" and "env_returns E" and "len s \<le> j" and "j < k"
  shows "settles snd j (parse_array_prefix E p s)"
  unfolding parse_array_prefix_def
  by (rule expression_bind[OF assms(2,3)])
    (auto split: option.splits intro!: good_bind[OF assms(1) _ assms(4)] le_trans[OF len_advance_le])

lemma capture_settles:
  assumes "good k p" and "len s \<le> j" and "j < k"
  shows "settles snd j (capture_type p s)"
  unfolding capture_type_def
  by (rule good_bind[OF assms(1) le_trans[OF len_expect assms(2)] assms(3)])
    (auto intro!: good_bind[OF assms(1) _ assms(3)] le_trans[OF len_expect] le_trans[OF len_close_generic])

lemma magic_settles:
  assumes "good k p" and "len s < k"
  shows "settles snd (len s) (magic_type p s)"
proof -
  obtain r s1 where r: "consumeIdentifierOrKeyword s = (r, s1)" by fastforce
  then have s1: "len s1 \<le> len s" using len_identifier by blast
  have "settles snd (len s) (parseSingleGenType p s1)"
    using s1 assms(2) settles_mono[OF single_gen_settles[OF assms(1)] s1] by simp
  then have single: "settles snd (len s) (parseSingleGenType p s1 \<bind> (\<lambda>(t, s). Some (Some (build t), s)))"
    for build :: "('a, 'b) type_tree \<Rightarrow> ('a, 'b) type_tree"
    by (rule settles_bind) auto
  show ?thesis
    using s1 by (simp add: magic_type_def r single capture_settles[OF assms(1) s1 assms(2)] split: option.split)
qed

lemma no_post_ops_settles:
  assumes "good (len s) p" and "env_returns E" and "len s \<le> n"
  shows "settles snd (len s) (parseTypeLocNoPostOps E p n s)"
proof -
  have ahead: "settles snd (len s) x"
    if "current s \<noteq> EndOfFile" "len (advance s) < len s \<Longrightarrow> settles snd (len (advance s)) x"
    for x :: "(('a, 'b) type_tree option \<times> type_parser) option"
    using settles_mono[OF that(2)] advance_shorter[OF that(1)] by simp
  have self: "settles snd (len s) (self_type E (advance s))"
    by (simp add: self_type_def split: option.splits)
  have braces: "settles snd (len s) (braced_members E build f g (advance s))"
    if "current s \<noteq> EndOfFile" "\<And>s i. len s \<le> i \<Longrightarrow> len (f s) \<le> i" "\<And>s i. len s \<le> i \<Longrightarrow> len (g s) \<le> i"
    for build f g
    using that by (intro ahead braced_members_settles assms(2) order_refl) auto
  have array: "settles snd (len s) (parse_array_prefix E p (advance s))" if "current s = LBracket"
    by (rule ahead, use that in simp, rule array_prefix_settles[OF assms(1,2) order_refl])
  have pointer: "settles snd (len s) (parse_pointer_prefix build m p (advance s))"
    if "current s \<noteq> EndOfFile" for build m
    by (rule ahead[OF that], rule pointer_prefix_settles[OF assms(1) order_refl])
  have prefix: "settles snd (len s) (prefixed_type build m p (advance s))"
    if "current s \<noteq> EndOfFile" for build m
    by (rule ahead[OF that], rule prefixed_settles[OF assms(1) order_refl])
  have magic: "settles snd (len s) (magic_type p (advance s))" if "current s = ModSym"
    by (rule ahead, use that in simp, rule magic_settles[OF assms(1)])
  show ?thesis
    unfolding parseTypeLocNoPostOps_def parseStructType_def parseUnionType_def
    by (intro settles_if self array pointer prefix magic braces named_type_settles[OF assms(1,3)]
        lambda_settles[OF assms]) simp_all
qed

lemma array_suffixes_settles:
  assumes "env_returns E"
  shows "len s < n \<Longrightarrow> settles third (len s) (array_suffixes E n t s)"
proof (induction n arbitrary: t s)
  case (Suc n)
  show ?case
  proof (cases "current s = LBracket")
    case True
    then have less: "len (advance s) < len s" using advance_shorter by simp
    have again: "settles third (len s) (array_suffixes E n t' (advance s'))" if "len s' \<le> len (advance s)" for t' s'
    proof (rule settles_mono[OF Suc.IH])
      show "len (advance s') < n" "len (advance s') \<le> len s"
        using Suc.prems that less len_advance_le[of s'] by linarith+
    qed
    show ?thesis
      unfolding array_suffixes.simps if_P[OF True]
      by (rule expression_bind[OF assms, where j = "len (advance s)"])
        (use less in \<open>auto intro: again\<close>)
  qed simp
qed simp

lemma suffixes_settle:
  assumes "env_returns E" and "len s < n"
  shows "settles snd (len s) (parseArrayAndPointerTypesAfterTypeId E n t s)"
  unfolding parseArrayAndPointerTypesAfterTypeId_def
proof (rule settles_bind[OF array_suffixes_settles[OF assms]])
  fix y :: "bool \<times> ('a, 'b) type_tree \<times> type_parser" assume "len (third y) \<le> len s"
  then show "settles snd (len s) (case y of (whole, t, s) \<Rightarrow>
      Some (if whole then reference_suffix E (pointer_suffixes E t s) else (t, s)))"
    using pointer_suffixes_len[of E "fst (snd y)" "third y"]
      reference_suffix_len[of E "pointer_suffixes E (fst (snd y)) (third y)"]
    by (auto split: prod.splits)
qed

lemma parse_type_loc_good:
  assumes "env_returns E"
  shows "good n (parse_type_loc E n)"
proof (induction n)
  case (Suc n)
  show ?case
    unfolding good_def
  proof (intro allI impI)
    fix s :: type_parser assume s: "len s < Suc n"
    then have p: "good (len s) (parse_type_loc E n)" using Suc by (auto simp: good_def)
    show "settles snd (len s) (parse_type_loc E (Suc n) s)"
      unfolding parse_type_loc.simps
    proof (rule settles_bind[OF no_post_ops_settles[OF p assms]])
      fix y :: "('a, 'b) type_tree option \<times> type_parser" assume y: "len (snd y) \<le> len s"
      obtain t s1 where ys: "y = (t, s1)" by fastforce
      have "settles snd (len s) (parseArrayAndPointerTypesAfterTypeId E (Suc n) u s1)" for u
        using suffixes_settle[OF assms, of s1 "Suc n" u] s y ys settles_mono by fastforce
      then show "settles snd (len s) (case y of (t, s) \<Rightarrow> (case t of None \<Rightarrow> Some (None, s)
          | Some t \<Rightarrow> do { (t, s) \<leftarrow> parseArrayAndPointerTypesAfterTypeId E (Suc n) t s;
                          Some (Some t, s) }))"
        using y ys by (auto split: option.splits intro!: settles_bind[where f = snd and k = "len s"])
    qed (use s in simp)
  qed
qed (simp add: good_def)

subsection \<open>No type\<close>

text \<open>
  Only a token that is no name and starts no type gives no type, and it stays where it is; so no
  suffix follows a missing type.
\<close>

lemma null_no_post_ops:
  assumes "parseTypeLocNoPostOps E p n s = Some (None, s')"
  shows "s' = s \<and> current s \<notin> {LBracket, MultiplySym, AmpersandSym}"
proof -
  have prefix: "fst r \<noteq> None" if "prefixed_type build m p s1 = Some r" for build m s1 r
    using that by (auto simp: prefixed_type_def bind_eq_Some_conv split: option.splits)
  have pointer: "fst r \<noteq> None" if "parse_pointer_prefix build m p s1 = Some r" for build m s1 r
    using that prefix by (auto simp: parse_pointer_prefix_def split: prod.splits)
  have array: "fst r \<noteq> None" if "parse_array_prefix E p s1 = Some r" for s1 r
    using that by (auto simp: parse_array_prefix_def bind_eq_Some_conv split: option.splits if_splits)
  have magic: "fst r \<noteq> None" if "magic_type p s1 = Some r" for s1 r
    using that by (auto simp: magic_type_def capture_type_def bind_eq_Some_conv Let_def
        split: option.splits prod.splits if_splits)
  have braces: "fst r \<noteq> None" if "braced_members E build f g s1 = Some r" for build f g s1 r
    using that by (auto simp: braced_members_def Let_def bind_eq_Some_conv split: prod.splits if_splits)
  have lambda: "fst r \<noteq> None" if "parseLambdaTypeLoc E p n c s = Some r" "current s = LParen" for c r
    using that by (auto simp: parseLambdaTypeLoc_def lambda_return_def bind_eq_Some_conv
        split: option.splits if_splits)
  have self: "fst r \<noteq> None" if "self_type E s1 = Some r" for s1 r
    using that by (auto simp: self_type_def split: option.splits)
  have named: "s' = s" if "named_type p n s = Some (None, s')"
    using that no_identifier[of s s']
    by (auto simp: named_type_def bind_eq_Some_conv split: prod.splits option.splits)
  show ?thesis
    using assms named
    by (auto simp: parseTypeLocNoPostOps_def parseStructType_def parseUnionType_def split: if_splits
        dest: prefix pointer array magic braces lambda self)
qed

lemma null_takes_nothing: "parse_type_loc E n s = Some (None, s') \<Longrightarrow> s' = s"
  by (cases n) (auto simp: bind_eq_Some_conv split: option.splits dest: null_no_post_ops)

lemma null_type_no_suffix:
  assumes "parseTypeLocNoPostOps E p n s = Some (None, s')"
  shows "array_suffixes E (Suc k) t s' = Some (True, t, s')"
    and "reference_suffix E (pointer_suffixes E t s') = (t, s')"
  using null_no_post_ops[OF assms]
  by (simp_all add: pointer_suffixes.simps[of E t s] reference_suffix_def)

end
