(* ===== verification/Type_Printer.thy ===== *)
theory Type_Printer
  imports Type_Parser_Correct
begin

text \<open>
  Types written as tokens, and what reading them back takes: the interface to the parser of
  expressions, which array sizes and default values go through, and the round trip over it.
\<close>

subsection \<open>Tokens of a type\<close>

definition tok :: "token_type \<Rightarrow> string \<Rightarrow> token" where
  "tok ty v = \<lparr>tok_type = ty, tok_value = v, tok_position = \<lparr>pos_line = 0, pos_character = 0\<rparr>\<rparr>"

abbreviation at_tokens :: "type_parser \<Rightarrow> token list \<Rightarrow> type_parser" where
  "at_tokens s ts \<equiv> s\<lparr>remaining := ts\<rparr>"

fun separated :: "token list list \<Rightarrow> token list" where
  "separated [] = []"
| "separated [ts] = ts"
| "separated (ts # us # rest) = ts @ tok CommaSym '','' # separated (us # rest)"

definition keyword_of_builtin :: "builtin_type \<Rightarrow> token_type option" where
  "keyword_of_builtin b = map_of (map prod.swap builtin_keywords) b"

definition name_tokens :: "string list \<Rightarrow> token list" where
  "name_tokens vs =
     concat (map (\<lambda>v. [tok DoubleColonSym ''::'', tok Identifier v]) vs)"

definition mut_tokens :: "bool \<Rightarrow> token list" where
  "mut_tokens m = (if m then [tok MutKw ''mut''] else [])"

fun print_type :: "('e \<Rightarrow> token list) \<Rightarrow> ('e, 'm) type_tree \<Rightarrow> token list"
and print_param :: "('e \<Rightarrow> token list) \<Rightarrow> ('e, 'm) func_param \<Rightarrow> token list" where
  "print_type pe (BuiltinType b) =
     (case keyword_of_builtin b of
        Some ty \<Rightarrow> [tok ty []]
      | None \<Rightarrow> [tok ModSym ''%'', tok Identifier ''expressive_string''])"
| "print_type pe (NamedLinkedType v None) = [tok Identifier v]"
| "print_type pe (NamedLinkedType v (Some i)) = [tok SelfKw v]"
| "print_type pe (LinkedValueType vs) = tok Identifier (hd vs) # name_tokens (tl vs)"
| "print_type pe (GenericType t ts) =
     print_type pe t @ tok LessThanSym ''<'' # separated (map (print_type pe) ts) @ [tok GreaterThanSym ''>'']"
| "print_type pe (PointerType t m) = tok MultiplySym ''*'' # mut_tokens m @ print_type pe t"
| "print_type pe (ReferenceType t m) = tok AmpersandSym ''&'' # mut_tokens m @ print_type pe t"
| "print_type pe (ArrayType t n) =
     tok LBracket ''['' # (case n of None \<Rightarrow> [] | Some e \<Rightarrow> pe e) @ tok RBracket '']'' # print_type pe t"
| "print_type pe (DynamicType t) = tok DynKw ''dyn'' # print_type pe t"
| "print_type pe (LiteralType t) =
     (if t = BuiltinType StringB then [tok ModSym ''%'', tok Identifier ''literal_string'']
      else [tok ModSym ''%'', tok Identifier ''literal'', tok LessThanSym ''<''] @ print_type pe t @
           [tok GreaterThanSym ''>''])"
| "print_type pe (MaybeRuntimeType t) =
     [tok ModSym ''%'', tok Identifier ''maybe_runtime'', tok LessThanSym ''<''] @ print_type pe t @
     [tok GreaterThanSym ''>'']"
| "print_type pe (RuntimeType t) =
     [tok ModSym ''%'', tok Identifier ''runtime'', tok LessThanSym ''<''] @ print_type pe t @
     [tok GreaterThanSym ''>'']"
| "print_type pe (CapturingFunctionType (Some f) (Some i)) =
     [tok ModSym ''%'', tok Identifier ''capture'', tok LessThanSym ''<''] @ print_type pe f @
     tok CommaSym '','' # print_type pe i @ [tok GreaterThanSym ''>'']"
| "print_type pe (FunctionType ps t variadic c) =
     tok LParen ''('' # separated (map (print_param pe) ps) @
     (if variadic then [tok TripleDotSym ''...''] else []) @
     [tok RParen '')'', tok LambdaSym ''=>''] @ print_type pe t"
| "print_type pe t = []"
| "print_param pe (FunctionParam v (Some t) i d imp) =
     (if imp then
        (case t of
           ReferenceType u m \<Rightarrow>
             tok AmpersandSym ''&'' # mut_tokens m @
             [tok (if u = BuiltinType VoidB then SelfKw else Identifier) v]
         | _ \<Rightarrow> [tok SelfKw v])
      else tok Identifier v # tok ColonSym '':'' # print_type pe t @
           (case d of None \<Rightarrow> [] | Some e \<Rightarrow> tok EqualSym ''='' # pe e))"
| "print_param pe (FunctionParam v None i d imp) = [tok Identifier v]"

text \<open>
  The types that can be written so. A dynamic type is not directly around a pointer, a reference
  or an array, since the parser moves \<^verbatim>\<open>dyn\<close> below them; the indices of parameters are their
  positions, and a variadic list ends with a plain parameter.
\<close>

definition plain_param :: "('e, 'm) func_param \<Rightarrow> bool" where
  "plain_param q \<longleftrightarrow> \<not> param_implicit q \<and> param_default q = None"

fun is_generic_head :: "('e, 'm) type_tree \<Rightarrow> bool" where
  "is_generic_head (NamedLinkedType v d) = (d = None)"
| "is_generic_head (LinkedValueType vs) = True"
| "is_generic_head t = False"

fun implicit_type :: "string \<Rightarrow> ('e, 'm) type_tree \<Rightarrow> bool" where
  "implicit_type v (BuiltinType b) = (b = VoidB)"
| "implicit_type v (ReferenceType (BuiltinType b) m) = (b = VoidB)"
| "implicit_type v (ReferenceType (NamedLinkedType w d) m) = (w = v \<and> d = None)"
| "implicit_type v t = False"

fun printable :: "('e \<Rightarrow> bool) \<Rightarrow> ('e, 'm) ancestor list \<Rightarrow> ('e, 'm) type_tree \<Rightarrow> bool"
and printable_param :: "('e \<Rightarrow> bool) \<Rightarrow> ('e, 'm) ancestor list \<Rightarrow> ('e, 'm) func_param \<Rightarrow> bool" where
  "printable ok up (BuiltinType b) = (b \<noteq> StringB \<and> b \<noteq> NullPtrB)"
| "printable ok up (NamedLinkedType v None) = True"
| "printable ok up (NamedLinkedType v (Some i)) =
     (get_self_kw_type up = Some (NamedLinkedType v (Some i)))"
| "printable ok up (LinkedValueType vs) = (2 \<le> length vs)"
| "printable ok up (GenericType t ts) =
     (is_generic_head t \<and> printable ok up t \<and> list_all (printable ok up) ts)"
| "printable ok up (PointerType t m) = printable ok up t"
| "printable ok up (ReferenceType t m) = printable ok up t"
| "printable ok up (ArrayType t n) =
     (printable ok up t \<and> (case n of None \<Rightarrow> True | Some e \<Rightarrow> ok e))"
| "printable ok up (DynamicType t) =
     (printable ok up t \<and> make_dynamic_type t = DynamicType t)"
| "printable ok up (LiteralType t) = (t = BuiltinType StringB \<or> printable ok up t)"
| "printable ok up (MaybeRuntimeType t) = printable ok up t"
| "printable ok up (RuntimeType t) = printable ok up t"
| "printable ok up (CapturingFunctionType (Some f) (Some i)) = (printable ok up f \<and> printable ok up i)"
| "printable ok up (FunctionType ps t variadic c) =
     (list_all (printable_param ok up) ps \<and> map param_index ps = [0..<length ps] \<and>
      (if variadic then ps \<noteq> [] \<and> plain_param (last ps) else True) \<and> printable ok up t \<and> \<not> c)"
| "printable ok up t = False"
| "printable_param ok up (FunctionParam v (Some t) i d imp) =
     (if imp then implicit_type v t \<and> d = None
      else printable ok up t \<and> (case d of None \<Rightarrow> True | Some e \<Rightarrow> ok e))"
| "printable_param ok up (FunctionParam v None i d imp) = False"

text \<open>What must not follow a type for it to end there.\<close>

definition type_ends :: "token list \<Rightarrow> bool" where
  "type_ends ts \<longleftrightarrow> current_type ts \<notin>
     {LBracket, MultiplySym, AmpersandSym, LessThanSym, DoubleColonSym, DotSym}"

subsection \<open>Reading one token\<close>

lemma at_tokens_simps [simp]:
  "current (at_tokens s (tok ty v # ts)) = ty"
  "advance (at_tokens s (x # ts)) = at_tokens s ts"
  "current_value (at_tokens s (tok ty v # ts)) = v"
  "pending_greater_count (at_tokens s ts) = pending_greater_count s"
  by (simp_all add: current_def current_type_def tok_def advance_def current_value_def)

lemma tok_fields [simp]: "tok_type (tok ty v) = ty" "tok_value (tok ty v) = v"
  by (simp_all add: tok_def)

lemma current_at: "current (at_tokens s ts) = current_type ts"
  by (simp add: current_def)

lemma current_type_tok [simp]: "current_type (tok ty v # ts) = ty"
  by (simp add: current_type_def tok_def)

lemma identifier_read:
  "ty = Identifier \<or> isKeyword ty \<Longrightarrow>
   consumeIdentifierOrKeyword (at_tokens s (tok ty v # ts)) = (Some v, at_tokens s ts)"
  by (auto simp: consumeIdentifierOrKeyword_def)

lemma identifier_read_Identifier [simp]:
  "consumeIdentifierOrKeyword (at_tokens s (tok Identifier v # ts)) = (Some v, at_tokens s ts)"
  by (rule identifier_read) simp

lemma skip_none [simp]: "ty \<noteq> NewLine \<Longrightarrow> skip_new_lines (at_tokens s (tok ty v # ts)) = at_tokens s (tok ty v # ts)"
  by (simp add: skip_new_lines_def tok_def)

lemma close_read [simp]:
  "pending_greater_count s = 0 \<Longrightarrow> close_generic m (at_tokens s (tok GreaterThanSym v # ts)) = at_tokens s ts"
  by (simp add: close_generic_def consumeGenericClose_def)

lemma expect_read [simp]: "expect ty m (at_tokens s (tok ty v # ts)) = at_tokens s ts"
  by (simp add: expect_def)

text \<open>Where a type ends, nothing is added to it.\<close>

lemma no_suffix:
  assumes "type_ends rest"
  shows "parseArrayAndPointerTypesAfterTypeId E (Suc n) t (at_tokens s rest) = Some (t, at_tokens s rest)"
  using assms
  by (simp add: parseArrayAndPointerTypesAfterTypeId_def type_ends_def current_at
      pointer_suffixes.simps[of E t "at_tokens s rest"] reference_suffix_def)

lemma parse_wrap:
  assumes "parseTypeLocNoPostOps E (parse_type_loc E n) n s0 = Some (Some t, at_tokens s rest)"
    and "type_ends rest"
  shows "parse_type_loc E (Suc n) s0 = Some (Some t, at_tokens s rest)"
  using assms by (simp add: no_suffix parse_type_loc.simps)

lemma prefix_simps:
  "parseTypeLocNoPostOps E p n (at_tokens s (tok SelfKw v # ts)) = self_type E (at_tokens s ts)"
  "parseTypeLocNoPostOps E p n (at_tokens s (tok LParen v # ts)) =
     parseLambdaTypeLoc E p n False (at_tokens s (tok LParen v # ts))"
  "parseTypeLocNoPostOps E p n (at_tokens s (tok LBracket v # ts)) = parse_array_prefix E p (at_tokens s ts)"
  "parseTypeLocNoPostOps E p n (at_tokens s (tok MultiplySym v # ts)) =
     parse_pointer_prefix PointerType ''expected a type after the *'' p (at_tokens s ts)"
  "parseTypeLocNoPostOps E p n (at_tokens s (tok AmpersandSym v # ts)) =
     parse_pointer_prefix ReferenceType ''expected a type after the &'' p (at_tokens s ts)"
  "parseTypeLocNoPostOps E p n (at_tokens s (tok DynKw v # ts)) =
     prefixed_type make_dynamic_type ''expected a type after the qualifier'' p (at_tokens s ts)"
  "parseTypeLocNoPostOps E p n (at_tokens s (tok ModSym v # ts)) = magic_type p (at_tokens s ts)"
  "parseTypeLocNoPostOps E p n (at_tokens s (tok Identifier v # ts)) =
     named_type p n (at_tokens s (tok Identifier v # ts))"
  by (simp_all add: parseTypeLocNoPostOps_def)

lemma builtin_keywords_plain:
  "(ty, b) \<in> set builtin_keywords \<Longrightarrow>
   isKeyword ty \<and> map_of builtin_keywords ty = Some b \<and>
   ty \<notin> {MutKw, SelfKw, StructKw, UnionKw, DynKw, LParen, LBracket, MultiplySym, AmpersandSym, ModSym}"
  by (simp add: builtin_keywords_def isKeyword_code) (elim disjE conjE; simp)

lemma keyword_of_builtin_type:
  "keyword_of_builtin b = Some ty \<Longrightarrow>
   isKeyword ty \<and> map_of builtin_keywords ty = Some b \<and>
   ty \<notin> {MutKw, SelfKw, StructKw, UnionKw, DynKw, LParen, LBracket, MultiplySym, AmpersandSym, ModSym}"
  unfolding keyword_of_builtin_def
  by (rule builtin_keywords_plain) (auto dest!: map_of_SomeD)

text \<open>A printed type starts with none of the tokens that a prefix looks for.\<close>

lemma printed_start:
  assumes "printable ok up t"
  shows "\<exists>x ts. print_type pe t = x # ts \<and> tok_type x \<noteq> MutKw"
proof -
  have basic: "\<exists>x ts. print_type pe u = x # ts \<and> tok_type x \<noteq> MutKw" if "is_generic_head u" for u :: "('a, 'b) type_tree"
    using that by (cases u) (auto simp: tok_def)
  show ?thesis
  proof (cases t)
    case (BuiltinType b)
    then show ?thesis
      using keyword_of_builtin_type[of b] by (auto simp: tok_def split: option.splits)
  next
    case (NamedLinkedType v d)
    then show ?thesis by (cases d) (auto simp: tok_def)
  next
    case (GenericType u us)
    then show ?thesis using assms basic[of u] by auto
  next
    case (CapturingFunctionType f i)
    then show ?thesis using assms by (cases f; cases i) (auto simp: tok_def)
  qed (use assms in \<open>auto simp: tok_def\<close>)
qed

lemma no_type_here:
  assumes "ty \<in> {GreaterThanSym, RParen, RBracket, CommaSym}"
  shows "parse_type_loc E (Suc n) (at_tokens s (tok ty v # ts)) = Some (None, at_tokens s (tok ty v # ts))"
  using assms
  by (auto simp: parseTypeLocNoPostOps_def named_type_def consumeIdentifierOrKeyword_def isKeyword_code)

declare parse_type_loc.simps [simp del]

subsection \<open>The interface to expressions\<close>

text \<open>
  What the parser of types relies on: a printed expression is read back up to the bracket, comma or
  parenthesis that follows it, and a closing bracket is no expression.
\<close>

locale expression_syntax =
  fixes E :: "('e, 'm) parser_env" and pe :: "'e \<Rightarrow> token list" and ok :: "'e \<Rightarrow> bool"
  assumes expr_back: "ok e \<Longrightarrow> current_type rest \<in> {RBracket, CommaSym, RParen} \<Longrightarrow>
      parse_expression E (at_tokens s (pe e @ rest)) = Some (Some e, at_tokens s rest)"
    and no_expr: "parse_expression E (at_tokens s (tok RBracket v # ts)) =
      Some (None, at_tokens s (tok RBracket v # ts))"
begin

text \<open>A type that is read back wherever it ends, with fuel for its tokens.\<close>

definition reads :: "('e, 'm) type_tree \<Rightarrow> bool" where
  "reads t \<longleftrightarrow> (\<forall>n s rest. type_ends rest \<longrightarrow> pending_greater_count s = 0 \<longrightarrow>
     length (print_type pe t) \<le> n \<longrightarrow>
     parse_type_loc E (Suc n) (at_tokens s (print_type pe t @ rest)) = Some (Some t, at_tokens s rest))"

lemma reads_fuel:
  assumes "reads t" and "type_ends rest" and "pending_greater_count s = 0"
    and "length (print_type pe t) < n"
  shows "parse_type_loc E n (at_tokens s (print_type pe t @ rest)) = Some (Some t, at_tokens s rest)"
  using assms by (cases n) (auto simp: reads_def)

lemma readsI:
  assumes "\<And>n s rest. type_ends rest \<Longrightarrow> pending_greater_count s = 0 \<Longrightarrow> length (print_type pe t) \<le> n \<Longrightarrow>
    parseTypeLocNoPostOps E (parse_type_loc E n) n (at_tokens s (print_type pe t @ rest)) =
      Some (Some t, at_tokens s rest)"
  shows "reads t"
  using assms by (auto simp: reads_def intro!: parse_wrap)

lemma reads_pointer:
  assumes "reads t" and "printable ok up t"
  shows "reads (PointerType t m)" "reads (ReferenceType t m)"
proof -
  have "consume MutKw (at_tokens s (mut_tokens m @ print_type pe t @ rest)) = (m, at_tokens s (print_type pe t @ rest))"
    for s rest
    using printed_start[OF assms(2), of pe] by (auto simp: mut_tokens_def consume_def current_at current_type_def)
  then have "parse_pointer_prefix build msg (parse_type_loc E n) (at_tokens s (mut_tokens m @ print_type pe t @ rest)) =
      Some (Some (build t m), at_tokens s rest)"
    if "type_ends rest" "pending_greater_count s = 0" "length (print_type pe t) < n"
    for build :: "('e, 'm) type_tree \<Rightarrow> bool \<Rightarrow> ('e, 'm) type_tree" and msg n s rest
    using reads_fuel[OF assms(1) that] by (simp add: parse_pointer_prefix_def prefixed_type_def)
  then show "reads (PointerType t m)" "reads (ReferenceType t m)"
    by (auto intro!: readsI simp: prefix_simps)
qed

lemma reads_dynamic:
  assumes "reads t" and "make_dynamic_type t = DynamicType t"
  shows "reads (DynamicType t)"
  by (rule readsI) (simp add: prefix_simps prefixed_type_def reads_fuel[OF assms(1)] assms(2))

lemma reads_array:
  assumes "reads t" and "case n of None \<Rightarrow> True | Some e \<Rightarrow> ok e"
  shows "reads (ArrayType t n)"
proof (rule readsI)
  fix k rest and s :: type_parser
  assume ends: "type_ends rest" "pending_greater_count s = 0" "length (print_type pe (ArrayType t n)) \<le> k"
  have "parse_expression E (at_tokens s ((case n of None \<Rightarrow> [] | Some e \<Rightarrow> pe e) @
      tok RBracket '']'' # print_type pe t @ rest)) = Some (n, at_tokens s (tok RBracket '']'' # print_type pe t @ rest))"
    using assms(2) by (cases n) (auto simp: no_expr intro!: expr_back)
  then show "parseTypeLocNoPostOps E (parse_type_loc E k) k (at_tokens s (print_type pe (ArrayType t n) @ rest)) =
      Some (Some (ArrayType t n), at_tokens s rest)"
    using reads_fuel[OF assms(1) ends(1,2), of k] ends(3)
    by (simp add: prefix_simps parse_array_prefix_def)
qed

lemma reads_magic:
  assumes "reads t"
  shows "reads (MaybeRuntimeType t)" "reads (RuntimeType t)" "t \<noteq> BuiltinType StringB \<Longrightarrow> reads (LiteralType t)"
proof -
  have single: "parseSingleGenType (parse_type_loc E n)
      (at_tokens s (tok LessThanSym ''<'' # print_type pe t @ tok GreaterThanSym ''>'' # rest)) =
      Some (t, at_tokens s rest)" if "pending_greater_count s = 0" "length (print_type pe t) < n" for n s rest
    using reads_fuel[OF assms _ that] that(1) by (simp add: parseSingleGenType_def type_ends_def)
  show "reads (MaybeRuntimeType t)" "reads (RuntimeType t)"
    "t \<noteq> BuiltinType StringB \<Longrightarrow> reads (LiteralType t)"
    by (auto intro!: readsI simp: prefix_simps magic_type_def single)
qed

lemma reads_capture:
  assumes "reads f" and "reads i"
  shows "reads (CapturingFunctionType (Some f) (Some i))"
  by (rule readsI)
    (simp add: prefix_simps magic_type_def capture_type_def reads_fuel[OF assms(1)] reads_fuel[OF assms(2)]
      type_ends_def)

lemma reads_literal_string: "reads (LiteralType (BuiltinType StringB))"
  by (rule readsI) (simp add: prefix_simps magic_type_def)

lemma reads_builtin:
  assumes "b \<noteq> StringB" and "b \<noteq> NullPtrB"
  shows "reads (BuiltinType b)"
proof (cases "keyword_of_builtin b")
  case None
  have "b = ExpressiveStringB"
  proof (cases b)
    case (IntNB k)
    then show ?thesis using None
      by (cases k) (simp_all add: keyword_of_builtin_def builtin_keywords_def)
  qed (use assms None in \<open>simp_all add: keyword_of_builtin_def builtin_keywords_def\<close>)
  then show ?thesis using None by (auto intro!: readsI simp: prefix_simps magic_type_def)
next
  case (Some ty)
  then show ?thesis
    using keyword_of_builtin_type[OF Some]
    by (auto intro!: readsI simp: parseTypeLocNoPostOps_def named_type_def identifier_read)
qed

lemma reads_self:
  assumes "get_self_kw_type (parent_chain E) = Some (NamedLinkedType v (Some i))"
  shows "reads (NamedLinkedType v (Some i))"
  by (rule readsI) (simp add: prefix_simps self_type_def assms)

subsubsection \<open>Names and generic types\<close>

lemma chain_back:
  assumes "current_type rest \<notin> {DoubleColonSym, DotSym}"
  shows "linked_chain first vs (at_tokens s (name_tokens ws @ rest)) = (vs @ ws, at_tokens s rest)"
proof (induction ws arbitrary: vs)
  case Nil
  then show ?case
    using assms by (simp add: linked_chain.simps[of first vs "at_tokens s rest"] current_at name_tokens_def)
next
  case (Cons w ws)
  then show ?case
    using linked_chain.simps[of first vs "at_tokens s (tok DoubleColonSym ''::'' # tok Identifier w # name_tokens ws @ rest)"]
    by (simp add: name_tokens_def)
qed

text \<open>The head of a named type, up to its arguments.\<close>

lemma head_back:
  assumes "is_generic_head h" and "printable ok up h" and "current_type rest \<notin> {DoubleColonSym, DotSym}"
  shows "parseTypeLocNoPostOps E p n (at_tokens s (print_type pe h @ rest)) =
    do { (t, s) \<leftarrow> parseGenericTypeAfterId p n h (at_tokens s rest); Some (Some t, s) }"
proof (cases h)
  case (NamedLinkedType v d)
  then show ?thesis
    using assms by (simp add: prefix_simps named_type_def builtin_keywords_def current_at)
next
  case (LinkedValueType vs)
  then obtain v w ws where vs: "vs = v # w # ws"
    using assms(2) by (auto simp: Suc_le_length_iff numeral_2_eq_2)
  have "linked_chain v [v] (at_tokens s (name_tokens (w # ws) @ rest)) = (v # w # ws, at_tokens s rest)"
    using chain_back[OF assms(3), of v "[v]"] by simp
  moreover have "current (at_tokens s (name_tokens (w # ws) @ rest)) = DoubleColonSym"
    by (simp add: name_tokens_def)
  ultimately show ?thesis
    using LinkedValueType vs
    by (simp add: prefix_simps named_type_def builtin_keywords_def parseLinkedValueType_def)
qed (use assms(1) in simp_all)

lemma reads_head:
  assumes "is_generic_head h" and "printable ok up h"
  shows "reads h"
  by (rule readsI)
    (simp add: head_back[OF assms] type_ends_def parseGenericTypeAfterId_def current_at)

lemma type_list_back:
  assumes "\<forall>t\<in>set ts. reads t" and "pending_greater_count s = 0"
    and "type_ends rest" and "current_type rest \<noteq> CommaSym"
  shows "ts \<noteq> [] \<Longrightarrow> length ts \<le> m \<Longrightarrow> \<forall>t\<in>set ts. length (print_type pe t) < n \<Longrightarrow>
    type_list CommaSym (parse_type_loc E n) m acc (at_tokens s (separated (map (print_type pe) ts) @ rest)) =
      Some (acc @ ts, at_tokens s rest)"
  using assms(1)
proof (induction ts arbitrary: acc m)
  case (Cons t ts)
  then obtain m' where m: "m = Suc m'" by (cases m) auto
  show ?case
  proof (cases ts)
    case Nil
    then show ?thesis using Cons.prems assms(2-4) by (simp add: m reads_fuel current_at)
  next
    case (Cons u us)
    have "parse_type_loc E n (at_tokens s (print_type pe t @ tok CommaSym '','' #
        separated (map (print_type pe) ts) @ rest)) =
        Some (Some t, at_tokens s (tok CommaSym '','' # separated (map (print_type pe) ts) @ rest))"
      using Cons.prems assms(2) by (intro reads_fuel) (auto simp: type_ends_def)
    then show ?thesis using Cons.IH[of m' "acc @ [t]"] Cons.prems Cons by (simp add: m)
  qed
qed simp

lemma printed_length: "printable ok up t \<Longrightarrow> 0 < length (print_type pe t)"
  using printed_start[of ok up t pe] by auto

lemma separated_length: "tss \<noteq> [] \<Longrightarrow> ts \<in> set tss \<Longrightarrow> length ts \<le> length (separated tss)"
  by (induction tss rule: separated.induct) auto

lemma separated_count: "\<forall>ts\<in>set tss. ts \<noteq> [] \<Longrightarrow> length tss \<le> length (separated tss)"
  by (induction tss rule: separated.induct) (auto simp: Suc_le_eq)

lemma reads_generic:
  assumes "is_generic_head h" and "printable ok up h"
    and "\<forall>t\<in>set ts. reads t \<and> printable ok up t"
  shows "reads (GenericType h ts)"
proof (rule readsI)
  fix n rest and s :: type_parser
  assume ends: "type_ends rest" "pending_greater_count s = 0"
    "length (print_type pe (GenericType h ts)) \<le> n"
  have "length t \<le> length (separated (map (print_type pe) ts))" if "t \<in> set (map (print_type pe) ts)" for t
    using that by (intro separated_length) auto
  then have args: "\<forall>t\<in>set ts. length (print_type pe t) < n" using ends(3) by fastforce
  have "length (map (print_type pe) ts) \<le> length (separated (map (print_type pe) ts))"
    using assms(3) printed_length by (intro separated_count) fastforce
  then have count: "length ts \<le> n" "0 < n" using ends(3) by auto
  have "type_list CommaSym (parse_type_loc E n) n []
      (at_tokens s (separated (map (print_type pe) ts) @ tok GreaterThanSym ''>'' # rest)) =
      Some (ts, at_tokens s (tok GreaterThanSym ''>'' # rest))"
  proof (cases "ts = []")
    case True
    obtain k where "n = Suc k" using count(2) by (cases n) auto
    then show ?thesis using True no_type_here[where ty = GreaterThanSym and n = k and E = E]
      by simp
  next
    case False
    then show ?thesis
      using type_list_back[OF _ ends(2) _ _ False count(1) args, of "tok GreaterThanSym ''>'' # rest" "[]"]
        assms(3) by (simp add: type_ends_def)
  qed
  then show "parseTypeLocNoPostOps E (parse_type_loc E n) n
      (at_tokens s (print_type pe (GenericType h ts) @ rest)) = Some (Some (GenericType h ts), at_tokens s rest)"
    using head_back[OF assms(1,2), of "tok LessThanSym ''<'' # separated (map (print_type pe) ts) @
        tok GreaterThanSym ''>'' # rest"] ends(2)
    by (simp add: parseGenericTypeAfterId_def)
qed

subsubsection \<open>Parameters\<close>

definition reads_param :: "('e, 'm) func_param \<Rightarrow> bool" where
  "reads_param q \<longleftrightarrow> (\<forall>t. param_type q = Some t \<longrightarrow> \<not> param_implicit q \<longrightarrow> reads t)"

text \<open>A parameter, in front of a comma or the closing parenthesis, or the dots of a variadic list.\<close>

lemma param_back:
  assumes "reads_param q" and "printable_param ok up q" and "pending_greater_count s = 0"
    and "length (print_param pe q) \<le> n" and "current_type rest \<in> {CommaSym, RParen}"
  shows "param_round E (parse_type_loc E n) False True True True acc (param_index q)
      (at_tokens s (print_param pe q @ rest)) = Some (None, acc @ [q], at_tokens s rest)"
proof -
  obtain v t i d imp where q: "q = FunctionParam v (Some t) i d imp"
    using assms(2) by (cases q; cases "param_type q") auto
  show ?thesis
  proof (cases imp)
    case False
    have t: "parse_type_loc E n (at_tokens s (print_type pe t @ ts)) = Some (Some t, at_tokens s ts)"
      if "type_ends ts" for ts
      using assms(1,3,4) False that by (intro reads_fuel) (auto simp: q reads_param_def)
    show ?thesis
    proof (cases d)
      case None
      then show ?thesis
        using assms(5) False t[of rest]
        by (auto simp: q param_round_def named_param_def typed_param_def type_ends_def current_at)
    next
      case (Some e)
      then show ?thesis
        using assms(2,5) False t[of "tok EqualSym ''='' # pe e @ rest"] expr_back[of e rest s]
        by (auto simp: q param_round_def named_param_def typed_param_def type_ends_def)
    qed
  next
    case True
    have mut: "consume MutKw (at_tokens s (mut_tokens m @ tok ty v # ts)) = (m, at_tokens s (tok ty v # ts))"
      if "ty \<noteq> MutKw" for m ty v ts
      using that by (auto simp: mut_tokens_def consume_def)
    have "(\<exists>u m. t = ReferenceType u m \<and> (u = BuiltinType VoidB \<or> u = NamedLinkedType v None)) \<or> t = BuiltinType VoidB"
      using assms(2) True by (simp add: q) (induction v t rule: implicit_type.induct; simp)
    then show ?thesis
      using True assms(2)
      by (auto simp: q param_round_def reference_param_def mut identifier_read isKeyword_code)
  qed
qed

lemma plain_param_variadic:
  assumes "reads_param q" and "printable_param ok up q" and "pending_greater_count s = 0"
    and "length (print_param pe q) \<le> n" and "plain_param q"
  shows "param_round E (parse_type_loc E n) False True True True acc (param_index q)
      (at_tokens s (print_param pe q @ tok TripleDotSym v # rest)) = Some (Some True, acc @ [q], at_tokens s rest)"
proof -
  obtain w t i where q: "q = FunctionParam w (Some t) i None False"
    using assms(2,5) by (cases q; cases "param_type q") (auto simp: plain_param_def)
  have "parse_type_loc E n (at_tokens s (print_type pe t @ tok TripleDotSym v # rest)) =
      Some (Some t, at_tokens s (tok TripleDotSym v # rest))"
    using assms(1,3,4) by (intro reads_fuel) (auto simp: q reads_param_def type_ends_def)
  then show ?thesis by (simp add: q param_round_def named_param_def typed_param_def)
qed

lemma param_loop_back:
  assumes "pending_greater_count s = 0"
  shows "qs \<noteq> [] \<Longrightarrow> \<forall>q\<in>set qs. reads_param q \<and> printable_param ok up q \<and> length (print_param pe q) \<le> n \<Longrightarrow>
    map param_index qs = [i..<i + length qs] \<Longrightarrow> (if variadic then plain_param (last qs) else True) \<Longrightarrow>
    length qs \<le> m \<Longrightarrow>
    param_loop E (parse_type_loc E n) False True True True m acc i
      (at_tokens s (separated (map (print_param pe) qs) @
         (if variadic then [tok TripleDotSym ''...''] else []) @ tok RParen '')'' # rest)) =
    Some (variadic, acc @ qs, at_tokens s (tok RParen '')'' # rest))"
proof (induction qs arbitrary: acc i m)
  case (Cons q qs)
  then obtain m' where m: "m = Suc m'" by (cases m) auto
  have i: "param_index q = i" "map param_index qs = [Suc i..<Suc i + length qs]"
    using Cons.prems(3) by (auto simp: upt_rec)
  show ?case
  proof (cases qs)
    case Nil
    have q: "reads_param q" "printable_param ok up q" "length (print_param pe q) \<le> n"
      using Cons.prems(2) by auto
    show ?thesis
      using Nil Cons.prems(4) plain_param_variadic[OF q(1,2) assms q(3)]
        param_back[OF q(1,2) assms q(3), where rest = "tok RParen '')'' # rest"] i(1)
      by (auto simp: m)
  next
    case (Cons r rs)
    have q: "reads_param q" "printable_param ok up q" "length (print_param pe q) \<le> n"
      using Cons.prems(2) by auto
    show ?thesis
      using Cons.IH[of "Suc i" m' "acc @ [q]"] Cons.prems Cons i m
        param_back[OF q(1,2) assms q(3)]
      by auto
  qed
qed simp

lemma reads_function:
  assumes "\<forall>q\<in>set ps. reads_param q \<and> printable_param ok up q" and "reads t"
    and "map param_index ps = [0..<length ps]"
    and "if variadic then ps \<noteq> [] \<and> plain_param (last ps) else True"
  shows "reads (FunctionType ps t variadic False)"
proof (rule readsI)
  fix n rest and s :: type_parser
  let ?ps = "separated (map (print_param pe) ps)"
    and ?rest = "tok RParen '')'' # tok LambdaSym ''=>'' # print_type pe t @ rest"
  assume ends: "type_ends rest" "pending_greater_count s = 0"
    "length (print_type pe (FunctionType ps t variadic False)) \<le> n"
  have "length q \<le> length ?ps" if "q \<in> set (map (print_param pe) ps)" for q
    using that by (intro separated_length) auto
  then have each: "\<forall>q\<in>set ps. length (print_param pe q) \<le> n" using ends(3) by fastforce
  have "print_param pe q \<noteq> []" if "q \<in> set ps" for q
    using assms(1) that by (cases q; cases "param_type q") (auto split: type_tree.splits)
  then have "length (map (print_param pe) ps) \<le> length ?ps" by (intro separated_count) auto
  then have count: "length ps \<le> n" "0 < n" using ends(3) by auto
  have "param_loop E (parse_type_loc E n) False True True True n [] 0
      (at_tokens s (?ps @ (if variadic then [tok TripleDotSym ''...''] else []) @ ?rest)) =
      Some (variadic, ps, at_tokens s ?rest)"
  proof (cases "ps = []")
    case True
    then have "\<not> variadic" using assms(4) by auto
    moreover obtain k where "n = Suc k" using count(2) by (cases n) auto
    ultimately show ?thesis
      using True by (simp add: param_round_def named_param_def consumeIdentifierOrKeyword_def isKeyword_code)
  next
    case False
    then show ?thesis
      using param_loop_back[OF ends(2) False, where i = 0 and acc = "[]" and m = n and n = n and up = up
          and variadic = variadic and rest = "tok LambdaSym ''=>'' # print_type pe t @ rest"]
        assms(1,3,4) each count(1) by (auto split: if_splits)
  qed
  moreover have "parse_type_loc E n (at_tokens s (print_type pe t @ rest)) = Some (Some t, at_tokens s rest)"
    using ends by (intro reads_fuel[OF assms(2)]) auto
  ultimately show "parseTypeLocNoPostOps E (parse_type_loc E n) n
      (at_tokens s (print_type pe (FunctionType ps t variadic False) @ rest)) =
      Some (Some (FunctionType ps t variadic False), at_tokens s rest)"
    by (simp add: prefix_simps parseLambdaTypeLoc_def parseParameterList_def lambda_return_def)
qed

subsubsection \<open>Every type\<close>

lemma type_back:
  "printable ok (parent_chain E) t \<Longrightarrow> reads t"
  "printable_param ok (parent_chain E) q \<Longrightarrow> reads_param q"
proof (induction t and q)
  case (NamedLinkedType v d)
  then show ?case by (cases d) (auto intro: reads_head[where up = "[]"] reads_self)
next
  case (LinkedValueType vs)
  then show ?case by (auto intro: reads_head[where up = "[]"])
next
  case (GenericType h ts)
  then show ?case by (auto simp: list_all_iff intro!: reads_generic)
next
  case (LiteralType t)
  then show ?case using reads_literal_string reads_magic(3)[of t] by (cases "t = BuiltinType StringB") auto
next
  case (FunctionType ps t variadic c)
  then show ?case by (auto simp: list_all_iff intro!: reads_function[where up = "parent_chain E"])
next
  case (CapturingFunctionType f i)
  then show ?case by (cases f; cases i) (auto intro: reads_capture)
next
  case (FunctionParam v t i d imp)
  then show ?case by (cases t) (auto simp: reads_param_def split: if_splits)
qed (auto intro: reads_builtin reads_pointer reads_array reads_dynamic reads_magic)

lemma printed_back:
  assumes "printable ok (parent_chain E) t" and "type_ends rest" and "pending_greater_count s = 0"
  shows "parseTypeLoc E (at_tokens s (print_type pe t @ rest)) = Some (Some t, at_tokens s rest)"
  unfolding parseTypeLoc_def
  by (rule reads_fuel[OF type_back(1)[OF assms(1)] assms(2,3)]) (simp add: type_fuel_def)

text \<open>
  Two generic types closed by one \<^verbatim>\<open>>>\<close>: what follows decides whether the outer one ends there.
\<close>

lemma shift_then:
  assumes "printable ok (parent_chain E) u" and "pending_greater_count s = 0"
    and "length (print_type pe u) + 3 < n"
  shows "parse_type_loc E n (at_tokens s (tok Identifier b # tok LessThanSym ''<'' # print_type pe u @
      tok RightShiftSym ''>>'' # rest)) =
    do { (t, s') \<leftarrow> parseArrayAndPointerTypesAfterTypeId E n
           (GenericType (NamedLinkedType b None) [u])
           ((at_tokens s rest)\<lparr>pending_greater_count := 1\<rparr>);
         Some (Some t, s') }"
proof -
  obtain k where n: "n = Suc (Suc k)" using assms(3) by (cases n; cases "n - 1") auto
  have u: "parse_type_loc E (Suc k) (at_tokens s (print_type pe u @ tok RightShiftSym ''>>'' # rest)) =
      Some (Some u, at_tokens s (tok RightShiftSym ''>>'' # rest))"
    using assms n by (intro reads_fuel[OF type_back(1)]) (auto simp: type_ends_def)
  have "parseTypeLocNoPostOps E (parse_type_loc E (Suc k)) (Suc k)
      (at_tokens s (tok Identifier b # tok LessThanSym ''<'' # print_type pe u @ tok RightShiftSym ''>>'' # rest)) =
      Some (Some (GenericType (NamedLinkedType b None) [u]), (at_tokens s rest)\<lparr>pending_greater_count := 1\<rparr>)"
    using assms(2) u
    by (simp add: prefix_simps named_type_def builtin_keywords_def parseGenericTypeAfterId_def
        close_generic_def consumeGenericClose_def)
  then show ?thesis unfolding n by (subst parse_type_loc.simps) simp
qed

lemma owing: "(at_tokens s rest)\<lparr>pending_greater_count := i\<rparr> = at_tokens (s\<lparr>pending_greater_count := i\<rparr>) rest"
  by simp

lemma shift_inner:
  assumes "printable ok (parent_chain E) u" and "pending_greater_count s = 0"
    and "length (print_type pe u) + 3 < n" and "type_ends rest"
  shows "parse_type_loc E n (at_tokens s (tok Identifier b # tok LessThanSym ''<'' # print_type pe u @
      tok RightShiftSym ''>>'' # rest)) =
    Some (Some (GenericType (NamedLinkedType b None) [u]), at_tokens (s\<lparr>pending_greater_count := 1\<rparr>) rest)"
proof -
  obtain k where n: "n = Suc k" using assms(3) by (cases n) auto
  then show ?thesis
    using shift_then[OF assms(1-3), of b rest] by (simp add: owing no_suffix[OF assms(4)])
qed

lemma shift_owes:
  assumes "printable ok (parent_chain E) u" and "pending_greater_count s = 0" and "type_ends rest"
  shows "parseTypeLoc E (at_tokens s (tok Identifier b # tok LessThanSym ''<'' # print_type pe u @
      tok RightShiftSym ''>>'' # rest)) =
    Some (Some (GenericType (NamedLinkedType b None) [u]), at_tokens (s\<lparr>pending_greater_count := 1\<rparr>) rest)"
  unfolding parseTypeLoc_def
  by (rule shift_inner[OF assms(1,2) _ assms(3)]) (simp add: type_fuel_def)

text \<open>The outer list, given the argument that the shift closed and what the list reads behind it.\<close>

lemma shift_outer:
  assumes "type_list CommaSym (parse_type_loc E n) n [] (at_tokens s ts) =
      Some (args, at_tokens (s\<lparr>pending_greater_count := 1\<rparr>) rest)"
    and "type_ends rest" and "pending_greater_count s = 0"
  shows "parse_type_loc E (Suc n) (at_tokens s (tok Identifier a # tok LessThanSym ''<'' # ts)) =
    Some (Some (GenericType (NamedLinkedType a None) args), at_tokens s rest)"
proof (rule parse_wrap[OF _ assms(2)])
  have "(s\<lparr>pending_greater_count := 1\<rparr>)\<lparr>remaining := rest, pending_greater_count := 0\<rparr> = at_tokens s rest"
    using assms(3) by simp
  then show "parseTypeLocNoPostOps E (parse_type_loc E n) n
      (at_tokens s (tok Identifier a # tok LessThanSym ''<'' # ts)) =
      Some (Some (GenericType (NamedLinkedType a None) args), at_tokens s rest)"
    using assms(1)
    by (simp add: prefix_simps named_type_def builtin_keywords_def parseGenericTypeAfterId_def
        close_generic_def consumeGenericClose_def)
qed

lemma shift_closes:
  assumes "printable ok (parent_chain E) u" and "pending_greater_count s = 0"
    and "type_ends rest" and "current_type rest \<noteq> CommaSym"
  shows "parseTypeLoc E (at_tokens s (tok Identifier a # tok LessThanSym ''<'' # tok Identifier b #
      tok LessThanSym ''<'' # print_type pe u @ tok RightShiftSym ''>>'' # rest)) =
    Some (Some (GenericType (NamedLinkedType a None) [GenericType (NamedLinkedType b None) [u]]),
      at_tokens s rest)"
proof -
  define n where "n = length (print_type pe u) + length rest + 5"
  have n: "n = Suc (n - 1)" by (simp add: n_def)
  have "type_list CommaSym (parse_type_loc E n) (Suc m) [] (at_tokens s (tok Identifier b #
      tok LessThanSym ''<'' # print_type pe u @ tok RightShiftSym ''>>'' # rest)) =
      Some ([GenericType (NamedLinkedType b None) [u]], at_tokens (s\<lparr>pending_greater_count := 1\<rparr>) rest)" for m
    using shift_inner[OF assms(1,2) _ assms(3), of n b] assms(4) by (simp add: current_at n_def)
  note shift_outer[OF this[of "n - 1", folded n] assms(3,2), of a]
  moreover have "type_fuel (at_tokens s (tok Identifier a # tok LessThanSym ''<'' # tok Identifier b #
      tok LessThanSym ''<'' # print_type pe u @ tok RightShiftSym ''>>'' # rest)) = Suc n"
    by (simp add: type_fuel_def n_def)
  ultimately show ?thesis by (simp add: parseTypeLoc_def)
qed

lemma shift_comma:
  assumes "printable ok (parent_chain E) u" and "pending_greater_count s = 0"
    and "type_ends rest" and "current_type rest \<noteq> CommaSym"
  shows "parseTypeLoc E (at_tokens s (tok Identifier a # tok LessThanSym ''<'' # tok Identifier b #
      tok LessThanSym ''<'' # print_type pe u @ tok RightShiftSym ''>>'' # tok CommaSym '','' #
      tok Identifier c # rest)) =
    Some (Some (GenericType (NamedLinkedType a None)
        [GenericType (NamedLinkedType b None) [u], NamedLinkedType c None]), at_tokens s rest)"
proof -
  define n where "n = length (print_type pe u) + length rest + 7"
  let ?s = "s\<lparr>pending_greater_count := 1\<rparr>"
  have n: "n = Suc (n - 1)" "n = Suc (Suc (n - 2))" by (simp_all add: n_def)
  have c: "parse_type_loc E (Suc k) (at_tokens ?s (tok Identifier c # rest)) =
      Some (Some (NamedLinkedType c None), at_tokens ?s rest)" for k
    using assms(3)
    by (intro parse_wrap) (auto simp: prefix_simps named_type_def builtin_keywords_def
        parseGenericTypeAfterId_def current_at type_ends_def)
  have "type_list CommaSym (parse_type_loc E n) (Suc (Suc m)) [] (at_tokens s (tok Identifier b #
      tok LessThanSym ''<'' # print_type pe u @ tok RightShiftSym ''>>'' # tok CommaSym '','' #
      tok Identifier c # rest)) =
      Some ([GenericType (NamedLinkedType b None) [u], NamedLinkedType c None], at_tokens ?s rest)" for m
    using shift_inner[OF assms(1,2), of n "tok CommaSym '','' # tok Identifier c # rest" b] assms(4)
      c[of "n - 1", folded n(1)]
    by (simp add: current_at type_ends_def n_def)
  note shift_outer[OF this[of "n - 2", folded n(2)] assms(3,2), of a]
  moreover have "type_fuel (at_tokens s (tok Identifier a # tok LessThanSym ''<'' # tok Identifier b #
      tok LessThanSym ''<'' # print_type pe u @ tok RightShiftSym ''>>'' # tok CommaSym '','' #
      tok Identifier c # rest)) = Suc n"
    by (simp add: type_fuel_def n_def)
  ultimately show ?thesis by (simp add: parseTypeLoc_def)
qed

end

end
