(* ===== verification/Type_Syntax.thy ===== *)
theory Type_Syntax
  imports Type_Printer
begin

text \<open>
  The parser of types over the parser of expressions: \<^verbatim>\<open>parseExpression\<close> as far as array sizes and
  default values of numbers and operators go, its promise to the parser of types, and what follows
  for types: the round trip, returning, \<^verbatim>\<open>>>\<close>, the suffixes and type expressions.
\<close>

subsection \<open>Expressions in types\<close>

text \<open>
  \<^verbatim>\<open>parseExpression\<close> from its first operand on: no operand, no expression; otherwise the operators
  decide. (The beginning with a parenthesis is not modelled.)
\<close>

definition parseExpression_operand ::
  "(token list \<Rightarrow> 'v option \<times> token list) \<Rightarrow> type_parser \<Rightarrow> ('v expr option \<times> type_parser) option" where
  "parseExpression_operand parse_value s =
     (case parse_value (remaining s) of
        (None, ts) \<Rightarrow> Some (None, s\<lparr>remaining := ts\<rparr>)
      | (Some v, ts) \<Rightarrow>
          (case parseRemainingExpression parse_value v ts of
             None \<Rightarrow> None
           | Some (Made e, ts') \<Rightarrow> Some (Some e, s\<lparr>remaining := ts'\<rparr>)
           | Some (_, ts') \<Rightarrow> Some (None, s\<lparr>remaining := ts'\<rparr>)))"

definition value_env ::
  "(type_parser \<Rightarrow> ('m \<times> type_parser) option) \<Rightarrow> (string expr, 'm) ancestor list \<Rightarrow> u32 \<Rightarrow>
   location_manager \<Rightarrow> (string expr, 'm) parser_env" where
  "value_env members up fid man =
     \<lparr>parse_expression = parseExpression_operand number_operand, parse_members = members,
      parent_chain = up, source_file = fid, location_man = man\<rparr>"

definition op_token :: "operation \<Rightarrow> token_type option" where
  "op_token = map_of (map prod.swap operation_tokens)"

definition op_tokens :: "operation \<Rightarrow> token list" where
  "op_tokens op = (case op_token op of Some ty \<Rightarrow> [tok ty []] | None \<Rightarrow> [])"

fun print_size :: "string expr \<Rightarrow> token list" where
  "print_size (Leaf v) = [tok Number v]"
| "print_size (Expression l r op) = print_size l @ op_tokens op @ print_size r"

definition size_ok :: "string expr \<Rightarrow> bool" where
  "size_ok e \<longleftrightarrow> well_grouped goes_first e \<and> list_all (\<lambda>op. op_token op \<noteq> None) (expr_ops e)"

fun rest_tokens :: "operation list \<Rightarrow> string list \<Rightarrow> token list" where
  "rest_tokens (op # ops) (v # vs) = op_tokens op @ tok Number v # rest_tokens ops vs"
| "rest_tokens _ _ = []"

lemma values_nonempty: "expr_values e \<noteq> []"
  using length_expr_values[of e] by (cases "expr_values e") auto

lemma rest_tokens_append:
  "length ops = length vs \<Longrightarrow> rest_tokens (ops @ ops') (vs @ vs') = rest_tokens ops vs @ rest_tokens ops' vs'"
  by (induction ops vs rule: list_induct2) auto

lemma print_size_flat:
  "print_size e = tok Number (hd (expr_values e)) # rest_tokens (expr_ops e) (tl (expr_values e))"
proof (induction e)
  case (Expression l r op)
  obtain v vs where l: "expr_values l = v # vs" using values_nonempty by (cases "expr_values l") auto
  obtain w ws where r: "expr_values r = w # ws" using values_nonempty by (cases "expr_values r") auto
  have "length vs = length (expr_ops l)" using length_expr_values[of l] l by simp
  then show ?case using Expression l r by (simp add: rest_tokens_append)
qed simp

lemma op_token_back: "op_token op = Some ty \<Longrightarrow> map_of operation_tokens ty = Some op"
proof -
  have "list_all (\<lambda>(ty, op). map_of operation_tokens ty = Some op) operation_tokens"
    by (simp add: operation_tokens_def)
  then show "op_token op = Some ty \<Longrightarrow> map_of operation_tokens ty = Some op"
    by (auto simp: op_token_def list_all_iff dest!: map_of_SomeD)
qed

lemma parseOperation_back:
  "op_token op \<noteq> None \<Longrightarrow> parseOperation (op_tokens op @ ts) = (Some op, ts)"
  by (auto simp: op_tokens_def parseOperation_def op_token_back)

lemma number_read [simp]: "number_operand (tok Number v # ts) = (Some v, ts)"
  by (simp add: number_operand_def)

lemma no_new_line [simp]: "ty \<noteq> NewLine \<Longrightarrow> consumeNewLines (tok ty v # ts) = tok ty v # ts"
  by simp

lemma sizes_end:
  assumes "current_type rest \<in> {RBracket, CommaSym, RParen}"
  shows "fst (parseOperation rest) = None" and "parseOperation rest = (None, rest)"
    and "current_type rest \<noteq> LParen"
  using assms by (auto simp: parseOperation_def operation_tokens_def)

lemma sizes_stream:
  assumes "current_type rest \<in> {RBracket, CommaSym, RParen}" and "length ops = length vs"
    and "list_all (\<lambda>op. op_token op \<noteq> None) ops"
  shows "operand_stream number_operand (tok Number v # rest_tokens ops vs @ rest) (v # vs) ops rest"
  using assms(2,3)
proof (induction ops vs arbitrary: v rule: list_induct2)
  case Nil
  then show ?case using sizes_end[OF assms(1)] by (intro stream_end) auto
next
  case (Cons op ops w vs)
  then show ?case
    by (intro stream_step[where op = op and ?ts1.0 = "rest_tokens (op # ops) (w # vs) @ rest"])
      (auto simp: parseOperation_back)
qed

lemma size_back:
  assumes "size_ok e" and "current_type rest \<in> {RBracket, CommaSym, RParen}"
  shows "parseExpression_operand number_operand (at_tokens s (print_size e @ rest)) = Some (Some e, at_tokens s rest)"
proof -
  obtain v vs where e: "expr_values e = v # vs" using values_nonempty by (cases "expr_values e") auto
  have len: "length (expr_ops e) = length vs" using length_expr_values[of e] e by simp
  have "parseRemainingExpression number_operand v (rest_tokens (expr_ops e) vs @ rest) = Some (Made e, rest)"
  proof (cases "expr_ops e")
    case Nil
    then have "e = Leaf v" using e by (cases e) auto
    then show ?thesis using sizes_end[OF assms(2)] by (simp add: parseRemainingExpression_def)
  next
    case (Cons op ops)
    then obtain w ws where vs: "vs = w # ws" using len by (cases vs) auto
    have stream: "operand_stream number_operand (tok Number w # rest_tokens ops ws @ rest) (w # ws) ops rest"
      using assms(1) len Cons vs by (intro sizes_stream[OF assms(2)]) (auto simp: size_ok_def)
    have "parseOperation (rest_tokens (expr_ops e) vs @ rest) =
        (Some op, tok Number w # rest_tokens ops ws @ rest)"
      using assms(1) Cons vs by (simp add: parseOperation_back size_ok_def)
    from operands_grouped[OF this stream, of v] obtain t where
      t: "parseRemainingExpression number_operand v (rest_tokens (expr_ops e) vs @ rest) = Some (Made t, rest)"
      "\<forall>t'. expr_values t' = v # w # ws \<and> expr_ops t' = op # ops \<and> well_grouped goes_first t' \<longrightarrow> t' = t"
      by blast
    have "e = t" using t(2) e vs Cons assms(1) by (auto simp: size_ok_def)
    then show ?thesis using t(1) by simp
  qed
  then show ?thesis using e by (simp add: parseExpression_operand_def print_size_flat)
qed

interpretation sizes: expression_syntax "value_env members up fid man" print_size size_ok
  for members up fid man
proof unfold_locales
  fix s :: type_parser and v ts
  show "parse_expression (value_env members up fid man) (at_tokens s (tok RBracket v # ts)) =
      Some (None, at_tokens s (tok RBracket v # ts))"
    by (simp add: value_env_def parseExpression_operand_def number_operand_def)
qed (simp add: value_env_def size_back)

subsection \<open>Returning\<close>

lemma number_operand_takes: "takes_tokens number_operand"
  by (auto simp: takes_tokens_def number_operand_def current_type_def split: list.splits)

lemma value_env_returns:
  assumes "\<And>s. settles snd (len s) (members s)"
  shows "env_returns (value_env members up fid man)"
proof -
  have "settles snd (len s) (parseExpression_operand number_operand s)" for s
  proof -
    obtain r ts where r: "number_operand (remaining s) = (r, ts)" by fastforce
    show ?thesis
    proof (cases r)
      case None
      then show ?thesis using takes_tokensD(2)[OF number_operand_takes r[unfolded None]] r
        by (simp add: parseExpression_operand_def)
    next
      case (Some v)
      obtain e ts' where "parseRemainingExpression number_operand v ts = Some (e, ts')" "length ts' \<le> length ts"
        using parseRemainingExpression_returns[OF number_operand_takes] by blast
      then show ?thesis
        using takes_tokensD(1)[OF number_operand_takes r[unfolded Some]] r Some
        by (cases e) (simp_all add: parseExpression_operand_def)
    qed
  qed
  then show ?thesis using assms by (simp add: env_returns_def value_env_def)
qed

text \<open>
  C17. The parser of types returns on every list of tokens, whatever stands in it, provided the
  parser of expressions and of members do; it never goes back in the tokens, and when it finds no
  type it has taken none.
\<close>

theorem type_parser_returns:
  assumes "env_returns E"
  shows "\<exists>t s'. parseTypeLoc E s = Some (t, s') \<and> length (remaining s') \<le> length (remaining s) \<and>
    (t = None \<longrightarrow> s' = s)"
proof -
  have "settles snd (len s) (parseTypeLoc E s)"
    using parse_type_loc_good[OF assms, of "type_fuel s"]
    by (auto simp: parseTypeLoc_def good_def type_fuel_def)
  then obtain t s' where t: "parseTypeLoc E s = Some (t, s')" "len s' \<le> len s"
    by (auto simp: settles_def)
  moreover have "s' = s" if "t = None"
    using t(1) that by (auto simp: parseTypeLoc_def type_fuel_def intro: null_takes_nothing)
  ultimately show ?thesis by blast
qed

theorem type_parser_returns_witness:
  "\<exists>t s'. parseTypeLoc (value_env (\<lambda>s. Some ((), s)) [] 0 \<lparr>locations = [], file_paths = []\<rparr>)
      \<lparr>remaining = [tok DynKw ''dyn'', tok LessThanSym ''<''], pending_greater_count = 0, messages = []\<rparr> =
      Some (t, s') \<and>
    length (remaining s') \<le> length (remaining \<lparr>remaining = [tok DynKw ''dyn'', tok LessThanSym ''<''],
      pending_greater_count = 0, messages = []\<rparr>) \<and>
    (t = None \<longrightarrow> s' = \<lparr>remaining = [tok DynKw ''dyn'', tok LessThanSym ''<''],
      pending_greater_count = 0, messages = []\<rparr>)"
  by (rule type_parser_returns, rule value_env_returns) simp

subsection \<open>The round trip\<close>

text \<open>
  C8. A type written as tokens is read back as it was, up to the token behind it: names and their
  arguments, pointers, references, arrays with the expressions of their sizes, function types with
  their parameters, and the types behind a percent sign.
\<close>

theorem type_round_trip:
  assumes "printable size_ok up t" and "type_ends rest" and "pending_greater_count s = 0"
  shows "parseTypeLoc (value_env members up fid man) (s\<lparr>remaining := print_type print_size t @ rest\<rparr>) =
    Some (Some t, s\<lparr>remaining := rest\<rparr>)"
  using sizes.printed_back[where members = members and up = up and fid = fid and man = man] assms
  by (simp add: value_env_def)

text \<open>\<^verbatim>\<open>(&mut self, f : [2 + 3 * 4]*mut std::map<i64, A<>>...) => dyn B\<close>\<close>

definition example_type :: "(string expr, unit) type_tree" where
  "example_type = FunctionType
     [FunctionParam ''self'' (Some (ReferenceType (BuiltinType VoidB) True)) 0 None True,
      FunctionParam ''f'' (Some (ArrayType
        (PointerType (GenericType (LinkedValueType [''std'', ''map''])
           [BuiltinType (IntNB KI64), GenericType (NamedLinkedType ''A'' None) []]) True)
        (Some (Expression (Leaf ''2'') (Expression (Leaf ''3'') (Leaf ''4'') Multiplication) Addition))))
        1 None False]
     (DynamicType (NamedLinkedType ''B'' None)) True False"

theorem type_round_trip_witness:
  "parseTypeLoc (value_env (\<lambda>s. Some ((), s)) [] 0 \<lparr>locations = [], file_paths = []\<rparr>)
      \<lparr>remaining = print_type print_size example_type @ [tok SemiColonSym '';''],
       pending_greater_count = 0, messages = []\<rparr> =
    Some (Some example_type,
      \<lparr>remaining = [tok SemiColonSym '';''], pending_greater_count = 0, messages = []\<rparr>)"
proof -
  have "printable size_ok [] example_type"
    by (simp add: example_type_def size_ok_def goes_first_def op_token_def operation_tokens_def
        to_precedence_simps plain_param_def upt_rec)
  from type_round_trip[OF this, of "[tok SemiColonSym '';'']"
      "\<lparr>remaining = [], pending_greater_count = 0, messages = []\<rparr>" "\<lambda>s. Some ((), s)" 0
      "\<lparr>locations = [], file_paths = []\<rparr>"]
  show ?thesis by (simp add: type_ends_def)
qed

subsection \<open>One token for two closing brackets\<close>

text \<open>
  C29. Where \<^verbatim>\<open>A<B<u>>\<close> is followed by neither a comma nor a suffix, the one token \<^verbatim>\<open>>>\<close> closes both
  generic types, and nothing is owed afterwards.
\<close>

theorem shift_closes_two:
  assumes "printable size_ok up u" and "pending_greater_count s = 0"
    and "type_ends rest" and "current_type rest \<noteq> CommaSym"
  shows "parseTypeLoc (value_env members up fid man)
      (s\<lparr>remaining := tok Identifier a # tok LessThanSym ''<'' # tok Identifier b # tok LessThanSym ''<'' #
         print_type print_size u @ tok RightShiftSym ''>>'' # rest\<rparr>) =
    Some (Some (GenericType (NamedLinkedType a None) [GenericType (NamedLinkedType b None) [u]]),
      s\<lparr>remaining := rest\<rparr>)"
  by (rule sizes.shift_closes) (simp_all add: assms value_env_def)

theorem shift_closes_two_witness:
  "parseTypeLoc (value_env (\<lambda>s. Some ((), s)) [] 0 \<lparr>locations = [], file_paths = []\<rparr>)
      (\<lparr>remaining = [], pending_greater_count = 0, messages = []\<rparr>\<lparr>remaining :=
         tok Identifier ''A'' # tok LessThanSym ''<'' # tok Identifier ''B'' # tok LessThanSym ''<'' #
         print_type print_size (BuiltinType BoolB :: (string expr, unit) type_tree) @ tok RightShiftSym ''>>'' # [tok RParen '')'']\<rparr>) =
    Some (Some (GenericType (NamedLinkedType ''A'' None) [GenericType (NamedLinkedType ''B'' None) [BuiltinType BoolB]]),
      \<lparr>remaining = [], pending_greater_count = 0, messages = []\<rparr>\<lparr>remaining := [tok RParen '')'']\<rparr>)"
  by (rule shift_closes_two) (simp_all add: type_ends_def)

text \<open>
  A comma behind that token is taken for the outer type's list, although the type is closed: in
  \<^verbatim>\<open>(x : A<B<u>>, c : int)\<close> the name of the second parameter becomes an argument of \<^verbatim>\<open>A\<close>.
\<close>

theorem shift_takes_comma:
  assumes "printable size_ok up u" and "pending_greater_count s = 0"
    and "type_ends rest" and "current_type rest \<noteq> CommaSym"
  shows "parseTypeLoc (value_env members up fid man)
      (s\<lparr>remaining := tok Identifier a # tok LessThanSym ''<'' # tok Identifier b # tok LessThanSym ''<'' #
         print_type print_size u @ tok RightShiftSym ''>>'' # tok CommaSym '','' # tok Identifier c # rest\<rparr>) =
    Some (Some (GenericType (NamedLinkedType a None)
        [GenericType (NamedLinkedType b None) [u], NamedLinkedType c None]), s\<lparr>remaining := rest\<rparr>)"
  by (rule sizes.shift_comma) (simp_all add: assms value_env_def)

theorem shift_takes_comma_witness:
  "parseTypeLoc (value_env (\<lambda>s. Some ((), s)) [] 0 \<lparr>locations = [], file_paths = []\<rparr>)
      (\<lparr>remaining = [], pending_greater_count = 0, messages = []\<rparr>\<lparr>remaining :=
         tok Identifier ''A'' # tok LessThanSym ''<'' # tok Identifier ''B'' # tok LessThanSym ''<'' #
         print_type print_size (BuiltinType BoolB :: (string expr, unit) type_tree) @ tok RightShiftSym ''>>'' # tok CommaSym '','' #
         tok Identifier ''y'' # [tok ColonSym '':'']\<rparr>) =
    Some (Some (GenericType (NamedLinkedType ''A'' None)
        [GenericType (NamedLinkedType ''B'' None) [BuiltinType BoolB], NamedLinkedType ''y'' None]),
      \<lparr>remaining = [], pending_greater_count = 0, messages = []\<rparr>\<lparr>remaining := [tok ColonSym '':'']\<rparr>)"
  by (rule shift_takes_comma) (simp_all add: type_ends_def)

text \<open>
  A type closed once too often leaves the parser owing a bracket without a message, and the
  next generic type may then leave its own out.
\<close>

theorem extra_close_owed:
  assumes "printable size_ok up u" and "pending_greater_count s = 0"
    and "type_ends rest"
  shows "parseTypeLoc (value_env members up fid man)
      (s\<lparr>remaining := tok Identifier b # tok LessThanSym ''<'' #
         print_type print_size u @ tok RightShiftSym ''>>'' # rest\<rparr>) =
    Some (Some (GenericType (NamedLinkedType b None) [u]),
      s\<lparr>remaining := rest, pending_greater_count := 1\<rparr>)"
  using sizes.shift_owes[where members = members and up = up and fid = fid and man = man] assms
  by (simp add: value_env_def)

subsection \<open>Pointers behind a type\<close>

text \<open>
  The location of a sign of one character is never zero: its end is behind its start, or it is in
  the side table.
\<close>

lemma packed_end: "ce \<noteq> 0 \<Longrightarrow> pack_location fid ls cs le ce \<noteq> 0"
proof
  assume "ce \<noteq> 0" "pack_location fid ls cs le ce = 0"
  then have "(ucast ce :: u64) = 0" by (simp add: pack_location_def or_eq_0_iff)
  then have "ce = ucast (0 :: u64)" by (metis ucast_u64_u32)
  with \<open>ce \<noteq> 0\<close> show False by simp
qed

lemma next_not_zero:
  assumes "(w :: u32) \<le> MAX_CHAR_START"
  shows "w + 1 \<noteq> 0"
proof
  assume "w + 1 = 0"
  then have "w = - 1" by (simp add: add_eq_0_iff2)
  then have "unat w = 2 ^ 32 - 1" by (simp add: unsigned_minus_1_eq_mask mask_eq_exp_minus_1)
  moreover have "unat w \<le> 4095" using assms by (simp add: location_bits word_le_nat_alt)
  ultimately show False by simp
qed

lemma loc_single_nonzero:
  assumes "length (tok_value k) = 1"
  shows "loc_single E k \<noteq> 0"
proof -
  have "fst (addLocation m fid ls cs ls (cs + 1)) \<noteq> 0" for m fid ls cs
  proof (cases "fits_packed fid ls cs ls (cs + 1)")
    case True
    then show ?thesis
      using packed_end[OF next_not_zero] by (simp add: addLocation_def fits_packed_def)
  next
    case False
    then show ?thesis by (simp add: addLocation_def Let_def INDICATOR_BIT_MASK_def or_eq_0_iff)
  qed
  then show ?thesis using assms by (simp add: loc_single_def Let_def)
qed

text \<open>
  A pointer written behind its type is mutable, although no \<^verbatim>\<open>mut\<close> is written: where the flag
  belongs the parser passes the location of the star, which is never zero.
\<close>

theorem suffix_pointer_mutable:
  assumes "tok_type name = Identifier" and "tok_type star = MultiplySym" and "length (tok_value star) = 1"
    and "current_type rest \<notin> {MultiplySym, AmpersandSym}"
  shows "parseTypeLoc E (s\<lparr>remaining := name # star # rest\<rparr>) =
    Some (Some (PointerType (NamedLinkedType (tok_value name) None) True),
      s\<lparr>remaining := rest,
        messages := messages s @ [(DiagWarning, ''deprecated syntax, pointer should be before type'')]\<rparr>)"
proof -
  let ?s = "s\<lparr>remaining := name # star # rest\<rparr>" and ?star = "s\<lparr>remaining := star # rest\<rparr>"
  let ?after = "s\<lparr>remaining := rest,
        messages := messages s @ [(DiagWarning, ''deprecated syntax, pointer should be before type'')]\<rparr>"
  have cur: "current ?s = Identifier" "current ?star = MultiplySym"
    using assms(1,2) by (simp_all add: current_def current_type_def)
  have "parseTypeLocNoPostOps E p n ?s = Some (Some (NamedLinkedType (tok_value name) None), ?star)" for p n
    using cur by (simp add: parseTypeLocNoPostOps_def named_type_def consumeIdentifierOrKeyword_def
        builtin_keywords_def parseGenericTypeAfterId_def current_value_def advance_def)
  moreover have stop: "pointer_suffixes E t ?after = (t, ?after)" for t
    using assms(4) by (subst pointer_suffixes.simps) (simp add: current_def)
  have "pointer_suffixes E t ?star = pointer_suffixes E (PointerType t True) ?after" for t
    using cur(2) loc_single_nonzero[OF assms(3), of E]
    by (subst pointer_suffixes.simps) (simp add: location_flag_def parse_warning_def advance_def)
  then have "parseArrayAndPointerTypesAfterTypeId E (Suc n) t ?star = Some (PointerType t True, ?after)" for n t
    using cur(2) assms(4) stop
    by (simp add: parseArrayAndPointerTypesAfterTypeId_def reference_suffix_def current_def)
  ultimately show ?thesis
    by (simp add: parseTypeLoc_def type_fuel_def parse_type_loc.simps)
qed

theorem suffix_pointer_mutable_witness:
  "parseTypeLoc (value_env (\<lambda>s. Some ((), s)) [] 0 \<lparr>locations = [], file_paths = []\<rparr>)
      (\<lparr>remaining = [], pending_greater_count = 0, messages = []\<rparr>\<lparr>remaining :=
         tok Identifier ''Phone'' # tok MultiplySym ''*'' # [tok RParen '')'']\<rparr>) =
    Some (Some (PointerType (NamedLinkedType (tok_value (tok Identifier ''Phone'')) None) True),
      \<lparr>remaining = [], pending_greater_count = 0, messages = []\<rparr>\<lparr>remaining := [tok RParen '')''],
        messages := messages \<lparr>remaining = [], pending_greater_count = 0, messages = []\<rparr> @
          [(DiagWarning, ''deprecated syntax, pointer should be before type'')]\<rparr>)"
  by (rule suffix_pointer_mutable) simp_all

subsection \<open>Type expressions\<close>

text \<open>A type expression as a tree over its operands, with the operators of value expressions.\<close>

fun tree_of :: "('e, 'm) type_tree \<Rightarrow> ('e, 'm) type_tree expr" where
  "tree_of (ExpressionType first second is_and) =
     Expression (tree_of first) (tree_of second) (if is_and then LogicalAND else LogicalOR)"
| "tree_of t = Leaf t"

definition operand_tokens :: "bool \<times> (string expr, 'm) type_tree \<Rightarrow> token list" where
  "operand_tokens bt =
     (case bt of (b, t) \<Rightarrow>
        (if b then tok LogicalAndSym ''&&'' else tok LogicalOrSym ''||'') # print_type print_size t)"

abbreviation logical_op :: "bool \<Rightarrow> operation" where
  "logical_op b \<equiv> (if b then LogicalAND else LogicalOR)"

lemma printable_leaf: "printable ok up t \<Longrightarrow> tree_of t = Leaf t"
  by (cases t) auto

lemma goes_first_logical [simp]:
  "goes_first LogicalAND LogicalAND" "\<not> goes_first LogicalAND LogicalOR"
  "goes_first LogicalOR LogicalAND" "goes_first LogicalOR LogicalOR"
  by (simp_all add: goes_first_def to_precedence_simps assoc_by_precedence)

lemma tree_cases:
  obtains (leaf) "tree_of t = Leaf t" | (node) x y c where "t = ExpressionType x y c"
  by (cases t) auto

lemma add_operand_leaf: "tree_of r = Leaf r \<Longrightarrow> add_operand b r t = ExpressionType r t b"
  by (cases r) auto

lemma add_operand_grouped:
  assumes "well_grouped goes_first (tree_of r)" and "tree_of t = Leaf t"
  shows "well_grouped goes_first (tree_of (add_operand b r t))"
    and "expr_values (tree_of (add_operand b r t)) = expr_values (tree_of r) @ [t]"
    and "expr_ops (tree_of (add_operand b r t)) = expr_ops (tree_of r) @ [logical_op b]"
proof -
  have "well_grouped goes_first (tree_of (add_operand b r t)) \<and>
    expr_values (tree_of (add_operand b r t)) = expr_values (tree_of r) @ [t] \<and>
    expr_ops (tree_of (add_operand b r t)) = expr_ops (tree_of r) @ [logical_op b]"
  proof (cases r rule: tree_cases)
    case leaf
    then show ?thesis using assms by (simp add: add_operand_leaf)
  next
    case (node x y c)
    then show ?thesis using assms by (cases y rule: tree_cases; cases b; cases c) (auto split: if_splits)
  qed
  then show "well_grouped goes_first (tree_of (add_operand b r t))"
    and "expr_values (tree_of (add_operand b r t)) = expr_values (tree_of r) @ [t]"
    and "expr_ops (tree_of (add_operand b r t)) = expr_ops (tree_of r) @ [logical_op b]" by auto
qed

lemma first_operand:
  assumes "tree_of first = Leaf first"
  shows "parseExpressionType p n first s = expression_operands p (Suc n) first s"
  unfolding parseExpressionType_def expression_operands.simps add_operand_leaf[OF assms] ..

definition type_operand_ok :: "(string expr, 'm) ancestor list \<Rightarrow> bool \<times> (string expr, 'm) type_tree \<Rightarrow> bool" where
  "type_operand_ok up bt \<longleftrightarrow> printable size_ok up (snd bt)"

lemma operand_step:
  assumes "p (at_tokens s (print_type print_size t @ ts)) = Some (Some t, s')"
  shows "expression_operands p (Suc m) r (at_tokens s (operand_tokens (b, t) @ ts)) =
    expression_operands p m (add_operand b r t) s'"
  using assms by (cases b) (simp_all add: operand_tokens_def)

lemma operands_back:
  assumes "pending_greater_count s = 0" and "type_ends rest"
    and "current_type rest \<notin> {LogicalAndSym, LogicalOrSym}"
  shows "list_all (type_operand_ok up) bts \<Longrightarrow> length bts < n \<Longrightarrow> well_grouped goes_first (tree_of r) \<Longrightarrow>
    \<exists>r'. expression_operands (parseTypeLoc (value_env members up fid man)) n r
        (at_tokens s (concat (map operand_tokens bts) @ rest)) = Some (r', at_tokens s rest) \<and>
      well_grouped goes_first (tree_of r') \<and>
      expr_values (tree_of r') = expr_values (tree_of r) @ map snd bts \<and>
      expr_ops (tree_of r') = expr_ops (tree_of r) @ map (logical_op \<circ> fst) bts"
proof (induction bts arbitrary: n r)
  case Nil
  then show ?case using assms(3) by (cases n) (auto simp: current_at)
next
  case (Cons bt bts)
  obtain b t where bt: "bt = (b, t)" by fastforce
  obtain m where n: "n = Suc m" using Cons.prems(2) by (cases n) auto
  have t: "printable size_ok up t" using Cons.prems(1) by (simp add: bt type_operand_ok_def)
  have ends: "type_ends (concat (map operand_tokens bts) @ rest)"
    using assms(2) by (cases bts) (auto simp: type_ends_def operand_tokens_def split: prod.splits)
  have step: "parseTypeLoc (value_env members up fid man)
      (at_tokens s (print_type print_size t @ concat (map operand_tokens bts) @ rest)) =
      Some (Some t, at_tokens s (concat (map operand_tokens bts) @ rest))"
    using sizes.printed_back[where members = members and up = up and fid = fid and man = man] t ends assms(1)
    by (simp add: value_env_def)
  obtain r' where r': "expression_operands (parseTypeLoc (value_env members up fid man)) m (add_operand b r t)
        (at_tokens s (concat (map operand_tokens bts) @ rest)) = Some (r', at_tokens s rest)"
      "well_grouped goes_first (tree_of r')"
      "expr_values (tree_of r') = expr_values (tree_of (add_operand b r t)) @ map snd bts"
      "expr_ops (tree_of r') = expr_ops (tree_of (add_operand b r t)) @ map (logical_op \<circ> fst) bts"
    using Cons.IH[of m "add_operand b r t"] Cons.prems n add_operand_grouped(1)[OF Cons.prems(3) printable_leaf[OF t]]
    by auto
  moreover have "expression_operands (parseTypeLoc (value_env members up fid man)) n r
        (at_tokens s (concat (map operand_tokens (bt # bts)) @ rest)) =
      expression_operands (parseTypeLoc (value_env members up fid man)) m (add_operand b r t)
        (at_tokens s (concat (map operand_tokens bts) @ rest))"
    using operand_step[of "parseTypeLoc (value_env members up fid man)", OF step] by (simp add: n bt)
  ultimately show ?case
    using add_operand_grouped(2,3)[OF Cons.prems(3) printable_leaf[OF t], of b]
    by (intro exI[of _ r']) (simp add: bt)
qed

text \<open>
  C18. Type expressions group as value expressions do: behind a first type, operands separated by
  \<^verbatim>\<open>&&\<close> and \<^verbatim>\<open>||\<close> are read into a type over exactly these operands and operators in order, whose
  tree obeys the precedence of the operators; it is the only such tree.
\<close>

theorem type_operators_group:
  assumes "printable size_ok up first" and "list_all (type_operand_ok up) bts" and "type_ends rest" and "current_type rest \<notin> {LogicalAndSym, LogicalOrSym}"
    and "pending_greater_count s = 0"
  shows "\<exists>r. parseExpressionType (parseTypeLoc (value_env members up fid man)) (length bts) first
      (s\<lparr>remaining := concat (map operand_tokens bts) @ rest\<rparr>) = Some (r, s\<lparr>remaining := rest\<rparr>) \<and>
    expr_values (tree_of r) = first # map snd bts \<and>
    expr_ops (tree_of r) = map (\<lambda>bt. if fst bt then LogicalAND else LogicalOR) bts \<and>
    well_grouped goes_first (tree_of r) \<and>
    (\<forall>t. expr_values t = expr_values (tree_of r) \<and> expr_ops t = expr_ops (tree_of r) \<and>
       well_grouped goes_first t \<longrightarrow> t = tree_of r)"
proof -
  have leaf: "tree_of first = Leaf first" using assms(1) by (rule printable_leaf)
  have "\<exists>r. expression_operands (parseTypeLoc (value_env members up fid man)) (Suc (length bts)) first
      (at_tokens s (concat (map operand_tokens bts) @ rest)) = Some (r, at_tokens s rest) \<and>
      well_grouped goes_first (tree_of r) \<and>
      expr_values (tree_of r) = first # map snd bts \<and> expr_ops (tree_of r) = map (logical_op \<circ> fst) bts"
    using operands_back[OF assms(5,3,4,2), of "Suc (length bts)" first] leaf by simp
  then obtain r where r: "expression_operands (parseTypeLoc (value_env members up fid man)) (Suc (length bts)) first
      (at_tokens s (concat (map operand_tokens bts) @ rest)) = Some (r, at_tokens s rest)"
      "well_grouped goes_first (tree_of r)"
      "expr_values (tree_of r) = first # map snd bts" "expr_ops (tree_of r) = map (logical_op \<circ> fst) bts"
    by blast
  have result: "parseExpressionType (parseTypeLoc (value_env members up fid man)) (length bts) first
      (at_tokens s (concat (map operand_tokens bts) @ rest)) = Some (r, at_tokens s rest)"
    unfolding first_operand[OF leaf] by (rule r(1))
  have unique: "t = tree_of r" if "expr_values t = expr_values (tree_of r)" "expr_ops t = expr_ops (tree_of r)"
    "well_grouped goes_first t" for t
    by (rule operators.grouping_unique[unfolded yields_to_goes_first, OF that(3) r(2) that(1,2)])
  have ops: "expr_ops (tree_of r) = map (\<lambda>bt. logical_op (fst bt)) bts" using r(4) by (simp add: comp_def)
  show ?thesis
    by (intro exI[of _ r] conjI allI impI result r(2,3) ops unique) (elim conjE; assumption)+
qed

text \<open>\<^verbatim>\<open>A || B && C\<close>, behind \<^verbatim>\<open>A\<close>\<close>

definition example_operands :: "(bool \<times> (string expr, unit) type_tree) list" where
  "example_operands = [(False, NamedLinkedType ''B'' None), (True, NamedLinkedType ''C'' None)]"

theorem type_operators_group_witness:
  "\<exists>r. parseExpressionType (parseTypeLoc (value_env (\<lambda>s. Some ((), s)) [] 0 \<lparr>locations = [], file_paths = []\<rparr>))
      (length example_operands) (NamedLinkedType ''A'' None)
      (\<lparr>remaining = [], pending_greater_count = 0, messages = []\<rparr>\<lparr>remaining :=
         concat (map operand_tokens example_operands) @ [tok SemiColonSym '';'']\<rparr>) =
      Some (r, \<lparr>remaining = [], pending_greater_count = 0, messages = []\<rparr>\<lparr>remaining := [tok SemiColonSym '';'']\<rparr>) \<and>
    expr_values (tree_of r) = NamedLinkedType ''A'' None # map snd example_operands \<and>
    expr_ops (tree_of r) = map (\<lambda>bt. if fst bt then LogicalAND else LogicalOR) example_operands \<and>
    well_grouped goes_first (tree_of r) \<and>
    (\<forall>t. expr_values t = expr_values (tree_of r) \<and> expr_ops t = expr_ops (tree_of r) \<and>
       well_grouped goes_first t \<longrightarrow> t = tree_of r)"
  by (rule type_operators_group) (simp_all add: example_operands_def type_operand_ok_def type_ends_def)

end
