(* ===== verification/Buffered_Writer.thy ===== *)
theory Buffered_Writer
  imports Prelude
begin

text \<open>
  The writer behind the C backend and the mangler: \<^verbatim>\<open>preprocess/2c/BufferedWriter.h\<close>. The state is
  the memory (its length is the capacity), the position and whether the memory is owned. Writing
  behind the capacity is an outcome of its own, and so is the abort when memory cannot be had.
  Sizes are the numbers below $2^{64}$ with the wrap-around of \<^verbatim>\<open>size_t\<close>. The allocator is a
  parameter: which sizes it grants and what fresh memory holds.
\<close>

record buffered_writer =
  buf :: string
  pos :: nat
  owned :: bool

record allocator =
  grants :: "nat \<Rightarrow> bool"
  fresh :: "nat \<Rightarrow> char"

datatype 'a write_result = Written 'a | Aborted | OutOfBounds | Diverges

fun bind_write :: "'a write_result \<Rightarrow> ('a \<Rightarrow> 'b write_result) \<Rightarrow> 'b write_result" where
  "bind_write (Written a) f = f a"
| "bind_write Aborted f = Aborted"
| "bind_write OutOfBounds f = OutOfBounds"
| "bind_write Diverges f = Diverges"

definition cap :: "buffered_writer \<Rightarrow> nat" where
  "cap w = length (buf w)"

definition size_wrap :: "nat \<Rightarrow> nat" where
  "size_wrap n = n mod 2 ^ 64"

definition SIZE_MAX :: nat where
  "SIZE_MAX = 2 ^ 64 - 1"

text \<open>The text written so far.\<close>

definition writer_text :: "buffered_writer \<Rightarrow> string" where
  "writer_text w = take (pos w) (buf w)"

subsection \<open>Construction and memory\<close>

definition stack_writer :: "string \<Rightarrow> buffered_writer" where
  "stack_writer array = \<lparr>buf = array, pos = 0, owned = False\<rparr>"

definition fresh_memory :: "allocator \<Rightarrow> nat \<Rightarrow> nat \<Rightarrow> string" where
  "fresh_memory M i n = map (fresh M) [i..<n]"

definition heap_writer :: "allocator \<Rightarrow> nat \<Rightarrow> buffered_writer" where
  "heap_writer M initial_capacity =
     (let n = (if initial_capacity = 0 then 4194304 else initial_capacity) in
      if grants M n then \<lparr>buf = fresh_memory M 0 n, pos = 0, owned = True\<rparr>
      else \<lparr>buf = [], pos = 0, owned = False\<rparr>)"

text \<open>
  \<^verbatim>\<open>realloc\<close> keeps what the memory holds; memory that is not owned is copied up to the position.
\<close>

definition grow_memory :: "allocator \<Rightarrow> nat \<Rightarrow> buffered_writer \<Rightarrow> buffered_writer" where
  "grow_memory M n w =
     (if owned w then w\<lparr>buf := buf w @ fresh_memory M (cap w) n\<rparr>
      else w\<lparr>buf := take (pos w) (buf w) @ fresh_memory M (pos w) n, owned := True\<rparr>)"

definition reserve_total :: "allocator \<Rightarrow> nat \<Rightarrow> buffered_writer \<Rightarrow> bool \<times> buffered_writer" where
  "reserve_total M new_capacity w =
     (if new_capacity \<le> cap w then (True, w)
      else if grants M new_capacity then (True, grow_memory M new_capacity w)
      else (False, w))"

text \<open>The doubling loop; from zero it never ends.\<close>

function grow_want :: "nat \<Rightarrow> nat \<Rightarrow> nat write_result" where
  "grow_want want need =
     (if want < need then
        if want > SIZE_MAX div 2 then Written need
        else if want = 0 then Diverges
        else grow_want (want * 2) need
      else Written want)"
  by pat_completeness auto

termination
  by (relation "measure (\<lambda>(want, need). need - want)") auto

declare grow_want.simps [simp del]

definition ensure_total_capacity_for ::
  "allocator \<Rightarrow> nat \<Rightarrow> buffered_writer \<Rightarrow> buffered_writer write_result" where
  "ensure_total_capacity_for M extra w =
     (let need = size_wrap (pos w + extra) in
      if need \<le> cap w then Written w
      else bind_write (grow_want (if cap w \<noteq> 0 then size_wrap (cap w * 2) else 4194304) need)
        (\<lambda>want. if grants M want then Written (grow_memory M want w) else Aborted))"

subsection \<open>Bytes\<close>

definition put_bytes :: "nat \<Rightarrow> string \<Rightarrow> buffered_writer \<Rightarrow> buffered_writer write_result" where
  "put_bytes i cs w =
     (if i + length cs \<le> cap w
      then Written (w\<lparr>buf := take i (buf w) @ cs @ drop (i + length cs) (buf w)\<rparr>)
      else OutOfBounds)"

definition get_bytes :: "nat \<Rightarrow> nat \<Rightarrow> buffered_writer \<Rightarrow> string write_result" where
  "get_bytes i n w = (if i + n \<le> cap w then Written (slice i (i + n) (buf w)) else OutOfBounds)"

definition append_bytes :: "allocator \<Rightarrow> string \<Rightarrow> buffered_writer \<Rightarrow> buffered_writer write_result" where
  "append_bytes M cs w =
     bind_write (ensure_total_capacity_for M (length cs) w) (\<lambda>w.
     bind_write (put_bytes (pos w) cs w) (\<lambda>w.
     Written (w\<lparr>pos := size_wrap (pos w + length cs)\<rparr>)))"

definition append_char :: "allocator \<Rightarrow> char \<Rightarrow> buffered_writer \<Rightarrow> buffered_writer write_result" where
  "append_char M c w =
     bind_write (ensure_total_capacity_for M 1 w) (\<lambda>w.
     bind_write (put_bytes (pos w) [c] w) (\<lambda>w.
     Written (w\<lparr>pos := size_wrap (pos w + 1)\<rparr>)))"

subsection \<open>Numbers\<close>

definition u64_digits :: "u64 \<Rightarrow> nat" where
  "u64_digits v =
     (if v < 10 then 1 else if v < 100 then 2 else if v < 1000 then 3 else if v < 10000 then 4
      else if v < 100000 then 5 else if v < 1000000 then 6 else if v < 10000000 then 7
      else if v < 100000000 then 8 else if v < 1000000000 then 9 else if v < 10000000000 then 10
      else if v < 100000000000 then 11 else if v < 1000000000000 then 12
      else if v < 10000000000000 then 13 else if v < 100000000000000 then 14
      else if v < 1000000000000000 then 15 else if v < 10000000000000000 then 16
      else if v < 100000000000000000 then 17 else if v < 1000000000000000000 then 18
      else if v < 10000000000000000000 then 19 else 20)"

definition digit_char :: "u64 \<Rightarrow> char" where
  "digit_char d = char_of (48 + unat d)"

text \<open>The digits from the last one on, written backward from an index.\<close>

lemma word_div_smaller: "(v :: u64) \<noteq> 0 \<Longrightarrow> unat (v div 10) < unat v"
  by (simp add: unat_div unat_gt_0)

function fill_digits :: "nat \<Rightarrow> u64 \<Rightarrow> buffered_writer \<Rightarrow> buffered_writer write_result" where
  "fill_digits i v w =
     (if v > 0 then
        if i = 0 then OutOfBounds
        else bind_write (put_bytes (i - 1) [digit_char (v mod 10)] w) (fill_digits (i - 1) (v div 10))
      else Written w)"
  by pat_completeness auto

termination
  by (relation "measure (\<lambda>(i, v, w). unat v)") (auto simp: word_div_smaller word_gt_0)

declare fill_digits.simps [simp del]

definition append_unsigned_u64 :: "allocator \<Rightarrow> u64 \<Rightarrow> buffered_writer \<Rightarrow> buffered_writer write_result" where
  "append_unsigned_u64 M v w =
     (if v = 0 then append_char M CHR ''0'' w
      else
        let digs = u64_digits v in
        bind_write (ensure_total_capacity_for M digs w) (\<lambda>w.
        let after = size_wrap (pos w + digs) in
        bind_write (fill_digits after v w) (\<lambda>w. Written (w\<lparr>pos := after\<rparr>))))"

definition append_signed_i64 :: "allocator \<Rightarrow> u64 \<Rightarrow> buffered_writer \<Rightarrow> buffered_writer write_result" where
  "append_signed_i64 M v w =
     (if v <s 0 then
        let uv = - (v + 1) + 1; digs = u64_digits uv in
        bind_write (ensure_total_capacity_for M (digs + 1) w) (\<lambda>w.
        bind_write (put_bytes (pos w) ''-'' w) (\<lambda>w.
        let after = size_wrap (pos w + 1 + digs) in
        bind_write (fill_digits after uv w) (\<lambda>w. Written (w\<lparr>pos := after\<rparr>))))
      else append_unsigned_u64 M v w)"

text \<open>
  A float or double: \<^verbatim>\<open>chars\<close> is what \<^verbatim>\<open>std::to_chars\<close> makes of it, which fails when it does not
  fit, and \<^verbatim>\<open>whole\<close> says that it is a finite whole number in the range where the decimal point is
  added.
\<close>

definition append_chars :: "string \<Rightarrow> buffered_writer \<Rightarrow> buffered_writer write_result" where
  "append_chars chars w =
     bind_write (put_bytes (pos w) chars w) (\<lambda>w. Written (w\<lparr>pos := size_wrap (pos w + length chars)\<rparr>))"

definition append_point :: "allocator \<Rightarrow> bool \<Rightarrow> buffered_writer \<Rightarrow> buffered_writer write_result" where
  "append_point M whole w = (if whole then append_bytes M ''.0'' w else Written w)"

definition append_float :: "allocator \<Rightarrow> string \<Rightarrow> bool \<Rightarrow> buffered_writer \<Rightarrow> buffered_writer write_result" where
  "append_float M chars whole w =
     bind_write (ensure_total_capacity_for M (48 + 3) w) (\<lambda>w.
     if length chars \<le> cap w - pos w then
       bind_write (append_chars chars w) (\<lambda>w.
       bind_write (append_point M whole w) (append_char M CHR ''f''))
     else append_bytes M ''NaN'' w)"

definition append_double :: "allocator \<Rightarrow> string \<Rightarrow> bool \<Rightarrow> buffered_writer \<Rightarrow> buffered_writer write_result" where
  "append_double M chars whole w =
     bind_write (ensure_total_capacity_for M (64 + 2) w) (\<lambda>w.
     if length chars \<le> cap w - pos w then
       bind_write (append_chars chars w) (append_point M whole)
     else append_bytes M ''NaN'' w)"

subsection \<open>Moving a range\<close>

text \<open>
  \<^verbatim>\<open>move_range\<close> keeps the smaller of the two blocks aside: on the stack, or in memory from
  \<^verbatim>\<open>malloc\<close> when it has more than 1024 bytes. The result of \<^verbatim>\<open>malloc\<close> is not looked at: when
  the memory is refused, \<^verbatim>\<open>memcpy\<close> writes through the null pointer.
\<close>

definition keep_aside :: "allocator \<Rightarrow> string \<Rightarrow> string write_result" where
  "keep_aside M block =
     (if length block \<le> 1024 \<or> grants M (length block) then Written block else OutOfBounds)"

definition swap_blocks ::
  "allocator \<Rightarrow> nat \<times> nat \<Rightarrow> nat \<Rightarrow> nat \<times> nat \<Rightarrow> nat \<Rightarrow> buffered_writer \<Rightarrow> buffered_writer write_result" where
  "swap_blocks M kept kept_to moved moved_to w =
     bind_write (bind_write (get_bytes (fst kept) (snd kept) w) (keep_aside M)) (\<lambda>temp.
     bind_write (get_bytes (fst moved) (snd moved) w) (\<lambda>block.
     bind_write (put_bytes moved_to block w) (\<lambda>w.
     put_bytes kept_to temp w)))"

definition move_range ::
  "allocator \<Rightarrow> nat \<Rightarrow> nat \<Rightarrow> nat \<Rightarrow> buffered_writer \<Rightarrow> buffered_writer write_result" where
  "move_range M fromStart fromEnd index w =
     (if fromStart \<ge> fromEnd \<or> fromEnd > pos w \<or> index > pos w then Written w
      else if index \<ge> fromStart \<and> index \<le> fromEnd then Written w
      else
        let range_len = fromEnd - fromStart in
        if index < fromStart then
          let m_len = fromStart - index in
          if m_len \<le> range_len
          then swap_blocks M (index, m_len) (index + range_len) (fromStart, range_len) index w
          else swap_blocks M (fromStart, range_len) index (index, m_len) (index + range_len) w
        else
          let m_len = index - fromEnd in
          if range_len \<le> m_len
          then swap_blocks M (fromStart, range_len) (fromStart + m_len) (fromEnd, m_len) fromStart w
          else swap_blocks M (fromEnd, m_len) fromStart (fromStart, range_len) (fromStart + m_len) w)"

subsection \<open>The rest of the interface\<close>

definition clear :: "buffered_writer \<Rightarrow> buffered_writer" where
  "clear w = w\<lparr>pos := 0\<rparr>"

definition setPositionUnsafely :: "nat \<Rightarrow> buffered_writer \<Rightarrow> buffered_writer" where
  "setPositionUnsafely position w = w\<lparr>pos := position\<rparr>"

definition finalize :: "allocator \<Rightarrow> buffered_writer \<Rightarrow> buffered_writer write_result" where
  "finalize M w = append_char M (CHR 0x00) w"

definition un_finalize_unsafely :: "buffered_writer \<Rightarrow> buffered_writer" where
  "un_finalize_unsafely w = w\<lparr>pos := size_wrap (pos w + SIZE_MAX)\<rparr>"

definition finalized_std_view :: "allocator \<Rightarrow> buffered_writer \<Rightarrow> (string \<times> buffered_writer) write_result" where
  "finalized_std_view M w =
     bind_write (append_char M (CHR 0x00) w) (\<lambda>w. Written (take (pos w - 1) (buf w), w))"

text \<open>
  \<^verbatim>\<open>append_file\<close>: the contents of a file that could be opened are read into the free memory, which
  is made when there is none.
\<close>

function read_file :: "allocator \<Rightarrow> string \<Rightarrow> buffered_writer \<Rightarrow> (bool \<times> buffered_writer) write_result" where
  "read_file M contents w =
     bind_write (if pos w < cap w then Written w else ensure_total_capacity_for M 16384 w) (\<lambda>w.
     let avail = cap w - pos w; got = min avail (length contents) in
     if avail = 0 then Written (False, w)
     else if got = 0 then Written (True, w)
     else bind_write (put_bytes (pos w) (take got contents) w) (\<lambda>w.
       read_file M (drop got contents) (w\<lparr>pos := pos w + got\<rparr>)))"
  by pat_completeness auto

termination
  by (relation "measure (\<lambda>(M, contents, w). length contents)") (auto split: if_splits)

declare read_file.simps [simp del]

definition append_file ::
  "allocator \<Rightarrow> string option \<Rightarrow> buffered_writer \<Rightarrow> (bool \<times> buffered_writer) write_result" where
  "append_file M file_contents w =
     (case file_contents of None \<Rightarrow> Written (False, w) | Some contents \<Rightarrow> read_file M contents w)"

end
