(* ===== verification/Buffered_Writer_Correct.thy ===== *)
theory Buffered_Writer_Correct
  imports Buffered_Writer Num_Parse_Correct
begin

text \<open>
  The writer writes: whatever the operations and wherever memory is moved to, the text is the one
  that plain strings would give, and only the allocator can stop it: memory that is refused aborts
  the writer, or is written through where the code does not look at it, in moves of long ranges,
  and nothing else leaves the memory. Numbers are written in decimal and read back by the routines of \<open>Num_Parse\<close>.
\<close>

subsection \<open>Decimal numbers\<close>

definition dec_digit :: "nat \<Rightarrow> char" where
  "dec_digit d = char_of (48 + d)"

lemma dec_digit_zero: "dec_digit 0 = CHR ''0''"
  by code_simp

fun decimal :: "nat \<Rightarrow> string" where
  "decimal n = (if n < 10 then [dec_digit n] else decimal (n div 10) @ [dec_digit (n mod 10)])"

declare decimal.simps [simp del]

definition signed_decimal :: "int \<Rightarrow> string" where
  "signed_decimal i = (if i < 0 then CHR ''-'' # decimal (nat (- i)) else decimal (nat i))"

lemma decimal_nonempty [simp]: "decimal n \<noteq> []"
  by (subst decimal.simps) simp

lemma decimal_length: "0 < k \<Longrightarrow> length (decimal n) \<le> k \<longleftrightarrow> n < 10 ^ k"
proof (induction n arbitrary: k rule: decimal.induct)
  case (1 n)
  show ?case
  proof (cases "n < 10")
    case True
    have "(10 :: nat) ^ 1 \<le> 10 ^ k" using 1(2) by (intro power_increasing) auto
    then show ?thesis using True 1(2) by (subst decimal.simps) auto
  next
    case False
    show ?thesis
    proof (cases "k = 1")
      case True
      then show ?thesis using False by (subst decimal.simps) (simp add: Suc_le_eq)
    next
      case k: False
      then obtain j where j: "k = Suc j" "0 < j" using 1(2) by (cases k) auto
      have "length (decimal (n div 10)) \<le> j \<longleftrightarrow> n div 10 < 10 ^ j" using 1(1)[OF False j(2)] .
      also have "\<dots> \<longleftrightarrow> n < 10 ^ k" by (simp add: j(1) div_less_iff_less_mult mult.commute)
      finally show ?thesis using False by (subst decimal.simps) (simp add: j(1))
    qed
  qed
qed

lemma u64_digits_decimal: "u64_digits v = length (decimal (unat v))"
proof -
  let ?l = "length (decimal (unat v))"
  have less: "v < w \<longleftrightarrow> ?l \<le> k" if "unat w = 10 ^ k" "0 < k" for w :: u64 and k
    using that by (simp add: word_less_nat_alt decimal_length)
  have "?l \<le> 20"
    using unsigned_less[of v, where 'a = nat] by (subst decimal_length) auto
  moreover have "0 < ?l" by simp
  ultimately show ?thesis
    unfolding u64_digits_def
    by (simp add: less[of 10 1] less[of 100 2] less[of 1000 3] less[of 10000 4] less[of 100000 5]
        less[of 1000000 6] less[of 10000000 7] less[of 100000000 8] less[of 1000000000 9]
        less[of 10000000000 10] less[of 100000000000 11] less[of 1000000000000 12]
        less[of 10000000000000 13] less[of 100000000000000 14] less[of 1000000000000000 15]
        less[of 10000000000000000 16] less[of 100000000000000000 17] less[of 1000000000000000000 18]
        less[of 10000000000000000000 19] del: length_greater_0_conv)
qed

subsection \<open>Memory\<close>

text \<open>
  A writer whose text is inside its memory. The bounds keep \<^verbatim>\<open>size_t\<close> from wrapping around: less than
  half of the address space is used, and the texts are shorter by half again.
\<close>

definition writer_ok :: "buffered_writer \<Rightarrow> bool" where
  "writer_ok w \<longleftrightarrow> pos w \<le> cap w \<and> cap w < 2 ^ 63"

definition short :: "nat \<Rightarrow> bool" where
  "short n \<longleftrightarrow> n < 2 ^ 62"

lemma length_text: "writer_ok w \<Longrightarrow> length (writer_text w) = pos w"
  by (simp add: writer_ok_def writer_text_def cap_def)

lemma grow_want_bound:
  "0 < want \<Longrightarrow> want < 2 ^ 63 \<Longrightarrow> need < 2 ^ 62 \<Longrightarrow>
   \<exists>n. grow_want want need = Written n \<and> need \<le> n \<and> want \<le> n \<and> n < 2 ^ 63"
proof (induction want need rule: grow_want.induct)
  case (1 want need)
  show ?case
  proof (cases "want < need")
    case True
    then have "\<not> want > SIZE_MAX div 2" "want * 2 < 2 ^ 63" using 1(4) by (simp_all add: SIZE_MAX_def)
    then show ?thesis using 1 True by (subst grow_want.simps) auto
  next
    case False
    then show ?thesis using 1 by (subst grow_want.simps) auto
  qed
qed

lemma fresh_length [simp]: "length (fresh_memory M i n) = n - i"
  by (simp add: fresh_memory_def)

lemma grow_memory_keeps:
  assumes "writer_ok w" and "cap w \<le> n" and "n < 2 ^ 63"
  shows "writer_ok (grow_memory M n w)" and "cap (grow_memory M n w) = n"
    and "pos (grow_memory M n w) = pos w" and "writer_text (grow_memory M n w) = writer_text w"
  using assms by (auto simp: grow_memory_def writer_ok_def cap_def writer_text_def)

text \<open>The outcome of an operation: memory was refused, or what is promised of the writer holds.\<close>

definition fulfils :: "allocator \<Rightarrow> ('a \<Rightarrow> bool) \<Rightarrow> 'a write_result \<Rightarrow> bool" where
  "fulfils M P r \<longleftrightarrow>
     (case r of Written a \<Rightarrow> P a | Aborted \<Rightarrow> (\<exists>n. \<not> grants M n) | _ \<Rightarrow> False)"

lemma fulfils_Written [simp]: "fulfils M P (Written a) = P a"
  by (simp add: fulfils_def)

lemma fulfils_bind:
  assumes "fulfils M P r" and "\<And>a. P a \<Longrightarrow> fulfils M Q (f a)"
  shows "fulfils M Q (bind_write r f)"
  using assms by (cases r) (auto simp: fulfils_def)

text \<open>
  The same for the operations that may copy to memory that was refused, which happens only
  under a condition.
\<close>

definition promised :: "bool \<Rightarrow> allocator \<Rightarrow> ('a \<Rightarrow> bool) \<Rightarrow> 'a write_result \<Rightarrow> bool" where
  "promised blind M P r \<longleftrightarrow>
     (case r of
        Written a \<Rightarrow> P a
      | Aborted \<Rightarrow> (\<exists>n. \<not> grants M n)
      | OutOfBounds \<Rightarrow> blind
      | Diverges \<Rightarrow> False)"

lemma fulfils_promised: "fulfils M P r \<Longrightarrow> promised blind M P r"
  by (cases r) (auto simp: fulfils_def promised_def)

lemma promised_bind:
  assumes "promised u M P r" and "\<And>a. P a \<Longrightarrow> promised v M Q (f a)"
    and "u \<Longrightarrow> x" and "v \<Longrightarrow> x"
  shows "promised x M Q (bind_write r f)"
proof (cases r)
  case (Written a)
  with assms(1) have "promised v M Q (f a)" by (intro assms(2)) (simp add: promised_def)
  with Written assms(4) show ?thesis by (cases "f a") (auto simp: promised_def)
qed (use assms in \<open>auto simp: promised_def\<close>)

lemma fulfils_mono: "fulfils M P r \<Longrightarrow> (\<And>a. P a \<Longrightarrow> Q a) \<Longrightarrow> fulfils M Q r"
  by (cases r) (auto simp: fulfils_def)

definition has_room :: "buffered_writer \<Rightarrow> nat \<Rightarrow> buffered_writer \<Rightarrow> bool" where
  "has_room w n w' \<longleftrightarrow> writer_ok w' \<and> pos w' = pos w \<and> writer_text w' = writer_text w \<and> pos w + n \<le> cap w'"

lemma ensure_room:
  assumes "writer_ok w" and "short (pos w + n)"
  shows "fulfils M (has_room w n) (ensure_total_capacity_for M n w)"
proof -
  have need: "size_wrap (pos w + n) = pos w + n" using assms(2) by (simp add: size_wrap_def short_def)
  show ?thesis
  proof (cases "pos w + n \<le> cap w")
    case True
    then show ?thesis using assms(1) by (simp add: ensure_total_capacity_for_def need has_room_def)
  next
    case False
    let ?want = "if cap w \<noteq> 0 then size_wrap (cap w * 2) else 4194304"
    have want: "0 < ?want" "?want < 2 ^ 63" "cap w \<le> ?want"
      using False assms by (auto simp: size_wrap_def short_def)
    obtain k where k: "grow_want ?want (pos w + n) = Written k" "pos w + n \<le> k" "?want \<le> k" "k < 2 ^ 63"
      using grow_want_bound[OF want(1,2)] assms(2) by (auto simp: short_def)
    have "cap w \<le> k" using want(3) k(3) by simp
    then show ?thesis
      using False k grow_memory_keeps[OF assms(1) _ k(4)]
      by (auto simp: ensure_total_capacity_for_def need fulfils_def has_room_def)
  qed
qed

subsection \<open>Bytes\<close>

lemma put_at_end:
  assumes "writer_ok w" and "pos w + length cs \<le> cap w"
  shows "put_bytes (pos w) cs w = Written (w\<lparr>buf := writer_text w @ cs @ drop (pos w + length cs) (buf w)\<rparr>)"
  using assms by (simp add: put_bytes_def writer_text_def)

text \<open>What an operation that adds a text promises.\<close>

definition appended :: "string \<Rightarrow> buffered_writer \<Rightarrow> buffered_writer \<Rightarrow> bool" where
  "appended cs w w' \<longleftrightarrow> writer_ok w' \<and> writer_text w' = writer_text w @ cs"

lemma appendedI:
  assumes "writer_ok w" and "pos w + length cs \<le> cap w" and "short (pos w + length cs)"
  shows "appended cs w (w\<lparr>buf := writer_text w @ cs @ drop (pos w + length cs) (buf w),
    pos := size_wrap (pos w + length cs)\<rparr>)"
  using assms length_text[OF assms(1)]
  by (auto simp: appended_def writer_ok_def cap_def writer_text_def size_wrap_def short_def)

lemma appended_room: "appended cs w1 w2 \<Longrightarrow> has_room w n w1 \<Longrightarrow> appended cs w w2"
  by (simp add: appended_def has_room_def)

lemma append_bytes_appends:
  assumes "writer_ok w" and "short (pos w + length cs)"
  shows "fulfils M (appended cs w) (append_bytes M cs w)"
  unfolding append_bytes_def
proof (rule fulfils_bind[OF ensure_room[OF assms]])
  fix w1 assume w1: "has_room w (length cs) w1"
  then have ok: "writer_ok w1" "pos w1 + length cs \<le> cap w1" "short (pos w1 + length cs)"
    using assms(2) by (simp_all add: has_room_def)
  have "appended cs w (w1\<lparr>buf := writer_text w1 @ cs @ drop (pos w1 + length cs) (buf w1),
      pos := size_wrap (pos w1 + length cs)\<rparr>)"
    using appended_room[OF appendedI[OF ok] w1] .
  then show "fulfils M (appended cs w) (bind_write (put_bytes (pos w1) cs w1)
      (\<lambda>w. Written (w\<lparr>pos := size_wrap (pos w + length cs)\<rparr>)))"
    using put_at_end[OF ok(1,2)] by simp
qed

lemma append_char_bytes: "append_char M c w = append_bytes M [c] w"
  by (simp add: append_char_def append_bytes_def)

subsection \<open>Numbers\<close>

lemma digit_char_dec: "digit_char (v mod 10) = dec_digit (unat v mod 10)"
  by (simp add: digit_char_def dec_digit_def unat_mod)

lemma fill_digits_back:
  "v \<noteq> 0 \<Longrightarrow> length (decimal (unat v)) \<le> i \<Longrightarrow> i \<le> cap w \<Longrightarrow>
   fill_digits i v w =
     Written (w\<lparr>buf := take (i - length (decimal (unat v))) (buf w) @ decimal (unat v) @ drop i (buf w)\<rparr>)"
proof (induction i v w rule: fill_digits.induct)
  case (1 i v w)
  let ?d = "digit_char (v mod 10)"
  let ?w = "w\<lparr>buf := take (i - 1) (buf w) @ ?d # drop i (buf w)\<rparr>"
  have i: "0 < i" using 1(3) by (metis decimal_nonempty le_zero_eq length_0_conv neq0_conv)
  then have put: "put_bytes (i - 1) [?d] w = Written ?w"
    using 1(4) by (simp add: put_bytes_def cap_def)
  have step: "fill_digits i v w = fill_digits (i - 1) (v div 10) ?w"
    using 1(2) i put by (subst fill_digits.simps) (simp add: word_gt_0)
  have cap: "cap ?w = cap w" using 1(4) i by (simp add: cap_def)
  show ?case
  proof (cases "unat v < 10")
    case True
    then have "v div 10 = 0" by (simp add: word_arith_nat_div)
    then have "fill_digits i v w = Written ?w" unfolding step by (subst fill_digits.simps) simp
    then show ?thesis using True by (simp add: decimal.simps[of "unat v"] digit_char_dec)
  next
    case False
    have div: "unat (v div 10) = unat v div 10" by (simp add: unat_div)
    then have nz: "v div 10 \<noteq> 0" using False by (metis div_eq_0_iff unat_0 zero_neq_numeral)
    have dec: "decimal (unat v) = decimal (unat v div 10) @ [?d]"
      using False by (subst decimal.simps) (simp add: digit_char_dec)
    then have len: "length (decimal (unat (v div 10))) \<le> i - 1" using 1(3) by (simp add: div)
    have "fill_digits (i - 1) (v div 10) ?w = Written (?w\<lparr>buf := take (i - 1 - length (decimal (unat (v div 10)))) (buf ?w) @
        decimal (unat (v div 10)) @ drop (i - 1) (buf ?w)\<rparr>)"
      using 1(1)[of ?w] 1(2,4) i nz len cap by (simp add: word_gt_0)
    then show ?thesis
      unfolding step using 1(4) i by (simp add: dec div cap_def min_def)
  qed
qed

lemma fill_at_end:
  assumes "writer_ok w" and "v \<noteq> 0" and "pos w + length (decimal (unat v)) \<le> cap w"
  shows "fill_digits (pos w + length (decimal (unat v))) v w =
    Written (w\<lparr>buf := writer_text w @ decimal (unat v) @ drop (pos w + length (decimal (unat v))) (buf w)\<rparr>)"
  using fill_digits_back[OF assms(2), of "pos w + length (decimal (unat v))" w] assms(3)
  by (simp add: writer_text_def)

lemma append_unsigned_appends:
  assumes "writer_ok w" and "short (pos w + 20)"
  shows "fulfils M (appended (decimal (unat v)) w) (append_unsigned_u64 M v w)"
proof (cases "v = 0")
  case True
  have "short (pos w + length (decimal 0))" using assms(2) by (simp add: decimal.simps[of 0] short_def)
  then show ?thesis
    using append_bytes_appends[OF assms(1), of "decimal 0" M] True
    by (simp add: append_unsigned_u64_def append_char_bytes decimal.simps[of 0] dec_digit_zero)
next
  case False
  let ?n = "length (decimal (unat v))"
  have "?n \<le> 20" using unsigned_less[of v, where 'a = nat] by (subst decimal_length) auto
  then have short: "short (pos w + ?n)" using assms(2) by (simp add: short_def)
  show ?thesis
    unfolding append_unsigned_u64_def if_not_P[OF False] Let_def u64_digits_decimal
  proof (rule fulfils_bind[OF ensure_room[OF assms(1) short]])
    fix w1 assume w1: "has_room w ?n w1"
    then have ok: "writer_ok w1" "pos w1 + ?n \<le> cap w1" "short (pos w1 + ?n)"
      using short by (simp_all add: has_room_def)
    have "size_wrap (pos w1 + ?n) = pos w1 + ?n" using ok(3) by (simp add: size_wrap_def short_def)
    then show "fulfils M (appended (decimal (unat v)) w) (bind_write (fill_digits (size_wrap (pos w1 + ?n)) v w1)
        (\<lambda>w. Written (w\<lparr>pos := size_wrap (pos w1 + ?n)\<rparr>)))"
      using fill_at_end[OF ok(1) False ok(2)] appended_room[OF appendedI[OF ok] w1] by simp
  qed
qed

text \<open>The magnitude of a negative number, the smallest included.\<close>

lemma negative_magnitude:
  assumes "(v :: u64) <s 0"
  shows "unat (- (v + 1) + 1) = nat (- sint v)" and "- (v + 1) + 1 \<noteq> 0"
proof -
  have neg: "sint v < 0" using assms by (simp add: word_sless_alt)
  have "- (v + 1) + 1 = - v" by simp
  moreover have "uint (- v) = - sint v"
  proof -
    have "- (2 ^ 63) \<le> sint v" using sint_ge[of v] by simp
    then have "(- sint v) mod 2 ^ 64 = - sint v" using neg by (intro mod_pos_pos_trivial) auto
    moreover have "uint (- v) = (- sint v) mod 2 ^ 64"
      by (simp add: uint_word_ariths(4) uint_sint[of v] take_bit_eq_mod mod_minus_eq)
    ultimately show ?thesis by simp
  qed
  ultimately show "unat (- (v + 1) + 1) = nat (- sint v)" by (simp add: unat_eq_nat_uint)
  show "- (v + 1) + 1 \<noteq> 0" using neg \<open>- (v + 1) + 1 = - v\<close> by auto
qed

lemma append_signed_appends:
  assumes "writer_ok w" and "short (pos w + 21)"
  shows "fulfils M (appended (signed_decimal (sint v)) w) (append_signed_i64 M v w)"
proof (cases "v <s 0")
  case False
  then have "0 \<le> sint v" by (simp add: word_sless_alt not_less)
  then have "uint v = sint v"
    using uint_sint[of v] sint_lt[of v] by (simp add: take_bit_eq_mod)
  then have "unat v = nat (sint v)" by (simp add: unat_eq_nat_uint)
  then have "signed_decimal (sint v) = decimal (unat v)"
    using \<open>0 \<le> sint v\<close> by (simp add: signed_decimal_def)
  then show ?thesis
    using append_unsigned_appends[OF assms(1), of M v] assms(2) False
    by (simp add: append_signed_i64_def short_def)
next
  case True
  define uv where "uv = - (v + 1) + 1"
  note mag = negative_magnitude[OF True, folded uv_def]
  let ?ds = "decimal (unat uv)"
  have digits: "signed_decimal (sint v) = CHR ''-'' # ?ds"
    using True mag(1) by (simp add: signed_decimal_def word_sless_alt)
  have "length ?ds \<le> 20" using unsigned_less[of uv, where 'a = nat] by (subst decimal_length) auto
  then have short: "short (pos w + (length ?ds + 1))" using assms(2) by (simp add: short_def)
  show ?thesis
    unfolding append_signed_i64_def if_P[OF True] Let_def uv_def[symmetric] u64_digits_decimal digits
  proof (rule fulfils_bind[OF ensure_room[OF assms(1) short]])
    fix w1 assume w1: "has_room w (length ?ds + 1) w1"
    then have ok: "writer_ok w1" "pos w1 + (length ?ds + 1) \<le> cap w1" "short (pos w1 + (length ?ds + 1))"
      using short by (simp_all add: has_room_def)
    let ?w2 = "w1\<lparr>buf := writer_text w1 @ ''-'' @ drop (pos w1 + length ''-'') (buf w1)\<rparr>"
    have put: "put_bytes (pos w1) ''-'' w1 = Written ?w2" using put_at_end[OF ok(1), of "''-''"] ok(2) by simp
    have wrap: "size_wrap (pos w1 + 1 + length ?ds) = pos w1 + 1 + length ?ds"
      using ok(3) by (simp add: size_wrap_def short_def)
    have "cap ?w2 = cap w1" using ok length_text[OF ok(1)] by (simp add: cap_def)
    then have "fill_digits (pos w1 + 1 + length ?ds) uv ?w2 =
        Written (?w2\<lparr>buf := take (pos w1 + 1) (buf ?w2) @ ?ds @ drop (pos w1 + 1 + length ?ds) (buf ?w2)\<rparr>)"
      using fill_digits_back[OF mag(2), of "pos w1 + 1 + length ?ds" ?w2] ok(2) by simp
    moreover have "take (pos w1 + 1) (buf ?w2) = writer_text w1 @ ''-''"
      "drop (pos w1 + 1 + length ?ds) (buf ?w2) = drop (pos w1 + 1 + length ?ds) (buf w1)"
      using length_text[OF ok(1)] ok(2) by (simp_all add: cap_def add.commute)
    ultimately have fill: "fill_digits (pos w1 + 1 + length ?ds) uv ?w2 =
        Written (w1\<lparr>buf := writer_text w1 @ (CHR ''-'' # ?ds) @ drop (pos w1 + length (CHR ''-'' # ?ds)) (buf w1)\<rparr>)"
      by simp
    have "appended (CHR ''-'' # ?ds) w (w1\<lparr>buf := writer_text w1 @ (CHR ''-'' # ?ds) @
        drop (pos w1 + length (CHR ''-'' # ?ds)) (buf w1), pos := size_wrap (pos w1 + length (CHR ''-'' # ?ds))\<rparr>)"
      using ok by (intro appended_room[OF appendedI w1]) simp_all
    then show "fulfils M (appended (CHR ''-'' # ?ds) w) (bind_write (put_bytes (pos w1) ''-'' w1) (\<lambda>w.
        bind_write (fill_digits (size_wrap (pos w + 1 + length ?ds)) uv w)
          (\<lambda>wa. Written (wa\<lparr>pos := size_wrap (pos w + 1 + length ?ds)\<rparr>))))"
      using put fill wrap by simp
  qed
qed

text \<open>Numbers with a fraction, when what \<^verbatim>\<open>std::to_chars\<close> makes of them is no longer than the code expects.\<close>

lemma append_chars_appends:
  assumes "has_room w n w1" and "length cs \<le> n" and "short (pos w + n)"
  shows "fulfils M (appended cs w) (append_chars cs w1)"
proof -
  have ok: "writer_ok w1" "pos w1 + length cs \<le> cap w1" "short (pos w1 + length cs)"
    using assms by (auto simp: has_room_def short_def)
  then show ?thesis
    using put_at_end[OF ok(1,2)] appended_room[OF appendedI[OF ok] assms(1)] by (simp add: append_chars_def)
qed

lemma appended_position: "appended cs w w1 \<Longrightarrow> writer_ok w \<Longrightarrow> pos w1 = pos w + length cs"
  using length_text[of w] length_text[of w1] by (simp add: appended_def)

lemma append_more:
  assumes "appended cs w w1" and "writer_ok w" and "short (pos w + length cs + length ds)"
  shows "fulfils M (appended (cs @ ds) w) (append_bytes M ds w1)"
proof -
  have "fulfils M (appended ds w1) (append_bytes M ds w1)"
    using assms appended_position[OF assms(1,2)] by (intro append_bytes_appends) (auto simp: appended_def)
  then show ?thesis by (rule fulfils_mono) (use assms(1) in \<open>simp add: appended_def\<close>)
qed

lemma append_point_appends:
  assumes "appended cs w w1" and "writer_ok w" and "short (pos w + length cs + 2)"
  shows "fulfils M (appended (cs @ (if whole then ''.0'' else '''')) w) (append_point M whole w1)"
  using append_more[OF assms(1,2), of "''.0''" M] assms by (simp add: append_point_def)

lemma append_double_appends:
  assumes "writer_ok w" and "short (pos w + 100)" and "length cs \<le> 66"
  shows "fulfils M (appended (cs @ (if whole then ''.0'' else '''')) w) (append_double M cs whole w)"
  unfolding append_double_def
proof (rule fulfils_bind[OF ensure_room])
  show "writer_ok w" "short (pos w + (64 + 2))" using assms by (simp_all add: short_def)
  fix w1 assume w1: "has_room w (64 + 2) w1"
  then have "length cs \<le> cap w1 - pos w1" using assms(3) by (auto simp: has_room_def)
  moreover have "fulfils M (appended cs w) (append_chars cs w1)"
    using w1 by (rule append_chars_appends) (use assms in \<open>simp_all add: short_def\<close>)
  then have "fulfils M (appended (cs @ (if whole then ''.0'' else '''')) w)
      (bind_write (append_chars cs w1) (append_point M whole))"
    by (rule fulfils_bind[OF _ append_point_appends]) (use assms in \<open>simp_all add: short_def\<close>)
  ultimately show "fulfils M (appended (cs @ (if whole then ''.0'' else '''')) w)
      (if length cs \<le> cap w1 - pos w1 then bind_write (append_chars cs w1) (append_point M whole)
       else append_bytes M ''NaN'' w1)" by simp
qed

lemma append_float_appends:
  assumes "writer_ok w" and "short (pos w + 100)" and "length cs \<le> 51"
  shows "fulfils M (appended (cs @ (if whole then ''.0'' else '''') @ ''f'') w) (append_float M cs whole w)"
  unfolding append_float_def
proof (rule fulfils_bind[OF ensure_room])
  let ?point = "cs @ (if whole then ''.0'' else '''')"
  show "writer_ok w" "short (pos w + (48 + 3))" using assms by (simp_all add: short_def)
  fix w1 assume w1: "has_room w (48 + 3) w1"
  then have "length cs \<le> cap w1 - pos w1" using assms(3) by (auto simp: has_room_def)
  moreover have "fulfils M (appended cs w) (append_chars cs w1)"
    using w1 by (rule append_chars_appends) (use assms in \<open>simp_all add: short_def\<close>)
  then have "fulfils M (appended (?point @ ''f'') w)
      (bind_write (append_chars cs w1) (\<lambda>w. bind_write (append_point M whole w) (append_char M CHR ''f'')))"
  proof (rule fulfils_bind)
    fix w2 assume "appended cs w w2"
    then have "fulfils M (appended ?point w) (append_point M whole w2)"
      using assms by (intro append_point_appends) (simp_all add: short_def)
    then show "fulfils M (appended (?point @ ''f'') w) (bind_write (append_point M whole w2) (append_char M CHR ''f''))"
      unfolding append_char_bytes
      by (rule fulfils_bind[OF _ append_more]) (use assms in \<open>simp_all add: short_def\<close>)
  qed
  ultimately show "fulfils M (appended (cs @ (if whole then ''.0'' else '''') @ ''f'') w)
      (if length cs \<le> cap w1 - pos w1 then bind_write (append_chars cs w1)
         (\<lambda>w. bind_write (append_point M whole w) (append_char M CHR ''f''))
       else append_bytes M ''NaN'' w1)" by simp
qed

subsection \<open>Moving a range\<close>

text \<open>What a move means: the range is cut out and put back in front of the index.\<close>

definition move_text :: "nat \<Rightarrow> nat \<Rightarrow> nat \<Rightarrow> string \<Rightarrow> string" where
  "move_text a b i t =
     (if a < b \<and> b \<le> length t \<and> i \<le> length t \<and> (i < a \<or> b < i) then
        let rest = take a t @ drop b t; j = (if i < a then i else i - (b - a)) in
        take j rest @ slice a b t @ drop j rest
      else t)"

lemma put_two:
  assumes "i + length xs + length ys \<le> cap w" and "k = i + length xs"
  defines "w' \<equiv> w\<lparr>buf := take i (buf w) @ xs @ ys @ drop (i + length xs + length ys) (buf w)\<rparr>"
  shows "bind_write (put_bytes i xs w) (put_bytes k ys) = Written w'"
    and "bind_write (put_bytes k ys w) (put_bytes i xs) = Written w'"
proof -
  have "min (length (buf w)) i = i" "min (length (buf w)) (i + length xs) = i + length xs"
    using assms(1) by (simp_all add: cap_def)
  then show "bind_write (put_bytes i xs w) (put_bytes k ys) = Written w'"
    and "bind_write (put_bytes k ys w) (put_bytes i xs) = Written w'"
    using assms by (simp_all add: put_bytes_def cap_def ac_simps)
qed

text \<open>Two neighbouring blocks of the text change places.\<close>

definition swapped :: "nat \<Rightarrow> nat \<Rightarrow> nat \<Rightarrow> buffered_writer \<Rightarrow> buffered_writer" where
  "swapped a b c w =
     w\<lparr>buf := take a (buf w) @ slice b c (buf w) @ slice a b (buf w) @ drop c (buf w)\<rparr>"

text \<open>Whether the smaller block can be kept aside.\<close>

definition can_keep :: "allocator \<Rightarrow> nat \<Rightarrow> bool" where
  "can_keep M n \<longleftrightarrow> n \<le> 1024 \<or> grants M n"

lemma swap_blocks_swapped:
  assumes "a \<le> b" and "b \<le> c" and "c \<le> cap w"
  shows "swap_blocks M (a, b - a) (a + (c - b)) (b, c - b) a w =
      (if can_keep M (b - a) then Written (swapped a b c w) else OutOfBounds)"
    and "swap_blocks M (b, c - b) a (a, b - a) (a + (c - b)) w =
      (if can_keep M (c - b) then Written (swapped a b c w) else OutOfBounds)"
proof -
  have len: "length (slice b c (buf w)) = c - b" "length (slice a b (buf w)) = b - a"
    using assms by (simp_all add: length_slice cap_def)
  have ends: "a + length (slice b c (buf w)) + length (slice a b (buf w)) = c" using assms len by simp
  note two = put_two[of a "slice b c (buf w)" "slice a b (buf w)" w "a + (c - b)"]
  have got: "get_bytes a (b - a) w = Written (slice a b (buf w))"
    "get_bytes b (c - b) w = Written (slice b c (buf w))"
    using assms by (simp_all add: get_bytes_def)
  have two': "bind_write (put_bytes a (slice b c (buf w)) w) (put_bytes (a + (c - b)) (slice a b (buf w))) =
      Written (swapped a b c w)"
    "bind_write (put_bytes (a + (c - b)) (slice a b (buf w)) w) (put_bytes a (slice b c (buf w))) =
      Written (swapped a b c w)"
    unfolding swapped_def using two assms(3) len(1) unfolding ends by simp_all
  show "swap_blocks M (a, b - a) (a + (c - b)) (b, c - b) a w =
      (if can_keep M (b - a) then Written (swapped a b c w) else OutOfBounds)"
    and "swap_blocks M (b, c - b) a (a, b - a) (a + (c - b)) w =
      (if can_keep M (c - b) then Written (swapped a b c w) else OutOfBounds)"
    by (simp_all add: swap_blocks_def got keep_aside_def can_keep_def len two')
qed

lemma swapped_text:
  assumes "writer_ok w" and "a \<le> b" and "b \<le> c" and "c \<le> pos w"
  shows "writer_ok (swapped a b c w)"
    and "writer_text (swapped a b c w) =
      take a (writer_text w) @ slice b c (writer_text w) @ slice a b (writer_text w) @ drop c (writer_text w)"
proof -
  have len: "length (slice b c (buf w)) = c - b" "length (slice a b (buf w)) = b - a"
    using assms by (simp_all add: length_slice cap_def writer_ok_def)
  show "writer_ok (swapped a b c w)"
    using assms len by (simp add: swapped_def writer_ok_def cap_def)
  have "take (pos w) (buf w) = take a (buf w)" if "pos w \<le> a"
    using that assms by (metis le_antisym le_trans)
  moreover have "slice i j (writer_text w) = slice i j (buf w)" if "j \<le> c" for i j
    using that assms(4) by (simp add: slice_def writer_text_def drop_take min_def)
  ultimately show "writer_text (swapped a b c w) =
      take a (writer_text w) @ slice b c (writer_text w) @ slice a b (writer_text w) @ drop c (writer_text w)"
    using assms len
    by (auto simp: swapped_def writer_text_def writer_ok_def cap_def min_def drop_take not_le)
qed

text \<open>The move is made, or its smaller block cannot be kept.\<close>

definition moves :: "nat \<Rightarrow> nat \<Rightarrow> nat \<Rightarrow> buffered_writer \<Rightarrow> bool" where
  "moves a b i w \<longleftrightarrow> a < b \<and> b \<le> pos w \<and> i \<le> pos w \<and> (i < a \<or> b < i)"

definition smaller_block :: "nat \<Rightarrow> nat \<Rightarrow> nat \<Rightarrow> nat" where
  "smaller_block a b i = min (b - a) (if i < a then a - i else i - b)"

lemma move_range_swaps:
  assumes "writer_ok w"
  shows "move_range M a b i w =
    (if moves a b i w
     then if can_keep M (smaller_block a b i)
       then Written (if i < a then swapped i a b w else swapped a b i w)
       else OutOfBounds
     else Written w)"
proof -
  have cap: "pos w \<le> cap w" using assms by (simp add: writer_ok_def)
  consider (none) "\<not> moves a b i w" "a \<ge> b \<or> b > pos w \<or> i > pos w \<or> (i \<ge> a \<and> i \<le> b)"
    | (left) "moves a b i w" "a < b" "b \<le> pos w" "i < a"
    | (right) "moves a b i w" "a < b" "i \<le> pos w" "b < i"
    unfolding moves_def by linarith
  then show ?thesis
  proof cases
    case none
    then show ?thesis by (auto simp: move_range_def)
  next
    case left
    then show ?thesis using cap swap_blocks_swapped[of i a b w M]
      by (simp add: move_range_def Let_def smaller_block_def min_def)
  next
    case right
    then show ?thesis using cap swap_blocks_swapped[of a b i w M]
      by (simp add: move_range_def Let_def smaller_block_def min_def)
  qed
qed

text \<open>
  Moving a range whose smaller block has more than 1024 bytes, when memory for it is refused,
  writes through a null pointer.
\<close>

theorem refused_move_out_of_bounds:
  assumes "writer_ok w"
  shows "move_range M a b i w = OutOfBounds \<longleftrightarrow>
    moves a b i w \<and> 1024 < smaller_block a b i \<and> \<not> grants M (smaller_block a b i)"
  unfolding move_range_swaps[OF assms] by (auto simp: can_keep_def)

theorem refused_move_out_of_bounds_witness:
  "move_range \<lparr>grants = \<lambda>_. False, fresh = \<lambda>_. CHR ''?''\<rparr> 0 2000 4000
     \<lparr>buf = replicate 4000 CHR ''x'', pos = 4000, owned = True\<rparr> = OutOfBounds"
  using refused_move_out_of_bounds[of "\<lparr>buf = replicate 4000 CHR ''x'', pos = 4000, owned = True\<rparr>"
      "\<lparr>grants = \<lambda>_. False, fresh = \<lambda>_. CHR ''?''\<rparr>" 0 2000 4000]
  by (simp add: writer_ok_def cap_def moves_def smaller_block_def)

lemma move_range_moves:
  assumes "writer_ok w"
  shows "promised (\<exists>n>1024. \<not> grants M n)
    M (\<lambda>w'. writer_ok w' \<and> writer_text w' = move_text a b i (writer_text w)) (move_range M a b i w)"
proof -
  have len: "length (writer_text w) = pos w" using length_text[OF assms] .
  have kept: "\<exists>n>1024. \<not> grants M n" if "\<not> can_keep M n" for n
    using that by (auto simp: can_keep_def not_le)
  consider (none) "\<not> moves a b i w"
    | (left) "moves a b i w" "a < b" "b \<le> pos w" "i < a"
    | (right) "moves a b i w" "a < b" "i \<le> pos w" "b < i"
    unfolding moves_def by linarith
  then show ?thesis
  proof cases
    case none
    then have "move_text a b i (writer_text w) = writer_text w"
      unfolding move_text_def len moves_def by (rule if_not_P)
    moreover have "move_range M a b i w = Written w" by (simp only: move_range_swaps[OF assms] if_not_P[OF none])
    ultimately show ?thesis using assms by (simp add: promised_def)
  next
    case left
    have "move_text a b i (writer_text w) = take i (writer_text w) @ slice a b (writer_text w) @
        slice i a (writer_text w) @ drop b (writer_text w)"
      using left len by (simp add: move_text_def min_def slice_def drop_take)
    then show ?thesis
      using left kept swapped_text[OF assms, of i a b] by (simp add: move_range_swaps[OF assms] promised_def)
  next
    case right
    then have "\<not> i + a - b \<le> a" by arith
    then have "move_text a b i (writer_text w) = take a (writer_text w) @ slice b i (writer_text w) @
        slice a b (writer_text w) @ drop i (writer_text w)"
      using right len by (simp add: move_text_def min_def slice_def drop_take Let_def)
    then show ?thesis
      using right kept swapped_text[OF assms, of a b i] by (simp add: move_range_swaps[OF assms] promised_def)
  qed
qed

subsection \<open>Reading a file\<close>

lemma read_file_appends:
  "writer_ok w \<Longrightarrow> short (pos w + length contents + 16384) \<Longrightarrow>
   fulfils M (\<lambda>(ok, w'). ok \<and> appended contents w w') (read_file M contents w)"
proof (induction contents arbitrary: w rule: length_induct)
  case (1 contents w)
  let ?more = "if pos w < cap w then Written w else ensure_total_capacity_for M 16384 w"
  have "fulfils M (has_room w 1) ?more"
  proof (cases "pos w < cap w")
    case True
    then show ?thesis using 1(2) by (simp add: has_room_def)
  next
    case False
    then show ?thesis
      using 1(2,3) by (auto intro!: fulfils_mono[OF ensure_room] simp: short_def has_room_def)
  qed
  then show ?case
  proof (subst read_file.simps, elim fulfils_bind)
    fix w1 assume w1: "has_room w 1 w1"
    let ?got = "min (cap w1 - pos w1) (length contents)"
    let ?bytes = "take ?got contents"
    let ?w2 = "w1\<lparr>buf := writer_text w1 @ ?bytes @ drop (pos w1 + ?got) (buf w1), pos := pos w1 + ?got\<rparr>"
    have ok: "writer_ok w1" "pos w1 < cap w1" using w1 by (simp_all add: has_room_def)
    show "fulfils M (\<lambda>(ok, w'). ok \<and> appended contents w w')
      (let avail = cap w1 - pos w1; got = min avail (length contents) in
       if avail = 0 then Written (False, w1)
       else if got = 0 then Written (True, w1)
       else bind_write (put_bytes (pos w1) (take got contents) w1) (\<lambda>w.
         read_file M (drop got contents) (w\<lparr>pos := pos w + got\<rparr>)))"
    proof (cases "contents = []")
      case True
      then show ?thesis using ok w1 by (simp add: appended_def has_room_def)
    next
      case False
      have put: "put_bytes (pos w1) ?bytes w1 =
          Written (w1\<lparr>buf := writer_text w1 @ ?bytes @ drop (pos w1 + ?got) (buf w1)\<rparr>)"
        using put_at_end[OF ok(1), of ?bytes] ok(2) by simp
      have rest: "fulfils M (\<lambda>(ok, w'). ok \<and> appended (drop ?got contents) ?w2 w') (read_file M (drop ?got contents) ?w2)"
      proof (rule 1(1)[rule_format])
        show "length (drop ?got contents) < length contents" using False ok(2) by simp
        show "writer_ok ?w2" using ok length_text[OF ok(1)] by (auto simp: writer_ok_def cap_def)
        show "short (pos ?w2 + length (drop ?got contents) + 16384)"
          using 1(3) w1 by (auto simp: has_room_def short_def)
      qed
      have app: "appended contents w w'" if "appended (drop ?got contents) ?w2 w'" for w'
      proof -
        have "writer_text ?w2 = writer_text w1 @ ?bytes"
          using length_text[OF ok(1)] by (simp add: writer_text_def min_def)
        then show ?thesis using that w1 by (simp add: appended_def has_room_def)
      qed
      have step: "(let avail = cap w1 - pos w1; got = min avail (length contents) in
         if avail = 0 then Written (False, w1)
         else if got = 0 then Written (True, w1)
         else bind_write (put_bytes (pos w1) (take got contents) w1) (\<lambda>w.
           read_file M (drop got contents) (w\<lparr>pos := pos w + got\<rparr>))) = read_file M (drop ?got contents) ?w2"
      proof -
        have "cap w1 - pos w1 \<noteq> 0" "?got \<noteq> 0" using False ok(2) by (simp_all add: min_def)
        then show ?thesis by (simp only: Let_def if_False put bind_write.simps) simp
      qed
      show ?thesis unfolding step by (rule fulfils_mono[OF rest]) (auto intro: app)
    qed
  qed
qed

subsection \<open>A sequence of operations\<close>

text \<open>
  The operations of the writer and what each means for the text. \<open>needs\<close> is how much memory an
  operation may ask for.
\<close>

datatype writer_op =
    Append string
  | Append_char char
  | Append_unsigned u64
  | Append_signed u64
  | Append_float string bool
  | Append_double string bool
  | Append_file "string option"
  | Move nat nat nat
  | Reserve nat
  | Finalize
  | Clear

fun run_op :: "allocator \<Rightarrow> writer_op \<Rightarrow> buffered_writer \<Rightarrow> buffered_writer write_result" where
  "run_op M (Append cs) w = append_bytes M cs w"
| "run_op M (Append_char c) w = append_char M c w"
| "run_op M (Append_unsigned v) w = append_unsigned_u64 M v w"
| "run_op M (Append_signed v) w = append_signed_i64 M v w"
| "run_op M (Append_float cs whole) w = append_float M cs whole w"
| "run_op M (Append_double cs whole) w = append_double M cs whole w"
| "run_op M (Append_file f) w = bind_write (append_file M f w) (\<lambda>(ok, w). Written w)"
| "run_op M (Move a b i) w = move_range M a b i w"
| "run_op M (Reserve n) w = Written (snd (reserve_total M n w))"
| "run_op M Finalize w = finalize M w"
| "run_op M Clear w = Written (clear w)"

primrec run_ops :: "allocator \<Rightarrow> writer_op list \<Rightarrow> buffered_writer \<Rightarrow> buffered_writer write_result" where
  "run_ops M [] w = Written w"
| "run_ops M (p # ps) w = bind_write (run_op M p w) (run_ops M ps)"

fun op_text :: "writer_op \<Rightarrow> string \<Rightarrow> string" where
  "op_text (Append cs) t = t @ cs"
| "op_text (Append_char c) t = t @ [c]"
| "op_text (Append_unsigned v) t = t @ decimal (unat v)"
| "op_text (Append_signed v) t = t @ signed_decimal (sint v)"
| "op_text (Append_float cs whole) t = t @ cs @ (if whole then ''.0'' else '''') @ ''f''"
| "op_text (Append_double cs whole) t = t @ cs @ (if whole then ''.0'' else '''')"
| "op_text (Append_file (Some cs)) t = t @ cs"
| "op_text (Move a b i) t = move_text a b i t"
| "op_text Finalize t = t @ [CHR 0x00]"
| "op_text Clear t = []"
| "op_text p t = t"

fun needs :: "writer_op \<Rightarrow> nat" where
  "needs (Append cs) = length cs"
| "needs (Append_file (Some cs)) = length cs + 16384"
| "needs (Reserve n) = n"
| "needs p = 100"

text \<open>The lengths \<^verbatim>\<open>std::to_chars\<close> keeps to.\<close>

fun in_bounds :: "writer_op \<Rightarrow> bool" where
  "in_bounds (Append_float cs whole) \<longleftrightarrow> length cs \<le> 51"
| "in_bounds (Append_double cs whole) \<longleftrightarrow> length cs \<le> 66"
| "in_bounds p \<longleftrightarrow> True"

lemma decimal_word_length: "length (decimal (unat (v :: u64))) \<le> 20"
  using unsigned_less[of v, where 'a = nat] by (subst decimal_length) auto

lemma signed_decimal_length: "length (signed_decimal (sint (v :: u64))) \<le> 21"
proof (cases "v <s 0")
  case True
  then show ?thesis
    using decimal_word_length[of "- (v + 1) + 1"] negative_magnitude[OF True]
    by (simp add: signed_decimal_def word_sless_alt)
next
  case False
  then have "0 \<le> sint v" by (simp add: word_sless_alt not_less)
  moreover have "sint v < 2 ^ 63" using sint_lt[of v] by simp
  ultimately have "nat (sint v) < 10 ^ 21" by (simp add: nat_less_iff)
  then show ?thesis using \<open>0 \<le> sint v\<close> by (simp add: signed_decimal_def decimal_length)
qed

lemma move_text_length [simp]: "length (move_text a b i t) = length t"
  by (auto simp: move_text_def slice_def min_def Let_def)

lemma op_text_length: "in_bounds p \<Longrightarrow> length (op_text p t) \<le> length t + needs p"
  using le_trans[OF decimal_word_length, of 100] le_trans[OF signed_decimal_length, of 100]
  by (cases "(p, t)" rule: op_text.cases) (auto simp: trans_le_add2 le_SucI)

text \<open>The operation that may copy to memory it was refused.\<close>

fun blind :: "allocator \<Rightarrow> writer_op \<Rightarrow> bool" where
  "blind M (Move a b i) \<longleftrightarrow> (\<exists>n>1024. \<not> grants M n)"
| "blind M p \<longleftrightarrow> False"

lemma append_op_text:
  assumes "writer_ok w" and "short (pos w + needs p)" and "in_bounds p" and "\<And>a b i. p \<noteq> Move a b i"
  shows "fulfils M (\<lambda>w'. writer_ok w' \<and> writer_text w' = op_text p (writer_text w)) (run_op M p w)"
proof (cases p)
  case (Append cs)
  then show ?thesis using append_bytes_appends[of w cs M] assms by (auto simp: appended_def elim: fulfils_mono)
next
  case (Append_char c)
  then show ?thesis
    using append_bytes_appends[of w "[c]" M] assms by (auto simp: append_char_bytes short_def appended_def elim: fulfils_mono)
next
  case (Append_unsigned v)
  then show ?thesis
    using append_unsigned_appends[of w M v] assms by (auto simp: short_def appended_def elim: fulfils_mono)
next
  case (Append_signed v)
  then show ?thesis
    using append_signed_appends[of w M v] assms by (auto simp: short_def appended_def elim: fulfils_mono)
next
  case (Append_float cs whole)
  show ?thesis unfolding Append_float run_op.simps op_text.simps
    by (rule fulfils_mono[OF append_float_appends]) (use assms Append_float in \<open>auto simp: appended_def\<close>)
next
  case (Append_double cs whole)
  show ?thesis unfolding Append_double run_op.simps op_text.simps
    by (rule fulfils_mono[OF append_double_appends]) (use assms Append_double in \<open>auto simp: appended_def\<close>)
next
  case (Append_file f)
  show ?thesis
  proof (cases f)
    case None
    then show ?thesis using Append_file assms by (simp add: append_file_def)
  next
    case (Some cs)
    have "fulfils M (\<lambda>(ok, w'). ok \<and> appended cs w w') (read_file M cs w)"
      using read_file_appends[of w cs M] assms Append_file Some by (simp add: add.assoc)
    then show ?thesis using Append_file Some by (auto simp: append_file_def appended_def elim!: fulfils_bind)
  qed
next
  case (Move a b i)
  with assms(4)[of a b i] show ?thesis by simp
next
  case (Reserve n)
  then show ?thesis
    using assms grow_memory_keeps[OF assms(1), of n M] by (auto simp: reserve_total_def short_def)
next
  case Finalize
  then show ?thesis
    using append_bytes_appends[of w "[CHR 0x00]" M] assms
    by (auto simp: finalize_def append_char_bytes short_def appended_def elim: fulfils_mono)
next
  case Clear
  then show ?thesis using assms by (simp add: clear_def writer_ok_def writer_text_def cap_def)
qed

lemma run_op_text:
  assumes "writer_ok w" and "short (pos w + needs p)" and "in_bounds p"
  shows "promised (blind M p) M (\<lambda>w'. writer_ok w' \<and> writer_text w' = op_text p (writer_text w)) (run_op M p w)"
proof (cases "\<exists>a b i. p = Move a b i")
  case True
  then show ?thesis using move_range_moves[OF assms(1)] by fastforce
next
  case False
  then show ?thesis using append_op_text[OF assms] by (intro fulfils_promised) blast
qed

lemma run_ops_text:
  "writer_ok w \<Longrightarrow> short (pos w + sum_list (map needs ps)) \<Longrightarrow> list_all in_bounds ps \<Longrightarrow>
   promised (list_ex (blind M) ps) M
     (\<lambda>w'. writer_ok w' \<and> writer_text w' = fold op_text ps (writer_text w)) (run_ops M ps w)"
proof (induction ps arbitrary: w)
  case Nil
  then show ?case by (simp add: promised_def)
next
  case (Cons p ps)
  have "promised (blind M p) M (\<lambda>w'. writer_ok w' \<and> writer_text w' = op_text p (writer_text w)) (run_op M p w)"
    using Cons.prems by (intro run_op_text) (auto simp: short_def)
  then show ?case unfolding run_ops.simps
  proof (rule promised_bind)
    fix w1 assume w1: "writer_ok w1 \<and> writer_text w1 = op_text p (writer_text w)"
    then have "pos w1 \<le> pos w + needs p"
      using op_text_length[of p "writer_text w"] length_text Cons.prems(1,3) by (metis list.pred_inject(2))
    then show "promised (list_ex (blind M) ps) M
        (\<lambda>w'. writer_ok w' \<and> writer_text w' = fold op_text (p # ps) (writer_text w)) (run_ops M ps w1)"
      using Cons.IH[of w1] Cons.prems w1 by (simp add: short_def)
  qed simp_all
qed

lemma blind_move: "list_ex (blind M) ps \<Longrightarrow> (\<exists>a b i. Move a b i \<in> set ps) \<and> (\<exists>n>1024. \<not> grants M n)"
  by (auto simp: list_ex_iff elim!: blind.elims(2))

text \<open>
  C9. The writer refines a string: after any sequence of operations the text is what the
  operations make of a plain string (integers in decimal, files as their contents, a moved range
  cut out and put back), wherever the memory is and however often it grows, and no loop runs on.
  When memory is refused the writer aborts, with one exception: a move whose smaller block has
  more than 1024 bytes does not look at what it got (\<open>refused_move_out_of_bounds\<close>). Nothing else
  is read or written outside the memory.
\<close>

theorem writer_refines:
  assumes "writer_ok w" and "short (pos w + sum_list (map needs ps))" and "list_all in_bounds ps"
  shows "case run_ops M ps w of
      Written w' \<Rightarrow> writer_ok w' \<and> writer_text w' = fold op_text ps (writer_text w)
    | Aborted \<Rightarrow> \<exists>n. \<not> grants M n
    | OutOfBounds \<Rightarrow> (\<exists>a b i. Move a b i \<in> set ps) \<and> (\<exists>n>1024. \<not> grants M n)
    | Diverges \<Rightarrow> False"
  using run_ops_text[OF assms, of M] blind_move[of M ps]
  by (auto simp: promised_def split: write_result.splits)

definition example_allocator :: allocator where
  "example_allocator = \<lparr>grants = \<lambda>n. True, fresh = \<lambda>i. CHR ''?''\<rparr>"

definition example_ops :: "writer_op list" where
  "example_ops = [Append ''f('', Append_signed (- 120), Append_char CHR '')'', Move 0 2 6, Append_double ''7'' True]"

theorem writer_refines_witness:
  "case run_ops example_allocator example_ops (stack_writer ''???'') of
      Written w' \<Rightarrow> writer_ok w' \<and> writer_text w' = ''-120f()7.0''
    | Aborted \<Rightarrow> \<exists>n. \<not> grants example_allocator n
    | OutOfBounds \<Rightarrow> (\<exists>a b i. Move a b i \<in> set example_ops) \<and> (\<exists>n>1024. \<not> grants example_allocator n)
    | Diverges \<Rightarrow> False"
proof -
  have "fold op_text example_ops '''' = ''-120f()7.0''" by code_simp
  moreover have "writer_ok (stack_writer ''???'')" by (simp add: stack_writer_def writer_ok_def cap_def)
  moreover have "list_all in_bounds example_ops" by (simp add: example_ops_def)
  moreover have "short (pos (stack_writer ''???'') + sum_list (map needs example_ops))"
    by (simp add: stack_writer_def example_ops_def short_def)
  moreover have "writer_text (stack_writer ''???'') = ''''" by (simp add: stack_writer_def writer_text_def)
  ultimately show ?thesis
    using writer_refines[of "stack_writer ''???''" example_ops example_allocator]
    by (simp cong: write_result.case_cong)
qed

subsection \<open>Reading numbers back\<close>

lemma digit_value_dec: "d < 10 \<Longrightarrow> digit_value (dec_digit d) = d"
  by (simp add: digit_value_def dec_digit_def)

lemma decimal_digits: "\<forall>c\<in>set (decimal n). digit_value c < 10"
proof (induction n rule: decimal.induct)
  case (1 n)
  then show ?case by (subst decimal.simps) (auto simp: digit_value_dec)
qed

lemma decimal_value: "digits_value 10 (decimal n) = n"
proof (induction n rule: decimal.induct)
  case (1 n)
  then show ?case
    by (subst decimal.simps) (auto simp: digits_value_def digit_value_dec)
qed

lemma decimal_subject:
  assumes "10 \<le> digit_value (char_at rest 0)"
  shows "strto_subject 10 (decimal n @ rest) = (False, n, length (decimal n))"
    and "strto_subject 10 (CHR ''-'' # decimal n @ rest) = (True, n, Suc (length (decimal n)))"
proof -
  have take: "takeWhile (\<lambda>c. digit_value c < 10) (decimal n @ rest) = decimal n"
    using decimal_digits assms by (intro takeWhile_digits)
  obtain d ds where d: "decimal n = d # ds" by (cases "decimal n") auto
  then have "digit_value d < 10" using decimal_digits[of n] by simp
  then have "\<not> is_space d" "d \<noteq> CHR ''-''" "d \<noteq> CHR ''+''" using digit_not_special[of d] by auto
  then show "strto_subject 10 (decimal n @ rest) = (False, n, length (decimal n))"
    using take decimal_value[of n] by (simp add: strto_subject_def d Let_def)
  have "\<not> is_space CHR ''-''" by (simp add: is_space_def)
  then show "strto_subject 10 (CHR ''-'' # decimal n @ rest) = (True, n, Suc (length (decimal n)))"
    using take decimal_value[of n] by (simp add: strto_subject_def d Let_def)
qed

text \<open>
  C33. A number that is written is read back by the C library as it was, whatever
  follows it that is not a digit: all 64-bit numbers, the smallest one included.
\<close>

theorem numbers_read_back:
  assumes "writer_ok w" and "short (pos w + 21)" and "\<forall>n. grants M n"
    and "10 \<le> digit_value (char_at rest 0)"
  shows "(\<exists>w'. append_signed_i64 M v w = Written w' \<and>
      strtoll 10 (drop (pos w) (writer_text w') @ rest) = (v, pos w' - pos w, False)) \<and>
    (\<exists>w'. append_unsigned_u64 M v w = Written w' \<and>
      strtoull 10 (drop (pos w) (writer_text w') @ rest) = (v, pos w' - pos w, False))"
proof -
  have written: "\<exists>w'. r = Written w' \<and> drop (pos w) (writer_text w') = cs \<and> pos w' - pos w = length cs"
    if "fulfils M (appended cs w) r" for r cs
  proof -
    obtain w' where w': "r = Written w'" "writer_ok w'" "writer_text w' = writer_text w @ cs"
      using \<open>fulfils M (appended cs w) r\<close> assms(3) by (cases r) (auto simp: fulfils_def appended_def)
    then have "pos w' = pos w + length cs" using length_text[OF assms(1)] length_text[OF w'(2)] by simp
    then show ?thesis using w' length_text[OF assms(1)] by simp
  qed
  have "strtoll 10 (signed_decimal (sint v) @ rest) = (v, length (signed_decimal (sint v)), False)"
    using sint_ge[of v] sint_lt[of v] decimal_subject[OF assms(4), of "nat (sint v)"]
      decimal_subject[OF assms(4), of "nat (- sint v)"]
    by (auto simp: strtoll_def signed_decimal_def nat_le_iff le_nat_iff)
  moreover have "strtoull 10 (decimal (unat v) @ rest) = (v, length (decimal (unat v)), False)"
    using unsigned_less[of v, where 'a = nat] decimal_subject[OF assms(4), of "unat v"]
    by (simp add: strtoull_def not_le)
  ultimately show ?thesis
    using written[OF append_signed_appends[OF assms(1,2)]] written[OF append_unsigned_appends[OF assms(1), of M v]] assms(2)
    by (fastforce simp: short_def)
qed

theorem numbers_read_back_witness:
  "(\<exists>w'. append_signed_i64 example_allocator (2 ^ 63) (stack_writer ''???'') = Written w' \<and>
      strtoll 10 (drop 0 (writer_text w') @ '';'') = (2 ^ 63, pos w' - 0, False)) \<and>
    (\<exists>w'. append_unsigned_u64 example_allocator (2 ^ 63) (stack_writer ''???'') = Written w' \<and>
      strtoull 10 (drop 0 (writer_text w') @ '';'') = (2 ^ 63, pos w' - 0, False))"
proof -
  have "10 \<le> digit_value (char_at '';'' 0)" by code_simp
  moreover have "writer_ok (stack_writer ''???'')" by (simp add: stack_writer_def writer_ok_def cap_def)
  moreover have "pos (stack_writer ''???'') = 0" by (simp add: stack_writer_def)
  moreover have "\<forall>n. grants example_allocator n" by (simp add: example_allocator_def)
  ultimately show ?thesis
    using numbers_read_back[of "stack_writer ''???''" example_allocator "'';''" "2 ^ 63"]
    by (simp add: short_def)
qed

end
