(* ===== verification/Name_Mangler.thy ===== *)
theory Name_Mangler
  imports Buffered_Writer_Correct
begin

text \<open>
  The names of functions and types in the code that is generated: \<^verbatim>\<open>compiler/mangler/NameMangler.cpp\<close>.
  A node is what the mangler reads of it, with its parents behind it up to the file, which has the
  names of its module; an interface holds the user that is active when it is mangled. What the
  mangler writes is a list of operations of \<open>Buffered_Writer\<close>. A null pointer that is followed is
  \<open>None\<close>.
\<close>

subsection \<open>Nodes\<close>

record container =
  name_view :: string
  generic_instantiation :: int
  container_no_mangle :: bool

text \<open>
  \<open>StructDecl\<close> lists the functions that override one of an interface, \<open>InterfaceDecl\<close> its own
  functions, each with the interface it stands in (\<open>None\<close> when its parent is not an interface), and
  the type of an \<open>ImplDecl\<close> comes with its members container.
\<close>

datatype decl_node =
    FileScope string string
  | FunctionDecl string int bool "decl_node option option" "decl_node option"
  | StructDecl container "(string \<times> decl_node) list" "decl_node option"
  | UnionDecl container "decl_node option"
  | VariantDecl container "decl_node option"
  | InterfaceDecl container bool "container option" "(string \<times> container option) list" "decl_node option"
  | NamespaceDecl string bool "decl_node option"
  | ImplDecl "(impl_type \<times> container option) option" "decl_node option" "decl_node option"
  | TypealiasStmt string bool "decl_node option"
  | VarInitStmt string bool "decl_node option"
  | OtherNode string "decl_node option"
and impl_type =
    IntN int_n_kind | FloatTy | Float128Ty | DoubleTy | BoolTy | LongDoubleTy | StringTy
  | ExpressiveStringTy | AnyTy | NullPtrTy
  | PointerTy bool impl_type
  | ReferenceTy bool impl_type
  | LinkedTy decl_node
  | OtherTy

fun parent_node :: "decl_node \<Rightarrow> decl_node option" where
  "parent_node (FileScope s m) = None"
| "parent_node (FunctionDecl n i m e p) = p"
| "parent_node (StructDecl c os p) = p"
| "parent_node (UnionDecl c p) = p"
| "parent_node (VariantDecl c p) = p"
| "parent_node (InterfaceDecl c s u fs p) = p"
| "parent_node (NamespaceDecl n a p) = p"
| "parent_node (ImplDecl t i p) = p"
| "parent_node (TypealiasStmt n m p) = p"
| "parent_node (VarInitStmt n m p) = p"
| "parent_node (OtherNode n p) = p"

fun get_node_identifier :: "decl_node \<Rightarrow> string" where
  "get_node_identifier (FunctionDecl n i m e p) = n"
| "get_node_identifier (StructDecl c os p) = name_view c"
| "get_node_identifier (UnionDecl c p) = name_view c"
| "get_node_identifier (VariantDecl c p) = name_view c"
| "get_node_identifier (InterfaceDecl c s u fs p) = name_view c"
| "get_node_identifier (NamespaceDecl n a p) = n"
| "get_node_identifier (TypealiasStmt n m p) = n"
| "get_node_identifier (VarInitStmt n m p) = n"
| "get_node_identifier (OtherNode n p) = n"
| "get_node_identifier n = ''''"

fun is_node_no_mangle :: "decl_node \<Rightarrow> bool" where
  "is_node_no_mangle (FunctionDecl n i m e p) = m"
| "is_node_no_mangle (StructDecl c os p) = container_no_mangle c"
| "is_node_no_mangle (InterfaceDecl c s u fs p) = container_no_mangle c"
| "is_node_no_mangle (UnionDecl c p) = container_no_mangle c"
| "is_node_no_mangle (VariantDecl c p) = container_no_mangle c"
| "is_node_no_mangle (TypealiasStmt n m p) = m"
| "is_node_no_mangle (VarInitStmt n m p) = m"
| "is_node_no_mangle n = False"

fun is_static :: "decl_node \<Rightarrow> bool" where
  "is_static (InterfaceDecl c s u fs p) = s"
| "is_static n = False"

lemma parent_smaller: "parent_node n = Some p \<Longrightarrow> size p < size n"
  by (cases n rule: parent_node.cases) auto

subsection \<open>Parts of a name\<close>

abbreviation write_int :: "int \<Rightarrow> writer_op" where
  "write_int i \<equiv> Append_signed (word_of_int i)"

definition container_name :: "container \<Rightarrow> writer_op list" where
  "container_name c =
     (if generic_instantiation c \<noteq> - 1 then [Append (name_view c), Append ''__cgs__'', write_int (generic_instantiation c)]
      else [Append (name_view c)])"

fun mangle_no_parent :: "decl_node \<Rightarrow> writer_op list" where
  "mangle_no_parent (FunctionDecl n i m e p) =
     Append n # (if i \<noteq> - 1 then [Append ''__cfg_'', write_int i] else [])"
| "mangle_no_parent (StructDecl c os p) = container_name c"
| "mangle_no_parent (UnionDecl c p) = container_name c"
| "mangle_no_parent (VariantDecl c p) = container_name c"
| "mangle_no_parent (InterfaceDecl c s u fs p) = container_name c"
| "mangle_no_parent (NamespaceDecl n a p) = (if a then [] else [Append n])"
| "mangle_no_parent n = [Append (get_node_identifier n)]"

definition write_mod_scope :: "string \<Rightarrow> string \<Rightarrow> writer_op list" where
  "write_mod_scope s m =
     (if s \<noteq> '''' then [Append s, Append_char CHR ''_''] else []) @
     [Append m, Append_char CHR ''_'']"

subsection \<open>Names with their parents\<close>

function write_mangle_parent_of :: "decl_node \<Rightarrow> writer_op list"
  and mangle_non_func :: "decl_node \<Rightarrow> writer_op list" where
  "write_mangle_parent_of n =
     (case parent_node n of
        None \<Rightarrow> []
      | Some (FileScope s m) \<Rightarrow> if is_node_no_mangle n then [] else write_mod_scope s m
      | Some (FunctionDecl f i m e p) \<Rightarrow> []
      | Some p \<Rightarrow> mangle_non_func p)"
| "mangle_non_func n =
     (if get_node_identifier n \<noteq> '''' then write_mangle_parent_of n @ mangle_no_parent n else [])"
  by pat_completeness auto

termination
  by (relation "measure (\<lambda>x. case x of Inl n \<Rightarrow> 2 * size n | Inr n \<Rightarrow> 2 * size n + 1)")
    (auto dest!: parent_smaller)

declare write_mangle_parent_of.simps [simp del] mangle_non_func.simps [simp del]

definition mangles :: "decl_node \<Rightarrow> bool" where
  "mangles n \<longleftrightarrow> get_node_identifier n \<noteq> ''''"

function mangle_till_file :: "decl_node \<Rightarrow> writer_op list" where
  "mangle_till_file n =
     (case n of
        FileScope s m \<Rightarrow> []
      | FunctionDecl f i m e p \<Rightarrow> []
      | _ \<Rightarrow> if get_node_identifier n = '''' then []
             else (case parent_node n of None \<Rightarrow> [] | Some p \<Rightarrow> mangle_till_file p) @ mangle_no_parent n)"
  by pat_completeness auto

termination
  by (relation "measure size") (auto dest!: parent_smaller)

declare mangle_till_file.simps [simp del]

fun intn_name :: "int_n_kind \<Rightarrow> string" where
  "intn_name KChar = ''char''"
| "intn_name KShort = ''short''"
| "intn_name KInt = ''int''"
| "intn_name KLong = ''long''"
| "intn_name KLongLong = ''longlong''"
| "intn_name KInt128 = ''int128''"
| "intn_name KI8 = ''i8''"
| "intn_name KI16 = ''i16''"
| "intn_name KI32 = ''i32''"
| "intn_name KI64 = ''i64''"
| "intn_name KUChar = ''uchar''"
| "intn_name KUShort = ''ushort''"
| "intn_name KUInt = ''uint''"
| "intn_name KULong = ''ulong''"
| "intn_name KULongLong = ''ulonglong''"
| "intn_name KUInt128 = ''uint128''"
| "intn_name KU8 = ''u8''"
| "intn_name KU16 = ''u16''"
| "intn_name KU32 = ''u32''"
| "intn_name KU64 = ''u64''"

fun mangle_impl_type :: "impl_type \<Rightarrow> writer_op list" where
  "mangle_impl_type (IntN k) = [Append (intn_name k)]"
| "mangle_impl_type FloatTy = [Append ''float'']"
| "mangle_impl_type Float128Ty = [Append ''float128'']"
| "mangle_impl_type DoubleTy = [Append ''double'']"
| "mangle_impl_type BoolTy = [Append ''bool'']"
| "mangle_impl_type LongDoubleTy = [Append ''longdouble'']"
| "mangle_impl_type StringTy = [Append ''str'']"
| "mangle_impl_type ExpressiveStringTy = [Append ''expr_str'']"
| "mangle_impl_type AnyTy = [Append ''any'']"
| "mangle_impl_type NullPtrTy = [Append ''nullptr'']"
| "mangle_impl_type (PointerTy m t) =
     (if m then [Append_char CHR ''m''] else []) @ Append ''p_'' # mangle_impl_type t"
| "mangle_impl_type (ReferenceTy m t) =
     (if m then [Append_char CHR ''m''] else []) @ Append ''r_'' # mangle_impl_type t"
| "mangle_impl_type (LinkedTy n) = mangle_till_file n"
| "mangle_impl_type OtherTy = []"

subsection \<open>Functions\<close>

text \<open>The function of an interface with a name, as the interface it stands in.\<close>

fun direct_child_function :: "decl_node \<Rightarrow> string \<Rightarrow> container option option" where
  "direct_child_function (InterfaceDecl c s u fs p) f = map_of fs f"
| "direct_child_function n f = None"

fun interface_container :: "decl_node \<Rightarrow> container" where
  "interface_container (InterfaceDecl c s u fs p) = c"
| "interface_container n = \<lparr>name_view = '''', generic_instantiation = - 1, container_no_mangle = False\<rparr>"

text \<open>The name of the interface and the name of the type that implements it.\<close>

definition interface_and_user :: "container \<Rightarrow> container \<Rightarrow> writer_op list" where
  "interface_and_user i u = container_name i @ [Append_char CHR ''_''] @ container_name u @ [Append_char CHR ''_'']"

fun mangle_func_parent :: "string \<Rightarrow> bool \<Rightarrow> decl_node \<Rightarrow> writer_op list option" where
  "mangle_func_parent f no_mangle (InterfaceDecl c static user fs p) =
     (let interface = InterfaceDecl c static user fs p in
      if static then Some (mangle_non_func interface)
      else (case user of
          Some u \<Rightarrow> Some (write_mangle_parent_of interface @ interface_and_user c u)
        | None \<Rightarrow> Some (mangle_non_func interface)))"
| "mangle_func_parent f no_mangle (StructDecl c os p) =
     (case map_of os f of
        Some interface \<Rightarrow>
          if is_static interface then Some (mangle_non_func interface)
          else Some (mangle_non_func (StructDecl c os p))
      | None \<Rightarrow> Some (mangle_non_func (StructDecl c os p)))"
| "mangle_func_parent f no_mangle (ImplDecl (Some (type, can_node)) linked p) =
     (case linked of
        None \<Rightarrow> None
      | Some interface \<Rightarrow>
          if is_static interface then Some (mangle_non_func interface)
          else (case can_node of
              Some user \<Rightarrow> Some (write_mangle_parent_of interface @
                (case direct_child_function interface f of
                   None \<Rightarrow> interface_and_user (interface_container interface) user
                 | Some None \<Rightarrow> interface_and_user (interface_container interface) user
                 | Some (Some base) \<Rightarrow> interface_and_user base user))
            | None \<Rightarrow> Some (write_mangle_parent_of (ImplDecl (Some (type, can_node)) linked p) @
                mangle_impl_type type @ [Append_char CHR ''_''])))"
| "mangle_func_parent f no_mangle (ImplDecl None linked p) =
     (case linked of None \<Rightarrow> None | Some interface \<Rightarrow> Some (mangle_non_func interface))"
| "mangle_func_parent f no_mangle (FileScope s m) =
     Some (if no_mangle then [] else write_mod_scope s m)"
| "mangle_func_parent f no_mangle n = Some (mangle_non_func n)"

text \<open>\<^verbatim>\<open>mangle\<close>: an extension function is named after the type of its first parameter.\<close>

fun mangle :: "decl_node \<Rightarrow> writer_op list option" where
  "mangle (FunctionDecl f i no_mangle extension p) =
     (let decl = FunctionDecl f i no_mangle extension p;
          outer = (case extension of Some (Some n) \<Rightarrow> Some n | _ \<Rightarrow> p) in
      if no_mangle then Some (mangle_no_parent decl)
      else case outer of
          None \<Rightarrow> Some (mangle_no_parent decl)
        | Some n \<Rightarrow> map_option (\<lambda>ops. ops @ mangle_no_parent decl) (mangle_func_parent f no_mangle n))"
| "mangle n = Some (mangle_non_func n)"

definition mangle_vtable_name :: "decl_node \<Rightarrow> decl_node \<Rightarrow> writer_op list" where
  "mangle_vtable_name interface def = mangle_non_func interface @ mangle_non_func def"

definition mangle_vtable_name_type :: "decl_node \<Rightarrow> impl_type \<Rightarrow> writer_op list" where
  "mangle_vtable_name_type interface type =
     mangle_non_func interface @ [Append_char CHR ''_''] @ mangle_impl_type type"

text \<open>The linked container of a struct value, or the name its type has when nothing is linked.\<close>

fun mangle_linked :: "decl_node option \<Rightarrow> string option \<Rightarrow> writer_op list" where
  "mangle_linked (Some (UnionDecl c p)) t = mangle_non_func (UnionDecl c p)"
| "mangle_linked (Some (StructDecl c os p)) t = mangle_non_func (StructDecl c os p)"
| "mangle_linked (Some n) t = []"
| "mangle_linked None (Some t) = [Append t]"
| "mangle_linked None None = []"

end
