(* ===== verification/Name_Mangler_Correct.thy ===== *)
theory Name_Mangler_Correct
  imports Name_Mangler
begin

text \<open>
  What the names of \<open>Name_Mangler\<close> promise: they are only appended to, an implementation has the name
  its interface calls, functions of one parent have different names, and where names of different
  parents meet.
\<close>

subsection \<open>Names as texts\<close>

definition mangled :: "writer_op list \<Rightarrow> string" where
  "mangled ops = fold op_text ops ''''"

fun is_append :: "writer_op \<Rightarrow> bool" where
  "is_append (Append cs) = True"
| "is_append (Append_char c) = True"
| "is_append (Append_signed v) = True"
| "is_append p = False"

lemma append_text: "is_append p \<Longrightarrow> op_text p t = t @ op_text p ''''"
  by (cases p rule: is_append.cases) auto

lemma appends_in_bounds: "list_all is_append ops \<Longrightarrow> list_all in_bounds ops"
proof -
  have "is_append p \<Longrightarrow> in_bounds p" for p by (cases p rule: is_append.cases) auto
  then show "list_all is_append ops \<Longrightarrow> list_all in_bounds ops" by (auto simp: list_all_iff)
qed

lemma appends_text: "list_all is_append ops \<Longrightarrow> fold op_text ops t = t @ mangled ops"
proof (induction ops arbitrary: t)
  case (Cons p ops)
  have first: "op_text p t = t @ op_text p ''''" using Cons.prems by (intro append_text) simp
  have rest: "fold op_text ops x = x @ mangled ops" for x using Cons by simp
  show ?case using first by (simp add: rest mangled_def[of "p # ops"])
qed (simp add: mangled_def)

lemma mangled_append:
  "list_all is_append xs \<Longrightarrow> list_all is_append ys \<Longrightarrow> mangled (xs @ ys) = mangled xs @ mangled ys"
  using appends_text[of ys "mangled xs"] by (simp add: mangled_def)

lemma mangled_simps [simp]:
  "mangled [] = ''''"
  "mangled [p] = op_text p ''''"
  by (simp_all add: mangled_def)

lemma mangled_Cons: "is_append p \<Longrightarrow> list_all is_append ps \<Longrightarrow> mangled (p # ps) = op_text p '''' @ mangled ps"
  using mangled_append[of "[p]" ps] by simp

lemma container_name_appends [simp]: "list_all is_append (container_name c)"
  by (simp add: container_name_def)

lemma mangle_no_parent_appends [simp]: "list_all is_append (mangle_no_parent n)"
  by (cases n rule: mangle_no_parent.cases) auto

lemma write_mod_scope_appends [simp]: "list_all is_append (write_mod_scope s m)"
  by (simp add: write_mod_scope_def)

lemma parents_append [simp]:
  "list_all is_append (write_mangle_parent_of n)" "list_all is_append (mangle_non_func n)"
proof (induction n and n rule: write_mangle_parent_of_mangle_non_func.induct)
  case (1 n)
  then show ?case by (subst write_mangle_parent_of.simps) (auto split: option.splits decl_node.splits)
next
  case (2 n)
  then show ?case by (subst mangle_non_func.simps) simp
qed

lemma mangle_till_file_appends [simp]: "list_all is_append (mangle_till_file n)"
proof (induction n rule: mangle_till_file.induct)
  case (1 n)
  then show ?case by (subst mangle_till_file.simps) (auto split: option.splits decl_node.splits)
qed

lemma mangle_impl_type_appends [simp]: "list_all is_append (mangle_impl_type t)"
  by (induction t rule: mangle_impl_type.induct) auto

lemma interface_and_user_appends [simp]: "list_all is_append (interface_and_user i u)"
  by (simp add: interface_and_user_def)

lemma func_parent_appends: "mangle_func_parent f m n = Some ops \<Longrightarrow> list_all is_append ops"
  by (cases "(f, m, n)" rule: mangle_func_parent.cases) (auto simp: Let_def split: option.splits if_splits)

lemma mangle_appends: "mangle n = Some ops \<Longrightarrow> list_all is_append ops"
  by (cases n rule: mangle.cases)
    (auto simp: Let_def dest: func_parent_appends split: option.splits if_splits)

text \<open>
  A name is written as it is: the mangler appends its name to whatever the writer holds, on
  the stack or on the heap, and changes nothing that was there.
\<close>

theorem mangled_name_written:
  assumes "mangle n = Some ops" and "writer_ok w" and "short (pos w + sum_list (map needs ops))"
    and "\<forall>k. grants M k"
  shows "\<exists>w'. run_ops M ops w = Written w' \<and> writer_ok w' \<and> writer_text w' = writer_text w @ mangled ops"
  using run_ops_text[OF assms(2,3) appends_in_bounds[OF mangle_appends[OF assms(1)]], of M] assms(4)
    appends_text[OF mangle_appends[OF assms(1)]]
    blind_move[of M ops]
  by (cases "run_ops M ops w") (auto simp: promised_def)

definition example_module :: decl_node where
  "example_module = FileScope ''acme'' ''shop''"

definition example_interface :: "container option \<Rightarrow> decl_node" where
  "example_interface user = InterfaceDecl
     \<lparr>name_view = ''Shape'', generic_instantiation = - 1, container_no_mangle = False\<rparr> False user
     [(''area'', Some \<lparr>name_view = ''Shape'', generic_instantiation = - 1, container_no_mangle = False\<rparr>)]
     (Some example_module)"

definition example_box :: container where
  "example_box = \<lparr>name_view = ''Box'', generic_instantiation = 2, container_no_mangle = False\<rparr>"

definition example_function :: "decl_node \<Rightarrow> decl_node" where
  "example_function p = FunctionDecl ''area'' (- 1) False None (Some p)"

theorem mangled_name_written_witness:
  "\<exists>ops w'. mangle (example_function (example_interface (Some example_box))) = Some ops \<and>
     run_ops example_allocator ops (stack_writer ''??'') = Written w' \<and>
     writer_text w' = ''acme_shop_Shape_Box__cgs__2_area''"
proof -
  let ?n = "example_function (example_interface (Some example_box))"
  let ?ops = "the (mangle ?n)"
  have ops: "mangle ?n = Some ?ops" "mangled ?ops = ''acme_shop_Shape_Box__cgs__2_area''"
    and small: "sum_list (map needs ?ops) < 1000"
    by code_simp+
  have "writer_ok (stack_writer ''??'')" by (simp add: stack_writer_def writer_ok_def cap_def)
  moreover have "short (pos (stack_writer ''??'') + sum_list (map needs ?ops))"
    using small by (simp add: stack_writer_def short_def)
  moreover have "\<forall>k. grants example_allocator k" by (simp add: example_allocator_def)
  moreover have "writer_text (stack_writer ''??'') = ''''" by (simp add: stack_writer_def writer_text_def)
  ultimately show ?thesis
    using mangled_name_written[OF ops(1), of "stack_writer ''??''" example_allocator] ops by auto
qed

subsection \<open>Implementations and interfaces\<close>

lemma same_parent:
  assumes "parent_node n = parent_node n'" and "is_node_no_mangle n = is_node_no_mangle n'"
  shows "write_mangle_parent_of n = write_mangle_parent_of n'"
  unfolding write_mangle_parent_of.simps[of n] write_mangle_parent_of.simps[of n'] assms ..

lemma parents_of_interface:
  "write_mangle_parent_of (InterfaceDecl c s a fs p) = write_mangle_parent_of (InterfaceDecl c s b gs p)"
  by (rule same_parent) simp_all

lemma name_of_interface: "mangle_non_func (InterfaceDecl c s a fs p) = mangle_non_func (InterfaceDecl c s b gs p)"
  using parents_of_interface by (simp add: mangle_non_func.simps)

text \<open>Every function of the interface stands in it.\<close>

definition own_functions :: "container \<Rightarrow> (string \<times> container option) list \<Rightarrow> bool" where
  "own_functions c fs \<longleftrightarrow> list_all (\<lambda>(f, base). base = None \<or> base = Some c) fs"

lemma own_function: "own_functions c fs \<Longrightarrow> map_of fs f = Some (Some base) \<Longrightarrow> base = c"
  by (auto simp: own_functions_def list_all_iff dest!: map_of_SomeD)

text \<open>
  C20. A function of an \<^verbatim>\<open>impl\<close> of an interface for a container has the name that the interface's
  function has when that container is its user: what a call through the interface refers to is
  what the implementation defines, for static interfaces and for others, for generic functions and
  containers, and also for functions the interface does not have.
\<close>

theorem impl_function_name:
  assumes "own_functions c fs"
  shows "mangle (FunctionDecl f i m None (Some
           (ImplDecl (Some (t, Some u)) (Some (InterfaceDecl c s a fs p)) q))) =
         mangle (FunctionDecl f i m None (Some (InterfaceDecl c s (Some u) fs p)))"
proof -
  have "mangle_func_parent f m (ImplDecl (Some (t, Some u)) (Some (InterfaceDecl c s a fs p)) q) =
      mangle_func_parent f m (InterfaceDecl c s (Some u) fs p)"
    using parents_of_interface[of c s a fs p "Some u" fs] name_of_interface[of c s a fs p "Some u" fs]
      own_function[OF assms]
    by (auto simp: Let_def split: option.splits)
  then show ?thesis by (simp add: Let_def)
qed

theorem impl_function_name_witness:
  "mangle (example_function (ImplDecl (Some (OtherTy, Some example_box)) (Some (example_interface None)) None)) =
   mangle (example_function (example_interface (Some example_box)))"
  unfolding example_function_def example_interface_def
  by (rule impl_function_name) (simp add: own_functions_def)

subsection \<open>Functions of one parent\<close>

text \<open>A name that looks like the one of an instance of a generic function.\<close>

definition instance_like :: "string \<Rightarrow> bool" where
  "instance_like f \<longleftrightarrow> f \<noteq> '''' \<and> digit_value (last f) < 10 \<and>
     take 6 (dropWhile (\<lambda>c. digit_value c < 10) (rev f)) = rev ''__cfg_''"

definition function_suffix :: "int \<Rightarrow> string" where
  "function_suffix i = (if i \<noteq> - 1 then ''__cfg_'' @ decimal (nat i) else '''')"

definition instance_index :: "int \<Rightarrow> bool" where
  "instance_index i \<longleftrightarrow> - 1 \<le> i \<and> i < 2 ^ 31"

lemma written_int:
  assumes "0 \<le> i" and "i < 2 ^ 31"
  shows "signed_decimal (sint (word_of_int i :: u64)) = decimal (nat i)"
proof -
  have "sint (word_of_int i :: u64) = i" using assms by (simp add: sint_sbintrunc' signed_take_bit_int_eq_self)
  then show ?thesis using assms by (simp add: signed_decimal_def)
qed

lemma function_name_text:
  assumes "instance_index i"
  shows "mangled (mangle_no_parent (FunctionDecl f i m e p)) = f @ function_suffix i"
  using assms written_int[of i]
  by (simp add: mangled_Cons function_suffix_def instance_index_def)

lemma instance_suffix_digits:
  "dropWhile (\<lambda>c. digit_value c < 10) (rev (f @ ''__cfg_'' @ decimal n)) = rev (f @ ''__cfg_'')"
  "takeWhile (\<lambda>c. digit_value c < 10) (rev (f @ ''__cfg_'' @ decimal n)) = rev (decimal n)"
proof -
  have "\<forall>c\<in>set (rev (decimal n)). digit_value c < 10" using decimal_digits by simp
  moreover have "\<not> digit_value CHR ''_'' < 10" by (simp add: digit_value_def)
  ultimately show "dropWhile (\<lambda>c. digit_value c < 10) (rev (f @ ''__cfg_'' @ decimal n)) = rev (f @ ''__cfg_'')"
    "takeWhile (\<lambda>c. digit_value c < 10) (rev (f @ ''__cfg_'' @ decimal n)) = rev (decimal n)"
    by (simp_all add: dropWhile_append takeWhile_append)
qed

lemma suffixed_instance_like: "instance_like (f @ ''__cfg_'' @ decimal n)"
proof -
  have "digit_value (last (decimal n)) < 10" using decimal_digits[of n] by simp
  then show ?thesis unfolding instance_like_def instance_suffix_digits by simp
qed

lemma suffix_injective:
  assumes "instance_index i" and "instance_index j" and "\<not> instance_like f" and "\<not> instance_like g"
    and eq: "f @ function_suffix i = g @ function_suffix j"
  shows "f = g \<and> i = j"
proof -
  consider "i = - 1" "j = - 1" | "i \<noteq> - 1" "j = - 1" | "i = - 1" "j \<noteq> - 1" | "i \<noteq> - 1" "j \<noteq> - 1" by blast
  then show ?thesis
  proof cases
    case 4
    then have eq: "f @ ''__cfg_'' @ decimal (nat i) = g @ ''__cfg_'' @ decimal (nat j)"
      using eq by (simp add: function_suffix_def)
    have "rev (f @ ''__cfg_'') = rev (g @ ''__cfg_'')"
      using instance_suffix_digits(1)[of f "nat i"] instance_suffix_digits(1)[of g "nat j"] unfolding eq by simp
    moreover have "rev (decimal (nat i)) = rev (decimal (nat j))"
      using instance_suffix_digits(2)[of f "nat i"] instance_suffix_digits(2)[of g "nat j"] unfolding eq by simp
    then have "nat i = nat j" by (metis decimal_value rev_is_rev_conv)
    moreover have "0 \<le> i" "0 \<le> j" using 4 assms(1,2) unfolding instance_index_def by linarith+
    ultimately show ?thesis by simp
  qed (use assms suffixed_instance_like in \<open>auto simp: function_suffix_def\<close>)
qed

text \<open>
  Parents that put the same in front of all their functions: a struct does unless it overrides
  functions of a static interface (those are named after the interface), and an \<^verbatim>\<open>impl\<close> does when
  its interface is known and holds its own functions.
\<close>

fun plain_parent :: "decl_node \<Rightarrow> bool" where
  "plain_parent (StructDecl c os p) \<longleftrightarrow> list_all (\<lambda>(f, interface). \<not> is_static interface) os"
| "plain_parent (ImplDecl t (Some (InterfaceDecl c s user fs p)) q) \<longleftrightarrow> own_functions c fs"
| "plain_parent (ImplDecl t linked q) \<longleftrightarrow> False"
| "plain_parent n \<longleftrightarrow> True"

lemma overridden_not_static:
  "list_all (\<lambda>(f, interface). \<not> is_static interface) os \<Longrightarrow> map_of os f = Some interface \<Longrightarrow> \<not> is_static interface"
  by (auto simp: list_all_iff dest!: map_of_SomeD)

lemma struct_prefix:
  assumes "plain_parent (StructDecl c os p)"
  shows "mangle_func_parent f m (StructDecl c os p) = Some (mangle_non_func (StructDecl c os p))"
  using assms overridden_not_static[of os f] by (auto split: option.split)

lemma impl_prefix:
  assumes "own_functions c fs"
  shows "mangle_func_parent f m (ImplDecl (Some (type, can)) (Some (InterfaceDecl c s user fs p)) q) =
    (if s then Some (mangle_non_func (InterfaceDecl c s user fs p))
     else case can of
       Some u \<Rightarrow> Some (write_mangle_parent_of (InterfaceDecl c s user fs p) @ interface_and_user c u)
     | None \<Rightarrow> Some (write_mangle_parent_of (ImplDecl (Some (type, can)) (Some (InterfaceDecl c s user fs p)) q) @
         mangle_impl_type type @ [Append_char CHR ''_'']))"
  using own_function[OF assms, of f] by (auto simp: Let_def split: option.split)

lemma plain_parent_prefix:
  assumes "plain_parent p"
  shows "\<exists>ops. mangle_func_parent f False p = Some ops \<and> mangle_func_parent g False p = Some ops"
proof (cases p rule: plain_parent.cases)
  case (1 c os q)
  then show ?thesis using struct_prefix[of c os q] assms by (simp only:) blast
next
  case (2 t c s user fs q r)
  then have own: "own_functions c fs" using assms by simp
  show ?thesis
  proof (cases t)
    case None
    with 2 show ?thesis by simp
  next
    case (Some tc)
    obtain type can where "tc = (type, can)" by (cases tc)
    then show ?thesis unfolding 2 Some using impl_prefix[OF own] by (cases s; cases can) (simp_all only:, auto)
  qed
qed (use assms in \<open>auto simp: Let_def split: option.split\<close>)

text \<open>
  C21. Functions of one parent have different names: an instance of a generic function differs from
  the other instances and from the functions with other names. The functions are mangled and no
  extension functions, no name of them ends in \<^verbatim>\<open>__cfg_\<close> and a number (an instance is written
  like that), and the parent is a file, a namespace, an interface, a struct that overrides no
  function of a static interface, another container, or an \<^verbatim>\<open>impl\<close> of an interface that holds its
  own functions.
\<close>

theorem sibling_functions_distinct:
  assumes "plain_parent p" and "instance_index i" and "instance_index j"
    and "\<not> instance_like f" and "\<not> instance_like g" and "(f, i) \<noteq> (g, j)"
  shows "map_option mangled (mangle (FunctionDecl f i False None (Some p))) \<noteq>
         map_option mangled (mangle (FunctionDecl g j False None (Some p)))"
proof -
  obtain ops where ops: "mangle_func_parent f False p = Some ops" "mangle_func_parent g False p = Some ops"
    using plain_parent_prefix[OF assms(1)] by blast
  have "mangled (ops @ mangle_no_parent (FunctionDecl h k False None (Some p))) = mangled ops @ h @ function_suffix k"
    if "instance_index k" for h k
    using function_name_text[OF that] mangled_append[OF func_parent_appends[OF ops(1)] mangle_no_parent_appends]
    by (simp del: mangle_no_parent.simps)
  then show ?thesis
    using suffix_injective[OF assms(2-5)] assms(2,3,6) ops by (auto simp: Let_def simp del: mangle_no_parent.simps)
qed

theorem sibling_functions_distinct_witness:
  "map_option mangled (mangle (FunctionDecl ''max'' 0 False None (Some example_module))) \<noteq>
   map_option mangled (mangle (FunctionDecl ''max'' 1 False None (Some example_module)))"
  by (rule sibling_functions_distinct)
    (simp_all add: example_module_def instance_index_def instance_like_def digit_value_def)

subsection \<open>Where names meet\<close>

text \<open>
  C34. Nothing separates the names of nested parents: function \<^verbatim>\<open>bf\<close> of namespace \<^verbatim>\<open>a\<close> and function
  \<^verbatim>\<open>f\<close> of namespace \<^verbatim>\<open>ab\<close> have one name, and so have the methods of structs with such names; the
  module \<^verbatim>\<open>m_n\<close> of scope \<^verbatim>\<open>s\<close> and the module \<^verbatim>\<open>n\<close> of scope \<^verbatim>\<open>s_m\<close> give their functions one prefix.
\<close>

theorem nested_names_meet:
  "map_option mangled (mangle (FunctionDecl (b @ f) i False None (Some (NamespaceDecl (x # a) False p)))) =
   map_option mangled (mangle (FunctionDecl f i False None (Some (NamespaceDecl (x # a @ b) False p)))) \<and>
   map_option mangled (mangle (FunctionDecl f i False None (Some (FileScope (x # s) (m @ ''_'' @ n))))) =
   map_option mangled (mangle (FunctionDecl f i False None (Some (FileScope (x # s @ ''_'' @ m) n))))"
proof -
  have up: "write_mangle_parent_of (NamespaceDecl c False p) = write_mangle_parent_of (NamespaceDecl d False p)" for c d
    by (rule same_parent) simp_all
  have "mangled (mangle_non_func (NamespaceDecl (y # c) False p) @ mangle_no_parent (FunctionDecl g i False None q)) =
      mangled (write_mangle_parent_of (NamespaceDecl [] False p)) @ (y # c) @ g @
      mangled (mangle_no_parent (FunctionDecl '''' i False None None))" for y c g q
    using up[of "y # c" "[]"] by (simp add: mangle_non_func.simps mangled_append mangled_Cons)
  then have "map_option mangled (mangle (FunctionDecl (b @ f) i False None (Some (NamespaceDecl (x # a) False p)))) =
     map_option mangled (mangle (FunctionDecl f i False None (Some (NamespaceDecl (x # a @ b) False p))))"
    by (simp add: Let_def del: mangle_no_parent.simps)
  moreover have "mangled (write_mod_scope (x # s) (m @ ''_'' @ n) @ ops) =
      mangled (write_mod_scope (x # s @ ''_'' @ m) n @ ops)" if "list_all is_append ops" for ops
    using that by (simp add: write_mod_scope_def mangled_Cons)
  ultimately show ?thesis by (simp add: Let_def)
qed

end
