(* ===== verification/Chem_String.thy ===== *)
theory Chem_String
  imports Buffered_Writer
begin

text \<open>
  The string of the compiler: \<^verbatim>\<open>std/chem_string.h\<close>. Its union has three states, one constructor each:
  a view of memory that belongs to someone else, a buffer of 16 bytes inside the string, and memory
  on the heap, whose capacity is its length. Reading or writing outside a piece of memory is the
  outcome \<open>OutOfBounds\<close> of \<open>Buffered_Writer\<close>. What fresh memory holds is a parameter; memory is taken
  to be granted, since the code does not ask. Lengths are numbers: the counters of the copying loops
  are \<^verbatim>\<open>int\<close>, so strings are taken to be shorter than $2^{31}$.
\<close>

datatype storage =
    Constant string nat
  | Sso string nat
  | Heap string nat

type_synonym junk = "nat \<Rightarrow> char"

definition STR_BUFF_SIZE :: nat where
  "STR_BUFF_SIZE = 16"

definition memory :: "junk \<Rightarrow> nat \<Rightarrow> string" where
  "memory J n = map J [0..<n]"

subsection \<open>Memory\<close>

definition write_at :: "nat \<Rightarrow> string \<Rightarrow> string \<Rightarrow> string write_result" where
  "write_at i cs mem =
     (if i + length cs \<le> length mem then Written (take i mem @ cs @ drop (i + length cs) mem)
      else OutOfBounds)"

definition read_at :: "nat \<Rightarrow> nat \<Rightarrow> string \<Rightarrow> string write_result" where
  "read_at i n mem = (if i + n \<le> length mem then Written (slice i (i + n) mem) else OutOfBounds)"

text \<open>A piece of text and the NUL behind it.\<close>

definition write_text :: "string \<Rightarrow> string \<Rightarrow> string write_result" where
  "write_text cs mem = bind_write (write_at 0 cs mem) (write_at (length cs) [CHR 0x00])"

subsection \<open>Reading\<close>

primrec string_size :: "storage \<Rightarrow> nat" where
  "string_size (Constant d l) = l"
| "string_size (Sso b l) = l"
| "string_size (Heap m l) = l"

primrec string_data :: "storage \<Rightarrow> string" where
  "string_data (Constant d l) = d"
| "string_data (Sso b l) = b"
| "string_data (Heap m l) = m"

primrec capacity :: "storage \<Rightarrow> nat" where
  "capacity (Constant d l) = l"
| "capacity (Sso b l) = STR_BUFF_SIZE"
| "capacity (Heap m l) = length m"

definition get_char_at :: "nat \<Rightarrow> storage \<Rightarrow> char write_result" where
  "get_char_at index s = (if index < length (string_data s) then Written (string_data s ! index) else OutOfBounds)"

definition string_empty :: "storage \<Rightarrow> bool" where
  "string_empty s \<longleftrightarrow> string_size s = 0"

definition to_view :: "storage \<Rightarrow> string write_result" where
  "to_view s = read_at 0 (string_size s) (string_data s)"

definition equals :: "storage \<Rightarrow> storage \<Rightarrow> bool" where
  "equals s other \<longleftrightarrow> string_size s = string_size other \<and>
     take (string_size s) (string_data s) = take (string_size s) (string_data other)"

definition ends_with :: "string \<Rightarrow> storage \<Rightarrow> bool" where
  "ends_with other s \<longleftrightarrow> length other \<le> string_size s \<and>
     slice (string_size s - length other) (string_size s) (string_data s) = other"

text \<open>FNV over the bytes, each extended with its sign since \<^verbatim>\<open>char\<close> is signed.\<close>

definition string_hash :: "storage \<Rightarrow> u64" where
  "string_hash s = fold (\<lambda>c hash. (hash XOR scast (of_char c :: 8 word)) * 0x100000001b3)
     (take (string_size s) (string_data s)) 0xcbf29ce484222325"

subsection \<open>Changing the storage\<close>

definition move_const_to_buffer :: "junk \<Rightarrow> string \<Rightarrow> nat \<Rightarrow> storage write_result" where
  "move_const_to_buffer J data len =
     bind_write (read_at 0 len data) (\<lambda>cs.
     bind_write (write_text cs (memory J STR_BUFF_SIZE)) (\<lambda>b. Written (Sso b (len mod 256))))"

text \<open>
  The loop counts with an \<^verbatim>\<open>int\<close>: the definition is the code's for \<open>len < 2 ^ 31\<close>, and what it
  says of longer texts is an idealisation.
\<close>

definition move_data_to_heap :: "junk \<Rightarrow> string \<Rightarrow> nat \<Rightarrow> nat \<Rightarrow> storage write_result" where
  "move_data_to_heap J from_data len new_capacity =
     bind_write (read_at 0 len from_data) (\<lambda>cs.
     bind_write (write_text cs (memory J new_capacity)) (\<lambda>m. Written (Heap m len)))"

definition resize :: "junk \<Rightarrow> nat \<Rightarrow> string \<Rightarrow> nat \<Rightarrow> storage write_result" where
  "resize J new_capacity m len =
     bind_write (write_at len [CHR 0x00] (take new_capacity m @ drop (length m) (memory J new_capacity)))
       (\<lambda>m. Written (Heap m len))"

primrec ensure_mut :: "junk \<Rightarrow> nat \<Rightarrow> storage \<Rightarrow> storage write_result" where
  "ensure_mut J n (Constant d l) =
     (if n < STR_BUFF_SIZE then move_const_to_buffer J d l else move_data_to_heap J d l n)"
| "ensure_mut J n (Sso b l) =
     (if n < STR_BUFF_SIZE then Written (Sso b l) else move_data_to_heap J b l n)"
| "ensure_mut J n (Heap m l) = (if length m \<le> n then resize J n m l else Written (Heap m l))"

definition reserve :: "junk \<Rightarrow> nat \<Rightarrow> storage \<Rightarrow> storage write_result" where
  "reserve J n s = ensure_mut J n s"

primrec mutable_data :: "junk \<Rightarrow> storage \<Rightarrow> storage write_result" where
  "mutable_data J (Constant d l) =
     (if l < STR_BUFF_SIZE then move_const_to_buffer J d l else move_data_to_heap J d l (l * 2))"
| "mutable_data J (Sso b l) = Written (Sso b l)"
| "mutable_data J (Heap m l) = Written (Heap m l)"

text \<open>Writing to the data of a string; a view is never written to.\<close>

primrec write_data :: "nat \<Rightarrow> string \<Rightarrow> storage \<Rightarrow> storage write_result" where
  "write_data i cs (Constant d l) = OutOfBounds"
| "write_data i cs (Sso b l) = bind_write (write_at i cs b) (\<lambda>b. Written (Sso b l))"
| "write_data i cs (Heap m l) = bind_write (write_at i cs m) (\<lambda>m. Written (Heap m l))"

primrec with_length :: "nat \<Rightarrow> storage \<Rightarrow> storage" where
  "with_length n (Constant d l) = Constant d n"
| "with_length n (Sso b l) = Sso b (n mod 256)"
| "with_length n (Heap m l) = Heap m n"

subsection \<open>Construction, copies and moves\<close>

definition make_view :: "string \<Rightarrow> nat \<Rightarrow> storage" where
  "make_view data len = Constant data len"

definition empty_string :: storage where
  "empty_string = Constant [CHR 0x00] 0"

definition string_of_value :: "junk \<Rightarrow> string \<Rightarrow> nat \<Rightarrow> storage write_result" where
  "string_of_value J val len = ensure_mut J (len + 2) (Constant val len)"

definition string_of_string :: "junk \<Rightarrow> storage \<Rightarrow> storage write_result" where
  "string_of_string J s =
     (let len = string_size s; view = Constant (string_data s) len in
      case s of Constant d l \<Rightarrow> Written view | _ \<Rightarrow> ensure_mut J (len + 2) view)"

text \<open>Moving: what the new string and the old one hold.\<close>

fun own :: "storage \<Rightarrow> storage \<times> storage" where
  "own (Heap m l) = (Heap m l, empty_string)"
| "own s = (s, s)"

definition substring_cap :: "junk \<Rightarrow> nat \<Rightarrow> nat \<Rightarrow> nat \<Rightarrow> storage \<Rightarrow> storage write_result" where
  "substring_cap J start stop new_cap s =
     (let actual_len = size_wrap (stop + (2 ^ 64 - start)) in
      bind_write (read_at start actual_len (string_data s)) (\<lambda>cs.
      if actual_len < STR_BUFF_SIZE
      then bind_write (write_text cs (memory J STR_BUFF_SIZE)) (\<lambda>b. Written (Sso b actual_len))
      else bind_write (write_text cs (memory J new_cap)) (\<lambda>m. Written (Heap m actual_len))))"

definition substring :: "junk \<Rightarrow> nat \<Rightarrow> nat \<Rightarrow> storage \<Rightarrow> storage write_result" where
  "substring J start stop s = substring_cap J start stop (size_wrap (stop + (2 ^ 64 - start) + 5)) s"

definition string_copy :: "junk \<Rightarrow> storage \<Rightarrow> storage write_result" where
  "string_copy J s = substring J 0 (string_size s) s"

subsection \<open>Appending\<close>

fun make_room :: "junk \<Rightarrow> storage \<Rightarrow> storage write_result" where
  "make_room J (Constant d l) =
     (if l < STR_BUFF_SIZE - 1 then move_const_to_buffer J d l else move_data_to_heap J d l (l * 2))"
| "make_room J (Sso b l) =
     (if l < STR_BUFF_SIZE - 1 then Written (Sso b l) else move_data_to_heap J b l (l * 2))"
| "make_room J (Heap m l) = (if length m \<le> l + 2 then resize J (length m * 2) m l else Written (Heap m l))"

definition string_push :: "junk \<Rightarrow> char \<Rightarrow> storage \<Rightarrow> storage write_result" where
  "string_push J c s =
     (let len = string_size s in
      bind_write (make_room J s) (\<lambda>s.
      bind_write (write_data len [c] s) (\<lambda>s.
      bind_write (write_data (len + 1) [CHR 0x00] s) (\<lambda>s.
      Written (with_length (len + 1) s)))))"

primrec push_all :: "junk \<Rightarrow> string \<Rightarrow> storage \<Rightarrow> storage write_result" where
  "push_all J [] s = Written s"
| "push_all J (c # cs) s = bind_write (string_push J c s) (push_all J cs)"

definition string_append :: "junk \<Rightarrow> string \<Rightarrow> storage \<Rightarrow> storage write_result" where
  "string_append J val s = bind_write (ensure_mut J (string_size s + length val + 10) s) (push_all J val)"

text \<open>\<^verbatim>\<open>strlen\<close> looks for a NUL and does not know the length.\<close>

definition c_string :: "string \<Rightarrow> string write_result" where
  "c_string mem = (if CHR 0x00 \<in> set mem then Written (takeWhile (\<lambda>c. c \<noteq> CHR 0x00) mem) else OutOfBounds)"

definition string_plus :: "junk \<Rightarrow> storage \<Rightarrow> storage \<Rightarrow> storage write_result" where
  "string_plus J s str =
     bind_write (string_copy J s) (\<lambda>s.
     bind_write (c_string (string_data str)) (\<lambda>cs. string_append J cs s))"

subsection \<open>Changing characters\<close>

primrec string_set :: "junk \<Rightarrow> nat \<Rightarrow> char \<Rightarrow> storage \<Rightarrow> storage write_result" where
  "string_set J index c (Constant d l) =
     bind_write (move_const_to_buffer J d l) (write_data index [c])"
| "string_set J index c (Sso b l) = write_data index [c] (Sso b l)"
| "string_set J index c (Heap m l) = write_data index [c] (Heap m l)"

definition string_set_text :: "junk \<Rightarrow> nat \<Rightarrow> string \<Rightarrow> storage \<Rightarrow> storage write_result" where
  "string_set_text J index val s = bind_write (mutable_data J s) (write_data index val)"

primrec string_clear :: "storage \<Rightarrow> storage write_result" where
  "string_clear (Constant d l) = Written empty_string"
| "string_clear (Sso b l) = bind_write (write_at 0 [CHR 0x00] b) (\<lambda>b. Written (Sso b 0))"
| "string_clear (Heap m l) = bind_write (write_at 0 [CHR 0x00] m) (\<lambda>m. Written (Heap m 0))"

text \<open>\<^verbatim>\<open>offset_data\<close>: from the last index down to 0, each byte from \<open>k\<close> places before.\<close>

primrec offset_loop :: "nat \<Rightarrow> nat \<Rightarrow> string \<Rightarrow> string write_result" where
  "offset_loop 0 k mem = (if k = 0 \<and> 0 < length mem then Written mem else OutOfBounds)"
| "offset_loop (Suc i) k mem =
     (if k \<le> Suc i \<and> Suc i < length mem
      then offset_loop i k (mem[Suc i := mem ! (Suc i - k)])
      else OutOfBounds)"

definition offset_data :: "nat \<Rightarrow> storage \<Rightarrow> storage write_result" where
  "offset_data start s =
     bind_write (offset_loop (start + string_size s) (start + 1) (string_data s)) (\<lambda>mem.
     case s of Constant d l \<Rightarrow> OutOfBounds | Sso b l \<Rightarrow> Written (Sso mem l) | Heap m l \<Rightarrow> Written (Heap mem l))"

definition prepend :: "junk \<Rightarrow> string \<Rightarrow> storage \<Rightarrow> storage write_result" where
  "prepend J val s =
     (if string_size s + length val < capacity s then
        bind_write (mutable_data J s) (\<lambda>s.
        bind_write (offset_data (length val) s) (string_set_text J 0 val))
      else Written s)"

end
