(* ===== verification/Text_Store.thy ===== *)
theory Text_Store
  imports Buffered_Writer
begin

text \<open>
  The interface of a store of text that grows: what \<open>Buffered_Writer\<close> and \<open>Chem_String\<close> both promise
  to those who only append to it and clear it.
\<close>

text \<open>An edit appends a text or, as \<open>None\<close>, clears the store.\<close>

primrec edit :: "(string \<Rightarrow> 's \<Rightarrow> 's write_result) \<Rightarrow> ('s \<Rightarrow> 's write_result) \<Rightarrow>
    string option \<Rightarrow> 's \<Rightarrow> 's write_result" where
  "edit add erase None s = erase s"
| "edit add erase (Some cs) s = add cs s"

primrec edit_all :: "(string \<Rightarrow> 's \<Rightarrow> 's write_result) \<Rightarrow> ('s \<Rightarrow> 's write_result) \<Rightarrow>
    string option list \<Rightarrow> 's \<Rightarrow> 's write_result" where
  "edit_all add erase [] s = Written s"
| "edit_all add erase (e # es) s = bind_write (edit add erase e s) (edit_all add erase es)"

primrec edit_text :: "string option \<Rightarrow> string \<Rightarrow> string" where
  "edit_text None t = ''''"
| "edit_text (Some cs) t = t @ cs"

definition edit_size :: "string option \<Rightarrow> nat" where
  "edit_size e = (case e of None \<Rightarrow> 0 | Some cs \<Rightarrow> length cs)"

lemma edit_text_length: "length (edit_text e t) \<le> length t + edit_size e"
  by (cases e) (simp_all add: edit_size_def)

locale text_store =
  fixes store_ok :: "'s \<Rightarrow> bool"
    and text_of :: "'s \<Rightarrow> string"
    and add :: "string \<Rightarrow> 's \<Rightarrow> 's write_result"
    and erase :: "'s \<Rightarrow> 's write_result"
    and limit :: nat
  assumes add_text: "store_ok s \<Longrightarrow> length (text_of s) + length cs < limit \<Longrightarrow>
      \<exists>s'. add cs s = Written s' \<and> store_ok s' \<and> text_of s' = text_of s @ cs"
    and erase_text: "store_ok s \<Longrightarrow> \<exists>s'. erase s = Written s' \<and> store_ok s' \<and> text_of s' = ''''"
begin

lemma edit_one:
  assumes "store_ok s" and "length (text_of s) + edit_size e < limit"
  shows "\<exists>s'. edit add erase e s = Written s' \<and> store_ok s' \<and> text_of s' = edit_text e (text_of s)"
  using assms add_text erase_text by (cases e) (auto simp: edit_size_def)

lemma edits:
  "store_ok s \<Longrightarrow> length (text_of s) + sum_list (map edit_size es) < limit \<Longrightarrow>
   \<exists>s'. edit_all add erase es s = Written s' \<and> store_ok s' \<and> text_of s' = fold edit_text es (text_of s)"
proof (induction es arbitrary: s)
  case (Cons e es)
  then obtain s1 where s1: "edit add erase e s = Written s1" "store_ok s1" "text_of s1 = edit_text e (text_of s)"
    using edit_one[of s e] by auto
  moreover have "length (text_of s1) + sum_list (map edit_size es) < limit"
    using Cons.prems(2) edit_text_length[of e "text_of s"] s1(3) by simp
  ultimately show ?case using Cons.IH[OF s1(2)] by simp
qed simp

end

end
