(* ===== verification/Chem_String_Correct.thy ===== *)
theory Chem_String_Correct
  imports Chem_String Buffered_Writer_Correct Text_Store
begin

text \<open>
  The string refines a list of characters in each of its states, once it owns its memory; the
  operations that do not hold on views are shown where they fail. The writer and the string meet
  in the interface \<open>text_store\<close>.
\<close>

subsection \<open>Invariant\<close>

primrec string_ok :: "storage \<Rightarrow> bool" where
  "string_ok (Constant d l) \<longleftrightarrow> l \<le> length d"
| "string_ok (Sso b l) \<longleftrightarrow> length b = 16 \<and> l < 16 \<and> b ! l = CHR 0x00"
| "string_ok (Heap m l) \<longleftrightarrow> l < length m \<and> m ! l = CHR 0x00"

primrec is_mutable :: "storage \<Rightarrow> bool" where
  "is_mutable (Constant d l) \<longleftrightarrow> False"
| "is_mutable (Sso b l) \<longleftrightarrow> True"
| "is_mutable (Heap m l) \<longleftrightarrow> True"

definition string_text :: "storage \<Rightarrow> string" where
  "string_text s = take (string_size s) (string_data s)"

lemma length_string_text [simp]: "string_ok s \<Longrightarrow> length (string_text s) = string_size s"
  by (cases s) (auto simp: string_text_def)

text \<open>The outcome of an operation: a string of its own with a text and memory of some size.\<close>

definition holds :: "string \<Rightarrow> nat \<Rightarrow> storage write_result \<Rightarrow> bool" where
  "holds t n r \<longleftrightarrow>
     (\<exists>s. r = Written s \<and> string_ok s \<and> is_mutable s \<and> string_text s = t \<and> n \<le> length (string_data s))"

lemma holds_bind:
  assumes "holds t n r"
    and "\<And>s. string_ok s \<Longrightarrow> is_mutable s \<Longrightarrow> string_text s = t \<Longrightarrow> n \<le> length (string_data s) \<Longrightarrow> holds u k (f s)"
  shows "holds u k (bind_write r f)"
  using assms by (auto simp: holds_def)

lemma holds_less: "holds t n r \<Longrightarrow> k \<le> n \<Longrightarrow> holds t k r"
  by (auto simp: holds_def)

lemma holds_Written:
  "string_ok s \<Longrightarrow> is_mutable s \<Longrightarrow> string_text s = t \<Longrightarrow> n \<le> length (string_data s) \<Longrightarrow> holds t n (Written s)"
  by (simp add: holds_def)

lemma memory_length [simp]: "length (memory J n) = n"
  by (simp add: memory_def)

lemma read_text:
  assumes "string_ok s"
  shows "read_at 0 (string_size s) (string_data s) = Written (string_text s)"
  using assms by (cases s) (auto simp: read_at_def string_text_def slice_def)

lemma write_text_fits:
  assumes "length cs < length mem"
  shows "write_text cs mem = Written (cs @ CHR 0x00 # drop (Suc (length cs)) mem)"
  using assms by (simp add: write_text_def write_at_def)

lemma write_text_overflows: "length mem \<le> length cs \<Longrightarrow> write_text cs mem = OutOfBounds"
  by (simp add: write_text_def write_at_def)

subsection \<open>Moves between the states\<close>

lemma to_buffer:
  assumes "l \<le> length d" and "l < 16"
  shows "holds (take l d) 16 (move_const_to_buffer J d l)"
  using assms
  by (simp add: move_const_to_buffer_def read_at_def slice_def write_text_fits STR_BUFF_SIZE_def holds_def
      string_text_def nth_append)

lemma to_heap:
  assumes "l \<le> length d" and "l < n"
  shows "holds (take l d) n (move_data_to_heap J d l n)"
  using assms
  by (simp add: move_data_to_heap_def read_at_def slice_def write_text_fits holds_def string_text_def nth_append)

lemma resized:
  assumes "l < length m" and "length m \<le> n"
  shows "holds (take l m) n (resize J n m l)"
proof -
  let ?mem = "take n m @ drop (length m) (memory J n)"
  have len: "length ?mem = n" using assms by simp
  moreover have "take l ?mem = take l m" using assms by simp
  ultimately show ?thesis
    using assms unfolding resize_def write_at_def
    by (simp add: holds_def string_text_def nth_append min_def)
qed

lemma ensure_mut_holds:
  assumes "string_ok s" and "string_size s < n \<or> is_mutable s"
  shows "holds (string_text s) 0 (ensure_mut J n s)"
proof (cases s)
  case (Constant d l)
  then show ?thesis
    using assms holds_less[OF to_buffer[of l d J]] holds_less[OF to_heap[of l d n J]]
    by (simp add: STR_BUFF_SIZE_def string_text_def)
next
  case (Sso b l)
  then show ?thesis
    using assms holds_less[OF to_heap[of l b n J]] by (auto simp: STR_BUFF_SIZE_def string_text_def intro!: holds_Written)
next
  case (Heap m l)
  then show ?thesis
    using assms holds_less[OF resized[of l m n J]] by (auto simp: string_text_def intro!: holds_Written)
qed

lemma mutable_data_holds:
  assumes "string_ok s"
  shows "holds (string_text s) 0 (mutable_data J s)"
proof (cases s)
  case (Constant d l)
  then show ?thesis
    using assms holds_less[OF to_buffer[of l d J]] holds_less[OF to_heap[of l d "l * 2" J]]
    by (simp add: STR_BUFF_SIZE_def string_text_def)
qed (use assms in \<open>auto simp: string_text_def intro!: holds_Written\<close>)

subsection \<open>Appending\<close>

text \<open>There is room for a character and the NUL behind it.\<close>

lemma make_room_holds:
  assumes "string_ok s"
  shows "holds (string_text s) (string_size s + 2) (make_room J s)"
proof (cases s)
  case (Constant d l)
  then show ?thesis
    using assms holds_less[OF to_buffer[of l d J], of "l + 2"] holds_less[OF to_heap[of l d "l * 2" J], of "l + 2"]
    by (simp add: STR_BUFF_SIZE_def string_text_def)
next
  case (Sso b l)
  then show ?thesis
    using assms holds_less[OF to_heap[of l b "l * 2" J], of "l + 2"]
    by (auto simp: STR_BUFF_SIZE_def string_text_def intro!: holds_Written)
next
  case (Heap m l)
  then show ?thesis
    using assms holds_less[OF resized[of l m "length m * 2" J], of "l + 2"]
    by (auto simp: string_text_def intro!: holds_Written)
qed

lemma push_in_room:
  assumes "string_ok s" and "is_mutable s" and "string_size s + 2 \<le> length (string_data s)"
  shows "holds (string_text s @ [c]) 0
    (bind_write (write_data (string_size s) [c] s) (\<lambda>s'.
     bind_write (write_data (string_size s + 1) [CHR 0x00] s') (\<lambda>s'. Written (with_length (string_size s + 1) s'))))"
  using assms
  by (cases s) (auto simp: write_at_def holds_def string_text_def nth_append take_Suc_conv_app_nth min_def)

lemma string_push_holds:
  assumes "string_ok s"
  shows "holds (string_text s @ [c]) 0 (string_push J c s)"
  unfolding string_push_def Let_def
proof (rule holds_bind[OF make_room_holds[OF assms]])
  fix s' assume s': "string_ok s'" "is_mutable s'" "string_text s' = string_text s"
    "string_size s + 2 \<le> length (string_data s')"
  then have "string_size s' = string_size s"
    using length_string_text[OF s'(1)] length_string_text[OF assms] by simp
  then show "holds (string_text s @ [c]) 0
    (bind_write (write_data (string_size s) [c] s') (\<lambda>s'.
     bind_write (write_data (string_size s + 1) [CHR 0x00] s') (\<lambda>s'. Written (with_length (string_size s + 1) s'))))"
    using push_in_room[OF s'(1,2), of c] s'(3,4) by simp
qed

lemma push_all_holds:
  "string_ok s \<Longrightarrow> is_mutable s \<Longrightarrow> holds (string_text s @ cs) 0 (push_all J cs s)"
proof (induction cs arbitrary: s)
  case Nil
  then show ?case by (simp add: holds_Written)
next
  case (Cons c cs)
  show ?case unfolding push_all.simps
  proof (rule holds_bind[OF string_push_holds[OF Cons.prems(1)]])
    fix s' assume s': "string_ok s'" "is_mutable s'" "string_text s' = string_text s @ [c]"
    then show "holds (string_text s @ c # cs) 0 (push_all J cs s')" using Cons.IH[OF s'(1,2)] by simp
  qed
qed

lemma string_append_holds:
  assumes "string_ok s"
  shows "holds (string_text s @ cs) 0 (string_append J cs s)"
  unfolding string_append_def
proof (rule holds_bind[OF ensure_mut_holds[OF assms]])
  fix s' assume "string_ok s'" "is_mutable s'" "string_text s' = string_text s"
  then show "holds (string_text s @ cs) 0 (push_all J cs s')" using push_all_holds[of s' cs J] by simp
qed simp

subsection \<open>Construction, copies and parts\<close>

lemma string_of_value_holds:
  assumes "len \<le> length val"
  shows "holds (take len val) 0 (string_of_value J val len)"
  using ensure_mut_holds[of "Constant val len" "len + 2" J] assms
  by (simp add: string_of_value_def string_text_def)

lemma substring_holds:
  assumes "string_ok s" and "a \<le> b" and "b \<le> string_size s" and "b < 2 ^ 63"
  shows "holds (slice a b (string_text s)) 0 (substring J a b s)"
proof -
  have len: "size_wrap (b + (2 ^ 64 - a)) = b - a" "size_wrap (b + (2 ^ 64 - a) + 5) = b - a + 5"
  proof -
    have wrap: "size_wrap (n + 2 ^ 64) = n" if "n < 2 ^ 64" for n using that by (simp add: size_wrap_def)
    have "b + (2 ^ 64 - a) = (b - a) + 2 ^ 64" "b + (2 ^ 64 - a) + 5 = (b - a + 5) + 2 ^ 64"
      using assms(2,4) by simp_all
    then show "size_wrap (b + (2 ^ 64 - a)) = b - a" "size_wrap (b + (2 ^ 64 - a) + 5) = b - a + 5"
      using wrap[of "b - a"] wrap[of "b - a + 5"] assms(4) by (simp_all only:) auto
  qed
  have "string_size s \<le> length (string_data s)" using assms(1) by (cases s) auto
  then have read: "read_at a (b - a) (string_data s) = Written (slice a b (string_text s))"
    and size: "length (slice a b (string_text s)) = b - a"
    using assms(2,3) by (auto simp: read_at_def slice_def string_text_def drop_take min_def)
  moreover have "b - a < b + 5 - a" using assms(2) by arith
  ultimately show ?thesis
    unfolding substring_def substring_cap_def Let_def len read
    by (simp add: STR_BUFF_SIZE_def write_text_fits holds_def string_text_def nth_append)
qed

lemma string_copy_holds:
  assumes "string_ok s" and "string_size s < 2 ^ 63"
  shows "holds (string_text s) 0 (string_copy J s)"
  using substring_holds[of s 0 "string_size s" J] assms
  by (simp add: string_copy_def slice_def)

lemma own_moves: "string_ok s \<Longrightarrow> fst (own s) = s \<and> string_ok (snd (own s))"
  by (cases s) (auto simp: empty_string_def)

subsection \<open>Changing characters\<close>

lemma string_set_holds:
  assumes "string_ok s" and "i < string_size s" and "is_mutable s \<or> string_size s < 16"
  shows "holds ((string_text s)[i := c]) 0 (string_set J i c s)"
proof -
  have own: "holds ((string_text s)[i := c]) 0 (write_data i [c] s)"
    if "string_ok s" "is_mutable s" "i < string_size s" for s
    using that by (cases s)
      (auto simp: write_at_def holds_def string_text_def upd_conv_take_nth_drop nth_append min_def drop_take take_Cons')
  show ?thesis
  proof (cases s)
    case (Constant d l)
    have "holds (string_text s) 16 (move_const_to_buffer J d l)"
      using assms Constant to_buffer[of l d J] by (simp add: string_text_def)
    then show ?thesis unfolding Constant string_set.simps unfolding Constant[symmetric]
    proof (rule holds_bind)
      fix s' assume s': "string_ok s'" "is_mutable s'" "string_text s' = string_text s"
      then have "string_size s' = string_size s"
        using length_string_text[OF s'(1)] length_string_text[OF assms(1)] by simp
      then show "holds ((string_text s)[i := c]) 0 (write_data i [c] s')" using own[OF s'(1,2)] assms(2) s'(3) by simp
    qed
  qed (use own[of s] assms in auto)
qed

definition example_junk :: junk where
  "example_junk i = CHR ''?''"

lemma string_clear_holds:
  assumes "string_ok s" and "is_mutable s"
  shows "holds '''' 0 (string_clear s)"
  using assms by (cases s) (auto simp: write_at_def holds_def string_text_def)

text \<open>
  C30. A view of sixteen characters or more is not made the string's own when one of them is set:
  it is copied into the buffer of sixteen bytes all the same. Reserving less memory than the
  view has characters fails in the same way.
\<close>

theorem long_view_overflows:
  assumes "16 \<le> l" and "l \<le> length d"
  shows "string_set J i c (Constant d l) = OutOfBounds \<and> (\<forall>n \<le> l. reserve J n (Constant d l) = OutOfBounds)"
  using assms
  by (auto simp: reserve_def move_const_to_buffer_def move_data_to_heap_def read_at_def slice_def
      write_text_overflows STR_BUFF_SIZE_def)

theorem long_view_overflows_witness:
  "string_set example_junk 0 CHR ''A'' (Constant ''a view of sixteen and more'' 20) = OutOfBounds \<and>
   reserve example_junk 5 (Constant ''a view of sixteen and more'' 20) = OutOfBounds"
  using long_view_overflows[of 20 "''a view of sixteen and more''" example_junk 0 "CHR ''A''"] by simp

lemma offset_loop_fails: "0 < k \<Longrightarrow> offset_loop i k mem = OutOfBounds"
  by (induction i arbitrary: mem) auto

text \<open>
  C31. \<^verbatim>\<open>prepend\<close> never puts anything in front: without room it does nothing, and with room it moves
  the text by one place too many and reads the byte before the memory.
\<close>

theorem prepend_never_prepends:
  assumes "string_ok s"
  shows "prepend J val s =
    (if string_size s + length val < capacity s then OutOfBounds else Written s)"
proof -
  have "bind_write (mutable_data J s) (\<lambda>s. bind_write (offset_data (length val) s) (string_set_text J 0 val)) = OutOfBounds"
    using mutable_data_holds[OF assms, of J] by (auto simp: holds_def offset_data_def offset_loop_fails)
  then show ?thesis by (simp add: prepend_def)
qed

theorem prepend_never_prepends_witness:
  "prepend example_junk ''ab'' (Sso (''xyz'' @ replicate 13 CHR 0x00) 3) = OutOfBounds"
  using prepend_never_prepends[of "Sso (''xyz'' @ replicate 13 CHR 0x00) 3" example_junk "''ab''"]
  by (simp add: STR_BUFF_SIZE_def)

subsection \<open>Sequences of operations\<close>

text \<open>The rest of the interface, on strings that own their memory.\<close>

lemma write_inside:
  assumes "i + length cs \<le> l" and "l < length m"
  defines "m' \<equiv> take i m @ cs @ drop (i + length cs) m"
  shows "length m' = length m" and "m' ! l = m ! l"
    and "take l m' = take i (take l m) @ cs @ drop (i + length cs) (take l m)"
proof -
  have "take (l - i) cs = cs" "\<not> l < i" "\<not> l - i < length cs" using assms(1) by auto
  then show "length m' = length m" and "m' ! l = m ! l"
    and "take l m' = take i (take l m) @ cs @ drop (i + length cs) (take l m)"
    using assms(1,2) by (auto simp: m'_def nth_append drop_take min_def dest: le_antisym)
qed

lemma string_set_text_holds:
  assumes "string_ok s" and "is_mutable s" and "i + length cs \<le> string_size s"
  shows "holds (take i (string_text s) @ cs @ drop (i + length cs) (string_text s)) 0 (string_set_text J i cs s)"
proof (cases s)
  case (Sso b l)
  with assms show ?thesis using write_inside[of i cs l b]
    by (simp add: string_set_text_def write_at_def holds_def string_text_def)
next
  case (Heap m l)
  with assms show ?thesis using write_inside[of i cs l m]
    by (simp add: string_set_text_def write_at_def holds_def string_text_def)
qed (use assms in simp)

lemma string_of_string_holds:
  assumes "string_ok s" and "is_mutable s"
  shows "holds (string_text s) 0 (string_of_string J s)"
  using assms ensure_mut_holds[of "Constant (string_data s) (string_size s)" "string_size s + 2" J]
  by (cases s) (auto simp: string_of_string_def string_text_def)

lemma takeWhile_to_nul:
  "CHR 0x00 \<notin> set t \<Longrightarrow> takeWhile (\<lambda>c. c \<noteq> CHR 0x00) (t @ CHR 0x00 # r) = t"
  by (induction t) auto

lemma c_string_text:
  assumes "string_ok s" and "is_mutable s" and "CHR 0x00 \<notin> set (string_text s)"
  shows "c_string (string_data s) = Written (string_text s)"
proof -
  have "\<exists>r. string_data s = string_text s @ CHR 0x00 # r"
    using assms(1,2) by (cases s) (auto simp: string_text_def, (metis id_take_nth_drop)+)
  then show ?thesis using takeWhile_to_nul[OF assms(3)] by (auto simp: c_string_def)
qed

lemma string_plus_holds:
  assumes "string_ok s" and "string_size s < 2 ^ 63"
    and "string_ok other" "is_mutable other" "CHR 0x00 \<notin> set (string_text other)"
  shows "holds (string_text s @ string_text other) 0 (string_plus J s other)"
  unfolding string_plus_def c_string_text[OF assms(3-5)] bind_write.simps
  using string_append_holds by (intro holds_bind[OF string_copy_holds[OF assms(1,2)]]) metis

datatype string_op =
    Push char
  | Append_all string
  | Plus storage
  | Set_char nat char
  | Set_text nat string
  | Clear_all
  | Reserve_mem nat
  | Part nat nat
  | Copy
  | Construct
  | Own

fun run_string_op :: "junk \<Rightarrow> string_op \<Rightarrow> storage \<Rightarrow> storage write_result" where
  "run_string_op J (Push c) s = string_push J c s"
| "run_string_op J (Append_all cs) s = string_append J cs s"
| "run_string_op J (Plus other) s = string_plus J s other"
| "run_string_op J (Set_char i c) s = string_set J i c s"
| "run_string_op J (Set_text i cs) s = string_set_text J i cs s"
| "run_string_op J Clear_all s = string_clear s"
| "run_string_op J (Reserve_mem n) s = reserve J n s"
| "run_string_op J (Part a b) s = substring J a b s"
| "run_string_op J Copy s = string_copy J s"
| "run_string_op J Construct s = string_of_string J s"
| "run_string_op J Own s = Written (fst (own s))"

primrec run_string_ops :: "junk \<Rightarrow> string_op list \<Rightarrow> storage \<Rightarrow> storage write_result" where
  "run_string_ops J [] s = Written s"
| "run_string_ops J (p # ps) s = bind_write (run_string_op J p s) (run_string_ops J ps)"

fun string_op_text :: "string_op \<Rightarrow> string \<Rightarrow> string" where
  "string_op_text (Push c) t = t @ [c]"
| "string_op_text (Append_all cs) t = t @ cs"
| "string_op_text (Plus other) t = t @ string_text other"
| "string_op_text (Set_char i c) t = t[i := c]"
| "string_op_text (Set_text i cs) t = take i t @ cs @ drop (i + length cs) t"
| "string_op_text Clear_all t = ''''"
| "string_op_text (Part a b) t = slice a b t"
| "string_op_text p t = t"

text \<open>
  Positions are inside the text, and the right side of a sum owns its memory and has no NUL in
  its text (\<open>plus_takes_to_nul\<close> below is about the others).
\<close>

fun applies :: "string_op \<Rightarrow> string \<Rightarrow> bool" where
  "applies (Plus other) t \<longleftrightarrow> string_ok other \<and> is_mutable other \<and> CHR 0x00 \<notin> set (string_text other)"
| "applies (Set_char i c) t \<longleftrightarrow> i < length t"
| "applies (Set_text i cs) t \<longleftrightarrow> i + length cs \<le> length t"
| "applies (Part a b) t \<longleftrightarrow> a \<le> b \<and> b \<le> length t"
| "applies p t \<longleftrightarrow> True"

text \<open>
  Every text on the way is shorter than \<open>2 ^ 31\<close>, so that the \<^verbatim>\<open>int\<close> counters of the loops
  that copy a string to the heap do not overflow.
\<close>

definition counted :: "string \<Rightarrow> bool" where
  "counted t \<longleftrightarrow> length t < 2 ^ 31"

primrec apply_all :: "string_op list \<Rightarrow> string \<Rightarrow> bool" where
  "apply_all [] t \<longleftrightarrow> counted t"
| "apply_all (p # ps) t \<longleftrightarrow> counted t \<and> applies p t \<and> apply_all ps (string_op_text p t)"

lemma run_string_op_holds:
  assumes "string_ok s" and "is_mutable s" and "counted (string_text s)" and "applies p (string_text s)"
  shows "holds (string_op_text p (string_text s)) 0 (run_string_op J p s)"
proof -
  have small: "string_size s < 2 ^ 63" using assms(1,3) by (simp add: counted_def)
  show ?thesis
  proof (cases p)
    case (Plus other)
    then show ?thesis using assms small by (simp add: string_plus_holds)
  next
    case (Set_text i cs)
    then show ?thesis using assms by (simp add: string_set_text_holds)
  next
    case (Part a b)
    then show ?thesis using assms small by (simp add: substring_holds)
  next
    case Own
    then show ?thesis using assms own_moves by (simp add: holds_Written)
  qed (use assms small ensure_mut_holds[OF assms(1)] in \<open>auto simp: string_push_holds string_append_holds
      string_clear_holds reserve_def string_copy_holds string_of_string_holds intro!: string_set_holds\<close>)
qed

text \<open>
  C10. A string refines a list of characters once it owns its memory: appending a character or
  a text, adding a string that owns its memory and holds no NUL, setting a character or a text
  inside the string, clearing, reserving, cutting, copying and moving do to it what they do to
  the list, whether it is in the buffer or on the heap and however often it moves, and no byte
  outside its memory is read or written, as long as its texts are shorter than \<open>2 ^ 31\<close> and
  \<^verbatim>\<open>malloc\<close> grants the memory, which the code does not ask. The operation that is left out is \<^verbatim>\<open>prepend\<close>, which reads outside the memory
  (\<open>prepend_never_prepends\<close> above).
\<close>

theorem string_refines:
  assumes "string_ok s" and "is_mutable s" and "apply_all ps (string_text s)"
  shows "\<exists>s'. run_string_ops J ps s = Written s' \<and> string_ok s' \<and> is_mutable s' \<and>
    string_text s' = fold string_op_text ps (string_text s)"
  using assms
proof (induction ps arbitrary: s)
  case (Cons p ps)
  obtain s1 where s1: "run_string_op J p s = Written s1" "string_ok s1" "is_mutable s1"
    "string_text s1 = string_op_text p (string_text s)"
    using run_string_op_holds[OF Cons.prems(1,2)] Cons.prems(3) by (auto simp: holds_def)
  then show ?case using Cons.IH[OF s1(2,3)] Cons.prems(3) by simp
qed simp

definition example_string_ops :: "string_op list" where
  "example_string_ops = [Append_all ''hello, '', Append_all ''chemical world'', Set_char 0 CHR ''H'', Part 0 15,
     Set_text 7 ''CHEM'', Plus (Sso (CHR ''!'' # replicate 15 CHR 0x00) 1), Copy]"

theorem string_refines_witness:
  "\<exists>s'. run_string_ops example_junk example_string_ops (Sso (memory (\<lambda>i. CHR 0x00) 16) 0) = Written s' \<and>
     string_ok s' \<and> is_mutable s' \<and> string_text s' = ''Hello, CHEMical!''"
proof -
  let ?s = "Sso (memory (\<lambda>i. CHR 0x00) 16) 0"
  have "string_ok ?s" "is_mutable ?s" by (simp_all add: memory_def)
  moreover have "apply_all example_string_ops (string_text ?s)"
    by (simp add: example_string_ops_def counted_def string_text_def memory_def slice_def)
  moreover have "fold string_op_text example_string_ops (string_text ?s) = ''Hello, CHEMical!''" by code_simp
  ultimately show ?thesis using string_refines[of ?s example_string_ops example_junk] by simp
qed

subsection \<open>Equal strings\<close>

text \<open>Equality and hashes do not depend on where a string is.\<close>

lemma equals_text:
  assumes "string_ok s" and "string_ok t"
  shows "equals s t \<longleftrightarrow> string_text s = string_text t"
proof
  assume "string_text s = string_text t"
  moreover from this have "string_size s = string_size t"
    using length_string_text[OF assms(1)] length_string_text[OF assms(2)] by simp
  ultimately show "equals s t" by (simp add: equals_def string_text_def)
qed (auto simp: equals_def string_text_def)

lemma equal_strings_hash_alike:
  assumes "string_ok s" and "string_ok t" and "equals s t"
  shows "string_hash s = string_hash t"
proof -
  have "string_hash s = fold (\<lambda>c hash. (hash XOR scast (of_char c :: 8 word)) * 0x100000001b3) (string_text s) 0xcbf29ce484222325"
    for s by (simp add: string_hash_def string_text_def)
  then show ?thesis using assms equals_text by simp
qed

text \<open>
  C35. \<^verbatim>\<open>operator+\<close> does not look at the length of its right side: it appends what is in memory up to
  the next NUL, behind a view that is a part of a longer text, and leaves the memory when there
  is none.
\<close>

theorem plus_takes_to_nul:
  assumes "string_ok s" and "string_size s < 2 ^ 63"
  shows "if CHR 0x00 \<in> set d
    then \<exists>s'. string_plus J s (Constant d l) = Written s' \<and>
      string_text s' = string_text s @ takeWhile (\<lambda>c. c \<noteq> CHR 0x00) d
    else string_plus J s (Constant d l) = OutOfBounds"
proof -
  obtain s1 where s1: "string_copy J s = Written s1" "string_ok s1" "string_text s1 = string_text s"
    using string_copy_holds[OF assms] by (auto simp: holds_def)
  then show ?thesis
    using string_append_holds[OF s1(2)] by (auto simp: string_plus_def c_string_def holds_def)
qed

theorem plus_takes_to_nul_witness:
  "\<exists>s'. string_plus example_junk (Constant ''a'' 1) (Constant (''bcd'' @ [CHR 0x00]) 1) = Written s' \<and>
     string_text s' = ''abcd''"
  using plus_takes_to_nul[of "Constant ''a'' 1" "''bcd'' @ [CHR 0x00]" example_junk 1]
  by (simp add: string_text_def)

subsection \<open>The writer and the string as stores\<close>

text \<open>An allocator that grants what it is asked for.\<close>

definition generous :: "junk \<Rightarrow> allocator" where
  "generous J = \<lparr>grants = \<lambda>n. True, fresh = J\<rparr>"

definition writer_clear :: "buffered_writer \<Rightarrow> buffered_writer write_result" where
  "writer_clear w = Written (clear w)"

interpretation writer_store: text_store writer_ok writer_text "append_bytes (generous J)" writer_clear "2 ^ 62"
  for J
proof unfold_locales
  fix w :: buffered_writer and cs :: string
  assume w: "writer_ok w" and short: "length (writer_text w) + length cs < 2 ^ 62"
  then have "short (pos w + length cs)" using length_text by (simp add: short_def)
  then have "fulfils (generous J) (appended cs w) (append_bytes (generous J) cs w)"
    using w by (rule append_bytes_appends[rotated])
  then show "\<exists>s'. append_bytes (generous J) cs w = Written s' \<and> writer_ok s' \<and> writer_text s' = writer_text w @ cs"
    by (cases "append_bytes (generous J) cs w") (auto simp: fulfils_def appended_def generous_def)
next
  fix w :: buffered_writer
  assume "writer_ok w"
  then show "\<exists>s'. writer_clear w = Written s' \<and> writer_ok s' \<and> writer_text s' = ''''"
    by (simp add: writer_clear_def clear_def writer_ok_def writer_text_def cap_def)
qed

interpretation string_store: text_store string_ok string_text "string_append J" string_clear "2 ^ 62"
  for J
proof unfold_locales
  fix s :: storage and cs :: string
  assume "string_ok s"
  then show "\<exists>s'. string_append J cs s = Written s' \<and> string_ok s' \<and> string_text s' = string_text s @ cs"
    using string_append_holds[of s cs J] by (auto simp: holds_def)
next
  fix s :: storage
  assume s: "string_ok s"
  then show "\<exists>s'. string_clear s = Written s' \<and> string_ok s' \<and> string_text s' = ''''"
    using string_clear_holds[OF s] by (cases s) (auto simp: holds_def empty_string_def string_text_def)
qed

text \<open>
  C19. The writer and the string agree: the same texts appended and cleared in the same order leave
  the same text in a writer and in a string, however each of them moves its memory.
\<close>

theorem writer_and_string_agree:
  assumes "writer_ok w" and "string_ok s" and "writer_text w = string_text s"
    and "length (string_text s) + sum_list (map edit_size es) < 2 ^ 62"
  shows "\<exists>w' s'. edit_all (append_bytes (generous J)) writer_clear es w = Written w' \<and>
    edit_all (string_append K) string_clear es s = Written s' \<and> writer_text w' = string_text s'"
proof -
  obtain w' where "edit_all (append_bytes (generous J)) writer_clear es w = Written w'"
    "writer_text w' = fold edit_text es (writer_text w)"
    using writer_store.edits[OF assms(1), of es J] assms(3,4) by auto
  moreover obtain s' where "edit_all (string_append K) string_clear es s = Written s'"
    "string_text s' = fold edit_text es (string_text s)"
    using string_store.edits[OF assms(2,4), of K] by auto
  ultimately show ?thesis using assms(3) by auto
qed

theorem writer_and_string_agree_witness:
  "\<exists>w' s'. edit_all (append_bytes (generous example_junk)) writer_clear [Some ''one'', None, Some ''two''] (stack_writer '''') = Written w' \<and>
    edit_all (string_append example_junk) string_clear [Some ''one'', None, Some ''two''] empty_string = Written s' \<and>
    writer_text w' = string_text s'"
  by (rule writer_and_string_agree)
    (simp_all add: stack_writer_def empty_string_def writer_ok_def cap_def writer_text_def string_text_def edit_size_def)

end
