(* ===== verification/Batch_Allocator.thy ===== *)
theory Batch_Allocator
  imports Prelude
begin

text \<open>
  The allocators of the syntax tree: \<^verbatim>\<open>ast/base/BatchAllocator.h\<close> and \<^verbatim>\<open>ast/base/ASTAllocator.cpp\<close>. A
  block is its size; a pointer is the number of a block and an offset into it. The memory of a block
  is aligned for every type that is allocated. \<open>None\<close> stands for what C++ leaves undefined. The mutex
  is left out.
\<close>

type_synonym pointer = "nat \<times> u64"

record batch_allocator =
  heap_memory :: "u64 list"
  heap_batch_size :: u64
  heap_offset :: u64

definition reserve_heap_storage :: "batch_allocator \<Rightarrow> batch_allocator" where
  "reserve_heap_storage A = A\<lparr>heap_memory := heap_memory A @ [heap_batch_size A], heap_offset := 0\<rparr>"

definition new_batch_allocator :: "u64 \<Rightarrow> batch_allocator" where
  "new_batch_allocator heapBatchSize =
     (let A = \<lparr>heap_memory = [], heap_batch_size = heapBatchSize, heap_offset = heapBatchSize\<rparr> in
      if heapBatchSize > 0 then reserve_heap_storage A else A)"

definition align_up :: "u64 \<Rightarrow> u64 \<Rightarrow> u64" where
  "align_up offset alignment = (offset + alignment - 1) AND NOT (alignment - 1)"

definition is_power_of_two :: "u64 \<Rightarrow> bool" where
  "is_power_of_two x \<longleftrightarrow> x AND (x - 1) = 0"

definition object_heap_pointer ::
  "u64 \<Rightarrow> u64 \<Rightarrow> batch_allocator \<Rightarrow> (pointer \<times> batch_allocator) option" where
  "object_heap_pointer obj_size alignment A =
     (let aligned_heap_offset = align_up (heap_offset A) alignment in
      if aligned_heap_offset + obj_size \<le> heap_batch_size A then
        if heap_memory A = [] then None
        else Some ((length (heap_memory A) - 1, aligned_heap_offset), A\<lparr>heap_offset := aligned_heap_offset + obj_size\<rparr>)
      else
        let A = (if obj_size > heap_batch_size A then A\<lparr>heap_batch_size := obj_size\<rparr> else A);
            A = reserve_heap_storage A;
            aligned_heap_offset = align_up 0 alignment
        in Some ((length (heap_memory A) - 1, aligned_heap_offset), A\<lparr>heap_offset := aligned_heap_offset + obj_size\<rparr>))"

definition allocate_released_size :: "u64 \<Rightarrow> u64 \<Rightarrow> batch_allocator \<Rightarrow> (pointer \<times> batch_allocator) option" where
  "allocate_released_size obj_size alignment A = object_heap_pointer obj_size alignment A"

text \<open>A text and its NUL: the pointer and the bytes written to it.\<close>

definition allocate_str :: "string \<Rightarrow> batch_allocator \<Rightarrow> (pointer \<times> string \<times> batch_allocator) option" where
  "allocate_str data A =
     map_option (\<lambda>(p, A). (p, data @ [CHR 0x00], A))
       (allocate_released_size (of_nat (length data + 1)) 1 A)"

text \<open>Moving an allocator: the new one and what is left of the old one.\<close>

definition move_batch_allocator :: "batch_allocator \<Rightarrow> batch_allocator \<times> batch_allocator" where
  "move_batch_allocator other = (other, other\<lparr>heap_memory := [], heap_offset := 0\<rparr>)"

subsection \<open>The allocator of the tree\<close>

text \<open>Objects to destruct, objects with a function that cleans them up, and what has been called.\<close>

datatype 'f destruction = Destructed pointer | Cleaned_up 'f pointer

record 'f ast_allocator =
  batch :: batch_allocator
  ptr_storage :: "pointer list"
  cleanup_fns :: "(pointer \<times> 'f) list"

definition allocate_size :: "u64 \<Rightarrow> u64 \<Rightarrow> 'f ast_allocator \<Rightarrow> (pointer \<times> 'f ast_allocator) option" where
  "allocate_size obj_size alignment A =
     map_option (\<lambda>(ptr, B). (ptr, A\<lparr>batch := B, ptr_storage := ptr_storage A @ [ptr]\<rparr>))
       (object_heap_pointer obj_size alignment (batch A))"

definition allocate_with_cleanup ::
  "u64 \<Rightarrow> u64 \<Rightarrow> 'f \<Rightarrow> 'f ast_allocator \<Rightarrow> (pointer \<times> 'f ast_allocator) option" where
  "allocate_with_cleanup obj_size alignment cleanup_fn A =
     map_option (\<lambda>(ptr, B). (ptr, A\<lparr>batch := B, cleanup_fns := cleanup_fns A @ [(ptr, cleanup_fn)]\<rparr>))
       (object_heap_pointer obj_size alignment (batch A))"

definition destruct_ptr_storage :: "'f ast_allocator \<Rightarrow> 'f destruction list \<times> 'f ast_allocator" where
  "destruct_ptr_storage A = (map Destructed (ptr_storage A), A\<lparr>ptr_storage := []\<rparr>)"

definition destruct_cleanup_storage :: "'f ast_allocator \<Rightarrow> 'f destruction list \<times> 'f ast_allocator" where
  "destruct_cleanup_storage A = (map (\<lambda>(p, f). Cleaned_up f p) (cleanup_fns A), A\<lparr>cleanup_fns := []\<rparr>)"

definition clear_memory :: "batch_allocator \<Rightarrow> batch_allocator" where
  "clear_memory A =
     (if heap_memory A = [] then A\<lparr>heap_offset := heap_batch_size A\<rparr>
      else A\<lparr>heap_memory := take 1 (heap_memory A), heap_offset := 0\<rparr>)"

definition clear_allocator :: "'f ast_allocator \<Rightarrow> 'f destruction list \<times> 'f ast_allocator" where
  "clear_allocator A =
     (let (ds, A) = destruct_ptr_storage A; (es, A) = destruct_cleanup_storage A
      in (ds @ es, A\<lparr>batch := clear_memory (batch A)\<rparr>))"

definition destroy_allocator :: "'f ast_allocator \<Rightarrow> 'f destruction list" where
  "destroy_allocator A =
     (let (es, A) = destruct_cleanup_storage A; (ds, A) = destruct_ptr_storage A in es @ ds)"

subsection \<open>Alignment\<close>

lemma unat_power_two: "k < 64 \<Longrightarrow> unat ((2 :: u64) ^ k) = 2 ^ k"
proof -
  assume k: "k < 64"
  have "(2 :: nat) ^ k < 2 ^ 64" using k by (intro power_strict_increasing) auto
  then have "unat (of_nat (2 ^ k) :: u64) = 2 ^ k" by (simp only: unsigned_of_nat) (simp add: take_bit_nat_eq_self k)
  then show ?thesis by simp
qed

lemma align_up_unat:
  assumes "alignment = 2 ^ k" and "k < 63" and "unat offset < 2 ^ 63"
  shows "unat (align_up offset alignment) = (unat offset + 2 ^ k - 1) div 2 ^ k * 2 ^ k"
proof -
  define y where "y = offset + alignment - 1"
  have two: "(2 :: nat) ^ k < 2 ^ 63" using assms(2) by (intro power_strict_increasing) auto
  have al: "unat alignment = 2 ^ k" using assms(1,2) by (simp add: unat_power_two)
  have "unat (offset + alignment) = unat offset + 2 ^ k"
    using assms(3) two al by (simp add: unat_word_ariths)
  moreover have "(1 :: u64) \<le> offset + alignment"
  proof -
    have "1 \<le> unat offset + 2 ^ k" by (rule trans_le_add2) simp
    then show ?thesis using calculation by (simp add: word_le_nat_alt)
  qed
  ultimately have y: "unat y = unat offset + 2 ^ k - 1" by (simp add: y_def unat_sub)
  have "(y AND NOT (mask k)) + take_bit k y = y"
  proof -
    have "y AND NOT (mask k) = push_bit k (drop_bit k y)"
      by (rule bit_word_eqI) (auto simp: bit_simps)
    then show ?thesis by (simp only: bits_ident)
  qed
  then have "y AND NOT (mask k) = y - take_bit k y" by (metis add_diff_cancel_right')
  moreover have rest: "unat (take_bit k y) = unat y mod 2 ^ k"
    unfolding unsigned_take_bit_eq by (rule take_bit_eq_mod)
  moreover have "take_bit k y \<le> y" unfolding word_le_nat_alt rest by simp
  ultimately have "unat (y AND NOT (mask k)) = unat y - unat y mod 2 ^ k" by (simp add: unat_sub)
  moreover have "align_up offset alignment = y AND NOT (mask k)"
    by (simp add: align_up_def y_def assms(1) mask_eq_exp_minus_1)
  ultimately show ?thesis using y by (simp add: minus_mod_eq_div_mult)
qed

subsection \<open>Allocations\<close>

text \<open>
  An allocator with a block to allocate from, which is the last and as large as the batch size says.
\<close>

definition alloc_ok :: "batch_allocator \<Rightarrow> bool" where
  "alloc_ok A \<longleftrightarrow> heap_memory A \<noteq> [] \<and> last (heap_memory A) = heap_batch_size A \<and>
     heap_offset A \<le> heap_batch_size A \<and> unat (heap_batch_size A) < 2 ^ 62"

text \<open>A request: a size and an alignment, one that the memory of a block has.\<close>

type_synonym request = "u64 \<times> u64"

definition request_ok :: "request \<Rightarrow> bool" where
  "request_ok r \<longleftrightarrow> unat (fst r) < 2 ^ 62 \<and> snd r \<in> set [1, 2, 4, 8, 16]"

type_synonym region = "pointer \<times> u64"

definition inside :: "batch_allocator \<Rightarrow> region \<Rightarrow> bool" where
  "inside A r = (case r of ((b, offset), n) \<Rightarrow>
     b < length (heap_memory A) \<and> unat offset + unat n \<le> unat (heap_memory A ! b))"

definition apart :: "region \<Rightarrow> region \<Rightarrow> bool" where
  "apart r q = (case r of ((b, offset), n) \<Rightarrow> case q of ((c, offset'), m) \<Rightarrow>
     b < c \<or> b = c \<and> unat offset + unat n \<le> unat offset')"

definition beyond :: "batch_allocator \<Rightarrow> region \<Rightarrow> bool" where
  "beyond A r = (case r of ((b, offset), n) \<Rightarrow>
     length (heap_memory A) \<le> b \<or> Suc b = length (heap_memory A) \<and> unat (heap_offset A) \<le> unat offset)"

lemma request_alignment:
  assumes "request_ok (n, a)"
  obtains k where "a = 2 ^ k" and "k \<le> 4"
proof -
  have "a = 2 ^ 0 \<or> a = 2 ^ 1 \<or> a = 2 ^ 2 \<or> a = 2 ^ 3 \<or> a = 2 ^ 4" using assms by (auto simp: request_ok_def)
  then show ?thesis using that by (elim disjE) (erule that, simp)+
qed

lemma align_up_bounds:
  assumes "request_ok (n, a)" and "unat offset < 2 ^ 62"
  shows "unat offset \<le> unat (align_up offset a)" and "unat (align_up offset a) < unat offset + 16"
    and "unat (align_up offset a) mod unat a = 0" and "align_up 0 a = 0"
proof -
  obtain k where k: "a = 2 ^ k" "k \<le> 4" using request_alignment[OF assms(1)] .
  have "(2 :: nat) ^ k \<le> 2 ^ 4" using k(2) by (intro power_increasing) auto
  then have small: "(2 :: nat) ^ k \<le> 16" by simp
  have up: "unat (align_up x a) = (unat x + 2 ^ k - 1) div 2 ^ k * 2 ^ k" if "unat x < 2 ^ 62" for x
    using align_up_unat[OF k(1), of x] k(2) that by simp
  have "(unat offset + 2 ^ k - 1) div 2 ^ k * 2 ^ k + (unat offset + 2 ^ k - 1) mod 2 ^ k = unat offset + 2 ^ k - 1"
    by (rule div_mult_mod_eq)
  moreover have "(unat offset + 2 ^ k - 1) mod 2 ^ k < 2 ^ k" by simp
  ultimately show "unat offset \<le> unat (align_up offset a)" "unat (align_up offset a) < unat offset + 16"
    unfolding up[OF assms(2)] using small by linarith+
  have "unat a = 2 ^ k" using k by (simp add: unat_power_two)
  then show "unat (align_up offset a) mod unat a = 0" unfolding up[OF assms(2)] by simp
  have "unat (align_up 0 a) = 0" using up[of 0] by simp
  then show "align_up 0 a = 0" by (simp add: unsigned_eq_0_iff)
qed

lemma allocation_step:
  assumes "alloc_ok A" and "request_ok (n, a)"
  shows "\<exists>p A' xs. object_heap_pointer n a A = Some (p, A') \<and> alloc_ok A' \<and>
    heap_memory A' = heap_memory A @ xs \<and> inside A' (p, n) \<and> beyond A (p, n) \<and>
    Suc (fst p) = length (heap_memory A') \<and> unat (heap_offset A') = unat (snd p) + unat n \<and>
    unat (snd p) mod unat a = 0"
proof -
  let ?o = "align_up (heap_offset A) a"
  have A: "heap_memory A \<noteq> []" "last (heap_memory A) = heap_batch_size A"
    "unat (heap_offset A) \<le> unat (heap_batch_size A)" "unat (heap_batch_size A) < 2 ^ 62"
    using assms(1) by (auto simp: alloc_ok_def word_le_nat_alt)
  have n: "unat n < 2 ^ 62" using assms(2) by (simp add: request_ok_def)
  have off: "unat (heap_offset A) < 2 ^ 62" using A by linarith
  note up = align_up_bounds[OF assms(2) off]
  have sum: "unat (?o + n) = unat ?o + unat n" using up(2) n off by (simp add: unat_word_ariths)
  show ?thesis
  proof (cases "?o + n \<le> heap_batch_size A")
    case True
    have last: "heap_memory A ! (length (heap_memory A) - 1) = heap_batch_size A"
      using A(1,2) by (simp add: last_conv_nth)
    have "unat ?o + unat n \<le> unat (heap_batch_size A)" using True sum by (simp add: word_le_nat_alt)
    then show ?thesis
      using A True up sum last
      by (auto simp: object_heap_pointer_def Let_def alloc_ok_def inside_def beyond_def)
  next
    case False
    then show ?thesis
      using A up(4) n
      by (auto simp: object_heap_pointer_def Let_def alloc_ok_def inside_def beyond_def reserve_heap_storage_def
          nth_append word_less_nat_alt word_le_nat_alt not_le not_less)
  qed
qed

fun allocate_all :: "request list \<Rightarrow> batch_allocator \<Rightarrow> (region list \<times> batch_allocator) option" where
  "allocate_all [] A = Some ([], A)"
| "allocate_all ((n, a) # rs) A =
     (case object_heap_pointer n a A of
        None \<Rightarrow> None
      | Some (p, A) \<Rightarrow> map_option (\<lambda>(qs, A). ((p, n) # qs, A)) (allocate_all rs A))"

text \<open>The regions are of the sizes that were asked for, at offsets with the alignments.\<close>

definition serves :: "region \<Rightarrow> request \<Rightarrow> bool" where
  "serves r q \<longleftrightarrow> snd r = fst q \<and> unat (snd (fst r)) mod unat (snd q) = 0"

lemma inside_more: "inside A r \<Longrightarrow> heap_memory B = heap_memory A @ xs \<Longrightarrow> inside B r"
  by (auto simp: inside_def nth_append split: prod.splits)

lemma beyond_apart:
  assumes "Suc (fst p) = length (heap_memory A)" and "unat (heap_offset A) = unat (snd p) + unat n" and "beyond A q"
  shows "apart (p, n) q"
  using assms by (auto simp: beyond_def apart_def split: prod.splits)

lemma beyond_mono:
  assumes "beyond A q" and "heap_memory A = heap_memory B @ xs"
    and "xs = [] \<Longrightarrow> heap_offset B \<le> heap_offset A"
  shows "beyond B q"
  using assms by (cases xs) (auto simp: beyond_def word_le_nat_alt split: prod.splits)

lemma allocations:
  "alloc_ok A \<Longrightarrow> list_all request_ok rs \<Longrightarrow>
   \<exists>qs A' xs. allocate_all rs A = Some (qs, A') \<and> alloc_ok A' \<and> heap_memory A' = heap_memory A @ xs \<and>
     list_all2 serves qs rs \<and> list_all (inside A') qs \<and> list_all (beyond A) qs \<and> sorted_wrt apart qs"
proof (induction rs arbitrary: A)
  case (Cons r rs)
  obtain n a where r: "r = (n, a)" by (cases r)
  obtain p A1 xs where step: "object_heap_pointer n a A = Some (p, A1)" "alloc_ok A1"
    "heap_memory A1 = heap_memory A @ xs" "inside A1 (p, n)" "beyond A (p, n)"
    "Suc (fst p) = length (heap_memory A1)" "unat (heap_offset A1) = unat (snd p) + unat n"
    "unat (snd p) mod unat a = 0"
    using allocation_step[OF Cons.prems(1), of n a] Cons.prems(2) r by auto
  obtain qs A2 ys where rest: "allocate_all rs A1 = Some (qs, A2)" "alloc_ok A2"
    "heap_memory A2 = heap_memory A1 @ ys" "list_all2 serves qs rs" "list_all (inside A2) qs"
    "list_all (beyond A1) qs" "sorted_wrt apart qs"
    using Cons.IH[OF step(2)] Cons.prems(2) by auto
  have "heap_offset A \<le> heap_offset A1" if "xs = []"
    using that step(3,5,6,7) by (auto simp: beyond_def word_le_nat_alt split: prod.splits)
  then have "list_all (beyond A) qs" using rest(6) beyond_mono[OF _ step(3)] by (auto simp: list_all_iff)
  moreover have "list_all (apart (p, n)) qs"
    using rest(6) beyond_apart[OF step(6,7)] by (auto simp: list_all_iff)
  moreover have "serves (p, n) r" using step(8) r by (simp add: serves_def)
  ultimately show ?case
    using step rest inside_more[OF step(4) rest(3)] r by (simp add: list_all_iff)
qed simp

text \<open>
  C11. Memory that is allocated is not allocated again: the regions of any sequence of requests lie
  in the blocks of the allocator, none overlaps another, each has the size and the alignment that
  was asked for, and the allocator is as good after them as before, however many blocks it took and
  however large the objects are.
\<close>

theorem allocations_apart:
  assumes "alloc_ok A" and "list_all request_ok rs"
  shows "\<exists>qs A'. allocate_all rs A = Some (qs, A') \<and> alloc_ok A' \<and> list_all2 serves qs rs \<and>
    list_all (inside A') qs \<and> sorted_wrt apart qs"
  using allocations[OF assms] by blast

definition example_requests :: "request list" where
  "example_requests = [(24, 8), (3, 1), (40, 16), (2000, 8), (8, 8)]"

theorem allocations_apart_witness:
  "\<exists>qs A'. allocate_all example_requests (new_batch_allocator 100) = Some (qs, A') \<and> alloc_ok A' \<and>
    list_all2 serves qs example_requests \<and> list_all (inside A') qs \<and> sorted_wrt apart qs"
  by (rule allocations_apart)
    (simp_all add: new_batch_allocator_def reserve_heap_storage_def alloc_ok_def example_requests_def request_ok_def)

lemma new_allocator_ok: "0 < n \<Longrightarrow> unat n < 2 ^ 62 \<Longrightarrow> alloc_ok (new_batch_allocator n)"
  by (simp add: new_batch_allocator_def reserve_heap_storage_def alloc_ok_def)

subsection \<open>Clearing and moving\<close>

text \<open>Clearing is fine as long as the first block has the size of a batch.\<close>

lemma cleared_ok: "alloc_ok A \<Longrightarrow> hd (heap_memory A) = heap_batch_size A \<Longrightarrow> alloc_ok (clear_memory A)"
  by (cases "heap_memory A") (auto simp: alloc_ok_def clear_memory_def)

text \<open>
  C32. An object larger than a batch makes the batches larger for good, and clearing keeps the first
  block, which is smaller: the next such object is placed in the first block and goes past its end.
\<close>

theorem cleared_block_overrun:
  assumes "alloc_ok A" and "heap_memory A = [b]" and "request_ok (n, a)" and "b < n"
  shows "\<exists>p A1 q A2. object_heap_pointer n a A = Some (p, A1) \<and>
    object_heap_pointer n a (clear_memory A1) = Some (q, A2) \<and> \<not> inside A2 (q, n)"
proof -
  have A: "heap_batch_size A = b" "unat (heap_offset A) < 2 ^ 62"
    using assms(1,2) by (auto simp: alloc_ok_def word_le_nat_alt)
  have up: "align_up 0 a = 0" using align_up_bounds(4)[OF assms(3) A(2)] .
  let ?o = "align_up (heap_offset A) a"
  have n: "unat n < 2 ^ 62" using assms(3) by (simp add: request_ok_def)
  have "unat (?o + n) = unat ?o + unat n"
    using align_up_bounds(2)[OF assms(3) A(2)] A(2) n by (simp add: unat_word_ariths)
  then have "\<not> ?o + n \<le> b" using assms(4) by (simp add: word_le_nat_alt word_less_nat_alt)
  then have first: "object_heap_pointer n a A =
      Some ((1, 0), \<lparr>heap_memory = [b, n], heap_batch_size = n, heap_offset = n\<rparr>)"
    using assms(2,4) A(1) by (cases A) (simp add: object_heap_pointer_def Let_def reserve_heap_storage_def up)
  have "object_heap_pointer n a (clear_memory \<lparr>heap_memory = [b, n], heap_batch_size = n, heap_offset = n\<rparr>) =
      Some ((0, 0), \<lparr>heap_memory = [b], heap_batch_size = n, heap_offset = n\<rparr>)"
    by (simp add: object_heap_pointer_def clear_memory_def Let_def up)
  moreover have "\<not> inside \<lparr>heap_memory = [b], heap_batch_size = n, heap_offset = n\<rparr> ((0, 0), n)"
    using assms(4) by (simp add: inside_def word_less_nat_alt)
  ultimately show ?thesis using first by blast
qed

theorem cleared_block_overrun_witness:
  "\<exists>p A1 q A2. object_heap_pointer 2000 8 (new_batch_allocator 100) = Some (p, A1) \<and>
    object_heap_pointer 2000 8 (clear_memory A1) = Some (q, A2) \<and> \<not> inside A2 (q, 2000)"
  by (rule cleared_block_overrun[where b = 100])
    (simp_all add: new_batch_allocator_def reserve_heap_storage_def alloc_ok_def request_ok_def)

lemma moved_from_has_no_block:
  assumes "request_ok (n, a)" and "n \<le> heap_batch_size A"
  shows "object_heap_pointer n a (snd (move_batch_allocator A)) = None"
  using assms(2) align_up_bounds(4)[OF assms(1), of 0]
  by (simp add: object_heap_pointer_def move_batch_allocator_def Let_def)

text \<open>Everything that was stored is destructed once, in the order it was stored, and then forgotten.\<close>

lemma clear_destructs:
  "fst (clear_allocator A) = map Destructed (ptr_storage A) @ map (\<lambda>(p, f). Cleaned_up f p) (cleanup_fns A)"
  "fst (clear_allocator (snd (clear_allocator A))) = []"
  by (simp_all add: clear_allocator_def destruct_ptr_storage_def destruct_cleanup_storage_def)

lemma destructor_destructs:
  "destroy_allocator A = map (\<lambda>(p, f). Cleaned_up f p) (cleanup_fns A) @ map Destructed (ptr_storage A)"
  by (simp add: destroy_allocator_def destruct_ptr_storage_def destruct_cleanup_storage_def)

end
