(* ===== verification/Spec2Isabelle.thy ===== *)
theory Spec2Isabelle
  imports Locations Lexer_Correct Escapes Shunting_Yard Symbol_Table_Correct Num_Parse_Correct Interpret_Correct Cmd_Correct Import_Graph_Correct Layout_Correct Symbol_Resolver_Correct Instantiations_Correct Type_Syntax Name_Mangler_Correct Chem_String_Correct Batch_Allocator
begin

text \<open>
  A verification development for the Chemical compiler.

  \<^bold>\<open>The program.\<close> The compiler reads a job (a \<^verbatim>\<open>build.lab\<close> file or a module), orders the files
  it imports (\<^verbatim>\<open>compiler/lab\<close>), turns each file into tokens (\<^verbatim>\<open>stream\<close>, \<^verbatim>\<open>lexer\<close>, \<^verbatim>\<open>core/source\<close>)
  and the tokens into a syntax tree (\<^verbatim>\<open>parser\<close>), declares the symbols of the files of a module and
  links names to them (\<^verbatim>\<open>compiler/symres\<close>), evaluates what the program asks for at compile time
  (\<^verbatim>\<open>ast\<close>, \<^verbatim>\<open>compiler/Interpreter\<close>), and hands the tree to a backend that writes C or calls LLVM.
  The front half and the compile-time evaluation are modelled; of the backends, the buffer they
  write to and the names they give are.

  \<^bold>\<open>The theories.\<close> A component has a theory with its state (records and datatypes with the names
  of the code) and its operations (one definition per function), and a theory with the suffix
  \<open>_Correct\<close> with its lemmas and properties; small components have one theory for both.

  \<^item> \<open>Prelude\<close>: machine integers, masks, slices and the shared rewrite rules.
  \<^item> \<open>Locations\<close> (\<^verbatim>\<open>core/source/LocationManager\<close>): locations packed into 64 bits or kept in a side
    table; what was added is what is read back.
  \<^item> \<open>Token_Kinds\<close>, \<open>Source_Provider\<close>, \<open>Unicode_Class\<close>, \<open>Lexer_Readers\<close>, \<open>Lexer\<close>, \<open>Lexer_Correct\<close>
    (\<^verbatim>\<open>lexer\<close>, \<^verbatim>\<open>stream/SourceProvider.h\<close>): the tokenizer, a provider that moves over a buffer and a
    switch over the next code point. Every reader is a sequence of moves (\<open>reads\<close>), from which the
    line numbers, the progress of every token and the end of the token list follow; what is skipped
    before a token is stated on the text alone (\<open>skip_blanks\<close>).
  \<^item> \<open>Escapes\<close> (\<^verbatim>\<open>utils/StringHelpers.cpp\<close>): escape sequences of literals and UTF-8, both ways.
  \<^item> \<open>Num_Parse\<close>, \<open>Num_Parse_Correct\<close> (\<^verbatim>\<open>parser/utils\<close>): number literals, suffixes and ranges.
  \<^item> \<open>Operations\<close>, \<open>Shunting_Yard\<close> (\<^verbatim>\<open>ast/utils/Operation\<close>, \<^verbatim>\<open>parser/utils/Expression.cpp\<close>):
    precedence, and the two stacks that turn operands and operators into a tree.
  \<^item> \<open>Type_Parser\<close>, \<open>Type_Parser_Correct\<close>, \<open>Type_Printer\<close>, \<open>Type_Syntax\<close>
    (\<^verbatim>\<open>parser/statements/LexType.cpp\<close>, \<^verbatim>\<open>parser/structures/Function.cpp\<close>): types from tokens, with
    lists of parameters. The printer writes types as tokens and states what the parser of types
    needs of the parser of expressions (a locale); \<open>Type_Syntax\<close> interprets it on \<open>Shunting_Yard\<close>
    and has the round trip, the grouping of type expressions and what a \<^verbatim>\<open>>>\<close> closes.
  \<^item> \<open>Scoped_Env\<close>: the interface of a table of names with nested scopes (a locale), its laws over
    what each open scope shows, and static scoping for whole programs of declarations. It is
    interpreted on \<open>Symbol_Table\<close> (\<^verbatim>\<open>SymbolTable.h\<close>, in \<open>Symbol_Table_Correct\<close>), on the scopes of the
    interpreter (\<^verbatim>\<open>InterpretScope\<close>, \<open>Interpret_Scope\<close>) and on \<open>Symbol_Resolver\<close>
    (\<^verbatim>\<open>SymbolResolver.cpp\<close>, \<^verbatim>\<open>DeclareTopLevel.cpp\<close>, in \<open>Symbol_Resolver_Correct\<close>).
  \<^item> \<open>Int_Kinds\<close>, \<open>Comptime_Eval\<close>, \<open>Comptime_Correct\<close> (\<^verbatim>\<open>ast/types/IntNType\<close>,
    \<^verbatim>\<open>ast/base/InterpretScope.cpp\<close>): integer types and the operators on compile-time values, with the
    numbers they compute (in 64 bits, of the 128-bit kinds too) and where C++ leaves them undefined.
  \<^item> \<open>Interpret_Core\<close>, \<open>Interpret_Run\<close>, \<open>Interpret_Correct\<close> (\<^verbatim>\<open>compiler/Interpreter/Core.cpp\<close>,
    \<^verbatim>\<open>FunctionDecl.cpp\<close>): the statements of the interpreter over the scopes of \<open>Interpret_Scope\<close> and
    the operators of \<open>Comptime_Eval\<close>. \<open>Interpret_Run\<close> is the abstract specification, in which a
    statement completes, breaks, continues or returns; the interpreter's flags implement it.
  \<^item> \<open>Layout\<close>, \<open>Layout_Correct\<close> (\<^verbatim>\<open>byte_size\<close>, \<^verbatim>\<open>type_alignment\<close>, \<^verbatim>\<open>OffsetOfValue.cpp\<close>): sizes,
    alignments and member offsets of types.
  \<^item> \<open>Type_Rules\<close>, \<open>Type_Rules_Correct\<close> (\<^verbatim>\<open>is_same\<close>, \<^verbatim>\<open>satisfies\<close>, \<^verbatim>\<open>canonical\<close> and \<^verbatim>\<open>extends_node\<close>
    of the classes under \<^verbatim>\<open>ast/types\<close>): when a type accepts another. Plain types accept themselves,
    wrapper types included and aliases of those not,
    structs the structs that inherit them, and pointers keep mutability and integer kinds.
  \<^item> \<open>Instantiations\<close>, \<open>Instantiations_Correct\<close> (\<^verbatim>\<open>compiler/generics/InstantiationsContainer.h\<close>,
    \<^verbatim>\<open>ast/utils/ASTUtils.cpp\<close>): the instances of generic declarations by declaration and by file, two
    tables of positions into each other, as a multiset of instances per declaration; and the search
    for an instance with the same arguments, by \<open>is_same\<close>.
  \<^item> \<open>Post_Order\<close>: the interface of a depth-first traversal that puts dependencies first (a locale),
    interpreted on the files and on the modules of \<open>Import_Graph\<close>
    (\<^verbatim>\<open>compiler/lab/LabBuildCompiler.cpp\<close>, in \<open>Import_Graph_Correct\<close>).
  \<^item> \<open>Buffered_Writer\<close>, \<open>Buffered_Writer_Correct\<close> (\<^verbatim>\<open>preprocess/2c/BufferedWriter.h\<close>): the memory that
    generated text is written to, which grows and in which ranges are moved. It refines a plain
    string; its memory is left only when memory for a long range that moves is refused, which the
    code does not check. Integers are read back as they were.
  \<^item> \<open>Chem_String\<close>, \<open>Chem_String_Correct\<close> (\<^verbatim>\<open>std/chem_string.h\<close>): the string with its three states. It
    refines a list of characters once it owns its memory; what fails on views is shown.
    \<open>Text_Store\<close> is the interface it shares with the writer (a locale, interpreted on both).
  \<^item> \<open>Batch_Allocator\<close> (\<^verbatim>\<open>ast/base/ASTAllocator.cpp\<close>): the memory of the syntax tree. Regions do not
    overlap; clearing after a large object breaks that.
  \<^item> \<open>Name_Mangler\<close>, \<open>Name_Mangler_Correct\<close> (\<^verbatim>\<open>compiler/mangler\<close>): the names of generated functions
    and types, as operations of the writer; implementations against interfaces, siblings, and where
    names meet.
  \<^item> \<open>Cmd_Options\<close>, \<open>Cmd_Correct\<close> (\<^verbatim>\<open>utils/CmdUtils.h\<close>): command-line options. What a line means is
    stated apart from the parser: the values each option is given and the arguments collected.

  \<^bold>\<open>State and errors.\<close> An object is a record and a method a function to the record after it, with
  the result beside it. A null pointer is \<open>None\<close>, a printed error an entry in the record's list of
  messages. C++ behaviour that is undefined is an outcome of its own, or \<open>None\<close>, and never a value.

  \<^bold>\<open>Recursion.\<close> Loops over text and trees recurse with a measure, so they end by definition. The
  traversals of the import graph and the loops of the interpreter need not end: they are partial
  functions whose result is \<open>None\<close> then, and where a property says that they return it says
  \<open>Some\<close>. The parser of types has fuel, a unit for each nested type and each round of a loop, and
  one more than there are tokens; \<open>type_parser_returns\<close> shows that this is enough.

  \<^bold>\<open>Assumptions.\<close> \<^verbatim>\<open>size_t\<close> and \<^verbatim>\<open>long\<close> have 64 bits and \<^verbatim>\<open>char\<close> is signed, as on the hosts the
  build supports. The lexer's compile-time hooks, the operands of an expression and the
  conversions to and from floating point are parameters, and so is what the allocator grants. Vectors have fewer than $2^{32}$ entries. Mutexes and the checks of debug
  builds are left out.

  \<^bold>\<open>Not modelled.\<close> The parser of statements, declarations and operands, and the classes of the tree, which the components see
  through the data types they need; import statements, embedded nodes and conditions in the symbol
  resolver, and the passes that link signatures and bodies; structs, arrays, pointers, floating
  point, destructors and calls inside expressions in the interpreter; the copies of generic
  declarations and the statements of type verification; the backends, the C importer and the embedded Clang and LLVM tools, whose code is
  in libraries that are not part of the repository; processes, files and the language server; the
  libraries written in the language itself.
\<close>

text \<open>
  C7. The three tables of names agree: after the same declarations and nested blocks, a name
  means the same in the symbol table, in the scopes of the compile-time interpreter and in the
  symbol resolver.
\<close>

theorem name_tables_agree:
  "resolve name (run_decls declare_symbol (scope_start kind) leave_scope ds new_symbol_table) =
     find_value name (run_decls (\<lambda>k n. declare_value k (Some n)) (\<lambda>s. new_scope (Some s)) leave_values ds
       (new_scope None)) \<and>
   find_node name (run_decls declare_new start_scope end_scope ds new_resolver) =
     resolve name (run_decls declare_symbol (scope_start kind) leave_scope ds new_symbol_table)"
  by (simp add: symtab.lookup_run intscope.lookup_run resolver.lookup_run)

end
